(* ===== verification/Prelude.thy ===== *)
theory Prelude
  imports Main "HOL-Library.Word" "HOL-Library.List_Lexorder" "HOL-Library.Char_ord"
    "HOL-Library.Product_Lexorder" "HOL-Library.Multiset" "HOL-Library.Sublist"
begin

text \<open>
  Shared vocabulary of the development.

  \<^item> The Rust standard containers the program iterates in key order:
    \<open>BTreeMap\<close> as an association list with strictly increasing keys and
    \<open>BTreeSet\<close> as a strictly increasing list. The interface the clients rely on is
    the locale \<open>ordered_map\<close>, interpreted on that representation.
  \<^item> A Rust \<open>String\<close> is its sequence of UTF-8 bytes, a HOL \<open>string\<close>; its
    derived order is the bytewise lexicographic one (\<open>List_Lexorder\<close> over
    \<open>Char_ord\<close>). Every delimiter the program scans for is an ASCII byte, which no
    multi-byte UTF-8 sequence contains, so scanning bytes and scanning characters agree.
  \<^item> \<open>u32\<close> and \<open>u64\<close> with Rust's saturating operations.
  \<^item> String helpers of \<open>std\<close>: split, join, trim, prefix tests, decimal printing.
\<close>

named_theorems btree_simps \<open>lookup and key-set equations of ordered maps and sets\<close>
named_theorems btree_wf \<open>operations keep the key order\<close>

type_synonym ('e, 'a) result = "'e + 'a"
type_synonym u32 = "32 word"
type_synonym u64 = "64 word"

section \<open>Results\<close>

definition bind_result :: "('e, 'a) result \<Rightarrow> ('a \<Rightarrow> ('e, 'b) result) \<Rightarrow> ('e, 'b) result" where
  "bind_result r f = (case r of Inl e \<Rightarrow> Inl e | Inr x \<Rightarrow> f x)"

lemma bind_result_simps [simp]:
  "bind_result (Inl e) f = Inl e"
  "bind_result (Inr x) f = f x"
  by (simp_all add: bind_result_def)

lemma bind_result_Inr_iff: "bind_result r f = Inr y \<longleftrightarrow> (\<exists>x. r = Inr x \<and> f x = Inr y)"
  by (cases r) auto

lemma bind_result_Inl_iff:
  "bind_result r f = Inl e \<longleftrightarrow> r = Inl e \<or> (\<exists>x. r = Inr x \<and> f x = Inl e)"
  by (cases r) auto

definition is_ok :: "('e, 'a) result \<Rightarrow> bool" where
  "is_ok r = (case r of Inl _ \<Rightarrow> False | Inr _ \<Rightarrow> True)"

lemma is_ok_simps [simp]: "is_ok (Inr x)" "\<not> is_ok (Inl e)"
  by (simp_all add: is_ok_def)

text \<open>\<open>iter.map(f).collect::<Result<Vec<_>, _>>()\<close>: the first error wins.\<close>

fun map_result :: "('a \<Rightarrow> ('e, 'b) result) \<Rightarrow> 'a list \<Rightarrow> ('e, 'b list) result" where
  "map_result f [] = Inr []"
| "map_result f (x # xs) =
     (case f x of Inl e \<Rightarrow> Inl e
      | Inr y \<Rightarrow> (case map_result f xs of Inl e \<Rightarrow> Inl e | Inr ys \<Rightarrow> Inr (y # ys)))"

lemma map_result_Inr_iff:
  "map_result f xs = Inr ys \<longleftrightarrow> list_all2 (\<lambda>x y. f x = Inr y) xs ys"
proof (induction xs arbitrary: ys)
  case (Cons x xs)
  show ?case
  proof (cases "f x")
    case (Inr y)
    then have "map_result f (x # xs) = Inr ys \<longleftrightarrow> (\<exists>zs. map_result f xs = Inr zs \<and> ys = y # zs)"
      by (auto split: sum.splits)
    then show ?thesis using Cons.IH Inr by (simp add: list_all2_Cons1 conj_commute)
  qed (simp add: list_all2_Cons1)
qed auto

lemma map_result_ok_iff: "is_ok (map_result f xs) \<longleftrightarrow> (\<forall>x \<in> set xs. is_ok (f x))"
  by (induction xs) (auto split: sum.splits)

text \<open>A \<open>for\<close> loop whose body may return an error early.\<close>

fun fold_result :: "('a \<Rightarrow> 's \<Rightarrow> ('e, 's) result) \<Rightarrow> 'a list \<Rightarrow> 's \<Rightarrow> ('e, 's) result" where
  "fold_result f [] s = Inr s"
| "fold_result f (x # xs) s = (case f x s of Inl e \<Rightarrow> Inl e | Inr s' \<Rightarrow> fold_result f xs s')"

lemma fold_result_cong [fundef_cong]:
  "s = s' \<Longrightarrow> xs = ys \<Longrightarrow> (\<And>x t. x \<in> set ys \<Longrightarrow> f x t = g x t) \<Longrightarrow> fold_result f xs s = fold_result g ys s'"
proof -
  assume eqs: "s = s'" "xs = ys" and f: "\<And>x t. x \<in> set ys \<Longrightarrow> f x t = g x t"
  from f have "fold_result f ys s' = fold_result g ys s'"
    by (induction ys arbitrary: s') (auto split: sum.splits)
  with eqs show ?thesis by simp
qed

lemma fold_result_append:
  "fold_result f (xs @ ys) s = bind_result (fold_result f xs s) (fold_result f ys)"
  by (induction xs arbitrary: s) (auto split: sum.splits)

lemma fold_result_snoc: "fold_result f (xs @ [x]) s = bind_result (fold_result f xs s) (f x)"
  by (cases "fold_result f xs s") (auto simp: fold_result_append split: sum.splits)

lemma fold_result_invariant:
  assumes "fold_result f xs s = Inr t" and "P s"
    and "\<And>x u v. x \<in> set xs \<Longrightarrow> P u \<Longrightarrow> f x u = Inr v \<Longrightarrow> P v"
  shows "P t"
  using assms
proof (induction xs arbitrary: s)
  case (Cons x xs)
  then obtain u where "f x s = Inr u" and "fold_result f xs u = Inr t"
    by (auto split: sum.splits)
  with Cons show ?case by (metis list.set_intros)
qed simp

lemma find_Some_first:
  "find P xs = Some x \<Longrightarrow> P x \<and> x \<in> set xs"
  by (auto simp: find_Some_iff)

section \<open>Ordered maps and sets\<close>

type_synonym ('k, 'v) btmap = "('k \<times> 'v) list"

definition bm_wf :: "('k::linorder, 'v) btmap \<Rightarrow> bool" where
  "bm_wf m \<longleftrightarrow> sorted_wrt (<) (map fst m)"

fun bm_insert :: "'k::linorder \<Rightarrow> 'v \<Rightarrow> ('k, 'v) btmap \<Rightarrow> ('k, 'v) btmap" where
  "bm_insert k v [] = [(k, v)]"
| "bm_insert k v ((k', v') # m) =
     (if k < k' then (k, v) # (k', v') # m
      else if k = k' then (k, v) # m
      else (k', v') # bm_insert k v m)"

definition bm_get :: "('k, 'v) btmap \<Rightarrow> 'k \<Rightarrow> 'v option" where
  "bm_get m k = map_of m k"

definition bm_remove :: "'k \<Rightarrow> ('k, 'v) btmap \<Rightarrow> ('k, 'v) btmap" where
  "bm_remove k m = filter (\<lambda>(k', _). k' \<noteq> k) m"

abbreviation bm_keys :: "('k, 'v) btmap \<Rightarrow> 'k list" where
  "bm_keys m \<equiv> map fst m"

abbreviation bm_values :: "('k, 'v) btmap \<Rightarrow> 'v list" where
  "bm_values m \<equiv> map snd m"

text \<open>\<open>*m.entry(k).or_insert(d)\<close> followed by an update of the slot.\<close>

definition bm_entry :: "'k::linorder \<Rightarrow> 'v \<Rightarrow> ('v \<Rightarrow> 'v) \<Rightarrow> ('k, 'v) btmap \<Rightarrow> ('k, 'v) btmap" where
  "bm_entry k d f m = bm_insert k (f (case bm_get m k of None \<Rightarrow> d | Some v \<Rightarrow> v)) m"

text \<open>\<open>iter.collect::<BTreeMap<_, _>>()\<close>: a later pair replaces an earlier one.\<close>

definition bm_of_list :: "('k::linorder \<times> 'v) list \<Rightarrow> ('k, 'v) btmap" where
  "bm_of_list xs = fold (\<lambda>(k, v). bm_insert k v) xs []"

lemma set_keys_bm_insert [btree_simps]: "set (bm_keys (bm_insert k v m)) = insert k (set (bm_keys m))"
proof (induction m)
  case (Cons a m)
  then show ?case by (cases a) auto
qed simp

lemma bm_get_insert [btree_simps]:
  "bm_get (bm_insert k v m) k' = (if k' = k then Some v else bm_get m k')"
  by (induction m) (auto simp: bm_get_def)

lemma bm_wf_insert [btree_wf]: "bm_wf m \<Longrightarrow> bm_wf (bm_insert k v m)"
proof (induction m)
  case Nil
  then show ?case by (simp add: bm_wf_def)
next
  case (Cons a m)
  obtain k' v' where a: "a = (k', v')" by fastforce
  from Cons.prems a have wf: "bm_wf m" and lt: "\<forall>x \<in> set (bm_keys m). k' < x"
    by (auto simp: bm_wf_def)
  have keys: "set (bm_keys (bm_insert k v m)) = insert k (set (bm_keys m))"
    by (rule set_keys_bm_insert)
  from Cons.IH [OF wf] wf lt a keys show ?case
    by (auto simp: bm_wf_def dest: less_trans)
qed

lemma bm_wf_Nil [btree_wf, simp]: "bm_wf []"
  by (simp add: bm_wf_def)

lemma bm_wf_Cons:
  "bm_wf ((k, v) # m) \<longleftrightarrow> (\<forall>x \<in> set (bm_keys m). k < x) \<and> bm_wf m"
  by (auto simp: bm_wf_def)

lemma bm_wf_distinct: "bm_wf m \<Longrightarrow> distinct (bm_keys m)"
  unfolding bm_wf_def using strict_sorted_iff by blast

lemma bm_get_Nil [simp, btree_simps]: "bm_get [] k = None"
  by (simp add: bm_get_def)

lemma bm_get_Some_iff: "bm_wf m \<Longrightarrow> bm_get m k = Some v \<longleftrightarrow> (k, v) \<in> set m"
  by (simp add: bm_get_def map_of_eq_Some_iff bm_wf_distinct)

lemma bm_get_None_iff: "bm_get m k = None \<longleftrightarrow> k \<notin> set (bm_keys m)"
  by (simp add: bm_get_def map_of_eq_None_iff)

lemma bm_get_remove [btree_simps]:
  "bm_get (bm_remove k m) k' = (if k' = k then None else bm_get m k')"
  by (induction m) (auto simp: bm_get_def bm_remove_def)

lemma bm_wf_remove [btree_wf]: "bm_wf m \<Longrightarrow> bm_wf (bm_remove k m)"
  unfolding bm_wf_def bm_remove_def
  by (induction m) (auto split: prod.splits)

lemma bm_wf_entry [btree_wf]: "bm_wf m \<Longrightarrow> bm_wf (bm_entry k d f m)"
  by (simp add: bm_entry_def bm_wf_insert)

lemma bm_get_entry [btree_simps]:
  "bm_get (bm_entry k d f m) k' =
     (if k' = k then Some (f (case bm_get m k of None \<Rightarrow> d | Some v \<Rightarrow> v)) else bm_get m k')"
  by (simp add: bm_entry_def bm_get_insert)

lemma keys_bm_entry [btree_simps]:
  "set (bm_keys (bm_entry k d f m)) = insert k (set (bm_keys m))"
  by (simp only: bm_entry_def set_keys_bm_insert)

subsection \<open>The interface the clients rely on\<close>

text \<open>
  A keyed store with the two laws the program uses: what a lookup returns after an insert,
  and that the iteration order stays the key order. The clients group elements under a key
  (\<open>entry(k).or_default().push(x)\<close>) and count them (\<open>*entry(k).or_default() += n\<close>);
  both are one fold, analysed here once.
\<close>

locale ordered_map =
  fixes empty :: "'m" and insert_at :: "'k::linorder \<Rightarrow> 'v \<Rightarrow> 'm \<Rightarrow> 'm"
    and lookup :: "'m \<Rightarrow> 'k \<Rightarrow> 'v option" and keys :: "'m \<Rightarrow> 'k list"
  assumes lookup_empty: "lookup empty k = None"
    and lookup_insert: "lookup (insert_at k v m) k' = (if k' = k then Some v else lookup m k')"
    and keys_lookup: "k \<in> set (keys m) \<longleftrightarrow> lookup m k \<noteq> None"
    and keys_empty: "keys empty = []"
    and keys_insert: "sorted_wrt (<) (keys m) \<Longrightarrow> sorted_wrt (<) (keys (insert_at k v m))"
begin

lemma lookup_fold_insert:
  "lookup (fold (\<lambda>(k, v). insert_at k v) xs m) k =
     (case map_of (rev xs) k of None \<Rightarrow> lookup m k | Some v \<Rightarrow> Some v)"
proof (induction xs arbitrary: m)
  case (Cons x xs)
  obtain k' v' where "x = (k', v')" by fastforce
  with Cons.IH [of "insert_at k' v' m"] show ?case
    by (auto simp: lookup_insert map_add_def split: option.splits)
qed simp

lemma sorted_fold:
  assumes "\<And>x m. sorted_wrt (<) (keys m) \<Longrightarrow> sorted_wrt (<) (keys (step x m))"
    and "sorted_wrt (<) (keys m)"
  shows "sorted_wrt (<) (keys (fold step xs m))"
  using assms(2) by (induction xs arbitrary: m) (simp_all add: assms(1))

lemma lookup_fold_group:
  assumes step: "\<And>x m k. lookup (step x m) k =
      (if k = key x then Some (upd x (case lookup m k of None \<Rightarrow> d k | Some v \<Rightarrow> v)) else lookup m k)"
  shows "lookup (fold step xs m) k =
    (if \<exists>x \<in> set xs. key x = k
     then Some (fold upd (filter (\<lambda>x. key x = k) xs) (case lookup m k of None \<Rightarrow> d k | Some v \<Rightarrow> v))
     else lookup m k)"
proof (induction xs arbitrary: m)
  case (Cons x xs)
  have nothing: "filter (\<lambda>y. key y = k) xs = []" if "\<not> (\<exists>y \<in> set xs. key y = k)"
    using that by (simp add: filter_empty_conv)
  show ?case
    by (cases "key x = k"; cases "\<exists>y \<in> set xs. key y = k") (auto simp: Cons.IH step nothing)
qed simp

end

interpretation bt: ordered_map "[]" bm_insert bm_get bm_keys
proof unfold_locales
  show "sorted_wrt (<) (bm_keys (bm_insert k v m))" if "sorted_wrt (<) (bm_keys m)"
    for k :: "'a::linorder" and v :: 'b and m
    using that bm_wf_insert [of m k v] by (simp add: bm_wf_def)
  show "k \<in> set (bm_keys m) \<longleftrightarrow> bm_get m k \<noteq> None" for k :: "'a::linorder" and m :: "('a \<times> 'b) list"
    using bm_get_None_iff by metis
qed (auto simp: bm_get_insert)

lemma bm_wf_of_list [btree_wf]: "bm_wf (bm_of_list xs)"
  unfolding bm_of_list_def bm_wf_def
  by (rule bt.sorted_fold) (auto split: prod.splits simp flip: bm_wf_def intro: bm_wf_insert)

lemma bm_get_of_list: "bm_get (bm_of_list xs) k = map_of (rev xs) k"
  unfolding bm_of_list_def by (simp add: bt.lookup_fold_insert split: option.splits)

lemma map_of_rev_distinct: "distinct (map fst xs) \<Longrightarrow> map_of (rev xs) k = map_of xs k"
proof -
  assume d: "distinct (map fst xs)"
  then have "distinct (map fst (rev xs))" by (simp add: rev_map [symmetric])
  with d have "map_of (rev xs) k = Some v \<longleftrightarrow> map_of xs k = Some v" for v
    by (simp only: map_of_eq_Some_iff set_rev)
  then show ?thesis by (cases "map_of xs k") (metis not_None_eq)+
qed

lemma bm_get_of_list_distinct: "distinct (map fst xs) \<Longrightarrow> bm_get (bm_of_list xs) k = map_of xs k"
  by (simp add: bm_get_of_list map_of_rev_distinct)

lemma set_keys_bm_of_list [btree_simps]: "set (bm_keys (bm_of_list xs)) = fst ` set xs"
proof -
  have "k \<in> set (bm_keys (bm_of_list xs)) \<longleftrightarrow> k \<in> fst ` set xs" for k
    using bm_get_None_iff [of "bm_of_list xs" k] map_of_eq_None_iff [of "rev xs" k]
    by (simp add: bm_get_of_list)
  then show ?thesis by blast
qed

subsection \<open>Ordered sets\<close>

definition bs_wf :: "'a::linorder list \<Rightarrow> bool" where
  "bs_wf xs \<longleftrightarrow> sorted_wrt (<) xs"

definition bs_insert :: "'a::linorder \<Rightarrow> 'a list \<Rightarrow> 'a list" where
  "bs_insert x xs = insort_insert x xs"

definition bs_of_list :: "'a::linorder list \<Rightarrow> 'a list" where
  "bs_of_list xs = fold bs_insert xs []"

lemma set_bs_insert [btree_simps, simp]: "set (bs_insert x xs) = insert x (set xs)"
  by (simp add: bs_insert_def set_insort_insert)

lemma bs_wf_iff: "bs_wf xs \<longleftrightarrow> sorted xs \<and> distinct xs"
  unfolding bs_wf_def by (rule strict_sorted_iff)

lemma bs_wf_insert [btree_wf]: "bs_wf xs \<Longrightarrow> bs_wf (bs_insert x xs)"
  by (auto simp: bs_wf_iff bs_insert_def sorted_insort_insert distinct_insort_insert)

lemma bs_wf_Nil [btree_wf, simp]: "bs_wf []"
  by (simp add: bs_wf_def)

lemma set_fold_bs_insert: "set (fold bs_insert xs ys) = set xs \<union> set ys"
  by (induction xs arbitrary: ys) auto

lemma bs_wf_fold_insert: "bs_wf ys \<Longrightarrow> bs_wf (fold bs_insert xs ys)"
  by (induction xs arbitrary: ys) (auto intro: bs_wf_insert)

lemma set_bs_of_list [btree_simps, simp]: "set (bs_of_list xs) = set xs"
  by (simp add: bs_of_list_def set_fold_bs_insert)

lemma bs_wf_of_list [btree_wf, simp]: "bs_wf (bs_of_list xs)"
  by (simp add: bs_of_list_def bs_wf_fold_insert)

lemma bs_wf_unique: "bs_wf xs \<Longrightarrow> bs_wf ys \<Longrightarrow> set xs = set ys \<Longrightarrow> xs = ys"
  by (simp add: bs_wf_iff sorted_distinct_set_unique)

lemma bs_of_list_sorted_list: "bs_of_list xs = sorted_list_of_set (set xs)"
  by (rule bs_wf_unique) (simp_all add: bs_wf_iff [THEN iffD2])

lemma length_bs_of_list: "length (bs_of_list xs) = card (set xs)"
  by (metis bs_wf_iff bs_wf_of_list distinct_card set_bs_of_list)

section \<open>Grouping and equivalence closure\<close>

text \<open>Adding up group by group is adding up everything.\<close>

lemma sum_groups:
  fixes g :: "'a \<Rightarrow> 'b::comm_monoid_add"
  assumes "finite K" and "f ` set xs \<subseteq> K"
  shows "(\<Sum>k\<in>K. sum_list (map g (filter (\<lambda>x. f x = k) xs))) = sum_list (map g xs)"
  using assms(2)
proof (induction xs)
  case (Cons x xs)
  have "(\<Sum>k\<in>K. sum_list (map g (filter (\<lambda>x. f x = k) (x # xs)))) =
      (\<Sum>k\<in>K. (if f x = k then g x else 0) + sum_list (map g (filter (\<lambda>x. f x = k) xs)))"
    by (rule sum.cong) simp_all
  also have "\<dots> = g x + sum_list (map g xs)"
    using Cons assms(1) by (simp add: sum.distrib sum.delta)
  finally show ?case by simp
qed simp

lemma mset_as_sum: "sum_list (map (\<lambda>x. {#x#}) xs) = mset xs"
  by (induction xs) auto

lemma sum_list_distinct_keys:
  "distinct (bm_keys m) \<Longrightarrow> sum_list (map (\<lambda>(k, v). g k) m) = (\<Sum>k\<in>set (bm_keys m). g k)"
  for g :: "'k \<Rightarrow> 'b::comm_monoid_add"
  by (induction m) (auto split: prod.splits)

definition linked :: "('a \<times> 'a) set \<Rightarrow> ('a \<times> 'a) set" where
  "linked E = (E \<union> E\<inverse>)\<^sup>*"

lemma linked_refl [simp, intro]: "(a, a) \<in> linked E"
  by (simp add: linked_def)

lemma linked_trans: "(a, b) \<in> linked E \<Longrightarrow> (b, c) \<in> linked E \<Longrightarrow> (a, c) \<in> linked E"
  unfolding linked_def by (rule rtrancl_trans)

lemma linked_sym: "(a, b) \<in> linked E \<Longrightarrow> (b, a) \<in> linked E"
  unfolding linked_def by (metis converse_Un converse_converse rtrancl_converseI sup_commute)

lemma linked_mono: "E \<subseteq> F \<Longrightarrow> (a, b) \<in> linked E \<Longrightarrow> (a, b) \<in> linked F"
  unfolding linked_def using rtrancl_mono [of "E \<union> E\<inverse>" "F \<union> F\<inverse>"] by blast

lemma linked_edge: "(a, b) \<in> E \<Longrightarrow> (a, b) \<in> linked E"
  by (auto simp: linked_def)

lemma linked_insert:
  "(k, j) \<in> linked (insert (a, b) E) \<longleftrightarrow>
     (k, j) \<in> linked E \<or> (k, a) \<in> linked E \<and> (b, j) \<in> linked E \<or> (k, b) \<in> linked E \<and> (a, j) \<in> linked E"
  (is "?l = ?r")
proof
  assume ?l
  then show ?r
    unfolding linked_def [of "insert (a, b) E"]
  proof (induction rule: rtrancl_induct)
    case (step y z)
    then consider "(y, z) \<in> linked E" | "y = a \<and> z = b" | "y = b \<and> z = a"
      using linked_edge [of y z E] linked_sym [OF linked_edge [of z y E]] by auto
    then show ?case using step.IH by cases (auto intro: linked_trans linked_sym)
  qed simp
next
  have up: "(x, y) \<in> linked E \<Longrightarrow> (x, y) \<in> linked (insert (a, b) E)" for x y
    by (rule linked_mono) auto
  have "(a, b) \<in> linked (insert (a, b) E)" by (simp add: linked_edge)
  moreover assume ?r
  ultimately show ?l by (metis up linked_trans linked_sym)
qed

section \<open>Machine integers\<close>

text \<open>Rust's \<open>saturating_add\<close>, \<open>saturating_sub\<close> and \<open>saturating_mul\<close> on unsigned words.\<close>

definition sat_add :: "'w::len word \<Rightarrow> 'w word \<Rightarrow> 'w word" where
  "sat_add a b = (if unat a + unat b < 2 ^ LENGTH('w) then a + b else - 1)"

definition sat_mul :: "'w::len word \<Rightarrow> 'w word \<Rightarrow> 'w word" where
  "sat_mul a b = (if unat a * unat b < 2 ^ LENGTH('w) then a * b else - 1)"

lemma unat_minus_one_word: "unat (- 1 :: 'w::len word) = 2 ^ LENGTH('w) - 1"
  by (simp add: unsigned_minus_1_eq_mask mask_eq_exp_minus_1)

lemma unat_sat_add: "unat (sat_add a b) = min (unat a + unat b) (2 ^ LENGTH('w) - 1)"
  for a b :: "'w::len word"
  by (auto simp: sat_add_def unat_word_ariths unat_minus_one_word min_def)

lemma unat_sat_mul: "unat (sat_mul a b) = min (unat a * unat b) (2 ^ LENGTH('w) - 1)"
  for a b :: "'w::len word"
proof (cases "unat a * unat b < 2 ^ LENGTH('w)")
  case True
  then have "unat a * unat b \<le> 2 ^ LENGTH('w) - 1" by linarith
  with True show ?thesis by (simp add: sat_mul_def unat_word_ariths)
next
  case False
  then have "2 ^ LENGTH('w) - 1 \<le> unat a * unat b" by linarith
  with False show ?thesis by (simp add: sat_mul_def unat_minus_one_word)
qed

text \<open>\<open>u32::try_from(n).unwrap_or(u32::MAX)\<close> on a \<open>usize\<close> count.\<close>

definition u32_clamp :: "nat \<Rightarrow> nat" where
  "u32_clamp n = min n (2 ^ 32 - 1)"

section \<open>Strings\<close>

definition starts_with :: "string \<Rightarrow> string \<Rightarrow> bool" where
  "starts_with s p \<longleftrightarrow> take (length p) s = p"

lemma starts_with_iff: "starts_with s p \<longleftrightarrow> (\<exists>r. s = p @ r)"
  by (metis append_eq_conv_conj append_take_drop_id starts_with_def)

definition strip_prefix :: "string \<Rightarrow> string \<Rightarrow> string option" where
  "strip_prefix s p = (if starts_with s p then Some (drop (length p) s) else None)"

text \<open>\<open>s.split(c)\<close> for one ASCII character, \<open>xs.join(sep)\<close> and \<open>s.split_once(c)\<close>.\<close>

fun split_at :: "char \<Rightarrow> string \<Rightarrow> string list" where
  "split_at c [] = [[]]"
| "split_at c (x # xs) =
     (if x = c then [] # split_at c xs
      else (case split_at c xs of [] \<Rightarrow> [[x]] | w # ws \<Rightarrow> (x # w) # ws))"

fun join_with :: "string \<Rightarrow> string list \<Rightarrow> string" where
  "join_with sep [] = []"
| "join_with sep [w] = w"
| "join_with sep (w # ws) = w @ sep @ join_with sep ws"

definition split_once :: "char \<Rightarrow> string \<Rightarrow> (string \<times> string) option" where
  "split_once c s = (case dropWhile (\<lambda>x. x \<noteq> c) s of
     [] \<Rightarrow> None | _ # r \<Rightarrow> Some (takeWhile (\<lambda>x. x \<noteq> c) s, r))"

lemma split_at_not_Nil [simp]: "split_at c s \<noteq> []"
  by (induction s) (auto split: list.splits)

lemma join_with_Cons: "ws \<noteq> [] \<Longrightarrow> join_with sep (w # ws) = w @ sep @ join_with sep ws"
  by (cases ws) auto

lemma join_split_at: "join_with [c] (split_at c s) = s"
proof (induction s)
  case (Cons x xs)
  obtain w ws where split: "split_at c xs = w # ws" by (cases "split_at c xs") simp_all
  with Cons show ?case by (cases ws) auto
qed simp

lemma split_at_no_sep: "w \<in> set (split_at c s) \<Longrightarrow> c \<notin> set w"
proof (induction s arbitrary: w)
  case (Cons x xs)
  obtain v vs where "split_at c xs = v # vs" by (cases "split_at c xs") simp_all
  with Cons show ?case by (auto split: if_splits)
qed simp

text \<open>Strings are UTF-8 byte sequences; slicing panics off a character boundary.\<close>

definition is_continuation :: "char \<Rightarrow> bool" where
  "is_continuation c \<longleftrightarrow> 128 \<le> (of_char c :: nat) \<and> (of_char c :: nat) < 192"

definition is_char_boundary :: "string \<Rightarrow> nat \<Rightarrow> bool" where
  "is_char_boundary s i \<longleftrightarrow> i = 0 \<or> i = length s \<or> (i < length s \<and> \<not> is_continuation (s ! i))"

text \<open>ASCII classes and case folding.\<close>

definition is_ascii_digit :: "char \<Rightarrow> bool" where
  "is_ascii_digit c \<longleftrightarrow> 48 \<le> (of_char c :: nat) \<and> (of_char c :: nat) \<le> 57"

definition is_ascii_lower :: "char \<Rightarrow> bool" where
  "is_ascii_lower c \<longleftrightarrow> 97 \<le> (of_char c :: nat) \<and> (of_char c :: nat) \<le> 122"

definition is_ascii_upper :: "char \<Rightarrow> bool" where
  "is_ascii_upper c \<longleftrightarrow> 65 \<le> (of_char c :: nat) \<and> (of_char c :: nat) \<le> 90"

definition is_ascii_alphanumeric :: "char \<Rightarrow> bool" where
  "is_ascii_alphanumeric c \<longleftrightarrow> is_ascii_digit c \<or> is_ascii_lower c \<or> is_ascii_upper c"

definition to_ascii_lowercase :: "char \<Rightarrow> char" where
  "to_ascii_lowercase c = (if is_ascii_upper c then char_of ((of_char c :: nat) + 32) else c)"

text \<open>\<open>str::trim\<close> on ASCII white space (space, tab, line feed, vertical tab, form feed,
  carriage return).\<close>

definition is_space :: "char \<Rightarrow> bool" where
  "is_space c \<longleftrightarrow> of_char c = (32 :: nat) \<or> (9 \<le> (of_char c :: nat) \<and> (of_char c :: nat) \<le> 13)"

definition trim_matches :: "(char \<Rightarrow> bool) \<Rightarrow> string \<Rightarrow> string" where
  "trim_matches P s = rev (dropWhile P (rev (dropWhile P s)))"

definition trim_end_matches :: "(char \<Rightarrow> bool) \<Rightarrow> string \<Rightarrow> string" where
  "trim_end_matches P s = rev (dropWhile P (rev s))"

definition str_trim :: "string \<Rightarrow> string" where
  "str_trim s = trim_matches is_space s"

text \<open>\<open>format!("{n}")\<close> of an unsigned or signed integer.\<close>

fun show_nat :: "nat \<Rightarrow> string" where
  "show_nat n = (if n < 10 then [char_of (48 + n)] else show_nat (n div 10) @ [char_of (48 + n mod 10)])"

declare show_nat.simps [simp del]

definition show_int :: "int \<Rightarrow> string" where
  "show_int i = (if i < 0 then ''-'' @ show_nat (nat (- i)) else show_nat (nat i))"

lemma show_nat_not_Nil [simp]: "show_nat n \<noteq> []"
  by (subst show_nat.simps) simp

lemma show_nat_digits: "list_all is_ascii_digit (show_nat n)"
proof (induction n rule: show_nat.induct)
  case (1 n)
  have digit: "is_ascii_digit (char_of (48 + d))" if "d < 10" for d :: nat
    using that by (simp add: is_ascii_digit_def)
  show ?case
    using 1 digit [of n] digit [of "n mod 10"] by (subst show_nat.simps) auto
qed

lemma show_nat_hd_last:
  "is_ascii_digit (hd (show_nat n))" "is_ascii_digit (last (show_nat n))"
  using show_nat_digits [of n] show_nat_not_Nil [of n] by (simp_all add: list_all_iff)

end
