(* ===== verification/Transition_Table.thy ===== *)
theory Transition_Table
  imports Prelude
begin

text \<open>
  The shape shared by the three lifecycle state machines of the operator
  (\<open>controller/lifecycle.rs\<close>, \<open>controller/workspace_lifecycle.rs\<close>,
  \<open>controller/shard_lifecycle.rs\<close>): a table of rows \<open>(from, trigger, to)\<close>, a
  lookup \<open>advance\<close> that either finds a row or returns a typed error naming the
  legal triggers, and a guard \<open>edge_is_legal\<close>. The locale \<open>transition_table\<close> is
  the contract of that lookup; \<open>convergent_table\<close> adds a rank that some allowed
  trigger decreases. Runs, visited phases and the gateway argument are proved once here
  and reach each machine through an interpretation.
\<close>

section \<open>Runs of a lookup function\<close>

fun run_table :: "('p \<Rightarrow> 't \<Rightarrow> ('e, 'p) result) \<Rightarrow> 'p \<Rightarrow> 't list \<Rightarrow> ('e, 'p) result" where
  "run_table adv p [] = Inr p"
| "run_table adv p (t # ts) = (case adv p t of Inl e \<Rightarrow> Inl e | Inr q \<Rightarrow> run_table adv q ts)"

fun visited :: "('p \<Rightarrow> 't \<Rightarrow> ('e, 'p) result) \<Rightarrow> 'p \<Rightarrow> 't list \<Rightarrow> 'p list" where
  "visited adv p [] = [p]"
| "visited adv p (t # ts) = p # (case adv p t of Inl e \<Rightarrow> [] | Inr q \<Rightarrow> visited adv q ts)"

lemma run_table_append:
  "run_table adv p (ts @ us) = bind_result (run_table adv p ts) (\<lambda>q. run_table adv q us)"
  by (induction ts arbitrary: p) (auto split: sum.splits)

lemma start_visited: "p \<in> set (visited adv p ts)"
  by (cases ts) auto

lemma end_visited: "run_table adv p ts = Inr q \<Longrightarrow> q \<in> set (visited adv p ts)"
  by (induction ts arbitrary: p) (auto split: sum.splits)

text \<open>
  If every step that leaves a set of phases enters \<open>d\<close>, a run that ends outside the
  set has visited \<open>d\<close>.
\<close>

lemma run_gateway:
  assumes closed: "\<And>p t q. p \<in> S \<Longrightarrow> adv p t = Inr q \<Longrightarrow> q \<in> S \<or> q = d"
    and "p \<in> S" and "run_table adv p ts = Inr q" and "q \<notin> S"
  shows "d \<in> set (visited adv p ts)"
  using assms(2-)
proof (induction ts arbitrary: p)
  case (Cons t ts)
  from Cons.prems(2) obtain p' where p': "adv p t = Inr p'" "run_table adv p' ts = Inr q"
    by (auto split: sum.splits)
  from closed [OF Cons.prems(1) p'(1)] show ?case
  proof
    assume "p' \<in> S"
    from Cons.IH [OF this p'(2) Cons.prems(3)] p'(1) show ?thesis by simp
  next
    assume "p' = d"
    with p'(1) start_visited [of d adv ts] show ?thesis by simp
  qed
qed simp

section \<open>The contract of a transition table\<close>

locale transition_table =
  fixes rows :: "'r list"
    and src :: "'r \<Rightarrow> 'p" and trig :: "'r \<Rightarrow> 't" and dst :: "'r \<Rightarrow> 'p"
    and legal_triggers :: "'p \<Rightarrow> 't list"
    and advance :: "'p \<Rightarrow> 't \<Rightarrow> ('e, 'p) result"
    and edge_is_legal :: "'p \<Rightarrow> 'p \<Rightarrow> bool"
    and illegal :: "'p \<Rightarrow> 't \<Rightarrow> 't list \<Rightarrow> 'e"
  assumes hit: "r \<in> set rows \<Longrightarrow> advance (src r) (trig r) = Inr (dst r)"
    and sound: "advance p t = Inr q \<Longrightarrow> \<exists>r \<in> set rows. src r = p \<and> trig r = t \<and> dst r = q"
    and refusal: "advance p t = Inl e \<Longrightarrow> e = illegal p t (legal_triggers p)"
    and legal_set: "set (legal_triggers p) = trig ` {r \<in> set rows. src r = p}"
    and edge_iff: "edge_is_legal p q \<longleftrightarrow> p = q \<or> (\<exists>r \<in> set rows. src r = p \<and> dst r = q)"
begin

lemma advance_ok_iff: "(\<exists>q. advance p t = Inr q) \<longleftrightarrow> t \<in> set (legal_triggers p)"
proof
  assume "\<exists>q. advance p t = Inr q"
  with sound [of p t] show "t \<in> set (legal_triggers p)"
    unfolding legal_set by blast
next
  assume "t \<in> set (legal_triggers p)"
  then obtain r where "r \<in> set rows" "src r = p" "trig r = t"
    unfolding legal_set by blast
  with hit [of r] show "\<exists>q. advance p t = Inr q" by blast
qed

lemma advance_refused_iff:
  "advance p t = Inl e \<longleftrightarrow> t \<notin> set (legal_triggers p) \<and> e = illegal p t (legal_triggers p)"
  using advance_ok_iff [of p t] refusal [of p t] by (cases "advance p t") auto

lemma edge_iff_advance: "edge_is_legal p q \<longleftrightarrow> p = q \<or> (\<exists>t. advance p t = Inr q)"
  unfolding edge_iff using hit sound by metis

end

locale convergent_table = transition_table +
  fixes allowed :: "'b \<Rightarrow> bool" and good :: "'c \<Rightarrow> bool" and rank :: "'c \<Rightarrow> nat"
  assumes rank_zero: "rank p = 0 \<Longrightarrow> good p"
    and descend: "\<not> good p \<Longrightarrow> \<exists>r \<in> set rows. src r = p \<and> allowed (trig r) \<and> rank (dst r) < rank p"
begin

lemma reaches_good:
  "\<exists>ts q. run_table advance p ts = Inr q \<and> good q \<and> (\<forall>t \<in> set ts. allowed t) \<and> length ts \<le> rank p"
proof (induction "rank p" arbitrary: p rule: less_induct)
  case less
  show ?case
  proof (cases "good p")
    case True
    then have "run_table advance p [] = Inr p \<and> good p \<and> (\<forall>t \<in> set []. allowed t)
      \<and> length ([] :: 'b list) \<le> rank p" by simp
    then show ?thesis by blast
  next
    case False
    from descend [OF this] obtain r where r: "r \<in> set rows" "src r = p" "allowed (trig r)"
      "rank (dst r) < rank p" by blast
    from less [OF r(4)] obtain ts q where run: "run_table advance (dst r) ts = Inr q" "good q"
      "\<forall>t \<in> set ts. allowed t" "length ts \<le> rank (dst r)" by blast
    have "run_table advance p (trig r # ts) = Inr q"
      using hit [OF r(1)] r(2) run(1) by simp
    moreover have "length (trig r # ts) \<le> rank p" using run(4) r(4) by simp
    moreover have "\<forall>t \<in> set (trig r # ts). allowed t" using run(3) r(3) by simp
    ultimately show ?thesis using run(2) by blast
  qed
qed

end

section \<open>Lookup by first match\<close>

text \<open>
  The three machines look a row up with \<open>iter().find(..)\<close>; with no two rows for one
  \<open>(from, trigger)\<close> pair the first match is the only one.
\<close>

lemma find_unique_row:
  assumes "distinct (map (\<lambda>r. (src r, trig r)) rows)" and "r \<in> set rows"
  shows "find (\<lambda>x. src x = src r \<and> trig x = trig r) rows = Some r"
  using assms
proof (induction rows)
  case (Cons a rows)
  show ?case
  proof (cases "r = a")
    case False
    with Cons.prems have mem: "r \<in> set rows" by simp
    with Cons.prems(1) have "(src a, trig a) \<noteq> (src r, trig r)" by force
    with Cons mem show ?thesis by auto
  qed simp
qed simp

lemma find_row_sound:
  "(case find (\<lambda>x. src x = p \<and> trig x = t) rows of Some r \<Rightarrow> Inr (dst r) | None \<Rightarrow> Inl e) = Inr q
   \<Longrightarrow> \<exists>r \<in> set rows. src r = p \<and> trig r = t \<and> dst r = q"
  by (auto split: option.splits dest: find_Some_first)

end
