(* ===== verification/Lifecycle.thy ===== *)
theory Lifecycle
  imports Transition_Table
begin

text \<open>
  The lifecycle machine of one \<open>InfrastructureTemplate\<close>
  (\<open>pangea-operator/src/controller/lifecycle.rs\<close>, with the \<open>Phase\<close> enum of
  \<open>crd/infrastructure_template.rs\<close>): the twelve phases and their classes, the
  explicit rows, the universal deletion and spec-change rows, the lookup \<open>advance\<close>
  and the runtime guard \<open>edge_is_legal\<close>.
\<close>

section \<open>Phases and triggers\<close>

datatype phase = Pending | Verifying | Verified | Compiling | Initializing | Planning | Applying
  | Ready | Drifted | Failed | CompileBlocked | Destroying

datatype phase_class = Forward | Recovery | Settled | Terminal | Failure

definition is_good_terminal :: "phase_class \<Rightarrow> bool" where
  "is_good_terminal c = (case c of Settled \<Rightarrow> True | Terminal \<Rightarrow> True | _ \<Rightarrow> False)"

fun phase_class_of :: "phase \<Rightarrow> phase_class" where
  "phase_class_of Pending = Forward"
| "phase_class_of Verifying = Forward"
| "phase_class_of Verified = Forward"
| "phase_class_of Compiling = Forward"
| "phase_class_of Initializing = Forward"
| "phase_class_of Planning = Forward"
| "phase_class_of Applying = Forward"
| "phase_class_of Drifted = Recovery"
| "phase_class_of Ready = Settled"
| "phase_class_of Destroying = Terminal"
| "phase_class_of Failed = Failure"
| "phase_class_of CompileBlocked = Failure"

definition all_lifecycle :: "phase list" where
  "all_lifecycle = [Pending, Verifying, Verified, Compiling, Initializing, Planning, Applying,
     Ready, Drifted, Failed, CompileBlocked, Destroying]"

text \<open>The legacy array \<open>Phase::ALL\<close> the fleet gauge is reset over.\<close>

definition phase_ALL :: "phase list" where
  "phase_ALL = [Pending, Verifying, Verified, Compiling, Initializing, Planning, Applying,
     Ready, Drifted, Failed, Destroying]"

datatype trigger = SourceValidated | SourceInvalid | GemsAssumedReady | CompileOk
  | CompileFailedThreshold | RetryBackoffElapsed | InitOk | InitFailed | PlanNoChanges
  | ApplyAuthorized | PlanRefusedOrFailed | ApplyOk | ApplyFailed | DriftDetected
  | SettlingEscalated | DriftApproved | SourceStaleOrWorkspaceLost | SpecChanged
  | FailureBackoffElapsed | DeletionRequested | DestroyOk | DestroyFailed

datatype edge_kind = ForwardEdge | Remediation | OperatorRework | Teardown

section \<open>The table\<close>

record transition =
  tr_from :: phase
  tr_trigger :: trigger
  tr_to :: phase
  tr_kind :: edge_kind

definition t :: "phase \<Rightarrow> trigger \<Rightarrow> phase \<Rightarrow> edge_kind \<Rightarrow> transition" where
  "t p g q k = \<lparr>tr_from = p, tr_trigger = g, tr_to = q, tr_kind = k\<rparr>"

definition EXPLICIT_TRANSITIONS :: "transition list" where
  "EXPLICIT_TRANSITIONS =
    [t Pending SourceValidated Compiling ForwardEdge,
     t Pending SourceInvalid Failed Remediation,
     t Verifying GemsAssumedReady Compiling ForwardEdge,
     t Verified GemsAssumedReady Compiling ForwardEdge,
     t Compiling CompileOk Initializing ForwardEdge,
     t Initializing InitOk Planning ForwardEdge,
     t Planning ApplyAuthorized Applying ForwardEdge,
     t Planning PlanNoChanges Ready ForwardEdge,
     t Applying ApplyOk Ready ForwardEdge,
     t Compiling CompileFailedThreshold CompileBlocked Remediation,
     t CompileBlocked RetryBackoffElapsed Compiling Remediation,
     t Initializing InitFailed Failed ForwardEdge,
     t Planning PlanRefusedOrFailed Failed ForwardEdge,
     t Applying ApplyFailed Failed ForwardEdge,
     t Ready SettlingEscalated Failed ForwardEdge,
     t Drifted SettlingEscalated Failed ForwardEdge,
     t Failed FailureBackoffElapsed Pending Remediation,
     t Ready DriftDetected Drifted ForwardEdge,
     t Drifted DriftApproved Planning OperatorRework,
     t Planning SourceStaleOrWorkspaceLost Compiling Remediation,
     t Applying SourceStaleOrWorkspaceLost Compiling Remediation,
     t Ready SourceStaleOrWorkspaceLost Compiling Remediation,
     t Drifted SourceStaleOrWorkspaceLost Compiling Remediation,
     t Destroying DestroyOk Destroying Teardown,
     t Destroying DestroyFailed Failed ForwardEdge]"

definition universal_edges_for :: "phase \<Rightarrow> transition list" where
  "universal_edges_for p =
     (if p \<noteq> Destroying then [t p DeletionRequested Destroying Teardown] else []) @
     (if p \<noteq> Pending \<and> p \<noteq> Destroying then [t p SpecChanged Pending Remediation] else [])"

definition TRANSITIONS :: "transition list" where
  "TRANSITIONS = EXPLICIT_TRANSITIONS @ concat (map universal_edges_for all_lifecycle)"

datatype transition_error = Illegal phase trigger "trigger list"

definition edge_is_legal :: "phase \<Rightarrow> phase \<Rightarrow> bool" where
  "edge_is_legal p q \<longleftrightarrow> p = q \<or> list_ex (\<lambda>r. tr_from r = p \<and> tr_to r = q) TRANSITIONS"

definition legal_triggers :: "phase \<Rightarrow> trigger list" where
  "legal_triggers p = map tr_trigger (filter (\<lambda>r. tr_from r = p) TRANSITIONS)"

definition advance :: "phase \<Rightarrow> trigger \<Rightarrow> (transition_error, phase) result" where
  "advance p g =
     (case find (\<lambda>r. tr_from r = p \<and> tr_trigger r = g) TRANSITIONS of
        Some r \<Rightarrow> Inr (tr_to r)
      | None \<Rightarrow> Inl (Illegal p g (legal_triggers p)))"

section \<open>The table honours the contract\<close>

lemmas table_defs = TRANSITIONS_def EXPLICIT_TRANSITIONS_def universal_edges_for_def
  all_lifecycle_def t_def

lemma all_lifecycle_complete: "p \<in> set all_lifecycle"
  by (cases p) (simp_all add: all_lifecycle_def)

lemma TRANSITIONS_functional: "distinct (map (\<lambda>r. (tr_from r, tr_trigger r)) TRANSITIONS)"
  by (simp add: table_defs)

text \<open>How many \<open>SpecChanged\<close>-free, deletion-free steps away from \<open>Ready\<close> a phase is.\<close>

fun rank_to_ready :: "phase \<Rightarrow> nat" where
  "rank_to_ready Ready = 0"
| "rank_to_ready Applying = 1"
| "rank_to_ready Planning = 1"
| "rank_to_ready Drifted = 2"
| "rank_to_ready Initializing = 2"
| "rank_to_ready Compiling = 3"
| "rank_to_ready Pending = 4"
| "rank_to_ready Verifying = 4"
| "rank_to_ready Verified = 4"
| "rank_to_ready CompileBlocked = 4"
| "rank_to_ready Failed = 5"
| "rank_to_ready Destroying = 6"

lemma rank_to_ready_descends:
  "p \<noteq> Ready \<Longrightarrow> \<exists>r \<in> set TRANSITIONS. tr_from r = p \<and> tr_trigger r \<noteq> DeletionRequested
     \<and> tr_trigger r \<noteq> SpecChanged \<and> rank_to_ready (tr_to r) < rank_to_ready p"
  by (cases p) (simp_all add: table_defs)

interpretation template_fsm: convergent_table TRANSITIONS tr_from tr_trigger tr_to
  legal_triggers advance edge_is_legal Illegal
  "\<lambda>g. g \<noteq> DeletionRequested \<and> g \<noteq> SpecChanged" "\<lambda>p. p = Ready" rank_to_ready
proof unfold_locales
  fix r assume "r \<in> set TRANSITIONS"
  with find_unique_row [OF TRANSITIONS_functional]
  show "advance (tr_from r) (tr_trigger r) = Inr (tr_to r)" by (simp add: advance_def)
next
  fix p g q assume "advance p g = Inr q"
  then show "\<exists>r \<in> set TRANSITIONS. tr_from r = p \<and> tr_trigger r = g \<and> tr_to r = q"
    unfolding advance_def by (rule find_row_sound)
next
  fix p g e assume "advance p g = Inl e"
  then show "e = Illegal p g (legal_triggers p)"
    by (auto simp: advance_def split: option.splits)
next
  fix p :: phase assume "rank_to_ready p = 0"
  then show "p = Ready" by (cases p) simp_all
next
  fix p assume "p \<noteq> Ready"
  from rank_to_ready_descends [OF this] show
    "\<exists>r \<in> set TRANSITIONS. tr_from r = p
       \<and> (tr_trigger r \<noteq> DeletionRequested \<and> tr_trigger r \<noteq> SpecChanged)
       \<and> rank_to_ready (tr_to r) < rank_to_ready p" by blast
qed (auto simp: legal_triggers_def edge_is_legal_def list_ex_iff)

section \<open>Steps into the settled phase\<close>

inductive lifecycle_step :: "phase \<Rightarrow> phase \<Rightarrow> bool" where
  step: "advance p g = Inr q \<Longrightarrow> lifecycle_step p q"

inductive_cases lifecycle_stepE: "lifecycle_step p q"

lemma step_into_ready: "advance p g = Inr Ready \<Longrightarrow> p = Planning \<or> p = Applying"
  using template_fsm.sound [of p g Ready] by (auto simp: table_defs)

lemma step_from_cold:
  assumes "p \<in> {Pending, Verifying, Verified, Failed, Destroying}" and "advance p g = Inr q"
  shows "q \<in> {Pending, Verifying, Verified, Failed, Destroying} \<or> q = Compiling"
  using assms template_fsm.sound [of p g q] by (auto simp: table_defs)

lemma step_before_init:
  assumes "p \<in> {Pending, Verifying, Verified, Failed, Destroying, Compiling, CompileBlocked}"
    and "advance p g = Inr q"
  shows "q \<in> {Pending, Verifying, Verified, Failed, Destroying, Compiling, CompileBlocked}
    \<or> q = Initializing"
  using assms template_fsm.sound [of p g q] by (auto simp: table_defs)

lemma step_before_plan:
  assumes "p \<in> {Pending, Verifying, Verified, Failed, Destroying, Compiling, CompileBlocked,
      Initializing}" and "advance p g = Inr q"
  shows "q \<in> {Pending, Verifying, Verified, Failed, Destroying, Compiling, CompileBlocked,
      Initializing} \<or> q = Planning"
  using assms template_fsm.sound [of p g q] by (auto simp: table_defs)

section \<open>Properties\<close>

text \<open>\<open>Phase::advance\<close> and the runtime guard agree with the table. A trigger is
  accepted exactly when it is one of the phase's legal triggers; a refusal is the typed
  error that names the phase, the trigger and those legal triggers; and
  \<open>edge_is_legal\<close>, which \<open>update_phase\<close> checks, holds exactly of the no-op and of
  the moves some trigger makes.\<close>

lemma template_advance_contract:
  "((\<exists>q. advance p g = Inr q) \<longleftrightarrow> g \<in> set (legal_triggers p)) \<and>
   (advance p g = Inl e \<longleftrightarrow> g \<notin> set (legal_triggers p) \<and> e = Illegal p g (legal_triggers p)) \<and>
   (edge_is_legal p q \<longleftrightarrow> p = q \<or> (\<exists>g. advance p g = Inr q))"
  using template_fsm.advance_ok_iff template_fsm.advance_refused_iff
    template_fsm.edge_iff_advance by blast

text \<open>no template phase is a wedge. From every one of the twelve phases some sequence
  of at most six triggers, none of them a deletion or a spec edit, leads to \<open>Ready\<close>;
  so a template recovers by the machine's own forward and remediation edges.\<close>

lemma template_reaches_ready:
  "\<exists>ts. run_table advance p ts = Inr Ready \<and> DeletionRequested \<notin> set ts
     \<and> SpecChanged \<notin> set ts \<and> length ts \<le> 6"
proof -
  from template_fsm.reaches_good [of p] obtain ts where
    ts: "run_table advance p ts = Inr Ready" "length ts \<le> rank_to_ready p"
      "\<forall>g \<in> set ts. g \<noteq> DeletionRequested \<and> g \<noteq> SpecChanged" by blast
  moreover have "rank_to_ready p \<le> 6" by (cases p) simp_all
  ultimately show ?thesis by (intro exI [of _ ts]) auto
qed

lemma run_to_ready_last:
  assumes "run_table advance p ts = Inr Ready" and "p \<noteq> Ready"
  obtains us g r where "ts = us @ [g]" "run_table advance p us = Inr r" "advance r g = Inr Ready"
proof (cases ts rule: rev_cases)
  case Nil
  with assms show ?thesis by simp
next
  case (snoc us g)
  from assms(1) snoc obtain r where "run_table advance p us = Inr r"
    "run_table advance r [g] = Inr Ready"
    by (auto simp: run_table_append bind_result_Inr_iff)
  with snoc that show ?thesis by (auto split: sum.splits)
qed



text \<open>The legacy list \<open>Phase::ALL\<close> names every phase but \<open>CompileBlocked\<close>.\<close>

lemma phase_ALL_omits_compile_blocked: "set phase_ALL = - {CompileBlocked}"
proof -
  have "q \<in> set phase_ALL \<longleftrightarrow> q \<noteq> CompileBlocked" for q
    by (cases q) (simp_all add: phase_ALL_def)
  then show ?thesis by auto
qed

text \<open>\<open>Pending\<close> is the one live phase with no \<open>SpecChanged\<close> row.\<close>

lemma spec_changed_rows:
  "SpecChanged \<in> set (legal_triggers p) \<longleftrightarrow> p \<noteq> Pending \<and> p \<noteq> Destroying"
  by (cases p) (simp_all add: legal_triggers_def table_defs)

end
