(* ===== verification/Workspace_Lifecycle.thy ===== *)
theory Workspace_Lifecycle
  imports Transition_Table
begin

text \<open>
  The convergence machine of a workspace
  (\<open>pangea-operator/src/controller/workspace_lifecycle.rs\<close>): gem loading, template
  convergence, degradation and the drain-safe hand-off of the shard lease.
\<close>

section \<open>Phases and triggers\<close>

datatype workspace_phase = Unloaded | LoadingGems | GemsFailed | Ready | Converging | Settled
  | Degraded | Draining | Released

datatype ws_class = WsForward | WsRecovery | WsSettled | WsTerminal | WsFailure

definition ws_is_good_terminal :: "ws_class \<Rightarrow> bool" where
  "ws_is_good_terminal c = (case c of WsSettled \<Rightarrow> True | WsTerminal \<Rightarrow> True | _ \<Rightarrow> False)"

fun ws_class_of :: "workspace_phase \<Rightarrow> ws_class" where
  "ws_class_of Unloaded = WsForward"
| "ws_class_of LoadingGems = WsForward"
| "ws_class_of Ready = WsForward"
| "ws_class_of Converging = WsForward"
| "ws_class_of Settled = WsSettled"
| "ws_class_of Released = WsTerminal"
| "ws_class_of GemsFailed = WsFailure"
| "ws_class_of Degraded = WsFailure"
| "ws_class_of Draining = WsForward"

definition ws_all :: "workspace_phase list" where
  "ws_all = [Unloaded, LoadingGems, GemsFailed, Ready, Converging, Settled, Degraded, Draining,
     Released]"

datatype ws_trigger = GemLoadStarted | GemsLoaded | GemLoadFailed | GemRetry | GemSourceChanged
  | TemplatesDispatched | AllTemplatesSettled | TemplateDrift | TemplatesDegraded
  | DegradedRecovered | DrainRequested | Drained

datatype ws_edge_kind = WsForwardEdge | WsRemediation | WsOperatorRework | WsTeardown

section \<open>The table\<close>

record ws_transition =
  ws_from :: workspace_phase
  ws_trigger_of :: ws_trigger
  ws_to :: workspace_phase
  ws_kind :: ws_edge_kind

definition w :: "workspace_phase \<Rightarrow> ws_trigger \<Rightarrow> workspace_phase \<Rightarrow> ws_edge_kind \<Rightarrow> ws_transition" where
  "w p g q k = \<lparr>ws_from = p, ws_trigger_of = g, ws_to = q, ws_kind = k\<rparr>"

definition WS_EXPLICIT :: "ws_transition list" where
  "WS_EXPLICIT =
    [w Unloaded GemLoadStarted LoadingGems WsForwardEdge,
     w LoadingGems GemsLoaded Ready WsForwardEdge,
     w LoadingGems GemLoadFailed GemsFailed WsForwardEdge,
     w GemsFailed GemRetry LoadingGems WsRemediation,
     w Ready TemplatesDispatched Converging WsForwardEdge,
     w Converging AllTemplatesSettled Settled WsForwardEdge,
     w Converging TemplatesDegraded Degraded WsForwardEdge,
     w Degraded DegradedRecovered Converging WsRemediation,
     w Settled TemplateDrift Converging WsForwardEdge,
     w Ready GemSourceChanged LoadingGems WsRemediation,
     w Converging GemSourceChanged LoadingGems WsRemediation,
     w Settled GemSourceChanged LoadingGems WsRemediation,
     w Degraded GemSourceChanged LoadingGems WsRemediation,
     w Draining Drained Released WsTeardown]"

definition ws_universal :: "workspace_phase \<Rightarrow> ws_transition list" where
  "ws_universal p =
     (if p \<noteq> Draining \<and> p \<noteq> Released then [w p DrainRequested Draining WsTeardown] else [])"

definition WS_TRANSITIONS :: "ws_transition list" where
  "WS_TRANSITIONS = WS_EXPLICIT @ concat (map ws_universal ws_all)"

datatype ws_transition_error = WsIllegal workspace_phase ws_trigger "ws_trigger list"

definition ws_legal_triggers :: "workspace_phase \<Rightarrow> ws_trigger list" where
  "ws_legal_triggers p = map ws_trigger_of (filter (\<lambda>r. ws_from r = p) WS_TRANSITIONS)"

definition ws_advance :: "workspace_phase \<Rightarrow> ws_trigger \<Rightarrow> (ws_transition_error, workspace_phase) result" where
  "ws_advance p g =
     (case find (\<lambda>r. ws_from r = p \<and> ws_trigger_of r = g) WS_TRANSITIONS of
        Some r \<Rightarrow> Inr (ws_to r)
      | None \<Rightarrow> Inl (WsIllegal p g (ws_legal_triggers p)))"

definition ws_edge_is_legal :: "workspace_phase \<Rightarrow> workspace_phase \<Rightarrow> bool" where
  "ws_edge_is_legal p q \<longleftrightarrow> p = q \<or> list_ex (\<lambda>r. ws_from r = p \<and> ws_to r = q) WS_TRANSITIONS"

section \<open>The table honours the contract\<close>

lemmas ws_table_defs = WS_TRANSITIONS_def WS_EXPLICIT_def ws_universal_def ws_all_def w_def

lemma WS_TRANSITIONS_functional: "distinct (map (\<lambda>r. (ws_from r, ws_trigger_of r)) WS_TRANSITIONS)"
  by (simp add: ws_table_defs)

fun ws_rank :: "workspace_phase \<Rightarrow> nat" where
  "ws_rank Settled = 0"
| "ws_rank Released = 0"
| "ws_rank Converging = 1"
| "ws_rank Draining = 1"
| "ws_rank Ready = 2"
| "ws_rank Degraded = 2"
| "ws_rank LoadingGems = 3"
| "ws_rank Unloaded = 4"
| "ws_rank GemsFailed = 4"

lemma ws_rank_descends:
  "\<not> ws_is_good_terminal (ws_class_of p) \<Longrightarrow> \<exists>r \<in> set WS_TRANSITIONS. ws_from r = p
     \<and> ws_trigger_of r \<noteq> DrainRequested \<and> ws_rank (ws_to r) < ws_rank p"
  by (cases p) (simp_all add: ws_table_defs ws_is_good_terminal_def)

interpretation workspace_fsm: convergent_table WS_TRANSITIONS ws_from ws_trigger_of ws_to
  ws_legal_triggers ws_advance ws_edge_is_legal WsIllegal
  "\<lambda>g. g \<noteq> DrainRequested" "\<lambda>p. ws_is_good_terminal (ws_class_of p)" ws_rank
proof unfold_locales
  fix r assume "r \<in> set WS_TRANSITIONS"
  with find_unique_row [OF WS_TRANSITIONS_functional]
  show "ws_advance (ws_from r) (ws_trigger_of r) = Inr (ws_to r)" by (simp add: ws_advance_def)
next
  fix p g q assume "ws_advance p g = Inr q"
  then show "\<exists>r \<in> set WS_TRANSITIONS. ws_from r = p \<and> ws_trigger_of r = g \<and> ws_to r = q"
    unfolding ws_advance_def by (rule find_row_sound)
next
  fix p g e assume "ws_advance p g = Inl e"
  then show "e = WsIllegal p g (ws_legal_triggers p)"
    by (auto simp: ws_advance_def split: option.splits)
next
  fix p :: workspace_phase assume "ws_rank p = 0"
  then show "ws_is_good_terminal (ws_class_of p)" by (cases p) (simp_all add: ws_is_good_terminal_def)
qed (use ws_rank_descends in \<open>auto simp: ws_legal_triggers_def ws_edge_is_legal_def list_ex_iff\<close>)

lemma ws_step_without_gems:
  assumes "p \<in> {Unloaded, LoadingGems, GemsFailed, Draining, Released}" and "ws_advance p g = Inr q"
  shows "q \<in> {Unloaded, LoadingGems, GemsFailed, Draining, Released} \<or> q = Ready"
  using assms workspace_fsm.sound [of p g q] by (auto simp: ws_table_defs)

lemma ws_step_into_ready: "ws_advance p g = Inr Ready \<Longrightarrow> p = LoadingGems \<and> g = GemsLoaded"
  using workspace_fsm.sound [of p g Ready] by (auto simp: ws_table_defs)

section \<open>Properties\<close>

text \<open>templates are never dispatched against a half-loaded gem environment. A run from
  any phase without a loaded environment to a serving phase other than \<open>Ready\<close>
  (\<open>Converging\<close>, \<open>Settled\<close>, \<open>Degraded\<close>) has visited \<open>Ready\<close>, and the
  only step into \<open>Ready\<close> is \<open>GemsLoaded\<close> out of \<open>LoadingGems\<close>.\<close>

lemma workspace_serves_only_with_gems:
  assumes "p \<in> {Unloaded, LoadingGems, GemsFailed, Draining, Released}"
    and "run_table ws_advance p ts = Inr q" and "q \<in> {Converging, Settled, Degraded}"
  shows "Ready \<in> set (visited ws_advance p ts)
    \<and> (\<forall>r g. ws_advance r g = Inr Ready \<longrightarrow> r = LoadingGems \<and> g = GemsLoaded)"
proof
  show "Ready \<in> set (visited ws_advance p ts)"
    by (rule run_gateway [OF ws_step_without_gems assms(1,2)]) (use assms(3) in auto)
qed (use ws_step_into_ready in blast)

text \<open>a workspace converges and drains. From every phase at most four triggers, none of
  them a drain request, reach \<open>Settled\<close> or \<open>Released\<close>; a drain can be requested in
  every phase but \<open>Draining\<close> and \<open>Released\<close> and always enters \<open>Draining\<close>; and
  \<open>Released\<close> accepts no trigger.\<close>

lemma workspace_converges_and_drains:
  "(\<exists>ts q. run_table ws_advance p ts = Inr q \<and> q \<in> {Settled, Released}
      \<and> DrainRequested \<notin> set ts \<and> length ts \<le> 4)
   \<and> (ws_advance p DrainRequested = Inr Draining \<longleftrightarrow> p \<notin> {Draining, Released})
   \<and> ws_legal_triggers Released = []"
proof (intro conjI)
  from workspace_fsm.reaches_good [of p] obtain ts q where
    ts: "run_table ws_advance p ts = Inr q" "ws_is_good_terminal (ws_class_of q)"
      "\<forall>g \<in> set ts. g \<noteq> DrainRequested" "length ts \<le> ws_rank p" by blast
  moreover have "ws_rank p \<le> 4" by (cases p) simp_all
  moreover have "q \<in> {Settled, Released}" using ts(2)
    by (cases q) (simp_all add: ws_is_good_terminal_def)
  ultimately show "\<exists>ts q. run_table ws_advance p ts = Inr q \<and> q \<in> {Settled, Released}
      \<and> DrainRequested \<notin> set ts \<and> length ts \<le> 4"
    by (intro exI [of _ ts] exI [of _ q]) auto
  show "ws_advance p DrainRequested = Inr Draining \<longleftrightarrow> p \<notin> {Draining, Released}"
    by (cases p) (simp_all add: ws_advance_def ws_table_defs)
  show "ws_legal_triggers Released = []"
    by (simp add: ws_legal_triggers_def ws_table_defs)
qed

end
