(* ===== verification/Shard_Lifecycle.thy ===== *)
theory Shard_Lifecycle
  imports Transition_Table
begin

text \<open>
  Ownership of a workspace by a replica
  (\<open>pangea-operator/src/controller/shard_lifecycle.rs\<close>): claim, own, drain, release,
  and the universal reset on a lost lease.
\<close>

section \<open>Phases and triggers\<close>

datatype shard_phase = Unassigned | Claiming | Owned | Draining | Released

datatype shard_class = ShardForward | ShardSettled | ShardTerminal

definition shard_is_good_terminal :: "shard_class \<Rightarrow> bool" where
  "shard_is_good_terminal c = (case c of ShardSettled \<Rightarrow> True | ShardTerminal \<Rightarrow> True | _ \<Rightarrow> False)"

fun shard_class_of :: "shard_phase \<Rightarrow> shard_class" where
  "shard_class_of Unassigned = ShardForward"
| "shard_class_of Claiming = ShardForward"
| "shard_class_of Draining = ShardForward"
| "shard_class_of Owned = ShardSettled"
| "shard_class_of Released = ShardTerminal"

definition shard_all :: "shard_phase list" where
  "shard_all = [Unassigned, Claiming, Owned, Draining, Released]"

datatype shard_trigger = ClaimStarted | ClaimWon | ClaimLost | RebalanceRequested | DrainComplete
  | LeaseLost | Reassign

datatype shard_edge_kind = ShardForwardEdge | ShardRemediation | ShardTeardown

section \<open>The table\<close>

record shard_transition =
  sh_from :: shard_phase
  sh_trigger :: shard_trigger
  sh_to :: shard_phase
  sh_kind :: shard_edge_kind

definition s :: "shard_phase \<Rightarrow> shard_trigger \<Rightarrow> shard_phase \<Rightarrow> shard_edge_kind \<Rightarrow> shard_transition" where
  "s p g q k = \<lparr>sh_from = p, sh_trigger = g, sh_to = q, sh_kind = k\<rparr>"

definition SHARD_EXPLICIT :: "shard_transition list" where
  "SHARD_EXPLICIT =
    [s Unassigned ClaimStarted Claiming ShardForwardEdge,
     s Claiming ClaimWon Owned ShardForwardEdge,
     s Claiming ClaimLost Unassigned ShardRemediation,
     s Owned RebalanceRequested Draining ShardTeardown,
     s Draining DrainComplete Released ShardTeardown,
     s Released Reassign Unassigned ShardForwardEdge]"

definition shard_universal :: "shard_phase \<Rightarrow> shard_transition list" where
  "shard_universal p =
     (if p \<in> {Claiming, Owned, Draining} then [s p LeaseLost Unassigned ShardRemediation] else [])"

definition SHARD_TRANSITIONS :: "shard_transition list" where
  "SHARD_TRANSITIONS = SHARD_EXPLICIT @ concat (map shard_universal shard_all)"

datatype shard_transition_error = ShardIllegal shard_phase shard_trigger "shard_trigger list"

definition shard_legal_triggers :: "shard_phase \<Rightarrow> shard_trigger list" where
  "shard_legal_triggers p = map sh_trigger (filter (\<lambda>r. sh_from r = p) SHARD_TRANSITIONS)"

definition shard_advance :: "shard_phase \<Rightarrow> shard_trigger \<Rightarrow> (shard_transition_error, shard_phase) result" where
  "shard_advance p g =
     (case find (\<lambda>r. sh_from r = p \<and> sh_trigger r = g) SHARD_TRANSITIONS of
        Some r \<Rightarrow> Inr (sh_to r)
      | None \<Rightarrow> Inl (ShardIllegal p g (shard_legal_triggers p)))"

definition shard_edge_is_legal :: "shard_phase \<Rightarrow> shard_phase \<Rightarrow> bool" where
  "shard_edge_is_legal p q \<longleftrightarrow> p = q \<or> list_ex (\<lambda>r. sh_from r = p \<and> sh_to r = q) SHARD_TRANSITIONS"

section \<open>The table honours the contract\<close>

lemmas shard_table_defs = SHARD_TRANSITIONS_def SHARD_EXPLICIT_def shard_universal_def
  shard_all_def s_def

lemma SHARD_TRANSITIONS_functional:
  "distinct (map (\<lambda>r. (sh_from r, sh_trigger r)) SHARD_TRANSITIONS)"
  by (simp add: shard_table_defs)

fun shard_rank :: "shard_phase \<Rightarrow> nat" where
  "shard_rank Owned = 0"
| "shard_rank Claiming = 1"
| "shard_rank Unassigned = 2"
| "shard_rank Released = 3"
| "shard_rank Draining = 3"

lemma shard_rank_descends:
  "p \<noteq> Owned \<Longrightarrow> \<exists>r \<in> set SHARD_TRANSITIONS. sh_from r = p \<and> shard_rank (sh_to r) < shard_rank p"
  by (cases p) (simp_all add: shard_table_defs)

interpretation shard_fsm: convergent_table SHARD_TRANSITIONS sh_from sh_trigger sh_to
  shard_legal_triggers shard_advance shard_edge_is_legal ShardIllegal
  "\<lambda>_. True" "\<lambda>p. p = Owned" shard_rank
proof unfold_locales
  fix r assume "r \<in> set SHARD_TRANSITIONS"
  with find_unique_row [OF SHARD_TRANSITIONS_functional]
  show "shard_advance (sh_from r) (sh_trigger r) = Inr (sh_to r)" by (simp add: shard_advance_def)
next
  fix p g q assume "shard_advance p g = Inr q"
  then show "\<exists>r \<in> set SHARD_TRANSITIONS. sh_from r = p \<and> sh_trigger r = g \<and> sh_to r = q"
    unfolding shard_advance_def by (rule find_row_sound)
next
  fix p g e assume "shard_advance p g = Inl e"
  then show "e = ShardIllegal p g (shard_legal_triggers p)"
    by (auto simp: shard_advance_def split: option.splits)
next
  fix p :: shard_phase assume "shard_rank p = 0"
  then show "p = Owned" by (cases p) simp_all
qed (use shard_rank_descends in \<open>auto simp: shard_legal_triggers_def shard_edge_is_legal_def list_ex_iff\<close>)

lemma shard_step_before_drain:
  assumes "p \<in> {Unassigned, Claiming, Owned}" and "shard_advance p g = Inr q"
  shows "q \<in> {Unassigned, Claiming, Owned} \<or> q = Draining"
  using assms shard_fsm.sound [of p g q] by (auto simp: shard_table_defs)

lemma shard_step_before_own:
  assumes "p \<in> {Unassigned, Claiming}" and "shard_advance p g = Inr q"
  shows "q \<in> {Unassigned, Claiming} \<or> q = Owned"
  using assms shard_fsm.sound [of p g q] by (auto simp: shard_table_defs)

section \<open>Properties\<close>

text \<open>a workspace is never stranded. Every ownership phase reaches \<open>Owned\<close> within
  three triggers, and a lost lease takes exactly the claiming, owning and draining phases
  back to \<open>Unassigned\<close>.\<close>

lemma shard_never_stranded:
  "(\<exists>ts. run_table shard_advance p ts = Inr Owned \<and> length ts \<le> 3)
   \<and> (\<forall>q. shard_advance p LeaseLost = Inr q \<longleftrightarrow> p \<in> {Claiming, Owned, Draining} \<and> q = Unassigned)"
proof
  from shard_fsm.reaches_good [of p] obtain ts where
    "run_table shard_advance p ts = Inr Owned" "length ts \<le> shard_rank p" by blast
  moreover have "shard_rank p \<le> 3" by (cases p) simp_all
  ultimately show "\<exists>ts. run_table shard_advance p ts = Inr Owned \<and> length ts \<le> 3"
    by (intro exI [of _ ts]) simp
  show "\<forall>q. shard_advance p LeaseLost = Inr q \<longleftrightarrow> p \<in> {Claiming, Owned, Draining} \<and> q = Unassigned"
    by (cases p) (auto simp: shard_advance_def shard_table_defs)
qed

text \<open>a lease is released only by an owner that has drained: every run from
  \<open>Unassigned\<close> to \<open>Released\<close> has passed through \<open>Owned\<close> and \<open>Draining\<close>.\<close>

lemma shard_release_after_drain:
  assumes "run_table shard_advance Unassigned ts = Inr Released"
  shows "{Owned, Draining} \<subseteq> set (visited shard_advance Unassigned ts)"
proof -
  have "Owned \<in> set (visited shard_advance Unassigned ts)"
    by (rule run_gateway [OF shard_step_before_own _ assms]) auto
  moreover have "Draining \<in> set (visited shard_advance Unassigned ts)"
    by (rule run_gateway [OF shard_step_before_drain _ assms]) auto
  ultimately show ?thesis by simp
qed

end
