(* ===== verification/Leaf_Address.thy ===== *)
theory Leaf_Address
  imports Prelude
begin

text \<open>
  Terraform addresses and leaf keys
  (\<open>pangea-leaf/src/address.rs\<close>, \<open>pangea-leaf/src/classify.rs\<close>): the scanner
  \<open>parse_steps\<close> over \<open>name\<close>, \<open>name[index]\<close> and \<open>name["quoted index"]\<close>
  segments, the leaf key of an address, index stripping, the data-source test, and the
  classification of a template as a leaf or fat. The scanner's loop consumes the rest of
  the address; it is a recursive function on that rest, with the length as its measure.
\<close>

section \<open>Keys and errors\<close>

datatype address_error = Empty | UnterminatedIndex string | UnterminatedString string
  | EmptySegment string | TrailingAfterIndex string char

datatype leaf_key_t = Keyed string | Module string | Address string

fun key_raw :: "leaf_key_t \<Rightarrow> string" where
  "key_raw (Keyed s) = s" | "key_raw (Module s) = s" | "key_raw (Address s) = s"

fun key_tag :: "leaf_key_t \<Rightarrow> string" where
  "key_tag (Keyed _) = ''keyed''" | "key_tag (Module _) = ''module''"
| "key_tag (Address _) = ''address''"

text \<open>The derived order: by variant, then by text.\<close>

fun key_variant :: "leaf_key_t \<Rightarrow> nat" where
  "key_variant (Keyed _) = 0" | "key_variant (Module _) = 1" | "key_variant (Address _) = 2"

lemma key_variant_raw_inject: "key_variant k = key_variant l \<Longrightarrow> key_raw k = key_raw l \<Longrightarrow> k = l"
  by (cases k; cases l) auto

instantiation leaf_key_t :: linorder
begin

definition less_eq_leaf_key_t :: "leaf_key_t \<Rightarrow> leaf_key_t \<Rightarrow> bool" where
  "k \<le> l \<longleftrightarrow> (key_variant k, key_raw k) \<le> (key_variant l, key_raw l)"

definition less_leaf_key_t :: "leaf_key_t \<Rightarrow> leaf_key_t \<Rightarrow> bool" where
  "k < l \<longleftrightarrow> (key_variant k, key_raw k) < (key_variant l, key_raw l)"

instance
  by intro_classes
    (auto simp: less_eq_leaf_key_t_def less_leaf_key_t_def intro: key_variant_raw_inject)

end

section \<open>The scanner\<close>

record step =
  step_name :: string
  step_key :: "string option"

text \<open>The inner loop over a quoted index, from just after the opening quote: the text with
  escapes removed and the rest after the closing quote, \<open>None\<close> when the address ends.\<close>

fun scan_quoted :: "string \<Rightarrow> string \<Rightarrow> (string \<times> string) option" where
  "scan_quoted buf [] = None"
| "scan_quoted buf (c # cs) =
     (if c = CHR 0x5C then (case cs of [] \<Rightarrow> None | d # ds \<Rightarrow> scan_quoted (buf @ [d]) ds)
      else if c = CHR 0x22 then Some (buf, cs)
      else scan_quoted (buf @ [c]) cs)"

text \<open>The index after \<open>[\<close>: the key and the rest after \<open>]\<close>.\<close>

definition scan_index :: "string \<Rightarrow> string \<Rightarrow> (address_error, string \<times> string) result" where
  "scan_index address cs =
     (case cs of
        c # r \<Rightarrow>
          if c = CHR 0x22 then
            (case scan_quoted [] r of
               None \<Rightarrow> Inl (UnterminatedString address)
             | Some (buf, r') \<Rightarrow>
                 (case r' of
                    d # r'' \<Rightarrow> if d = CHR '']'' then Inr (buf, r'') else Inl (UnterminatedIndex address)
                  | [] \<Rightarrow> Inl (UnterminatedIndex address)))
          else
            (case dropWhile (\<lambda>x. x \<noteq> CHR '']'') cs of
               [] \<Rightarrow> Inl (UnterminatedIndex address)
             | _ # r' \<Rightarrow> Inr (takeWhile (\<lambda>x. x \<noteq> CHR '']'') cs, r'))
      | [] \<Rightarrow> Inl (UnterminatedIndex address))"

definition is_name_char :: "char \<Rightarrow> bool" where
  "is_name_char c \<longleftrightarrow> c \<noteq> CHR ''.'' \<and> c \<noteq> CHR ''[''"

text \<open>One iteration: a name, an optional index, and the rest of the address.\<close>

definition scan_step :: "string \<Rightarrow> string \<Rightarrow> (address_error, step \<times> string) result" where
  "scan_step address cs =
     (let name = takeWhile is_name_char cs; r = dropWhile is_name_char cs in
      if name = [] then Inl (EmptySegment address)
      else (case r of
              c # r' \<Rightarrow>
                if c = CHR ''['' then
                  bind_result (scan_index address r')
                    (\<lambda>(k, r''). Inr (\<lparr>step_name = name, step_key = Some k\<rparr>, r''))
                else Inr (\<lparr>step_name = name, step_key = None\<rparr>, r)
            | [] \<Rightarrow> Inr (\<lparr>step_name = name, step_key = None\<rparr>, r)))"

lemma scan_quoted_length: "scan_quoted buf cs = Some (b, r) \<Longrightarrow> length r < length cs"
  by (induction buf cs rule: scan_quoted.induct) (auto split: if_splits list.splits)

lemma dropWhile_Cons_length: "dropWhile P cs = x # r \<Longrightarrow> length r < length cs"
  using length_dropWhile_le [of P cs] by simp

lemma scan_index_length: "scan_index a cs = Inr (k, r) \<Longrightarrow> length r < length cs"
  unfolding scan_index_def
  by (auto simp del: dropWhile.simps split: if_splits option.splits list.splits
      dest: scan_quoted_length dropWhile_Cons_length)

lemma scan_step_length: "scan_step a cs = Inr (st, r) \<Longrightarrow> length r < length cs"
proof -
  assume ok: "scan_step a cs = Inr (st, r)"
  let ?name = "takeWhile is_name_char cs" and ?rest = "dropWhile is_name_char cs"
  from ok have ne: "?name \<noteq> []" by (auto simp: scan_step_def Let_def split: if_splits)
  have "length cs = length ?name + length ?rest"
    by (metis length_append takeWhile_dropWhile_id)
  with ne have shorter: "length ?rest < length cs" by simp
  show ?thesis
  proof (cases ?rest)
    case Nil
    with ok shorter ne show ?thesis by (auto simp: scan_step_def Let_def)
  next
    case (Cons c r')
    from ok ne Cons have "r = ?rest \<or> (\<exists>k. scan_index a r' = Inr (k, r))"
      by (auto simp: scan_step_def Let_def bind_result_Inr_iff split: if_splits)
    with shorter Cons show ?thesis by (auto dest: scan_index_length)
  qed
qed

function parse_loop :: "string \<Rightarrow> string \<Rightarrow> step list \<Rightarrow> (address_error, step list) result" where
  "parse_loop address cs steps =
     (case scan_step address cs of
        Inl e \<Rightarrow> Inl e
      | Inr (st, r) \<Rightarrow>
          (case r of
             [] \<Rightarrow> Inr (steps @ [st])
           | c # r' \<Rightarrow>
               if c = CHR ''.'' then parse_loop address r' (steps @ [st])
               else Inl (TrailingAfterIndex address c)))"
  by pat_completeness auto
termination
  by (relation "measure (\<lambda>(_, cs, _). length cs)") (auto dest!: scan_step_length)

declare parse_loop.simps [simp del]

definition parse_steps :: "string \<Rightarrow> (address_error, step list) result" where
  "parse_steps address = (if address = [] then Inl Empty else parse_loop address address [])"

section \<open>Leaf keys\<close>

definition leaf_key :: "string \<Rightarrow> (address_error, leaf_key_t) result" where
  "leaf_key address =
     bind_result (parse_steps address) (\<lambda>steps.
       (case List.map_filter step_key steps of
          k # _ \<Rightarrow> Inr (Keyed k)
        | [] \<Rightarrow>
            if 2 \<le> length steps \<and> step_name (steps ! 0) = ''module''
            then Inr (Module (''module.'' @ step_name (steps ! 1)))
            else Inr (Address address)))"

definition strip_index :: "string \<Rightarrow> (address_error, string) result" where
  "strip_index address =
     bind_result (parse_steps address) (\<lambda>steps. Inr (join_with ''.'' (map step_name steps)))"

definition is_data :: "string \<Rightarrow> bool" where
  "is_data address =
     (let rest = (case strip_prefix address ''module.'' of
                    None \<Rightarrow> address
                  | Some r \<Rightarrow> (case split_once CHR ''.'' r of None \<Rightarrow> address | Some (_, t) \<Rightarrow> t))
      in starts_with address ''data.'' \<or> starts_with rest ''data.'')"

section \<open>Classification\<close>

datatype fat_reason = MultipleLeafKeys nat | CycleOverBudget u64 u64

record classification =
  cl_leaf_keys :: nat
  cl_cycle_p95_ms :: "u64 option"
  cl_budget_ms :: "u64 option"
  cl_fat :: bool
  cl_reasons :: "fat_reason list"

definition distinct_leaf_keys :: "string list \<Rightarrow> (address_error, leaf_key_t list) result" where
  "distinct_leaf_keys addresses =
     bind_result (map_result leaf_key (filter (\<lambda>a. \<not> is_data a) addresses)) (\<lambda>ks. Inr (bs_of_list ks))"

definition classify_counts :: "nat \<Rightarrow> u64 option \<Rightarrow> u64 option \<Rightarrow> classification" where
  "classify_counts leaf_keys cycle_p95_ms budget_ms =
     (let reasons =
        (if 1 < leaf_keys then [MultipleLeafKeys leaf_keys] else []) @
        (case (cycle_p95_ms, budget_ms) of
           (Some p95, Some budget) \<Rightarrow> if budget < p95 then [CycleOverBudget p95 budget] else []
         | _ \<Rightarrow> [])
      in \<lparr>cl_leaf_keys = leaf_keys, cl_cycle_p95_ms = cycle_p95_ms, cl_budget_ms = budget_ms,
          cl_fat = (reasons \<noteq> []), cl_reasons = reasons\<rparr>)"

definition classify :: "string list \<Rightarrow> u64 option \<Rightarrow> u64 option \<Rightarrow> (address_error, classification) result" where
  "classify addresses cycle_p95_ms budget_ms =
     bind_result (distinct_leaf_keys addresses)
       (\<lambda>ks. Inr (classify_counts (length ks) cycle_p95_ms budget_ms))"

section \<open>What the scanner accepts\<close>

definition valid_segment :: "string \<Rightarrow> bool" where
  "valid_segment w \<longleftrightarrow> w \<noteq> [] \<and> list_all is_name_char w"

definition plain_step :: "string \<Rightarrow> step" where
  "plain_step w = \<lparr>step_name = w, step_key = None\<rparr>"

lemma takeWhile_segment:
  assumes "valid_segment w" and "r = [] \<or> \<not> is_name_char (hd r)"
  shows "takeWhile is_name_char (w @ r) = w" and "dropWhile is_name_char (w @ r) = r"
  using assms
  by (cases r; simp add: valid_segment_def list_all_iff takeWhile_append2 dropWhile_append2)+

lemma scan_step_plain:
  assumes "valid_segment w" and "r = [] \<or> hd r = CHR ''.''"
  shows "scan_step a (w @ r) = Inr (plain_step w, r)"
proof -
  from assms(2) have stop: "r = [] \<or> \<not> is_name_char (hd r)" by (auto simp: is_name_char_def)
  have "w \<noteq> []" using assms(1) by (simp add: valid_segment_def)
  with assms(2) show ?thesis
    unfolding scan_step_def Let_def takeWhile_segment [OF assms(1) stop] plain_step_def
    by (auto split: list.splits)
qed

lemma scan_step_indexed:
  assumes "valid_segment w" and "scan_index a ix = Inr (k, r)"
  shows "scan_step a (w @ CHR ''['' # ix) = Inr (\<lparr>step_name = w, step_key = Some k\<rparr>, r)"
proof -
  have stop: "CHR ''['' # ix = [] \<or> \<not> is_name_char (hd (CHR ''['' # ix))"
    by (simp add: is_name_char_def)
  have "w \<noteq> []" using assms(1) by (simp add: valid_segment_def)
  with assms takeWhile_segment [OF assms(1) stop] show ?thesis
    by (simp add: scan_step_def Let_def)
qed

lemma parse_loop_plain:
  assumes "ws \<noteq> []" and "list_all valid_segment ws"
  shows "parse_loop a (join_with ''.'' ws) steps = Inr (steps @ map plain_step ws)"
  using assms
proof (induction ws arbitrary: steps)
  case (Cons w ws)
  show ?case
  proof (cases ws)
    case Nil
    with Cons.prems scan_step_plain [of w "[]" a] show ?thesis
      by (subst parse_loop.simps) simp
  next
    case (Cons v vs)
    with Cons.prems have w: "valid_segment w" and rest: "list_all valid_segment ws" by auto
    have "scan_step a (w @ CHR ''.'' # join_with ''.'' ws) = Inr (plain_step w, CHR ''.'' # join_with ''.'' ws)"
      by (rule scan_step_plain [OF w]) simp
    with Cons Cons.IH [of "steps @ [plain_step w]"] rest show ?thesis
      by (subst parse_loop.simps) (simp add: join_with_Cons)
  qed
qed simp

lemma parse_loop_indexed:
  assumes "ws \<noteq> []" and "list_all valid_segment ws" and "scan_index a ix = Inr (k, [])"
  shows "parse_loop a (join_with ''.'' ws @ CHR ''['' # ix) steps =
    Inr (steps @ map plain_step (butlast ws) @ [\<lparr>step_name = last ws, step_key = Some k\<rparr>])"
  using assms(1,2)
proof (induction ws arbitrary: steps)
  case (Cons w ws)
  show ?case
  proof (cases ws)
    case Nil
    with Cons.prems scan_step_indexed [of w a ix k "[]"] assms(3) show ?thesis
      by (subst parse_loop.simps) simp
  next
    case (Cons v vs)
    with Cons.prems have w: "valid_segment w" and rest: "list_all valid_segment ws" by auto
    let ?r = "CHR ''.'' # join_with ''.'' ws @ CHR ''['' # ix"
    have "scan_step a (w @ ?r) = Inr (plain_step w, ?r)"
      by (rule scan_step_plain [OF w]) simp
    with Cons Cons.IH [of "steps @ [plain_step w]"] rest show ?thesis
      by (subst parse_loop.simps) (simp add: join_with_Cons)
  qed
qed simp

lemma map_filter_plain: "List.map_filter step_key (map plain_step ws @ sts) = List.map_filter step_key sts"
  by (induction ws) (simp_all add: plain_step_def List.map_filter_simps)

lemma map_step_name_plain: "map step_name (map plain_step ws) = ws"
  by (induction ws) (simp_all add: plain_step_def)

lemma join_with_not_Nil: "ws \<noteq> [] \<Longrightarrow> list_all valid_segment ws \<Longrightarrow> join_with ''.'' ws \<noteq> []"
  by (cases ws; cases "tl ws") (auto simp: valid_segment_def)

text \<open>An address made of segments and one index at the end has that index as its key, and
  stripping the index gives the segments back.\<close>

lemma indexed_address:
  assumes "ws \<noteq> []" and "list_all valid_segment ws"
    and "\<And>a. scan_index a ix = Inr (k, [])"
  shows "leaf_key (join_with ''.'' ws @ CHR ''['' # ix) = Inr (Keyed k)"
    and "strip_index (join_with ''.'' ws @ CHR ''['' # ix) = Inr (join_with ''.'' ws)"
proof -
  let ?a = "join_with ''.'' ws @ CHR ''['' # ix"
  have parse: "parse_steps ?a = Inr (map plain_step (butlast ws) @ [\<lparr>step_name = last ws, step_key = Some k\<rparr>])"
    unfolding parse_steps_def using parse_loop_indexed [OF assms(1,2) assms(3), where steps = "[]"] by simp
  show "leaf_key ?a = Inr (Keyed k)"
    by (simp add: leaf_key_def parse map_filter_plain List.map_filter_simps)
  show "strip_index ?a = Inr (join_with ''.'' ws)"
    using assms(1) by (simp add: strip_index_def parse map_step_name_plain [unfolded map_map] append_butlast_last_id comp_def plain_step_def)
qed

lemma plain_address:
  assumes "ws \<noteq> []" and "list_all valid_segment ws"
  shows "leaf_key (join_with ''.'' ws) =
      Inr (if 2 \<le> length ws \<and> ws ! 0 = ''module'' then Module (''module.'' @ ws ! 1)
           else Address (join_with ''.'' ws))"
    and "strip_index (join_with ''.'' ws) = Inr (join_with ''.'' ws)"
proof -
  have parse: "parse_steps (join_with ''.'' ws) = Inr (map plain_step ws)"
    unfolding parse_steps_def
    using parse_loop_plain [OF assms, where steps = "[]"] join_with_not_Nil [OF assms] by simp
  have none: "List.map_filter step_key (map plain_step ws) = []"
    using map_filter_plain [of ws "[]"] by (simp add: List.map_filter_simps)
  show "leaf_key (join_with ''.'' ws) =
      Inr (if 2 \<le> length ws \<and> ws ! 0 = ''module'' then Module (''module.'' @ ws ! 1)
           else Address (join_with ''.'' ws))"
    using assms(1) by (auto simp: leaf_key_def parse none plain_step_def)
  show "strip_index (join_with ''.'' ws) = Inr (join_with ''.'' ws)"
    by (simp add: strip_index_def parse comp_def plain_step_def)
qed

section \<open>Classification\<close>

lemma distinct_leaf_keys_Inr:
  assumes "distinct_leaf_keys addresses = Inr ks"
  shows "bs_wf ks"
    and "set ks = {k. \<exists>a \<in> set addresses. \<not> is_data a \<and> leaf_key a = Inr k}"
proof -
  from assms obtain ls where ls: "map_result leaf_key (filter (\<lambda>a. \<not> is_data a) addresses) = Inr ls"
    and ks: "ks = bs_of_list ls"
    by (auto simp: distinct_leaf_keys_def bind_result_Inr_iff)
  then show "bs_wf ks" by simp
  from ls have all2: "list_all2 (\<lambda>a k. leaf_key a = Inr k) (filter (\<lambda>a. \<not> is_data a) addresses) ls"
    by (simp add: map_result_Inr_iff)
  then have "set ls = {k. \<exists>a \<in> set (filter (\<lambda>a. \<not> is_data a) addresses). leaf_key a = Inr k}"
    by (induction rule: list_all2_induct) auto
  with ks show "set ks = {k. \<exists>a \<in> set addresses. \<not> is_data a \<and> leaf_key a = Inr k}"
    by auto
qed

lemma classify_counts_fat:
  "cl_fat (classify_counts n p95 budget) \<longleftrightarrow>
     1 < n \<or> (\<exists>p b. p95 = Some p \<and> budget = Some b \<and> b < p)"
  by (auto simp: classify_counts_def Let_def split: option.splits)

lemma classify_counts_leaf_keys [simp]: "cl_leaf_keys (classify_counts n p95 budget) = n"
  by (simp add: classify_counts_def Let_def)

text \<open>A data source two modules deep is not recognised as data.\<close>

lemma nested_module_data_missed: "\<not> is_data ''module.a.module.b.data.aws_ami.x''"
  by code_simp

lemma shallow_data_recognised: "is_data ''data.aws_ami.x''" "is_data ''module.a.data.aws_ami.x''"
  by code_simp+

end
