(* ===== verification/Leaf_Sources.thy ===== *)
theory Leaf_Sources
  imports Leaf_Address
begin

text \<open>
  Reading Terraform documents (\<open>pangea-leaf/src/sources.rs\<close>): a JSON value as
  \<open>serde_json\<close> has it (objects keep insertion order), the addresses of a version 4
  state, and the actions and references of a plan in the Terraform and the Magma shape.
  Error messages are kept as structured reasons, one constructor per message of the code.
  \<open>serde_json\<close>'s text parser is a parameter of \<open>normalize_address\<close>, the only function
  here that parses text. A JSON float is kept as the text it prints to; no float is computed
  with here.
\<close>

section \<open>JSON values\<close>

datatype json_number = PosInt u64 | NegInt int | Float string

datatype json = JNull | JBool bool | JNum json_number | JStr string
  | JArr "json list" | JObj "(string \<times> json) list"

fun jget :: "json \<Rightarrow> string \<Rightarrow> json option" where
  "jget (JObj o') k = map_of o' k"
| "jget _ k = None"

fun as_str :: "json \<Rightarrow> string option" where
  "as_str (JStr s) = Some s" | "as_str _ = None"

fun as_array :: "json \<Rightarrow> json list option" where
  "as_array (JArr a) = Some a" | "as_array _ = None"

fun as_object :: "json \<Rightarrow> (string \<times> json) list option" where
  "as_object (JObj o') = Some o'" | "as_object _ = None"

fun as_u64 :: "json \<Rightarrow> u64 option" where
  "as_u64 (JNum (PosInt n)) = Some n" | "as_u64 _ = None"

definition get_str :: "json \<Rightarrow> string \<Rightarrow> string option" where
  "get_str v k = Option.bind (jget v k) as_str"

definition get_array :: "json \<Rightarrow> string \<Rightarrow> json list option" where
  "get_array v k = Option.bind (jget v k) as_array"

fun show_number :: "json_number \<Rightarrow> string" where
  "show_number (PosInt n) = show_nat (unat n)"
| "show_number (NegInt i) = show_int i"
| "show_number (Float t) = t"

lemma size_pair_in_list: "(k, x) \<in> set xs \<Longrightarrow> size x < size_list (size_prod (\<lambda>_. 0) size) xs"
  by (induction xs) auto

lemma jget_size: "jget v k = Some x \<Longrightarrow> size x < size v"
  by (cases v) (auto dest!: map_of_SomeD size_pair_in_list simp: less_Suc_eq)

lemma size_elem_in_list: "x \<in> set xs \<Longrightarrow> size x < size_list size xs" for x :: json
  by (induction xs) auto

section \<open>Plan actions\<close>

datatype state_problem = NoResources | ResourceWithoutType | ResourceWithoutName | NoInstances string

datatype plan_problem = NoChanges | ChangeWithoutAddress | ChangeWithoutAction
  | BadActions string "string list" | AddressWithoutType | AddressWithoutName
  | UnsupportedModuleStep json | AddressNotJson

datatype source_error = State state_problem | Plan plan_problem | SourceAddress address_error

datatype plan_action = NoOp | Read | Create | Update | Delete | Replace

definition parse_one :: "string \<Rightarrow> plan_action option" where
  "parse_one s =
     (if s = ''no_op'' \<or> s = ''no-op'' then Some NoOp
      else if s = ''read'' then Some Read
      else if s = ''create'' then Some Create
      else if s = ''update'' then Some Update
      else if s = ''delete'' then Some Delete
      else if s = ''replace'' then Some Replace
      else None)"

fun from_actions :: "string list \<Rightarrow> plan_action option" where
  "from_actions [one] = parse_one one"
| "from_actions [a, b] =
     (if a = ''delete'' \<and> b = ''create'' \<or> a = ''create'' \<and> b = ''delete'' then Some Replace else None)"
| "from_actions _ = None"

definition adds :: "plan_action \<Rightarrow> bool" where
  "adds a \<longleftrightarrow> a = Create \<or> a = Replace"

definition changes :: "plan_action \<Rightarrow> bool" where
  "changes a \<longleftrightarrow> a = Update"

definition destroys :: "plan_action \<Rightarrow> bool" where
  "destroys a \<longleftrightarrow> a = Delete \<or> a = Replace"

section \<open>State addresses\<close>

text \<open>\<open>s.replace('\\', "\\\\").replace('"', "\\\"")\<close>.\<close>

definition replace_char :: "char \<Rightarrow> string \<Rightarrow> string \<Rightarrow> string" where
  "replace_char c r s = concat (map (\<lambda>x. if x = c then r else [x]) s)"

fun index_text :: "json \<Rightarrow> string option" where
  "index_text (JStr s) =
     Some ([CHR ''['', CHR 0x22]
       @ replace_char CHR 0x22 [CHR 0x5C, CHR 0x22] (replace_char CHR 0x5C [CHR 0x5C, CHR 0x5C] s)
       @ [CHR 0x22, CHR '']''])"
| "index_text (JNum n) = Some (''['' @ show_number n @ '']'')"
| "index_text _ = None"

definition resource_base :: "json \<Rightarrow> (source_error, string) result" where
  "resource_base r =
     (case get_str r ''type'' of
        None \<Rightarrow> Inl (State ResourceWithoutType)
      | Some ty \<Rightarrow>
          (case get_str r ''name'' of
             None \<Rightarrow> Inl (State ResourceWithoutName)
           | Some name \<Rightarrow>
               Inr (case get_str r ''module'' of
                      Some m \<Rightarrow> if m \<noteq> [] then m @ ''.'' @ ty @ ''.'' @ name else ty @ ''.'' @ name
                    | None \<Rightarrow> ty @ ''.'' @ name)))"

definition instance_address :: "string \<Rightarrow> json \<Rightarrow> string" where
  "instance_address base inst =
     (case Option.bind (jget inst ''index_key'') index_text of Some ix \<Rightarrow> base @ ix | None \<Rightarrow> base)"

definition is_managed :: "json \<Rightarrow> bool" where
  "is_managed r \<longleftrightarrow> get_str r ''mode'' = Some ''managed''"

definition resource_addresses :: "json \<Rightarrow> (source_error, string list) result" where
  "resource_addresses r =
     bind_result (resource_base r) (\<lambda>base.
       (case get_array r ''instances'' of
          None \<Rightarrow> Inl (State (NoInstances base))
        | Some instances \<Rightarrow> Inr (map (instance_address base) instances)))"

definition addresses_from_state :: "json \<Rightarrow> (source_error, string list) result" where
  "addresses_from_state state =
     (case get_array state ''resources'' of
        None \<Rightarrow> Inl (State NoResources)
      | Some resources \<Rightarrow>
          fold_result
            (\<lambda>r out. if \<not> is_managed r then Inr out
                      else bind_result (resource_addresses r) (\<lambda>as. Inr (out @ as)))
            resources [])"

text \<open>\<open>text.lines()\<close> ends a line at a line feed and drops a carriage return before it; the
  carriage return is white space, so trimming removes it in either reading, and a trailing
  empty line is filtered out.\<close>

definition addresses_from_lines :: "string \<Rightarrow> string list" where
  "addresses_from_lines text =
     filter (\<lambda>l. l \<noteq> [] \<and> \<not> starts_with l ''#'') (map str_trim (split_at CHR 0x0A text))"

section \<open>Plans\<close>

record plan_view =
  pv_changes :: "(string \<times> plan_action) list"
  pv_references :: "(string \<times> string) list"

fun module_step :: "json \<Rightarrow> string \<Rightarrow> (source_error, string) result" where
  "module_step (JStr x) s =
     Inr (if starts_with x ''module.'' then s @ x @ ''.'' else s @ ''module.'' @ x @ ''.'')"
| "module_step other s = Inl (Plan (UnsupportedModuleStep other))"

definition magma_address :: "json \<Rightarrow> (source_error, string) result" where
  "magma_address a =
     (case get_str a ''type_id'' of
        None \<Rightarrow> Inl (Plan AddressWithoutType)
      | Some ty \<Rightarrow>
          (case get_str a ''name'' of
             None \<Rightarrow> Inl (Plan AddressWithoutName)
           | Some name \<Rightarrow>
               bind_result
                 (case get_array a ''module'' of
                    None \<Rightarrow> Inr []
                  | Some mods \<Rightarrow> fold_result module_step mods [])
                 (\<lambda>s. Inr (s @ (if get_str a ''kind'' = Some ''data'' then ''data.'' else [])
                        @ ty @ ''.'' @ name
                        @ (case Option.bind (jget a ''key'') index_text of Some ix \<Rightarrow> ix | None \<Rightarrow> [])))))"

definition normalize_address ::
    "(string \<Rightarrow> json option) \<Rightarrow> string \<Rightarrow> (source_error, string) result" where
  "normalize_address parse_json raw =
     (if starts_with raw ''{'' then
        (case parse_json raw of None \<Rightarrow> Inl (Plan AddressNotJson) | Some v \<Rightarrow> magma_address v)
      else Inr raw)"

definition is_target_char :: "char \<Rightarrow> bool" where
  "is_target_char c \<longleftrightarrow> is_ascii_alphanumeric c \<or> c = CHR ''_'' \<or> c = CHR ''-'' \<or> c = CHR ''.''"

definition interpolation_target :: "string \<Rightarrow> string list \<Rightarrow> string list" where
  "interpolation_target rest out =
     (case split_at CHR ''.'' (takeWhile is_target_char rest) of
        t # n # _ \<Rightarrow>
          if t \<noteq> [] \<and> n \<noteq> [] \<and> t \<noteq> ''var'' \<and> t \<noteq> ''local'' \<and> t \<noteq> ''each''
          then bs_insert (t @ ''.'' @ n) out else out
      | _ \<Rightarrow> out)"

text \<open>The loop over the occurrences of \<open>${\<close> in one string.\<close>

fun scan_interpolations :: "string \<Rightarrow> string list \<Rightarrow> string list" where
  "scan_interpolations (c # d # rest) out =
     (if c = CHR ''$'' \<and> d = CHR ''{''
      then scan_interpolations rest (interpolation_target rest out)
      else scan_interpolations (d # rest) out)"
| "scan_interpolations _ out = out"

fun interpolated_targets :: "json \<Rightarrow> string list \<Rightarrow> string list" where
  "interpolated_targets (JStr s) out = scan_interpolations s out"
| "interpolated_targets (JArr a) out = fold interpolated_targets a out"
| "interpolated_targets (JObj o') out = fold (\<lambda>(k, x). interpolated_targets x) o' out"
| "interpolated_targets _ out = out"

fun config_references :: "json \<Rightarrow> string list \<Rightarrow> string list" where
  "config_references (JObj o') out =
     fold (\<lambda>(k, x) out.
         if k = ''references'' then
           (case as_array x of
              Some a \<Rightarrow> fold bs_insert (List.map_filter as_str a) out
            | None \<Rightarrow> out)
         else config_references x out)
       o' out"
| "config_references (JArr a) out = fold config_references a out"
| "config_references _ out = out"

definition resource_ref :: "string \<Rightarrow> string option" where
  "resource_ref raw =
     (case split_at CHR ''.'' raw of
        first # second # _ \<Rightarrow>
          if first \<in> {''var'', ''local'', ''each'', ''count'', ''path'', ''terraform'', ''self'', ''module'', ''data''}
          then None else Some (first @ ''.'' @ second)
      | _ \<Rightarrow> None)"

definition add_references :: "string \<Rightarrow> string list \<Rightarrow> plan_view \<Rightarrow> plan_view" where
  "add_references from ts view =
     view\<lparr>pv_references := fold (\<lambda>t. bs_insert (from, t)) (filter (\<lambda>t. t \<noteq> from) ts) (pv_references view)\<rparr>"

definition lift_address :: "(address_error, 'a) result \<Rightarrow> (source_error, 'a) result" where
  "lift_address r = (case r of Inl e \<Rightarrow> Inl (SourceAddress e) | Inr x \<Rightarrow> Inr x)"

definition collect_resource :: "json \<Rightarrow> plan_view \<Rightarrow> (source_error, plan_view) result" where
  "collect_resource r view =
     (case get_str r ''address'' of
        None \<Rightarrow> Inr view
      | Some addr \<Rightarrow>
          (let refs = (case jget r ''expressions'' of Some e \<Rightarrow> config_references e [] | None \<Rightarrow> []) in
           bind_result (lift_address (strip_index addr)) (\<lambda>from.
             Inr (add_references from (List.map_filter resource_ref refs) view))))"

function collect_config :: "json \<Rightarrow> plan_view \<Rightarrow> (source_error, plan_view) result" where
  "collect_config module view =
     bind_result
       (case get_array module ''resources'' of
          None \<Rightarrow> Inr view
        | Some rs \<Rightarrow> fold_result collect_resource rs view)
       (\<lambda>view.
         (case Option.bind (jget module ''module_calls'') as_object of
            None \<Rightarrow> Inr view
          | Some calls \<Rightarrow>
              fold_result
                (\<lambda>(k, call) view.
                   (case jget call ''module'' of None \<Rightarrow> Inr view | Some m \<Rightarrow> collect_config m view))
                calls view))"
  by pat_completeness auto

lemma module_call_size:
  assumes "Option.bind (jget v ''module_calls'') as_object = Some calls" and "(k, call) \<in> set calls"
    and "jget call ''module'' = Some m"
  shows "size m < size v"
proof -
  from assms(1) have "jget v ''module_calls'' = Some (JObj calls)"
    by (auto simp: bind_eq_Some_conv elim: as_object.elims)
  then have "size (JObj calls) < size v" by (rule jget_size)
  moreover have "size call < size (JObj calls)" using size_pair_in_list [OF assms(2)] by simp
  ultimately show ?thesis using jget_size [OF assms(3)] by simp
qed

termination collect_config
  by (relation "measure (size \<circ> fst)") (auto intro: module_call_size)

declare collect_config.simps [simp del]

definition change_action :: "json \<Rightarrow> (source_error, string \<times> plan_action \<times> json option) result" where
  "change_action c =
     (case jget c ''address'' of
        Some (JStr s) \<Rightarrow>
          (let actions = (case Option.bind (Option.bind (jget c ''change'') (\<lambda>ch. jget ch ''actions'')) as_array of
                         Some a \<Rightarrow> List.map_filter as_str a | None \<Rightarrow> []) in
           (case from_actions actions of
              None \<Rightarrow> Inl (Plan (BadActions s actions))
            | Some action \<Rightarrow> Inr (s, action, None)))
      | Some (JObj o') \<Rightarrow>
          (case Option.bind (get_str c ''action'') parse_one of
             None \<Rightarrow> Inl (Plan ChangeWithoutAction)
           | Some a \<Rightarrow> bind_result (magma_address (JObj o')) (\<lambda>addr. Inr (addr, a, jget c ''after'')))
      | _ \<Rightarrow> Inl (Plan ChangeWithoutAddress))"

definition plan_change :: "json \<Rightarrow> plan_view \<Rightarrow> (source_error, plan_view) result" where
  "plan_change c view =
     bind_result (change_action c) (\<lambda>(address, action, after).
       bind_result
         (case after of
            None \<Rightarrow> Inr view
          | Some v \<Rightarrow>
              bind_result (lift_address (strip_index address)) (\<lambda>from.
                Inr (add_references from (interpolated_targets v []) view)))
         (\<lambda>view. Inr (view\<lparr>pv_changes := pv_changes view @ [(address, action)]\<rparr>)))"

definition plan_view_of :: "json \<Rightarrow> (source_error, plan_view) result" where
  "plan_view_of plan =
     (case get_array plan ''resource_changes'' of
        None \<Rightarrow> Inl (Plan NoChanges)
      | Some cs \<Rightarrow>
          bind_result (fold_result plan_change cs \<lparr>pv_changes = [], pv_references = []\<rparr>) (\<lambda>view.
            (case Option.bind (jget plan ''configuration'') (\<lambda>c. jget c ''root_module'') of
               Some cfg \<Rightarrow> collect_config cfg view
             | None \<Rightarrow> Inr view)))"

section \<open>Quoting an index and scanning it back\<close>

definition escape_char :: "char \<Rightarrow> string" where
  "escape_char c = (if c = CHR 0x5C then [CHR 0x5C, CHR 0x5C] else if c = CHR 0x22 then [CHR 0x5C, CHR 0x22] else [c])"

lemma index_text_escape:
  "index_text (JStr s) = Some (CHR ''['' # CHR 0x22 # concat (map escape_char s) @ [CHR 0x22, CHR '']''])"
proof -
  have "replace_char CHR 0x22 [CHR 0x5C, CHR 0x22] (replace_char CHR 0x5C [CHR 0x5C, CHR 0x5C] s) =
      concat (map escape_char s)"
    by (induction s) (auto simp: replace_char_def escape_char_def)
  then show ?thesis by simp
qed

lemma scan_quoted_escape:
  "scan_quoted buf (concat (map escape_char s) @ CHR 0x22 # r) = Some (buf @ s, r)"
  by (induction s arbitrary: buf) (auto simp: escape_char_def)

lemma scan_index_quoted:
  "scan_index a (CHR 0x22 # concat (map escape_char s) @ [CHR 0x22, CHR '']'']) = Inr (s, [])"
  using scan_quoted_escape [of "[]" s "[CHR '']'']"] by (simp add: scan_index_def)

lemma digit_not_special:
  "is_ascii_digit c \<Longrightarrow> c \<noteq> CHR 0x22 \<and> c \<noteq> CHR '']'' \<and> c \<noteq> CHR ''-'' \<and> c \<noteq> CHR ''_'' \<and> c \<noteq> CHR ''.''"
  by (auto simp: is_ascii_digit_def)

lemma scan_index_plain:
  assumes "w \<noteq> []" and "list_all (\<lambda>c. c \<noteq> CHR 0x22 \<and> c \<noteq> CHR '']'') w"
  shows "scan_index a (w @ '']'') = Inr (w, [])"
proof -
  have "takeWhile (\<lambda>x. x \<noteq> CHR '']'') (w @ '']'') = w" "dropWhile (\<lambda>x. x \<noteq> CHR '']'') (w @ '']'') = '']''"
    using assms(2) by (simp_all add: list_all_iff takeWhile_append2 dropWhile_append2)
  moreover obtain c r where "w = c # r" using assms(1) by (cases w) simp_all
  ultimately show ?thesis using assms(2) by (simp add: scan_index_def)
qed

fun integral :: "json_number \<Rightarrow> bool" where
  "integral (Float _) = False" | "integral _ = True"

lemma scan_index_number:
  assumes "integral n"
  shows "scan_index a (show_number n @ '']'') = Inr (show_number n, [])"
proof (rule scan_index_plain)
  have digits: "list_all (\<lambda>c. c \<noteq> CHR 0x22 \<and> c \<noteq> CHR '']'') (show_nat m)" for m
    using show_nat_digits [of m] by (auto simp: list_all_iff dest: digit_not_special)
  from assms digits show "list_all (\<lambda>c. c \<noteq> CHR 0x22 \<and> c \<noteq> CHR '']'') (show_number n)"
    by (cases n) (auto simp: show_int_def)
  from assms show "show_number n \<noteq> []" by (cases n) (auto simp: show_int_def)
qed

text \<open>The key text an index value stands for.\<close>

fun index_key_text :: "json \<Rightarrow> string option" where
  "index_key_text (JStr s) = Some s"
| "index_key_text (JNum n) = (if integral n then Some (show_number n) else None)"
| "index_key_text _ = None"

lemma index_text_scans:
  assumes "index_key_text v = Some k"
  shows "\<exists>ix. index_text v = Some (CHR ''['' # ix) \<and> (\<forall>a. scan_index a ix = Inr (k, []))"
proof (cases v)
  case (JStr s)
  with assms index_text_escape [of s] scan_index_quoted show ?thesis by simp
next
  case (JNum n)
  with assms scan_index_number [of n] show ?thesis by (auto split: if_splits)
qed (use assms in auto)

text \<open>The address written for an instance scans back to what it was written from. For
  every base made of non-empty dotted segments and every string key, with any quotes,
  backslashes, dots or brackets in it, or integer key, the leaf key of
  \<open>instance_address base inst\<close> is that key, and stripping the index gives the base.\<close>

lemma instance_address_roundtrip:
  assumes "ws \<noteq> []" and "list_all valid_segment ws"
    and "Option.bind (jget inst ''index_key'') index_key_text = Some k"
  shows "leaf_key (instance_address (join_with ''.'' ws) inst) = Inr (Keyed k)
    \<and> strip_index (instance_address (join_with ''.'' ws) inst) = Inr (join_with ''.'' ws)"
proof -
  from assms(3) obtain v where "jget inst ''index_key'' = Some v" and "index_key_text v = Some k"
    by (auto simp: bind_eq_Some_conv)
  with index_text_scans obtain ix where addr: "instance_address (join_with ''.'' ws) inst = join_with ''.'' ws @ CHR ''['' # ix"
    and "\<And>a. scan_index a ix = Inr (k, [])"
    by (force simp: instance_address_def)
  with indexed_address [OF assms(1,2)] show ?thesis by simp
qed

section \<open>Plan views\<close>

definition wf_references :: "(string \<times> string) list \<Rightarrow> bool" where
  "wf_references rs \<longleftrightarrow> bs_wf rs \<and> (\<forall>(a, b) \<in> set rs. a \<noteq> b)"

lemma wf_references_Nil [simp]: "wf_references []"
  by (simp add: wf_references_def)

lemma wf_references_insert: "a \<noteq> b \<Longrightarrow> wf_references rs \<Longrightarrow> wf_references (bs_insert (a, b) rs)"
  by (simp add: wf_references_def bs_wf_insert)

lemma wf_references_add: "wf_references (pv_references v) \<Longrightarrow> wf_references (pv_references (add_references from ts v))"
proof -
  have "wf_references (fold (\<lambda>t. bs_insert (from, t)) (filter (\<lambda>t. t \<noteq> from) ts) rs)" if "wf_references rs" for rs
    using that by (induction ts arbitrary: rs) (auto simp: wf_references_insert)
  then show "wf_references (pv_references v) \<Longrightarrow> ?thesis" by (simp add: add_references_def)
qed

lemma pv_changes_add_references [simp]: "pv_changes (add_references from ts v) = pv_changes v"
  by (simp add: add_references_def)

definition view_keeps :: "plan_view \<Rightarrow> plan_view \<Rightarrow> bool" where
  "view_keeps v w \<longleftrightarrow> pv_changes w = pv_changes v \<and> (wf_references (pv_references v) \<longrightarrow> wf_references (pv_references w))"

lemma view_keeps_add: "view_keeps v (add_references from ts v)"
  by (simp add: view_keeps_def wf_references_add)

lemma view_keeps_refl: "view_keeps v v"
  by (simp add: view_keeps_def)

lemma view_keeps_trans: "view_keeps u v \<Longrightarrow> view_keeps v w \<Longrightarrow> view_keeps u w"
  by (simp add: view_keeps_def)

lemma fold_result_keeps:
  assumes "fold_result f xs v = Inr w" and "\<And>x u t. x \<in> set xs \<Longrightarrow> f x u = Inr t \<Longrightarrow> view_keeps u t"
  shows "view_keeps v w"
  by (rule fold_result_invariant [OF assms(1)]) (auto intro: view_keeps_refl view_keeps_trans assms(2))

lemma collect_resource_keeps: "collect_resource r v = Inr w \<Longrightarrow> view_keeps v w"
  by (auto simp: collect_resource_def bind_result_Inr_iff Let_def view_keeps_refl view_keeps_add split: option.splits)

lemma collect_config_keeps: "collect_config m v = Inr w \<Longrightarrow> view_keeps v w"
proof (induction m v arbitrary: w rule: collect_config.induct)
  case (1 m v)
  from 1(2) obtain u where
    u: "(case get_array m ''resources'' of None \<Rightarrow> Inr v | Some rs \<Rightarrow> fold_result collect_resource rs v) = Inr u"
    and w: "(case Option.bind (jget m ''module_calls'') as_object of None \<Rightarrow> Inr u
      | Some calls \<Rightarrow> fold_result (\<lambda>(k, call) view.
          (case jget call ''module'' of None \<Rightarrow> Inr view | Some m \<Rightarrow> collect_config m view)) calls u) = Inr w"
    by (subst (asm) collect_config.simps) (auto simp: bind_result_Inr_iff)
  from u have "view_keeps v u"
    by (auto split: option.splits intro: view_keeps_refl fold_result_keeps collect_resource_keeps)
  moreover have "view_keeps u w"
  proof (cases "Option.bind (jget m ''module_calls'') as_object")
    case (Some calls)
    with w have "fold_result (\<lambda>(k, call) view.
        (case jget call ''module'' of None \<Rightarrow> Inr view | Some m \<Rightarrow> collect_config m view)) calls u = Inr w" by simp
    then show ?thesis
      by (rule fold_result_keeps) (use 1(1) [OF Some] in \<open>auto split: option.splits intro: view_keeps_refl\<close>)
  qed (use w in \<open>simp add: view_keeps_refl\<close>)
  ultimately show ?case by (rule view_keeps_trans)
qed

lemma plan_change_Inr:
  assumes "plan_change c v = Inr w"
  shows "\<exists>address action after. change_action c = Inr (address, action, after)
    \<and> pv_changes w = pv_changes v @ [(address, action)]"
    and "wf_references (pv_references v) \<Longrightarrow> wf_references (pv_references w)"
  using assms
  by (auto simp: plan_change_def bind_result_Inr_iff wf_references_add split: option.splits)

lemma plan_changes_in_order:
  assumes "fold_result plan_change cs v = Inr w"
  shows "\<exists>xs. list_all2 (\<lambda>c (a, act). \<exists>after. change_action c = Inr (a, act, after)) cs xs
    \<and> pv_changes w = pv_changes v @ xs"
  using assms
proof (induction cs arbitrary: v)
  case (Cons c cs)
  then obtain u where u: "plan_change c v = Inr u" and rest: "fold_result plan_change cs u = Inr w"
    by (auto split: sum.splits)
  from plan_change_Inr(1) [OF u] obtain a act after where
    "change_action c = Inr (a, act, after)" and "pv_changes u = pv_changes v @ [(a, act)]" by blast
  moreover from Cons.IH [OF rest] obtain xs where
    "list_all2 (\<lambda>c (a, act). \<exists>after. change_action c = Inr (a, act, after)) cs xs"
    "pv_changes w = pv_changes u @ xs" by blast
  ultimately show ?case by (intro exI [of _ "(a, act) # xs"]) auto
qed simp

text \<open>A plan view lists one change per entry of \<open>resource_changes\<close>, in document order,
  with the address and the action read from that entry; its reference set is kept in order
  and never relates a resource to itself, however deep the configuration's modules nest.\<close>

lemma plan_view_contract:
  assumes "plan_view_of plan = Inr view"
  shows "(\<exists>cs. get_array plan ''resource_changes'' = Some cs
      \<and> list_all2 (\<lambda>c (a, act). \<exists>after. change_action c = Inr (a, act, after)) cs (pv_changes view))
    \<and> bs_wf (pv_references view) \<and> (\<forall>(a, b) \<in> set (pv_references view). a \<noteq> b)"
proof -
  from assms obtain cs u where cs: "get_array plan ''resource_changes'' = Some cs"
    and u: "fold_result plan_change cs \<lparr>pv_changes = [], pv_references = []\<rparr> = Inr u"
    and keeps: "view_keeps u view"
    by (auto simp: plan_view_of_def bind_result_Inr_iff intro: view_keeps_refl collect_config_keeps
        split: option.splits)
  have "wf_references (pv_references u)"
    by (rule fold_result_invariant [OF u, where P = "\<lambda>v. wf_references (pv_references v)"])
      (auto dest: plan_change_Inr(2))
  with keeps have "bs_wf (pv_references view) \<and> (\<forall>(a, b) \<in> set (pv_references view). a \<noteq> b)"
    by (simp add: view_keeps_def wf_references_def)
  with plan_changes_in_order [OF u] keeps cs show ?thesis by (auto simp: view_keeps_def)
qed

definition sample_plan :: json where
  "sample_plan = JObj [(''resource_changes'', JArr
     [JObj [(''address'', JObj [(''type_id'', JStr ''t''), (''name'', JStr ''a'')]),
            (''action'', JStr ''create''), (''after'', JStr ''${t.b.id}'')],
      JObj [(''address'', JStr ''t.b''), (''change'', JObj [(''actions'', JArr [JStr ''delete'', JStr ''create''])])]])]"

lemma sample_plan_view:
  "plan_view_of sample_plan =
     Inr \<lparr>pv_changes = [(''t.a'', Create), (''t.b'', Replace)], pv_references = [(''t.a'', ''t.b'')]\<rparr>"
  by code_simp

end
