(* ===== verification/Leaf_Partition.thy ===== *)
theory Leaf_Partition
  imports Leaf_Sources
begin

text \<open>
  Partitioning a state into leaves (\<open>pangea-leaf/src/partition.rs\<close>): grouping addresses by
  leaf key, merging groups along reference edges with a path-compressing union-find, and the
  order-independent hash that compares the address multisets before and after. BLAKE3 with
  its hex rendering is the parameter \<open>H\<close>. The two loops of \<open>find\<close> index the parent map and
  would panic on a missing key; they are partial functions whose \<open>None\<close> is a panic or a
  loop that never ends, and \<open>merge\<close> is proved to return on every well-formed partition.
\<close>

section \<open>Data\<close>

datatype partition_error = PartitionAddress address_error | Duplicate string

record leaf =
  lf_key :: leaf_key_t
  lf_merged_from :: "leaf_key_t list"
  lf_addresses :: "string list"

record bijection =
  bj_count_before :: nat
  bj_count_after :: nat
  bj_hash_before :: string
  bj_hash_after :: string
  bj_disjoint :: bool
  bj_ok :: bool

type_synonym partition = "(leaf_key_t, leaf) btmap"
type_synonym parents = "(leaf_key_t, leaf_key_t) btmap"

section \<open>The multiset hash\<close>

definition to_le_bytes :: "nat \<Rightarrow> string" where
  "to_le_bytes n = map (\<lambda>i. char_of (n div 256 ^ i mod 256)) [0..<8]"

definition hash_preimage :: "string list \<Rightarrow> string" where
  "hash_preimage addresses =
     (let sorted = sort addresses in
      to_le_bytes (length sorted) @ concat (map (\<lambda>a. to_le_bytes (length a) @ a) sorted))"

definition multiset_hash :: "(string \<Rightarrow> string) \<Rightarrow> string list \<Rightarrow> string" where
  "multiset_hash H addresses = H (hash_preimage addresses)"

section \<open>Building\<close>

definition empty_leaf :: "leaf_key_t \<Rightarrow> leaf" where
  "empty_leaf key = \<lparr>lf_key = key, lf_merged_from = [], lf_addresses = []\<rparr>"

definition build_step ::
    "string \<Rightarrow> string list \<times> partition \<Rightarrow> (partition_error, string list \<times> partition) result" where
  "build_step a s =
     (let (seen, leaves) = s in
      if a \<in> set seen then Inl (Duplicate a)
      else (case leaf_key a of
              Inl e \<Rightarrow> Inl (PartitionAddress e)
            | Inr key \<Rightarrow>
                Inr (bs_insert a seen,
                     bm_entry key (empty_leaf key) (\<lambda>l. l\<lparr>lf_addresses := lf_addresses l @ [a]\<rparr>) leaves)))"

definition build :: "string list \<Rightarrow> (partition_error, partition) result" where
  "build addresses =
     bind_result (fold_result build_step (filter (\<lambda>a. \<not> is_data a) addresses) ([], []))
       (\<lambda>(_, leaves). Inr (map (\<lambda>(k, l). (k, l\<lparr>lf_addresses := sort (lf_addresses l)\<rparr>)) leaves))"

section \<open>Merging\<close>

text \<open>The two loops of \<open>find\<close>: walk to the root, then point every key on the way at it.\<close>

partial_function (option) find_root :: "parents \<Rightarrow> leaf_key_t \<Rightarrow> leaf_key_t option" where
  "find_root parent root =
     (case bm_get parent root of
        None \<Rightarrow> None
      | Some p \<Rightarrow> if p \<noteq> root then find_root parent p else Some root)"

partial_function (option) compress :: "parents \<Rightarrow> leaf_key_t \<Rightarrow> leaf_key_t \<Rightarrow> parents option" where
  "compress parent root cur =
     (case bm_get parent cur of
        None \<Rightarrow> None
      | Some p \<Rightarrow> if p \<noteq> root then compress (bm_insert cur root parent) root p else Some parent)"

declare find_root.simps [code] compress.simps [code]

definition find :: "parents \<Rightarrow> leaf_key_t \<Rightarrow> (leaf_key_t \<times> parents) option" where
  "find parent k =
     (case find_root parent k of
        None \<Rightarrow> None
      | Some root \<Rightarrow> (case compress parent root k of None \<Rightarrow> None | Some parent' \<Rightarrow> Some (root, parent')))"

definition union_edge :: "parents \<Rightarrow> leaf_key_t \<times> leaf_key_t \<Rightarrow> parents option" where
  "union_edge parent e =
     (let (a, b) = e in
      if bm_get parent a = None \<or> bm_get parent b = None then Some parent
      else (case find parent a of
              None \<Rightarrow> None
            | Some (ra, parent) \<Rightarrow>
                (case find parent b of
                   None \<Rightarrow> None
                 | Some (rb, parent) \<Rightarrow>
                     if ra \<noteq> rb then
                       (let (lo, hi) = (if ra < rb then (ra, rb) else (rb, ra)) in Some (bm_insert hi lo parent))
                     else Some parent)))"

fun union_edges :: "(leaf_key_t \<times> leaf_key_t) list \<Rightarrow> parents \<Rightarrow> parents option" where
  "union_edges [] parent = Some parent"
| "union_edges (e # es) parent = Option.bind (union_edge parent e) (union_edges es)"

definition merge_leaf :: "leaf_key_t \<Rightarrow> leaf_key_t \<Rightarrow> leaf \<Rightarrow> partition \<Rightarrow> partition" where
  "merge_leaf root k l merged =
     bm_entry root (empty_leaf root)
       (\<lambda>slot. slot\<lparr>lf_merged_from := lf_merged_from slot @ (if k \<noteq> root then [k] else []),
                    lf_addresses := lf_addresses slot @ lf_addresses l\<rparr>) merged"

text \<open>The loop over the old leaves in key order, each removed from the map as it is folded in.\<close>

fun merge_loop :: "(leaf_key_t \<times> leaf) list \<Rightarrow> parents \<Rightarrow> partition \<Rightarrow> partition option" where
  "merge_loop [] parent merged = Some merged"
| "merge_loop ((k, l) # rest) parent merged =
     (case find parent k of
        None \<Rightarrow> None
      | Some (root, parent) \<Rightarrow> merge_loop rest parent (merge_leaf root k l merged))"

definition merge :: "(leaf_key_t \<times> leaf_key_t) list \<Rightarrow> partition \<Rightarrow> partition option" where
  "merge edges leaves =
     Option.bind (union_edges edges (bm_of_list (map (\<lambda>k. (k, k)) (bm_keys leaves)))) (\<lambda>parent.
       map_option (map (\<lambda>(k, l). (k, l\<lparr>lf_addresses := sort (lf_addresses l),
                                        lf_merged_from := sort (lf_merged_from l)\<rparr>)))
         (merge_loop leaves parent []))"

section \<open>Queries\<close>

definition leaves :: "partition \<Rightarrow> leaf list" where
  "leaves p = bm_values p"

definition partition_len :: "partition \<Rightarrow> nat" where
  "partition_len p = length p"

definition partition_is_empty :: "partition \<Rightarrow> bool" where
  "partition_is_empty p \<longleftrightarrow> p = []"

text \<open>\<open>slice::binary_search\<close>: whether the value is found between the two bounds.\<close>

function binary_search :: "'a::linorder list \<Rightarrow> 'a \<Rightarrow> nat \<Rightarrow> nat \<Rightarrow> bool" where
  "binary_search xs a lo hi =
     (if hi \<le> lo then False
      else let mid = lo + (hi - lo) div 2 in
           if xs ! mid = a then True
           else if xs ! mid < a then binary_search xs a (mid + 1) hi
           else binary_search xs a lo mid)"
  by pat_completeness auto
termination
  by (relation "measure (\<lambda>(_, _, lo, hi). hi - lo)") auto

declare binary_search.simps [simp del]

definition leaf_of :: "partition \<Rightarrow> string \<Rightarrow> leaf_key_t option" where
  "leaf_of p address =
     map_option lf_key
       (List.find (\<lambda>l. binary_search (lf_addresses l) address 0 (length (lf_addresses l))) (bm_values p))"

definition all_addresses :: "partition \<Rightarrow> string list" where
  "all_addresses p = concat (map lf_addresses (bm_values p))"

definition bijection_of :: "(string \<Rightarrow> string) \<Rightarrow> partition \<Rightarrow> string list \<Rightarrow> bijection" where
  "bijection_of H p before =
     (let before = filter (\<lambda>a. \<not> is_data a) before;
          after = all_addresses p;
          disjoint = length (bs_of_list after) = length after;
          hash_before = multiset_hash H before;
          hash_after = multiset_hash H after
      in \<lparr>bj_count_before = length before, bj_count_after = length after,
          bj_hash_before = hash_before, bj_hash_after = hash_after,
          bj_disjoint = disjoint, bj_ok = (disjoint \<and> hash_before = hash_after)\<rparr>)"

section \<open>The hash determines the multiset\<close>

lemma base256_digits:
  "n < 256 ^ k \<Longrightarrow> m < 256 ^ k \<Longrightarrow> (\<And>i. i < k \<Longrightarrow> n div 256 ^ i mod 256 = m div 256 ^ i mod 256) \<Longrightarrow> n = m"
  for n m :: nat
proof (induction k arbitrary: n m)
  case (Suc k)
  have "n div 256 = m div 256"
  proof (rule Suc.IH)
    show "n div 256 < 256 ^ k" "m div 256 < 256 ^ k" using Suc.prems(1,2) by (simp_all add: less_mult_imp_div_less mult.commute)
    show "n div 256 div 256 ^ i mod 256 = m div 256 div 256 ^ i mod 256" if "i < k" for i
      using Suc.prems(3) [of "Suc i"] that by (simp add: div_mult2_eq)
  qed
  moreover have "n mod 256 = m mod 256" using Suc.prems(3) [of 0] by simp
  ultimately show ?case by (metis div_mult_mod_eq)
qed simp

lemma length_to_le_bytes [simp]: "length (to_le_bytes n) = 8"
  by (simp add: to_le_bytes_def)

lemma to_le_bytes_inj:
  assumes "to_le_bytes n = to_le_bytes m" and "n < 2 ^ 64" and "m < 2 ^ 64"
  shows "n = m"
proof (rule base256_digits [of _ 8])
  show "n < 256 ^ 8" "m < 256 ^ 8" using assms(2,3) by simp_all
  fix i :: nat assume i: "i < 8"
  from assms(1) have "to_le_bytes n ! i = to_le_bytes m ! i" by simp
  with i have "char_of (n div 256 ^ i mod 256) = (char_of (m div 256 ^ i mod 256) :: char)"
    by (simp add: to_le_bytes_def)
  then have "of_char (char_of (n div 256 ^ i mod 256)) = (of_char (char_of (m div 256 ^ i mod 256)) :: nat)"
    by simp
  then show "n div 256 ^ i mod 256 = m div 256 ^ i mod 256" by (simp add: of_char_of)
qed

definition hashable :: "string list \<Rightarrow> bool" where
  "hashable xs \<longleftrightarrow> length xs < 2 ^ 64 \<and> (\<forall>x \<in> set xs. length x < 2 ^ 64)"

lemma framed_inject:
  assumes "length xs = length ys" and "\<forall>x \<in> set xs. length x < 2 ^ 64" and "\<forall>y \<in> set ys. length y < 2 ^ 64"
    and "concat (map (\<lambda>a. to_le_bytes (length a) @ a) xs) = concat (map (\<lambda>a. to_le_bytes (length a) @ a) ys)"
  shows "xs = ys"
  using assms
proof (induction xs ys rule: list_induct2)
  case (Cons x xs y ys)
  let ?rest = "\<lambda>zs. concat (map (\<lambda>a. to_le_bytes (length a) @ a) zs)"
  from Cons.prems(3) have eq: "to_le_bytes (length x) @ (x @ ?rest xs) = to_le_bytes (length y) @ (y @ ?rest ys)"
    by simp
  then have "to_le_bytes (length x) = to_le_bytes (length y)" and tail: "x @ ?rest xs = y @ ?rest ys"
    by (simp_all only: append_eq_append_conv length_to_le_bytes simp_thms)
  then have "length x = length y" using Cons.prems(1,2) by (auto intro: to_le_bytes_inj)
  with tail have "x = y" and "?rest xs = ?rest ys" by auto
  with Cons show ?case by simp
qed simp

lemma hash_preimage_cong:
  assumes "mset xs = mset ys"
  shows "hash_preimage xs = hash_preimage ys"
proof -
  have "sort xs = sort ys" by (rule properties_for_sort) (simp_all add: assms)
  then show ?thesis by (simp only: hash_preimage_def)
qed

lemma hash_preimage_inject:
  assumes "hash_preimage xs = hash_preimage ys" and "hashable xs" and "hashable ys"
  shows "mset xs = mset ys"
proof -
  let ?rest = "\<lambda>zs. concat (map (\<lambda>a. to_le_bytes (length a) @ a) (sort zs))"
  from assms(1) have "to_le_bytes (length xs) @ ?rest xs = to_le_bytes (length ys) @ ?rest ys"
    by (simp add: hash_preimage_def Let_def)
  then have "to_le_bytes (length xs) = to_le_bytes (length ys)" and rest: "?rest xs = ?rest ys"
    by (simp_all only: append_eq_append_conv length_to_le_bytes simp_thms)
  with assms(2,3) have "length xs = length ys" by (auto simp: hashable_def intro: to_le_bytes_inj)
  with rest assms(2,3) have "sort xs = sort ys"
    by (intro framed_inject) (simp_all add: hashable_def)
  then show ?thesis by (metis mset_sort)
qed

section \<open>What building gives\<close>

definition grouped :: "string list \<Rightarrow> partition \<Rightarrow> bool" where
  "grouped xs p \<longleftrightarrow> bm_wf p \<and> (\<forall>k. bm_get p k =
     (if \<exists>a \<in> set xs. leaf_key a = Inr k
      then Some \<lparr>lf_key = k, lf_merged_from = [], lf_addresses = filter (\<lambda>a. leaf_key a = Inr k) xs\<rparr>
      else None))"

lemma grouped_snoc:
  assumes "grouped xs p" and "leaf_key a = Inr key"
  shows "grouped (xs @ [a])
    (bm_entry key (empty_leaf key) (\<lambda>l. l\<lparr>lf_addresses := lf_addresses l @ [a]\<rparr>) p)"
proof -
  have none: "filter (\<lambda>a. leaf_key a = Inr k) xs = []" if "\<forall>a \<in> set xs. leaf_key a \<noteq> Inr k" for k
    using that by (simp add: filter_empty_conv)
  with assms show ?thesis
    by (auto simp: grouped_def bm_wf_entry bm_get_entry empty_leaf_def)
qed

lemma build_fold:
  assumes "fold_result build_step xs ([], []) = Inr (seen, p)"
  shows "grouped xs p" and "set seen = set xs" and "distinct xs" and "\<forall>a \<in> set xs. is_ok (leaf_key a)"
proof -
  have "grouped xs p \<and> set seen = set xs \<and> distinct xs \<and> (\<forall>a \<in> set xs. is_ok (leaf_key a))"
    using assms
  proof (induction xs arbitrary: seen p rule: rev_induct)
    case Nil
    then show ?case by (simp add: grouped_def)
  next
    case (snoc a xs)
    from snoc.prems obtain seen' p' where prev: "fold_result build_step xs ([], []) = Inr (seen', p')"
      and last: "build_step a (seen', p') = Inr (seen, p)"
      by (auto simp: fold_result_snoc bind_result_Inr_iff)
    from last obtain key where "a \<notin> set seen'" and "leaf_key a = Inr key"
      and "seen = bs_insert a seen'"
      and "p = bm_entry key (empty_leaf key) (\<lambda>l. l\<lparr>lf_addresses := lf_addresses l @ [a]\<rparr>) p'"
      by (auto simp: build_step_def split: if_splits sum.splits)
    with snoc.IH [OF prev] grouped_snoc show ?case by auto
  qed
  then show "grouped xs p" "set seen = set xs" "distinct xs" "\<forall>a \<in> set xs. is_ok (leaf_key a)" by simp_all
qed

lemma build_step_fresh:
  "a \<notin> set seen \<Longrightarrow> leaf_key a = Inr key \<Longrightarrow> \<exists>p'. build_step a (seen, p) = Inr (bs_insert a seen, p')"
  by (simp add: build_step_def)

lemma build_fold_ok:
  assumes "distinct xs" and "\<forall>a \<in> set xs. is_ok (leaf_key a)" 
  shows "\<exists>p. fold_result build_step xs ([], []) = Inr (bs_of_list xs, p)"
  using assms
proof (induction xs rule: rev_induct)
  case (snoc a xs)
  then obtain p where "fold_result build_step xs ([], []) = Inr (bs_of_list xs, p)" by auto
  moreover from snoc.prems obtain key where "leaf_key a = Inr key" by (cases "leaf_key a") auto
  moreover have "bs_of_list (xs @ [a]) = bs_insert a (bs_of_list xs)" by (simp add: bs_of_list_def)
  ultimately show ?case
    using snoc.prems build_step_fresh [of a "bs_of_list xs" key p] by (simp add: fold_result_snoc)
qed (simp add: bs_of_list_def)

text \<open>A well-formed partition: keys in order, every leaf filed under its own key.\<close>

definition partition_wf :: "partition \<Rightarrow> bool" where
  "partition_wf p \<longleftrightarrow> bm_wf p \<and> (\<forall>(k, l) \<in> set p. lf_key l = k \<and> sorted (lf_addresses l))"

lemma map_values_get:
  "bm_get (map (\<lambda>(k, l). (k, f l)) m) k = map_option f (bm_get m k)"
  by (induction m) (auto simp: bm_get_def)

lemma map_values_wf: "bm_wf (map (\<lambda>(k, l). (k, f l)) m) \<longleftrightarrow> bm_wf m"
proof -
  have "bm_keys (map (\<lambda>(k, l). (k, f l)) m) = bm_keys m" by (induction m) auto
  then show ?thesis unfolding bm_wf_def by (simp only:)
qed

lemma build_Inr:
  assumes "build addresses = Inr p"
  defines "xs \<equiv> filter (\<lambda>a. \<not> is_data a) addresses"
  shows "partition_wf p" and "distinct xs" and "\<forall>a \<in> set xs. is_ok (leaf_key a)"
    and "bm_get p k = (if \<exists>a \<in> set xs. leaf_key a = Inr k
      then Some \<lparr>lf_key = k, lf_merged_from = [], lf_addresses = sort (filter (\<lambda>a. leaf_key a = Inr k) xs)\<rparr>
      else None)"
proof -
  from assms(1) obtain seen q where q: "fold_result build_step xs ([], []) = Inr (seen, q)"
    and p: "p = map (\<lambda>(k, l). (k, l\<lparr>lf_addresses := sort (lf_addresses l)\<rparr>)) q"
    by (auto simp: build_def bind_result_Inr_iff xs_def)
  note b = build_fold [OF q]
  from b show "distinct xs" "\<forall>a \<in> set xs. is_ok (leaf_key a)" by simp_all
  from b(1) show get: "bm_get p k = (if \<exists>a \<in> set xs. leaf_key a = Inr k
      then Some \<lparr>lf_key = k, lf_merged_from = [], lf_addresses = sort (filter (\<lambda>a. leaf_key a = Inr k) xs)\<rparr>
      else None)" for k
    by (simp add: p map_values_get grouped_def)
  from b(1) have wf: "bm_wf p" by (simp add: p map_values_wf grouped_def)
  have "lf_key l = j \<and> sorted (lf_addresses l)" if "(j, l) \<in> set p" for j l
    using that get [of j] wf by (auto simp: bm_get_Some_iff [symmetric] split: if_splits)
  with wf show "partition_wf p" by (auto simp: partition_wf_def)
qed

section \<open>Union-find\<close>

definition uf_inv :: "parents \<Rightarrow> bool" where
  "uf_inv parent \<longleftrightarrow> (\<forall>k p. bm_get parent k = Some p \<longrightarrow> p \<le> k \<and> bm_get parent p \<noteq> None)"

definition below :: "parents \<Rightarrow> leaf_key_t \<Rightarrow> nat" where
  "below parent k = card {x \<in> set (bm_keys parent). x < k}"

lemma below_less: "p < k \<Longrightarrow> bm_get parent p \<noteq> None \<Longrightarrow> below parent p < below parent k"
  unfolding below_def
  by (rule psubset_card_mono) (auto simp: bm_get_None_iff intro: less_trans)

lemma uf_induct [consumes 2, case_names step]:
  assumes "uf_inv parent" and "bm_get parent k \<noteq> None"
    and "\<And>k p. bm_get parent k = Some p \<Longrightarrow> (p \<noteq> k \<Longrightarrow> P p) \<Longrightarrow> P k"
  shows "P k"
  using assms(2)
proof (induction "below parent k" arbitrary: k rule: less_induct)
  case less
  then obtain p where p: "bm_get parent k = Some p" by blast
  with assms(1) have "p \<le> k" and "bm_get parent p \<noteq> None" by (auto simp: uf_inv_def)
  with less.hyps below_less p show ?case
    by (intro assms(3) [OF p]) (auto simp: order.order_iff_strict)
qed

lemma find_root_missing: "bm_get parent k = None \<Longrightarrow> find_root parent k = None"
  by (subst find_root.simps) simp

lemma find_root_self: "bm_get parent k = Some k \<Longrightarrow> find_root parent k = Some k"
  by (subst find_root.simps) simp

lemma find_root_step: "bm_get parent k = Some p \<Longrightarrow> p \<noteq> k \<Longrightarrow> find_root parent k = find_root parent p"
  by (subst find_root.simps) simp

lemma find_root_total:
  assumes "uf_inv parent" and "bm_get parent k \<noteq> None"
  shows "\<exists>r. find_root parent k = Some r \<and> bm_get parent r = Some r \<and> r \<le> k"
  using assms
proof (induction rule: uf_induct)
  case (step k p)
  show ?case
  proof (cases "p = k")
    case False
    from step assms(1) have "p \<le> k" by (auto simp: uf_inv_def)
    with step.IH False find_root_step [OF step.hyps False] show ?thesis by (auto intro: order.trans)
  qed (use step find_root_self in auto)
qed

lemma find_root_is_root:
  assumes "uf_inv parent" and "find_root parent k = Some r"
  shows "bm_get parent r = Some r" and "r \<le> k" and "bm_get parent k \<noteq> None"
proof -
  show dom: "bm_get parent k \<noteq> None" using assms(2) find_root_missing by fastforce
  from find_root_total [OF assms(1) dom] assms(2) show "bm_get parent r = Some r" "r \<le> k" by auto
qed

lemma uf_inv_insert:
  "uf_inv parent \<Longrightarrow> v \<le> k \<Longrightarrow> bm_get parent v \<noteq> None \<Longrightarrow> uf_inv (bm_insert k v parent)"
  by (auto simp: uf_inv_def bm_get_insert)

definition same_roots :: "parents \<Rightarrow> parents \<Rightarrow> bool" where
  "same_roots p q \<longleftrightarrow> set (bm_keys q) = set (bm_keys p) \<and> (\<forall>j. find_root q j = find_root p j)"

text \<open>Pointing a key at its own root changes no root.\<close>

lemma find_root_point:
  assumes inv: "uf_inv parent" and root: "find_root parent cur = Some root"
  shows "uf_inv (bm_insert cur root parent)" and "same_roots parent (bm_insert cur root parent)"
proof -
  let ?q = "bm_insert cur root parent"
  note r = find_root_is_root [OF inv root]
  then show inv': "uf_inv ?q" using inv by (simp add: uf_inv_insert)
  have root': "find_root ?q root = Some root" using r by (simp add: find_root_self bm_get_insert)
  have "find_root ?q j = find_root parent j" for j
  proof (cases "bm_get parent j = None")
    case True
    with r(3) have "bm_get ?q j = None" by (auto simp: bm_get_insert)
    with True show ?thesis by (simp add: find_root_missing)
  next
    case False
    with inv show ?thesis
    proof (induction rule: uf_induct)
      case (step j p)
      show ?case
      proof (cases "j = cur")
        case True
        then show ?thesis using root root' find_root_step [of ?q cur root]
          by (cases "root = cur") (simp_all add: bm_get_insert)
      next
        case neq: False
        with step.hyps have q: "bm_get ?q j = Some p" by (simp add: bm_get_insert)
        show ?thesis
        proof (cases "p = j")
          case True
          with step.hyps q show ?thesis by (simp add: find_root_self)
        next
          case False
          with step.IH find_root_step [OF q False] find_root_step [OF step.hyps False] show ?thesis
            by simp
        qed
      qed
    qed
  qed
  moreover have "set (bm_keys ?q) = set (bm_keys parent)"
    using r(3) by (simp only: set_keys_bm_insert bm_get_None_iff insert_absorb simp_thms)
  ultimately show "same_roots parent ?q" by (simp add: same_roots_def)
qed

lemma same_roots_refl [simp]: "same_roots p p"
  by (simp add: same_roots_def)

lemma same_roots_trans: "same_roots p q \<Longrightarrow> same_roots q r \<Longrightarrow> same_roots p r"
  by (simp add: same_roots_def)

lemma same_roots_dom: "same_roots p q \<Longrightarrow> bm_get q k = None \<longleftrightarrow> bm_get p k = None"
  by (simp add: same_roots_def bm_get_None_iff)

lemma compress_ok:
  assumes "uf_inv parent" and "find_root parent cur = Some root"
  shows "\<exists>q. compress parent root cur = Some q \<and> uf_inv q \<and> same_roots parent q"
  using assms
proof (induction "below parent cur" arbitrary: parent cur rule: less_induct)
  case less
  note r = find_root_is_root [OF less.prems]
  then obtain p where p: "bm_get parent cur = Some p" by blast
  show ?case
  proof (cases "p = root")
    case True
    with p less.prems(1) show ?thesis by (subst compress.simps) simp
  next
    case False
    let ?q = "bm_insert cur root parent"
    note point = find_root_point [OF less.prems]
    have "p \<noteq> cur" using False p less.prems(2) find_root_self by force
    with find_root_step [OF p] less.prems(2) have "find_root parent p = Some root" by simp
    with point(2) have "find_root ?q p = Some root" by (simp add: same_roots_def)
    moreover have "below ?q p < below parent cur"
    proof -
      have "p < cur" and "bm_get parent p \<noteq> None"
        using less.prems(1) p \<open>p \<noteq> cur\<close> by (auto simp: uf_inv_def order.order_iff_strict)
      then have "below parent p < below parent cur" by (rule below_less)
      then show ?thesis using point(2) by (simp add: below_def same_roots_def)
    qed
    ultimately obtain q where "compress ?q root p = Some q" and "uf_inv q" and "same_roots ?q q"
      using less.hyps point(1) by blast
    with p False point(2) show ?thesis by (subst compress.simps) (auto intro: same_roots_trans)
  qed
qed

lemma find_ok:
  assumes "uf_inv parent" and "bm_get parent k \<noteq> None"
  shows "\<exists>r q. find parent k = Some (r, q) \<and> find_root parent k = Some r \<and> uf_inv q \<and> same_roots parent q"
proof -
  from find_root_total [OF assms] obtain r where r: "find_root parent k = Some r" by blast
  with compress_ok [OF assms(1) r] show ?thesis by (auto simp: find_def)
qed

text \<open>Hanging one root under a smaller one joins the two classes and nothing else.\<close>

lemma find_root_union:
  assumes inv: "uf_inv parent" and lo: "bm_get parent lo = Some lo" and hi: "bm_get parent hi = Some hi"
    and "lo < hi" and "bm_get parent j \<noteq> None"
  shows "find_root (bm_insert hi lo parent) j =
    (if find_root parent j = Some hi then Some lo else find_root parent j)"
  using inv assms(5)
proof (induction rule: uf_induct)
  case (step j p)
  let ?q = "bm_insert hi lo parent"
  have lo_root: "find_root ?q lo = Some lo" using lo \<open>lo < hi\<close> by (simp add: find_root_self bm_get_insert)
  show ?case
  proof (cases "j = hi")
    case True
    moreover have "find_root ?q hi = find_root ?q lo"
      by (rule find_root_step) (use \<open>lo < hi\<close> in \<open>simp_all add: bm_get_insert\<close>)
    ultimately show ?thesis using lo_root find_root_self [OF hi] by simp
  next
    case False
    with step.hyps have q: "bm_get ?q j = Some p" by (simp add: bm_get_insert)
    show ?thesis
    proof (cases "p = j")
      case True
      with step.hyps q False show ?thesis by (simp add: find_root_self)
    next
      case False
      with step.IH find_root_step [OF q False] find_root_step [OF step.hyps False] show ?thesis by simp
    qed
  qed
qed

text \<open>The forest represents the classes of a set of edges between keys.\<close>

definition represents :: "parents \<Rightarrow> leaf_key_t set \<Rightarrow> (leaf_key_t \<times> leaf_key_t) set \<Rightarrow> bool" where
  "represents parent K E \<longleftrightarrow> uf_inv parent \<and> set (bm_keys parent) = K \<and>
     (\<forall>k \<in> K. \<forall>j \<in> K. find_root parent k = find_root parent j \<longleftrightarrow> (k, j) \<in> linked E)"

lemma represents_same_roots: "represents p K E \<Longrightarrow> uf_inv q \<Longrightarrow> same_roots p q \<Longrightarrow> represents q K E"
  by (simp add: represents_def same_roots_def)

lemma represents_dom: "represents p K E \<Longrightarrow> bm_get p k = None \<longleftrightarrow> k \<notin> K"
  by (simp add: represents_def bm_get_None_iff)

lemma represents_initial:
  "represents (bm_of_list (map (\<lambda>k. (k, k)) ks)) (set ks) {}"
proof -
  let ?p = "bm_of_list (map (\<lambda>k. (k, k)) ks)"
  have get: "bm_get ?p k = (if k \<in> set ks then Some k else None)" for k
    unfolding bm_get_of_list by (induction ks) (auto simp: map_add_def split: option.splits)
  then have root: "k \<in> set ks \<Longrightarrow> find_root ?p k = Some k" for k by (simp add: find_root_self)
  have keys: "set (bm_keys ?p) = set ks" by (simp only: set_keys_bm_of_list) force
  have "uf_inv ?p" by (auto simp: uf_inv_def get split: if_splits)
  with keys root show ?thesis by (auto simp: represents_def linked_def)
qed

lemma represents_join:
  assumes rep: "represents p K E" and roots: "find_root p a = Some ra" "find_root p b = Some rb"
    and "ra \<noteq> rb" and lohi: "{lo, hi} = {ra, rb}" "lo < hi"
  shows "represents (bm_insert hi lo p) K (insert (a, b) E)"
proof -
  from rep have inv: "uf_inv p" and keys: "set (bm_keys p) = K" by (simp_all add: represents_def)
  note ra = find_root_is_root [OF inv roots(1)] and rb = find_root_is_root [OF inv roots(2)]
  from lohi ra rb have lo: "bm_get p lo = Some lo" and hi: "bm_get p hi = Some hi"
    by (auto simp: doubleton_eq_iff)
  have hiK: "hi \<in> set (bm_keys p)" using hi bm_get_None_iff [of p hi] by simp
  from ra(3) rb(3) represents_dom [OF rep] have ab: "a \<in> K" "b \<in> K" by auto
  let ?q = "bm_insert hi lo p"
  have root: "find_root ?q k = (if find_root p k = Some hi then Some lo else find_root p k)" if "k \<in> K" for k
    using that represents_dom [OF rep] find_root_union [OF inv lo hi lohi(2)] by simp
  have eqv: "find_root p k = find_root p j \<longleftrightarrow> (k, j) \<in> linked E" if "k \<in> K" "j \<in> K" for k j
    using that rep by (simp add: represents_def)
  have "find_root ?q k = find_root ?q j \<longleftrightarrow> (k, j) \<in> linked (insert (a, b) E)" if "k \<in> K" "j \<in> K" for k j
    unfolding linked_insert root [OF that(1)] root [OF that(2)]
      eqv [OF that, symmetric] eqv [OF that(1) ab(1), symmetric] eqv [OF that(1) ab(2), symmetric]
      eqv [OF ab(2) that(2), symmetric] eqv [OF ab(1) that(2), symmetric]
    using roots lohi by (auto simp: doubleton_eq_iff)
  moreover have "uf_inv ?q" using inv lohi(2) lo by (intro uf_inv_insert) auto
  moreover have "set (bm_keys ?q) = K" using keys hiK by (simp only: set_keys_bm_insert insert_absorb)
  ultimately show ?thesis by (simp add: represents_def)
qed

lemma union_edge_ok:
  assumes "represents p K E" and "e \<in> K \<times> K"
  shows "\<exists>q. union_edge p e = Some q \<and> represents q K (insert e E)"
proof -
  obtain a b where e: "e = (a, b)" and ab: "a \<in> K" "b \<in> K" using assms(2) by auto
  from assms(1) have inv: "uf_inv p" by (simp add: represents_def)
  have in_p: "bm_get p a \<noteq> None" "bm_get p b \<noteq> None"
    using ab represents_dom [OF assms(1)] by auto
  from find_ok [OF inv in_p(1)] obtain ra q where q: "find p a = Some (ra, q)" "find_root p a = Some ra"
    "uf_inv q" "same_roots p q" by blast
  from in_p(2) q(4) have "bm_get q b \<noteq> None" by (simp add: same_roots_dom)
  from find_ok [OF q(3) this] obtain rb r where r: "find q b = Some (rb, r)" "find_root q b = Some rb"
    "uf_inv r" "same_roots q r" by blast
  have rep: "represents r K E"
    using assms(1) q r represents_same_roots by blast
  have roots: "find_root r a = Some ra" "find_root r b = Some rb"
    using q r by (simp_all add: same_roots_def)
  show ?thesis
  proof (cases "ra = rb")
    case True
    then have "(a, b) \<in> linked E" using roots rep ab unfolding represents_def by metis
    then have "linked (insert (a, b) E) = linked E"
      by (auto simp: linked_insert) (metis linked_trans linked_sym)+
    with rep True e in_p q(1) r(1) show ?thesis by (auto simp: union_edge_def represents_def)
  next
    case False
    let ?lo = "if ra < rb then ra else rb" and ?hi = "if ra < rb then rb else ra"
    have "represents (bm_insert ?hi ?lo r) K (insert (a, b) E)"
      by (rule represents_join [OF rep roots False]) (use False in \<open>auto simp: not_less order.order_iff_strict\<close>)
    with False e in_p q(1) r(1) show ?thesis by (simp add: union_edge_def split: if_splits)
  qed
qed

lemma union_edges_ok:
  assumes "represents p K E"
  shows "\<exists>q. union_edges es p = Some q \<and> represents q K (E \<union> (set es \<inter> K \<times> K))"
  using assms
proof (induction es arbitrary: p E)
  case (Cons e es)
  show ?case
  proof (cases "e \<in> K \<times> K")
    case True
    from union_edge_ok [OF Cons.prems this] obtain q where
      "union_edge p e = Some q" and "represents q K (insert e E)" by blast
    with Cons.IH [of q "insert e E"] True show ?thesis by simp
  next
    case False
    then have "union_edge p e = Some p"
      using represents_dom [OF Cons.prems] by (cases e) (auto simp: union_edge_def)
    with Cons.IH [OF Cons.prems] False show ?thesis by simp
  qed
qed simp

section \<open>What merging gives\<close>

text \<open>The fold of the last loop once the roots are known.\<close>

definition rooted :: "parents \<Rightarrow> leaf_key_t \<Rightarrow> leaf_key_t" where
  "rooted parent k = the (find_root parent k)"

lemma merge_loop_eq:
  assumes "uf_inv parent" and "\<forall>(k, l) \<in> set p. bm_get parent k \<noteq> None"
  shows "merge_loop p parent merged =
    Some (fold (\<lambda>(k, l). merge_leaf (rooted parent k) k l) p merged)"
  using assms
proof (induction p arbitrary: parent merged)
  case (Cons x p)
  obtain k l where x: "x = (k, l)" by fastforce
  with Cons.prems have "bm_get parent k \<noteq> None" by simp
  from find_ok [OF Cons.prems(1) this] obtain r q where q: "find parent k = Some (r, q)"
    "find_root parent k = Some r" "uf_inv q" "same_roots parent q" by blast
  have "rooted q = rooted parent" using q(4) by (simp add: rooted_def same_roots_def fun_eq_iff)
  moreover have "\<forall>(k, l) \<in> set p. bm_get q k \<noteq> None"
    using Cons.prems(2) same_roots_dom [OF q(4)] by auto
  ultimately show ?case using Cons.IH [OF q(3)] x q(1,2) by (simp add: rooted_def)
qed simp

definition absorb :: "(leaf_key_t \<Rightarrow> leaf_key_t) \<Rightarrow> leaf_key_t \<times> leaf \<Rightarrow> leaf \<Rightarrow> leaf" where
  "absorb root x slot = slot\<lparr>
     lf_merged_from := lf_merged_from slot @ (if fst x \<noteq> root (fst x) then [fst x] else []),
     lf_addresses := lf_addresses slot @ lf_addresses (snd x)\<rparr>"

lemma fold_absorb:
  "fold (absorb root) xs l = \<lparr>lf_key = lf_key l,
     lf_merged_from = lf_merged_from l @ filter (\<lambda>k. k \<noteq> root k) (map fst xs),
     lf_addresses = lf_addresses l @ concat (map (lf_addresses \<circ> snd) xs)\<rparr>"
  by (induction xs arbitrary: l) (simp_all add: absorb_def)

lemma merge_fold_get:
  "bm_get (fold (\<lambda>(k, l). merge_leaf (root k) k l) p []) r =
    (if \<exists>x \<in> set p. root (fst x) = r
     then Some \<lparr>lf_key = r,
       lf_merged_from = filter (\<lambda>k. k \<noteq> root k) (map fst (filter (\<lambda>x. root (fst x) = r) p)),
       lf_addresses = concat (map (lf_addresses \<circ> snd) (filter (\<lambda>x. root (fst x) = r) p))\<rparr>
     else None)"
proof -
  have "bm_get (fold (\<lambda>(k, l). merge_leaf (root k) k l) p []) r =
    (if \<exists>x \<in> set p. root (fst x) = r
     then Some (fold (absorb root) (filter (\<lambda>x. root (fst x) = r) p)
       (case bm_get ([] :: partition) r of None \<Rightarrow> empty_leaf r | Some v \<Rightarrow> v))
     else bm_get [] r)"
    by (rule bt.lookup_fold_group)
      (auto simp: merge_leaf_def bm_get_entry absorb_def split: prod.splits)
  then show ?thesis by (simp add: fold_absorb empty_leaf_def)
qed

lemma merge_fold_wf: "bm_wf (fold (\<lambda>(k, l). merge_leaf (root k) k l) p [])"
  unfolding bm_wf_def
  by (rule bt.sorted_fold) (auto simp: merge_leaf_def simp flip: bm_wf_def intro: bm_wf_entry split: prod.splits)

text \<open>The key a leaf is merged into: the least key reachable along the edges between
  existing leaves.\<close>

definition edges_within :: "partition \<Rightarrow> (leaf_key_t \<times> leaf_key_t) list \<Rightarrow> (leaf_key_t \<times> leaf_key_t) set" where
  "edges_within p es = {(a, b) \<in> set es. a \<in> set (bm_keys p) \<and> b \<in> set (bm_keys p)}"

definition component :: "partition \<Rightarrow> (leaf_key_t \<times> leaf_key_t) list \<Rightarrow> leaf_key_t \<Rightarrow> leaf_key_t set" where
  "component p es k = {j \<in> set (bm_keys p). (k, j) \<in> linked (edges_within p es)}"

lemma rooted_Min:
  assumes rep: "represents parent (set (bm_keys p)) (edges_within p es)" and k: "k \<in> set (bm_keys p)"
  shows "rooted parent k = Min (component p es k)"
proof -
  let ?K = "set (bm_keys p)"
  from rep have inv: "uf_inv parent" and keys: "set (bm_keys parent) = ?K"
    and eqv: "\<And>k j. k \<in> ?K \<Longrightarrow> j \<in> ?K \<Longrightarrow> find_root parent k = find_root parent j \<longleftrightarrow> (k, j) \<in> linked (edges_within p es)"
    unfolding represents_def by blast+
  have some: "find_root parent j = Some (rooted parent j)" and root: "bm_get parent (rooted parent j) = Some (rooted parent j)"
    and le: "rooted parent j \<le> j" if "j \<in> ?K" for j
  proof -
    have "bm_get parent j \<noteq> None" using that represents_dom [OF rep] by blast
    from find_root_total [OF inv this] show "find_root parent j = Some (rooted parent j)"
      "bm_get parent (rooted parent j) = Some (rooted parent j)" "rooted parent j \<le> j"
      by (auto simp: rooted_def)
  qed
  have rK: "rooted parent k \<in> ?K" using root [OF k] represents_dom [OF rep, of "rooted parent k"] by auto
  have "(k, rooted parent k) \<in> linked (edges_within p es)"
    using eqv [OF k rK] some [OF k] find_root_self [OF root [OF k]] by simp
  with rK have "rooted parent k \<in> component p es k" by (simp add: component_def)
  moreover have "rooted parent k \<le> j" if "j \<in> component p es k" for j
  proof -
    from that have j: "j \<in> ?K" and kj: "(k, j) \<in> linked (edges_within p es)" by (auto simp: component_def)
    have "find_root parent k = find_root parent j" using eqv [OF k j] kj by blast
    then have "rooted parent k = rooted parent j" by (simp add: rooted_def)
    with le [OF j] show ?thesis by simp
  qed
  moreover have "finite (component p es k)" by (simp add: component_def)
  ultimately show ?thesis by (metis Min_eqI)
qed

definition merged_leaf :: "(leaf_key_t \<Rightarrow> leaf_key_t) \<Rightarrow> partition \<Rightarrow> leaf_key_t \<Rightarrow> leaf" where
  "merged_leaf root p r = \<lparr>lf_key = r,
     lf_merged_from = sort (filter (\<lambda>k. k \<noteq> root k) (map fst (filter (\<lambda>x. root (fst x) = r) p))),
     lf_addresses = sort (concat (map (lf_addresses \<circ> snd) (filter (\<lambda>x. root (fst x) = r) p)))\<rparr>"

lemma merge_Some:
  assumes "bm_wf p"
  shows "\<exists>q. merge es p = Some q \<and> bm_wf q \<and>
    (\<forall>r. bm_get q r = (if \<exists>k \<in> set (bm_keys p). Min (component p es k) = r
       then Some (merged_leaf (\<lambda>k. Min (component p es k)) p r) else None))"
proof -
  let ?K = "set (bm_keys p)" and ?root = "\<lambda>k. Min (component p es k)"
  have within: "{} \<union> (set es \<inter> ?K \<times> ?K) = edges_within p es" unfolding edges_within_def by blast
  from union_edges_ok [OF represents_initial, of es "bm_keys p"] obtain parent where
    parent: "union_edges es (bm_of_list (map (\<lambda>k. (k, k)) (bm_keys p))) = Some parent"
    and rep: "represents parent ?K (edges_within p es)"
    unfolding within by blast
  have inv: "uf_inv parent" using rep by (simp add: represents_def)
  have root: "rooted parent (fst x) = ?root (fst x)" if "x \<in> set p" for x
    using rooted_Min [OF rep] that by simp
  have dom: "\<forall>(k, l) \<in> set p. bm_get parent k \<noteq> None" using represents_dom [OF rep] by force
  let ?m = "fold (\<lambda>(k, l). merge_leaf (rooted parent k) k l) p []"
  let ?fin = "\<lambda>l. l\<lparr>lf_addresses := sort (lf_addresses l), lf_merged_from := sort (lf_merged_from l)\<rparr>"
  have m: "?m = fold (\<lambda>(k, l). merge_leaf (?root k) k l) p []"
    by (rule fold_cong) (use root in auto)
  have "merge es p = Some (map (\<lambda>(k, l). (k, ?fin l)) ?m)"
    unfolding merge_def parent by (simp add: merge_loop_eq [OF inv dom])
  moreover have "bm_wf (map (\<lambda>(k, l). (k, ?fin l)) ?m)"
    by (simp add: map_values_wf merge_fold_wf)
  moreover have "bm_get (map (\<lambda>(k, l). (k, ?fin l)) ?m) r = (if \<exists>k \<in> ?K. ?root k = r
       then Some (merged_leaf ?root p r) else None)" for r
    unfolding map_values_get m merge_fold_get merged_leaf_def by auto
  ultimately show ?thesis by blast
qed

lemma all_addresses_sum:
  assumes "bm_wf q" and get: "\<And>r. bm_get q r = (if r \<in> R then Some (g r) else None)"
  shows "mset (all_addresses q) = (\<Sum>r\<in>R. mset (lf_addresses (g r)))"
proof -
  have R: "set (bm_keys q) = R"
  proof (rule set_eqI)
    show "k \<in> set (bm_keys q) \<longleftrightarrow> k \<in> R" for k
      using get [of k] bm_get_None_iff [of q k] by (cases "k \<in> R") auto
  qed
  have val: "l = g k" if "(k, l) \<in> set q" for k l
    using that get [of k] bm_get_Some_iff [OF assms(1), of k l] by (auto split: if_splits)
  have "mset (all_addresses q) = sum_list (map (\<lambda>(k, l). mset (lf_addresses l)) q)"
    by (simp add: all_addresses_def mset_concat comp_def case_prod_unfold)
  also have "map (\<lambda>(k, l). mset (lf_addresses l)) q = map (\<lambda>(k, l). mset (lf_addresses (g k))) q"
    using val by auto
  also have "sum_list \<dots> = (\<Sum>r\<in>R. mset (lf_addresses (g r)))"
    using sum_list_distinct_keys [OF bm_wf_distinct [OF assms(1)], of "\<lambda>k. mset (lf_addresses (g k))"] R by simp
  finally show ?thesis .
qed

lemma build_mset:
  assumes "build addresses = Inr p"
  shows "mset (all_addresses p) = mset (filter (\<lambda>a. \<not> is_data a) addresses)"
proof -
  let ?xs = "filter (\<lambda>a. \<not> is_data a) addresses"
  note b = build_Inr [OF assms]
  let ?R = "(\<lambda>a. projr (leaf_key a)) ` set ?xs"
  have key: "leaf_key a = Inr k \<longleftrightarrow> projr (leaf_key a) = k" if "a \<in> set ?xs" for a k
    using that b(3) by (cases "leaf_key a") auto
  then have ex: "(\<exists>a \<in> set ?xs. leaf_key a = Inr k) \<longleftrightarrow> k \<in> ?R" for k
    unfolding image_iff by (intro bex_cong refl) (use key in metis)
  have "mset (all_addresses p) = (\<Sum>k\<in>?R. mset (sort (filter (\<lambda>a. leaf_key a = Inr k) ?xs)))"
    using all_addresses_sum [of p ?R "\<lambda>k. \<lparr>lf_key = k, lf_merged_from = [],
        lf_addresses = sort (filter (\<lambda>a. leaf_key a = Inr k) ?xs)\<rparr>"] b(1,4) ex
    by (simp add: partition_wf_def)
  also have "\<dots> = (\<Sum>k\<in>?R. sum_list (map (\<lambda>a. {#a#}) (filter (\<lambda>a. projr (leaf_key a) = k) ?xs)))"
    unfolding mset_as_sum mset_sort
    by (intro sum.cong refl arg_cong [of _ _ mset] filter_cong key)
  also have "\<dots> = sum_list (map (\<lambda>a. {#a#}) ?xs)" by (rule sum_groups) simp_all
  also have "\<dots> = mset ?xs" by (rule mset_as_sum)
  finally show ?thesis .
qed

lemma merge_mset:
  assumes "bm_wf p" and "merge es p = Some q"
  shows "mset (all_addresses q) = mset (all_addresses p)"
proof -
  let ?root = "\<lambda>k. Min (component p es k)" and ?K = "set (bm_keys p)"
  let ?R = "?root ` ?K"
  from merge_Some [OF assms(1), of es] assms(2) have "bm_wf q"
    and "\<And>r. bm_get q r = (if r \<in> ?R then Some (merged_leaf ?root p r) else None)" by auto
  then have "mset (all_addresses q) = (\<Sum>r\<in>?R. mset (lf_addresses (merged_leaf ?root p r)))"
    by (rule all_addresses_sum)
  also have "\<dots> = (\<Sum>r\<in>?R. sum_list (map (\<lambda>x. mset (lf_addresses (snd x))) (filter (\<lambda>x. ?root (fst x) = r) p)))"
    by (simp add: merged_leaf_def mset_concat comp_def)
  also have "\<dots> = sum_list (map (\<lambda>x. mset (lf_addresses (snd x))) p)"
    by (rule sum_groups) auto
  also have "\<dots> = mset (all_addresses p)" by (simp add: all_addresses_def mset_concat comp_def)
  finally show ?thesis .
qed

lemma bijection_ok_iff:
  "bj_ok (bijection_of H p before) \<longleftrightarrow> distinct (all_addresses p) \<and>
     H (hash_preimage (filter (\<lambda>a. \<not> is_data a) before)) = H (hash_preimage (all_addresses p))"
proof -
  have "card (set xs) = length xs \<longleftrightarrow> distinct xs" for xs :: "string list"
    using card_distinct distinct_card by blast
  then show ?thesis
    by (simp add: bijection_of_def Let_def multiset_hash_def length_bs_of_list)
qed

lemma same_mset_bijection_ok:
  assumes "build addresses = Inr p" and "mset (all_addresses q) = mset (filter (\<lambda>a. \<not> is_data a) addresses)"
  shows "bj_ok (bijection_of H q addresses)"
  using assms(2) hash_preimage_cong [OF assms(2)] build_Inr(2) [OF assms(1)] mset_eq_imp_distinct_iff [OF assms(2)]
  by (simp add: bijection_ok_iff)

text \<open>C12: Building a partition succeeds exactly when no managed address repeats and every one
  has a leaf key; the leaf under a key then holds exactly the addresses with that key, in
  order. Merging never panics and never runs forever on it, whatever the edges, and neither
  step loses, adds or repeats an address: the bijection check passes for every hash function.\<close>

theorem partition_preserves_addresses:
  fixes addresses :: "string list" and H :: "string \<Rightarrow> string"
  defines "managed \<equiv> filter (\<lambda>a. \<not> is_data a) addresses"
  shows "(is_ok (build addresses) \<longleftrightarrow> distinct managed \<and> (\<forall>a \<in> set managed. is_ok (leaf_key a)))
    \<and> (\<forall>p. build addresses = Inr p \<longrightarrow>
         (\<forall>k l. bm_get p k = Some l \<longrightarrow>
            lf_key l = k \<and> lf_addresses l = sort (filter (\<lambda>a. leaf_key a = Inr k) managed))
         \<and> bj_ok (bijection_of H p addresses)
         \<and> (\<forall>edges. \<exists>q. merge edges p = Some q \<and> bj_ok (bijection_of H q addresses)))"
proof -
  have "is_ok (build addresses)" if "distinct managed" "\<forall>a \<in> set managed. is_ok (leaf_key a)"
    using build_fold_ok [OF that] by (auto simp: build_def managed_def)
  moreover have "distinct managed \<and> (\<forall>a \<in> set managed. is_ok (leaf_key a))" if "is_ok (build addresses)"
    using that build_Inr(2,3) [of addresses] by (cases "build addresses") (auto simp: managed_def)
  moreover {
    fix p assume p: "build addresses = Inr p"
    have mset_eq: "mset (all_addresses p) = mset managed" using build_mset [OF p] by (simp add: managed_def)
    have ok: "bj_ok (bijection_of H q addresses)" if "mset (all_addresses q) = mset managed" for q
      using same_mset_bijection_ok [OF p, of q H] that by (simp add: managed_def)
    have wf: "bm_wf p" using build_Inr(1) [OF p] by (simp add: partition_wf_def)
    have "\<exists>q. merge edges p = Some q \<and> bj_ok (bijection_of H q addresses)" for edges
      using merge_Some [OF wf, of edges] merge_mset [OF wf, of edges] ok mset_eq by force
    moreover have "lf_key l = k \<and> lf_addresses l = sort (filter (\<lambda>a. leaf_key a = Inr k) managed)"
      if "bm_get p k = Some l" for k l
      using that build_Inr(4) [OF p, of k] by (auto simp: managed_def split: if_splits)
    ultimately have "(\<forall>k l. bm_get p k = Some l \<longrightarrow>
            lf_key l = k \<and> lf_addresses l = sort (filter (\<lambda>a. leaf_key a = Inr k) managed))
         \<and> bj_ok (bijection_of H p addresses)
         \<and> (\<forall>edges. \<exists>q. merge edges p = Some q \<and> bj_ok (bijection_of H q addresses))"
      using ok mset_eq by blast
  }
  ultimately show ?thesis by blast
qed

section \<open>Finding the leaf of an address\<close>

lemma sorted_search_right:
  assumes "sorted xs" and "hi \<le> length xs" and "lo \<le> mid" and "mid < hi" and "xs ! mid < a"
  shows "(\<exists>i. lo \<le> i \<and> i < hi \<and> xs ! i = a) \<longleftrightarrow> (\<exists>i. mid + 1 \<le> i \<and> i < hi \<and> xs ! i = a)"
proof -
  have "mid + 1 \<le> i" if "i < hi" "xs ! i = a" for i
  proof (rule ccontr)
    assume "\<not> mid + 1 \<le> i"
    then have "xs ! i \<le> xs ! mid" using assms by (intro sorted_nth_mono) auto
    with that assms(5) show False by simp
  qed
  then show ?thesis using assms(3) by (metis add_leD1 order.trans)
qed

lemma sorted_search_left:
  assumes "sorted xs" and "hi \<le> length xs" and "mid < hi" and "a < xs ! mid"
  shows "(\<exists>i. lo \<le> i \<and> i < hi \<and> xs ! i = a) \<longleftrightarrow> (\<exists>i. lo \<le> i \<and> i < mid \<and> xs ! i = a)"
proof -
  have "i < mid" if "i < hi" "xs ! i = a" for i
  proof (rule ccontr)
    assume "\<not> i < mid"
    then have "xs ! mid \<le> xs ! i" using assms that by (intro sorted_nth_mono) auto
    with that assms(4) show False by simp
  qed
  then show ?thesis using assms(3) by (metis less_trans)
qed

lemma binary_search_iff:
  assumes "sorted xs" and "hi \<le> length xs"
  shows "binary_search xs a lo hi \<longleftrightarrow> (\<exists>i. lo \<le> i \<and> i < hi \<and> xs ! i = a)"
  using assms
proof (induction xs a lo hi rule: binary_search.induct)
  case (1 xs a lo hi)
  let ?mid = "lo + (hi - lo) div 2"
  consider "hi \<le> lo" | "lo < hi" "xs ! ?mid = a" | "lo < hi" "xs ! ?mid < a" | "lo < hi" "a < xs ! ?mid"
    by force
  then show ?case
  proof cases
    case 1
    then show ?thesis by (subst binary_search.simps) auto
  next
    case 2
    then have "lo \<le> ?mid \<and> ?mid < hi \<and> xs ! ?mid = a" by auto
    then have "\<exists>i. lo \<le> i \<and> i < hi \<and> xs ! i = a" by blast
    with 2 show ?thesis by (subst binary_search.simps) (simp add: Let_def)
  next
    case 3
    then have "binary_search xs a lo hi = binary_search xs a (?mid + 1) hi"
      by (subst binary_search.simps) (auto simp: Let_def)
    with 3 "1.IH"(1) [OF _ refl] "1.prems" sorted_search_right [OF "1.prems", of lo ?mid a] show ?thesis by simp
  next
    case 4
    then have "binary_search xs a lo hi = binary_search xs a lo ?mid"
      by (subst binary_search.simps) (auto simp: Let_def)
    with 4 "1.IH"(2) [OF _ refl] "1.prems" sorted_search_left [OF "1.prems", of ?mid a lo] show ?thesis by simp
  qed
qed

lemma binary_search_mem: "sorted xs \<Longrightarrow> binary_search xs a 0 (length xs) \<longleftrightarrow> a \<in> set xs"
  by (simp add: binary_search_iff in_set_conv_nth)

lemma distinct_concat_unique:
  assumes "distinct (concat (map f xs))" and "x \<in> set xs" and "y \<in> set xs" and "a \<in> set (f x)" and "a \<in> set (f y)"
  shows "x = y"
  using assms by (induction xs) auto

lemma leaf_of_iff:
  assumes wf: "partition_wf p" and "distinct (all_addresses p)"
  shows "leaf_of p a = Some k \<longleftrightarrow> (\<exists>l. bm_get p k = Some l \<and> a \<in> set (lf_addresses l))"
proof -
  have sorted: "sorted (lf_addresses l)" and key: "bm_get p (lf_key l) = Some l" if "l \<in> set (bm_values p)" for l
    using that wf by (auto simp: partition_wf_def bm_get_Some_iff)
  have search: "binary_search (lf_addresses l) a 0 (length (lf_addresses l)) \<longleftrightarrow> a \<in> set (lf_addresses l)"
    if "l \<in> set (bm_values p)" for l using sorted [OF that] by (rule binary_search_mem)
  have val: "l \<in> set (bm_values p) \<and> lf_key l = k" if "bm_get p k = Some l" for l
    using that wf by (auto simp: partition_wf_def bm_get_Some_iff rev_image_eqI)
  show ?thesis
  proof
    assume "leaf_of p a = Some k"
    then obtain l where "l \<in> set (bm_values p)" and "binary_search (lf_addresses l) a 0 (length (lf_addresses l))"
      and "k = lf_key l"
      by (auto simp: leaf_of_def dest: find_Some_first)
    with search key show "\<exists>l. bm_get p k = Some l \<and> a \<in> set (lf_addresses l)" by metis
  next
    assume "\<exists>l. bm_get p k = Some l \<and> a \<in> set (lf_addresses l)"
    then obtain l where l: "bm_get p k = Some l" and a: "a \<in> set (lf_addresses l)" by blast
    from val [OF l] search a have hit: "l \<in> set (bm_values p)" "binary_search (lf_addresses l) a 0 (length (lf_addresses l))"
      by blast+
    then obtain l' where l': "List.find (\<lambda>l. binary_search (lf_addresses l) a 0 (length (lf_addresses l))) (bm_values p) = Some l'"
      by (metis (no_types, lifting) find_None_iff option.exhaust)
    then have "l' \<in> set (bm_values p)" and "a \<in> set (lf_addresses l')"
      using search by (auto dest: find_Some_first)
    then have "l' = l"
      using assms(2) hit(1) a distinct_concat_unique [of lf_addresses "bm_values p"] by (simp add: all_addresses_def)
    with l' val [OF l] show "leaf_of p a = Some k" by (simp add: leaf_of_def)
  qed
qed

lemma merge_wf: 
  assumes "bm_wf p" and "merge es p = Some q"
  shows "partition_wf q"
proof -
  from merge_Some [OF assms(1), of es] assms(2) have wf: "bm_wf q" and
    get: "\<And>r. bm_get q r = (if \<exists>k \<in> set (bm_keys p). Min (component p es k) = r
       then Some (merged_leaf (\<lambda>k. Min (component p es k)) p r) else None)" by auto
  have "lf_key l = k \<and> sorted (lf_addresses l)" if "(k, l) \<in> set q" for k l
    using that get [of k] bm_get_Some_iff [OF wf, of k l] by (auto simp: merged_leaf_def split: if_splits)
  with wf show ?thesis by (auto simp: partition_wf_def)
qed

text \<open>After merging along reference edges, every managed address is found in one leaf: the
  least key of the connected component of its own leaf key, where only edges between existing
  leaves count. Before merging it is found under its own key.\<close>

lemma merged_into_least_key:
  assumes "build addresses = Inr p" and "merge es p = Some q"
    and "a \<in> set addresses" and "\<not> is_data a" and "leaf_key a = Inr k"
  shows "leaf_of p a = Some k \<and> leaf_of q a = Some (Min (component p es k))"
proof -
  let ?xs = "filter (\<lambda>a. \<not> is_data a) addresses" and ?root = "\<lambda>k. Min (component p es k)"
  note b = build_Inr [OF assms(1)]
  have wf: "bm_wf p" using b(1) by (simp add: partition_wf_def)
  have dp: "distinct (all_addresses p)"
    using b(2) build_mset [OF assms(1)] mset_eq_imp_distinct_iff by blast
  have dq: "distinct (all_addresses q)"
    using dp merge_mset [OF wf assms(2)] mset_eq_imp_distinct_iff by blast
  have "\<exists>a \<in> set ?xs. leaf_key a = Inr k" using assms(3-5) by auto
  with b(4) [of k] obtain l where l: "bm_get p k = Some l"
    and "lf_addresses l = sort (filter (\<lambda>a. leaf_key a = Inr k) ?xs)" by simp
  with assms(3-5) have a: "a \<in> set (lf_addresses l)" by simp
  have kl: "(k, l) \<in> set p" using l by (simp add: bm_get_Some_iff [OF wf])
  from merge_Some [OF wf, of es] assms(2) have
    "bm_get q (?root k) = (if \<exists>j \<in> set (bm_keys p). ?root j = ?root k then Some (merged_leaf ?root p (?root k)) else None)"
    by auto
  with kl have "bm_get q (?root k) = Some (merged_leaf ?root p (?root k))" by force
  moreover have "a \<in> set (lf_addresses (merged_leaf ?root p (?root k)))"
    using kl a by (auto simp: merged_leaf_def)
  ultimately show ?thesis
    using l a leaf_of_iff [OF b(1) dp] leaf_of_iff [OF merge_wf [OF wf assms(2)] dq] by blast
qed

definition sample_addresses :: "string list" where
  "sample_addresses = [''r.a[x]'', ''q.a[x]'', ''module.m.t.u'', ''p.one'', ''data.d.e'']"

definition sample_partition :: partition where
  "sample_partition = projr (build sample_addresses)"

definition sample_merged :: partition where
  "sample_merged = the (merge [(Keyed ''x'', Address ''p.one''), (Module ''module.z'', Keyed ''x'')] sample_partition)"

lemma sample_partition_built: "build sample_addresses = Inr sample_partition"
  by code_simp

lemma sample_partition_merged:
  "merge [(Keyed ''x'', Address ''p.one''), (Module ''module.z'', Keyed ''x'')] sample_partition = Some sample_merged"
  by code_simp

theorem partition_preserves_addresses_witness:
  "build sample_addresses = Inr sample_partition
   \<and> (\<exists>q. merge [(Keyed ''x'', Address ''p.one'')] sample_partition = Some q \<and> bj_ok (bijection_of id q sample_addresses))"
  using partition_preserves_addresses [of sample_addresses id] sample_partition_built by blast

lemma sample_merged_value: "leaf_of sample_merged ''p.one'' = Some (Keyed ''x'')"
  by code_simp

text \<open>A partition that passes the bijection check holds exactly the managed addresses of
  the state it is compared with, each once, provided the hash function does not collide on the
  two byte strings it is given: the length-prefixed encoding leaves no other way to agree.\<close>

lemma bijection_sound:
  assumes "bj_ok (bijection_of H p before)"
    and "hashable before" and "hashable (all_addresses p)"
    and "H (hash_preimage (filter (\<lambda>a. \<not> is_data a) before)) = H (hash_preimage (all_addresses p)) \<longrightarrow>
         hash_preimage (filter (\<lambda>a. \<not> is_data a) before) = hash_preimage (all_addresses p)"
  shows "mset (all_addresses p) = mset (filter (\<lambda>a. \<not> is_data a) before) \<and> distinct (all_addresses p)"
proof -
  have "hashable (filter (\<lambda>a. \<not> is_data a) before)"
    using assms(2) le_less_trans [OF length_filter_le [of "\<lambda>a. \<not> is_data a" before]]
    by (simp add: hashable_def)
  with assms show ?thesis by (metis bijection_ok_iff hash_preimage_inject)
qed

lemma sample_bijection: "bj_ok (bijection_of id sample_merged sample_addresses)"
  using same_mset_bijection_ok [OF sample_partition_built]
    merge_mset [OF _ sample_partition_merged] build_mset [OF sample_partition_built]
    build_Inr(1) [OF sample_partition_built] by (simp add: partition_wf_def)

text \<open>Classification and partition agree: for a state that can be partitioned,
  \<open>classify\<close> succeeds, counts exactly the leaves the partition has, and calls the template
  fat exactly when there is more than one leaf or the measured cycle is over its budget.\<close>

lemma classify_counts_leaves:
  assumes "build addresses = Inr p"
  shows "\<exists>c. classify addresses p95 budget = Inr c \<and> cl_leaf_keys c = partition_len p
    \<and> (cl_fat c \<longleftrightarrow> 1 < partition_len p \<or> (\<exists>m b. p95 = Some m \<and> budget = Some b \<and> b < m))"
proof -
  note b = build_Inr [OF assms]
  from b(3) obtain ls where "map_result leaf_key (filter (\<lambda>a. \<not> is_data a) addresses) = Inr ls"
    using map_result_ok_iff [of leaf_key "filter (\<lambda>a. \<not> is_data a) addresses"]
    by (cases "map_result leaf_key (filter (\<lambda>a. \<not> is_data a) addresses)") auto
  then have ks: "distinct_leaf_keys addresses = Inr (bs_of_list ls)" by (simp add: distinct_leaf_keys_def)
  note d = distinct_leaf_keys_Inr [OF ks]
  have "bm_get p k = None \<longleftrightarrow> k \<notin> set (bs_of_list ls)" for k
    using b(4) [of k] d(2) by auto
  then have "set (bm_keys p) = set (bs_of_list ls)" by (auto simp: bm_get_None_iff)
  then have "length (bm_keys p) = length (bs_of_list ls)"
    using d(1) b(1) by (metis bm_wf_distinct bs_wf_iff distinct_card partition_wf_def)
  then show ?thesis by (simp add: classify_def ks partition_len_def classify_counts_fat)
qed

text \<open>C39: The union-find loops end. The parent chains are followed and compressed by loops that would
  run forever on a cyclic forest; starting from singletons, every run of edges keeps the chains
  descending, so each lookup on the way returns, each later one returns too, finds the least key of
  the class and compresses the forest without moving any key to another root.\<close>

theorem union_find_terminates:
  assumes "k \<in> set ks"
  shows "\<exists>parent root parent'. union_edges es (bm_of_list (map (\<lambda>k. (k, k)) ks)) = Some parent
    \<and> find parent k = Some (root, parent') \<and> root \<le> k \<and> bm_get parent root = Some root
    \<and> (\<forall>j. find_root parent' j = find_root parent j)"
proof -
  from union_edges_ok [OF represents_initial, of es ks] obtain parent where
    parent: "union_edges es (bm_of_list (map (\<lambda>k. (k, k)) ks)) = Some parent" and
    rep: "represents parent (set ks) ({} \<union> (set es \<inter> set ks \<times> set ks))" by blast
  then have inv: "uf_inv parent" and k: "bm_get parent k \<noteq> None"
    using assms represents_dom [OF rep] by (auto simp: represents_def)
  from find_ok [OF inv k] obtain r q where "find parent k = Some (r, q)" "find_root parent k = Some r" "same_roots parent q"
    by blast
  with parent find_root_total [OF inv k] show ?thesis by (auto simp: same_roots_def)
qed

theorem union_find_terminates_witness:
  "\<exists>parent root parent'. union_edges [(Keyed ''b'', Keyed ''a''), (Keyed ''c'', Keyed ''b'')]
       (bm_of_list (map (\<lambda>k. (k, k)) [Keyed ''a'', Keyed ''b'', Keyed ''c''])) = Some parent
     \<and> find parent (Keyed ''c'') = Some (root, parent') \<and> root \<le> Keyed ''c''"
  using union_find_terminates [of "Keyed ''c''" "[Keyed ''a'', Keyed ''b'', Keyed ''c'']"
      "[(Keyed ''b'', Keyed ''a''), (Keyed ''c'', Keyed ''b'')]"] by auto

end
