(* ===== verification/Leaf_Names.thy ===== *)
theory Leaf_Names
  imports Leaf_Address
begin

text \<open>
  Names derived from keys and templates (\<open>pangea-leaf/src/names.rs\<close>,
  \<open>pangea-leaf/src/pg_ident.rs\<close>): the Kubernetes name of every leaf of a template and the
  bounded PostgreSQL identifier. BLAKE3 with its hex rendering is the parameter \<open>H\<close>; that it
  renders 64 lower-case hex digits is the named hypothesis \<open>hex_digest\<close>.
\<close>

definition is_lower_hex :: "char \<Rightarrow> bool" where
  "is_lower_hex c \<longleftrightarrow> is_ascii_digit c \<or> (97 \<le> (of_char c :: nat) \<and> (of_char c :: nat) \<le> 102)"

definition hex_digest :: "(string \<Rightarrow> string) \<Rightarrow> bool" where
  "hex_digest H \<longleftrightarrow> (\<forall>x. length (H x) = 64 \<and> list_all is_lower_hex (H x))"

section \<open>UTF-8 boundaries\<close>

text \<open>\<open>s.chars().take(n).collect::<String>()\<close>: a character starts at every byte that does not
  continue one.\<close>

fun take_chars :: "nat \<Rightarrow> string \<Rightarrow> string" where
  "take_chars n [] = []"
| "take_chars n (c # cs) =
     (if is_continuation c then c # take_chars n cs
      else case n of 0 \<Rightarrow> [] | Suc m \<Rightarrow> c # take_chars m cs)"

section \<open>Leaf names\<close>

definition MAX_NAME_LEN :: nat where
  "MAX_NAME_LEN = 63"

fun slug_loop :: "string \<Rightarrow> bool \<Rightarrow> string \<Rightarrow> string" where
  "slug_loop out dash [] = out"
| "slug_loop out dash (c # cs) =
     (if is_ascii_alphanumeric c then slug_loop (out @ [to_ascii_lowercase c]) False cs
      else if \<not> dash then slug_loop (out @ ''-'') True cs
      else slug_loop out dash cs)"

definition slug :: "string \<Rightarrow> string" where
  "slug raw =
     (let trimmed = trim_matches (\<lambda>c. c = CHR ''-'') (slug_loop [] True raw) in
      if trimmed = [] then ''leaf'' else trimmed)"

definition suffix :: "(string \<Rightarrow> string) \<Rightarrow> leaf_key_t \<Rightarrow> string" where
  "suffix H key = take 8 (H (key_tag key @ [CHR 0x00] @ key_raw key))"

definition clip :: "string \<Rightarrow> nat \<Rightarrow> string" where
  "clip s n = trim_end_matches (\<lambda>c. c = CHR ''-'') (take_chars n s)"

definition leaf_names :: "(string \<Rightarrow> string) \<Rightarrow> string \<Rightarrow> leaf_key_t list \<Rightarrow> (leaf_key_t, string) btmap" where
  "leaf_names H base keys =
     (let plain = map (\<lambda>k. (k, base @ ''-'' @ slug (key_raw k))) keys;
          counts = fold (\<lambda>(_, n). bm_entry n (0 :: nat) (\<lambda>x. x + 1)) plain []
      in bm_of_list (map (\<lambda>(k, n).
           (k, if 1 < (case bm_get counts n of Some c \<Rightarrow> c | None \<Rightarrow> 0) \<or> MAX_NAME_LEN < length n
               then clip n (MAX_NAME_LEN - 9) @ ''-'' @ suffix H k
               else n)) plain))"

section \<open>PostgreSQL identifiers\<close>

definition PG_IDENT_MAX :: nat where
  "PG_IDENT_MAX = 63"

definition DIGEST_HEX :: nat where
  "DIGEST_HEX = 10"

fun cut_loop :: "string \<Rightarrow> nat \<Rightarrow> nat" where
  "cut_loop full at =
     (if is_char_boundary full at then at else case at of 0 \<Rightarrow> 0 | Suc c \<Rightarrow> cut_loop full c)"

declare cut_loop.simps [simp del]

definition bounded :: "(string \<Rightarrow> string) \<Rightarrow> string \<Rightarrow> string" where
  "bounded H full =
     (if length full \<le> PG_IDENT_MAX then full
      else let at = cut_loop full (PG_IDENT_MAX - DIGEST_HEX - 1)
           in take at full @ ''_'' @ take DIGEST_HEX (H full))"

definition tofu_state_schema :: "(string \<Rightarrow> string) \<Rightarrow> string \<Rightarrow> string \<Rightarrow> string" where
  "tofu_state_schema H schema template = bounded H (schema @ ''_'' @ template @ ''_states'')"

definition state_table :: "(string \<Rightarrow> string) \<Rightarrow> string \<Rightarrow> string" where
  "state_table H template = bounded H (template @ ''_states'')"

section \<open>Labels\<close>

definition is_label_char :: "char \<Rightarrow> bool" where
  "is_label_char c \<longleftrightarrow> is_ascii_digit c \<or> is_ascii_lower c \<or> c = CHR ''-''"

definition label_edge :: "char \<Rightarrow> bool" where
  "label_edge c \<longleftrightarrow> is_ascii_digit c \<or> is_ascii_lower c"

text \<open>A DNS-1123 label: 1 to 63 lower-case letters, digits and dashes, no dash at an end.\<close>

definition dns_label :: "string \<Rightarrow> bool" where
  "dns_label s \<longleftrightarrow> s \<noteq> [] \<and> length s \<le> 63 \<and> list_all is_label_char s \<and> label_edge (hd s) \<and> label_edge (last s)"

lemma label_char_cases: "is_label_char c \<longleftrightarrow> label_edge c \<or> c = CHR ''-''"
  by (auto simp: is_label_char_def label_edge_def)

lemma label_char_ascii: "is_label_char c \<Longrightarrow> \<not> is_continuation c"
  by (auto simp: is_label_char_def is_continuation_def is_ascii_digit_def is_ascii_lower_def)

lemma take_chars_ascii: "list_all is_label_char s \<Longrightarrow> take_chars n s = take n s"
  by (induction n s rule: take_chars.induct) (auto simp: label_char_ascii split: nat.splits)

lemma lowercase_label: "is_ascii_alphanumeric c \<Longrightarrow> label_edge (to_ascii_lowercase c)"
  by (auto simp: is_ascii_alphanumeric_def to_ascii_lowercase_def label_edge_def is_ascii_upper_def
      is_ascii_lower_def is_ascii_digit_def)

lemma slug_loop_chars: "list_all is_label_char out \<Longrightarrow> list_all is_label_char (slug_loop out dash s)"
  by (induction out dash s rule: slug_loop.induct) (auto simp: label_char_cases dest: lowercase_label)

lemma trim_end_last: "trim_end_matches P s \<noteq> [] \<Longrightarrow> \<not> P (last (trim_end_matches P s))"
  by (simp add: trim_end_matches_def last_rev hd_dropWhile)

lemma trim_end_prefix: "prefix (trim_end_matches P s) s"
proof -
  have "s = trim_end_matches P s @ rev (takeWhile P (rev s))"
    unfolding trim_end_matches_def
    by (metis rev_append rev_rev_ident takeWhile_dropWhile_id)
  then show ?thesis by (metis prefixI)
qed

lemma trim_matches_end: "trim_matches P s = trim_end_matches P (dropWhile P s)"
  by (simp add: trim_matches_def trim_end_matches_def)

lemma list_all_prefix: "prefix p s \<Longrightarrow> list_all P s \<Longrightarrow> list_all P p"
  by (auto simp: prefix_def)

lemma list_all_dropWhile: "list_all P s \<Longrightarrow> list_all P (dropWhile Q s)"
  by (induction s) auto

lemma slug_label: "slug raw \<noteq> []" "list_all is_label_char (slug raw)" "label_edge (last (slug raw))"
proof -
  let ?t = "trim_matches (\<lambda>c. c = CHR ''-'') (slug_loop [] True raw)"
  have chars: "list_all is_label_char ?t"
    unfolding trim_matches_end
    by (rule list_all_prefix [OF trim_end_prefix]) (simp add: list_all_dropWhile slug_loop_chars)
  have leaf: "list_all is_label_char ''leaf''" "label_edge CHR ''f''"
    by (simp_all add: is_label_char_def label_edge_def is_ascii_lower_def)
  show "slug raw \<noteq> []" by (simp add: slug_def Let_def)
  show "list_all is_label_char (slug raw)" using chars leaf(1) unfolding slug_def Let_def by presburger
  have "label_edge (last ?t)" if "?t \<noteq> []"
  proof -
    have "is_label_char (last ?t)" using chars that by (simp add: list_all_iff)
    moreover have "last ?t \<noteq> CHR ''-''" using that trim_end_last unfolding trim_matches_end by fastforce
    ultimately show ?thesis by (simp add: label_char_cases)
  qed
  then show "label_edge (last (slug raw))" using leaf(2) by (simp add: slug_def Let_def)
qed

section \<open>Names are labels\<close>

lemma hex_label: "is_lower_hex c \<Longrightarrow> label_edge c"
  by (auto simp: is_lower_hex_def label_edge_def is_ascii_lower_def)

lemma suffix_label:
  assumes "hex_digest H"
  shows "length (suffix H k) = 8" and "list_all label_edge (suffix H k)"
  using assms by (auto simp: hex_digest_def suffix_def list_all_iff dest!: in_set_takeD hex_label)

lemma list_all_label_edge: "list_all label_edge s \<Longrightarrow> list_all is_label_char s"
  by (auto simp: list_all_iff label_char_cases)

text \<open>The name chosen for one key.\<close>

definition leaf_name :: "(string \<Rightarrow> string) \<Rightarrow> string \<Rightarrow> leaf_key_t list \<Rightarrow> leaf_key_t \<Rightarrow> string" where
  "leaf_name H base keys k =
     (let n = base @ ''-'' @ slug (key_raw k) in
      if 1 < length (filter (\<lambda>j. base @ ''-'' @ slug (key_raw j) = n) keys) \<or> MAX_NAME_LEN < length n
      then clip n (MAX_NAME_LEN - 9) @ ''-'' @ suffix H k else n)"

lemma count_plain:
  fixes plain :: "('a \<times> string) list"
  shows "(case bm_get (fold (\<lambda>(_, n). bm_entry n (0 :: nat) (\<lambda>x. x + 1)) plain []) n of Some c \<Rightarrow> c | None \<Rightarrow> 0) =
     length (filter (\<lambda>x. snd x = n) plain)"
proof -
  have "bm_get (fold (\<lambda>(_, n). bm_entry n (0 :: nat) (\<lambda>x. x + 1)) plain []) n =
    (if \<exists>x \<in> set plain. snd x = n
     then Some (fold (\<lambda>_ c. c + 1) (filter (\<lambda>x. snd x = n) plain)
       (case bm_get ([] :: (string, nat) btmap) n of None \<Rightarrow> 0 | Some v \<Rightarrow> v))
     else bm_get [] n)"
    by (rule bt.lookup_fold_group) (auto simp: bm_get_entry split: prod.splits)
  moreover have "fold (\<lambda>_ c. c + 1) xs (m :: nat) = m + length xs" for m and xs :: "('a \<times> string) list"
    by (induction xs arbitrary: m) auto
  moreover have "length (filter (\<lambda>x. snd x = n) plain) = 0" if "\<not> (\<exists>x \<in> set plain. snd x = n)"
    using that by (simp add: filter_empty_conv)
  ultimately show ?thesis by auto
qed

lemma leaf_names_eq: "leaf_names H base keys = bm_of_list (map (\<lambda>k. (k, leaf_name H base keys k)) keys)"
  unfolding leaf_names_def leaf_name_def Let_def count_plain
  by (simp add: filter_map comp_def cong: if_cong)

lemma clip_label:
  assumes "list_all is_label_char n" and "n \<noteq> []" and "label_edge (hd n)" and "0 < m"
  shows "clip n m \<noteq> []" and "length (clip n m) \<le> m" and "list_all is_label_char (clip n m)" and "hd (clip n m) = hd n"
proof -
  have take: "take_chars m n = take m n" by (rule take_chars_ascii [OF assms(1)])
  have pre: "prefix (clip n m) n"
    unfolding clip_def take by (metis trim_end_prefix take_is_prefix prefix_order.trans)
  show "length (clip n m) \<le> m"
    unfolding clip_def take using prefix_length_le [OF trim_end_prefix [of _ "take m n"]] by simp
  show "list_all is_label_char (clip n m)" by (rule list_all_prefix [OF pre assms(1)])
  obtain c r where n: "n = c # r" using assms(2) by (cases n) auto
  have "c \<noteq> CHR ''-''" using assms(3) n by (auto simp: label_edge_def is_ascii_digit_def is_ascii_lower_def)
  moreover have "c \<in> set (take m n)" using n assms(4) by (cases m) auto
  ultimately show "clip n m \<noteq> []"
    unfolding clip_def take trim_end_matches_def by (auto simp: dropWhile_eq_Nil_conv)
  then show "hd (clip n m) = hd n" using pre by (metis hd_append2 prefix_def)
qed

lemma leaf_name_label:
  assumes "hex_digest H" and "list_all is_label_char base" and "base \<noteq> []" and "label_edge (hd base)"
  shows "dns_label (leaf_name H base keys k)"
proof -
  let ?n = "base @ ''-'' @ slug (key_raw k)"
  have n: "list_all is_label_char ?n" "?n \<noteq> []" "label_edge (hd ?n)"
    using assms slug_label by (simp_all add: is_label_char_def)
  note c = clip_label [OF n, of 54, simplified]
  note s = suffix_label [OF assms(1), of k]
  have suf: "suffix H k \<noteq> []" using s(1) by auto
  have "dns_label (clip ?n 54 @ ''-'' @ suffix H k)"
    unfolding dns_label_def
    using c s suf list_all_label_edge [OF s(2)] n(3) assms(3)
    by (auto simp: is_label_char_def list_all_iff)
  moreover have "dns_label ?n" if "length ?n \<le> 63"
    unfolding dns_label_def using that n slug_label(1,3) [of "key_raw k"] by simp
  ultimately show ?thesis by (simp add: leaf_name_def Let_def MAX_NAME_LEN_def)
qed



section \<open>Identifiers are bounded\<close>

lemma cut_loop_le: "cut_loop full n \<le> n \<and> is_char_boundary full (cut_loop full n)"
proof (induction n)
  case 0
  then show ?case by (subst (1 2) cut_loop.simps) (simp add: is_char_boundary_def)
next
  case (Suc n)
  then show ?case by (subst (1 2) cut_loop.simps) auto
qed

text \<open>A bounded identifier never exceeds PostgreSQL's 63 bytes. A name that fits is
  kept; a longer one keeps a prefix of at most 52 bytes that ends on a character boundary,
  followed by an underscore and ten digest digits, so two long names get the same identifier
  only if their digests agree on those ten digits.\<close>

lemma pg_ident_bounded:
  assumes "hex_digest H"
  shows "length (bounded H full) \<le> PG_IDENT_MAX
    \<and> (length full \<le> PG_IDENT_MAX \<longrightarrow> bounded H full = full)
    \<and> (PG_IDENT_MAX < length full \<longrightarrow>
         (\<exists>n \<le> 52. is_char_boundary full n \<and> bounded H full = take n full @ ''_'' @ take 10 (H full)))
    \<and> (PG_IDENT_MAX < length full \<and> PG_IDENT_MAX < length other \<and> bounded H full = bounded H other
         \<longrightarrow> take 10 (H full) = take 10 (H other))"
proof -
  have long: "\<exists>n \<le> 52. is_char_boundary s n \<and> bounded H s = take n s @ ''_'' @ take 10 (H s)"
    if "PG_IDENT_MAX < length s" for s
    using that cut_loop_le [of s 52]
    by (intro exI [of _ "cut_loop s 52"]) (auto simp: bounded_def PG_IDENT_MAX_def DIGEST_HEX_def Let_def)
  have ten: "length (take 10 (H s)) = 10" for s using assms by (simp add: hex_digest_def)
  have "length (bounded H full) \<le> PG_IDENT_MAX"
  proof (cases "PG_IDENT_MAX < length full")
    case True
    from long [OF this] ten show ?thesis by (auto simp: PG_IDENT_MAX_def)
  qed (simp add: bounded_def)
  moreover have "take 10 (H full) = take 10 (H other)"
    if "PG_IDENT_MAX < length full" "PG_IDENT_MAX < length other" "bounded H full = bounded H other"
  proof -
    from long [OF that(1)] obtain n where n: "bounded H full = take n full @ ''_'' @ take 10 (H full)" by blast
    from long [OF that(2)] obtain m where m: "bounded H other = take m other @ ''_'' @ take 10 (H other)" by blast
    from that(3) have "(take n full @ ''_'') @ take 10 (H full) = (take m other @ ''_'') @ take 10 (H other)"
      unfolding n m by simp
    moreover have "length (take 10 (H full)) = length (take 10 (H other))" by (simp only: ten)
    ultimately show ?thesis by (simp only: append_eq_append_conv simp_thms)
  qed
  ultimately show ?thesis using long by (auto simp: bounded_def)
qed

end
