(* ===== verification/Leaf_Dag.thy ===== *)
theory Leaf_Dag
  imports Leaf_Sources
begin

text \<open>
  The cross-template run-all graph and its gate (\<open>pangea-leaf/src/dag.rs\<close>,
  \<open>pangea-leaf/src/schedule.rs\<close>). The graph itself, \<open>shigoto_dag::Dag\<close> over
  \<open>shigoto_types::JobId\<close>, is code of another crate: it is the record of operations
  \<open>dag_ops\<close> that every definition takes, and \<open>dag_laws\<close> states what the code relies on: what
  \<open>predecessors\<close> returns after \<open>add_edge\<close>, and that \<open>waves\<close> gives a topological
  enumeration of the nodes exactly when there is no cycle. A reference graph at the end meets
  the laws. BLAKE3 and the JSON printer of scalars are parameters of the digest.
\<close>

section \<open>The graph the code delegates to\<close>

record ('d, 'j) dag_ops =
  job_id_of :: "string \<Rightarrow> 'j"
  pinned_subject :: "'j \<Rightarrow> string option"
  dag_new :: 'd
  ensure_node :: "'j \<Rightarrow> 'd \<Rightarrow> 'd"
  add_edge :: "'j \<Rightarrow> 'j \<Rightarrow> 'd \<Rightarrow> 'd"
  predecessors :: "'d \<Rightarrow> 'j \<Rightarrow> 'j list"
  waves :: "'d \<Rightarrow> 'j list list option"

definition node_id :: "('d, 'j) dag_ops \<Rightarrow> string \<Rightarrow> 'j" where
  "node_id D template = job_id_of D template"

definition node_name :: "('d, 'j) dag_ops \<Rightarrow> 'j \<Rightarrow> string option" where
  "node_name D i = pinned_subject D i"

section \<open>Template graphs\<close>

record 'd template_dag =
  td_dag :: 'd
  td_names :: "string list"

datatype dag_error = Cycle "string list"

definition td_new :: "('d, 'j) dag_ops \<Rightarrow> 'd template_dag" where
  "td_new D = \<lparr>td_dag = dag_new D, td_names = []\<rparr>"

definition td_add :: "('d, 'j) dag_ops \<Rightarrow> string \<Rightarrow> string list \<Rightarrow> 'd template_dag \<Rightarrow> 'd template_dag" where
  "td_add D template upstreams td =
     (let td = \<lparr>td_dag = ensure_node D (node_id D template) (td_dag td),
                td_names = bs_insert template (td_names td)\<rparr>
      in fold (\<lambda>u td. \<lparr>td_dag = add_edge D (node_id D u) (node_id D template) (td_dag td),
                       td_names = bs_insert u (td_names td)\<rparr>)
           upstreams td)"

definition nodes :: "'d template_dag \<Rightarrow> string list" where
  "nodes td = td_names td"

definition deps_satisfied :: "('d, 'j) dag_ops \<Rightarrow> 'd template_dag \<Rightarrow> string \<Rightarrow> string list \<Rightarrow> bool" where
  "deps_satisfied D td template ready =
     list_all (\<lambda>p. case node_name D p of None \<Rightarrow> False | Some n \<Rightarrow> n \<in> set ready)
       (predecessors D (td_dag td) (node_id D template))"

definition eligible :: "('d, 'j) dag_ops \<Rightarrow> 'd template_dag \<Rightarrow> string list \<Rightarrow> string list" where
  "eligible D td ready = filter (\<lambda>t. t \<notin> set ready \<and> deps_satisfied D td t ready) (td_names td)"

text \<open>One pass of the fixed-point scan, then passes until one adds nothing.\<close>

definition resolve_pass :: "('d, 'j) dag_ops \<Rightarrow> 'd template_dag \<Rightarrow> string list \<Rightarrow> string list \<times> bool" where
  "resolve_pass D td ready =
     fold (\<lambda>name (ready, grew).
         if name \<notin> set ready \<and> deps_satisfied D td name ready then (bs_insert name ready, True)
         else (ready, grew))
       (td_names td) (ready, False)"

lemma fold_pass_grows:
  assumes "fold (\<lambda>name (ready, grew).
      if name \<notin> set ready \<and> P name ready then (bs_insert name ready, True) else (ready, grew)) ns (r, g) = (r', g')"
  shows "set r \<subseteq> set r' \<and> set r' \<subseteq> set r \<union> set ns \<and> (g' \<and> \<not> g \<longrightarrow> set r \<noteq> set r')
    \<and> (\<not> g' \<longrightarrow> r' = r \<and> (\<forall>n \<in> set ns. n \<in> set r \<or> \<not> P n r) \<and> \<not> g)"
  using assms
proof (induction ns arbitrary: r g)
  case (Cons n ns)
  show ?case
  proof (cases "n \<notin> set r \<and> P n r")
    case True
    with Cons.IH [of "bs_insert n r" True] Cons.prems show ?thesis by auto
  next
    case False
    with Cons.IH [of r g] Cons.prems show ?thesis by auto
  qed
qed auto

lemma fold_pass_within:
  assumes "fold (\<lambda>name (ready, grew).
      if name \<notin> set ready \<and> P name ready then (bs_insert name ready, True) else (ready, grew)) ns (r, g) = (r', g')"
    and "set r \<subseteq> A" and "\<And>n r. P n r \<Longrightarrow> set r \<subseteq> A \<Longrightarrow> n \<in> A"
  shows "set r' \<subseteq> A"
  using assms(1,2)
proof (induction ns arbitrary: r g)
  case (Cons n ns)
  show ?case
  proof (cases "n \<notin> set r \<and> P n r")
    case True
    with Cons.prems(2) assms(3) have "n \<in> A" by blast
    with Cons.IH [of "bs_insert n r" True] Cons.prems True show ?thesis by simp
  next
    case False
    with Cons.IH [of r g] Cons.prems show ?thesis by auto
  qed
qed auto

function resolve_loop :: "('d, 'j) dag_ops \<Rightarrow> 'd template_dag \<Rightarrow> string list \<Rightarrow> string list" where
  "resolve_loop D td ready =
     (case resolve_pass D td ready of (ready', grew) \<Rightarrow> if grew then resolve_loop D td ready' else ready')"
  by pat_completeness auto
termination
  by (relation "measure (\<lambda>(D, td, ready). card (set (td_names td) - set ready))")
    (auto simp: resolve_pass_def dest!: fold_pass_grows [OF sym] intro!: psubset_card_mono)

declare resolve_loop.simps [simp del]

definition unresolvable_nodes :: "('d, 'j) dag_ops \<Rightarrow> 'd template_dag \<Rightarrow> string list" where
  "unresolvable_nodes D td = (let ready = resolve_loop D td [] in filter (\<lambda>n. n \<notin> set ready) (td_names td))"

definition apply_order :: "('d, 'j) dag_ops \<Rightarrow> 'd template_dag \<Rightarrow> (dag_error, string list) result" where
  "apply_order D td =
     (case waves D (td_dag td) of
        Some ws \<Rightarrow> Inr (List.map_filter (node_name D) (concat ws))
      | None \<Rightarrow> Inl (Cycle (unresolvable_nodes D td)))"

definition destroy_order :: "('d, 'j) dag_ops \<Rightarrow> 'd template_dag \<Rightarrow> (dag_error, string list) result" where
  "destroy_order D td = (case apply_order D td of Inl e \<Rightarrow> Inl e | Inr o' \<Rightarrow> Inr (rev o'))"

section \<open>The gate of one template and its inputs\<close>

record upstream =
  up_template :: string
  up_has_mock :: bool

definition blocked_by :: "('d, 'j) dag_ops \<Rightarrow> string \<Rightarrow> upstream list \<Rightarrow> string list \<Rightarrow> bool \<Rightarrow> string list" where
  "blocked_by D template upstreams ready applying =
     (let names = map up_template upstreams;
          dag = td_add D template names (td_new D);
          effective = (if \<not> applying
                       then fold bs_insert (map up_template (filter up_has_mock upstreams)) ready
                       else ready)
      in if deps_satisfied D dag template effective then []
         else remdups_adj (sort (filter (\<lambda>n. n \<notin> set effective) names)))"

text \<open>\<open>usize::try_from(n.max(1))\<close> never fails on a 64-bit platform.\<close>

definition scope_cap :: "u32 option \<Rightarrow> nat \<Rightarrow> nat" where
  "scope_cap max_concurrent_leaves default_per_scope =
     (case max_concurrent_leaves of Some n \<Rightarrow> unat (max n 1) | None \<Rightarrow> default_per_scope)"

function canonical :: "(json \<Rightarrow> string) \<Rightarrow> json \<Rightarrow> string \<Rightarrow> string" where
  "canonical show (JObj m) out =
     fold (\<lambda>k out. (case map_of m k of
                      None \<Rightarrow> out
                    | Some x \<Rightarrow> canonical show x (out @ show (JStr k) @ '':'') @ '',''))
       (sort (map fst m)) (out @ ''{'') @ ''}''"
| "canonical show (JArr a) out = fold (\<lambda>x out. canonical show x out @ '','') a (out @ ''['') @ '']''"
| "canonical show JNull out = out @ show JNull"
| "canonical show (JBool b) out = out @ show (JBool b)"
| "canonical show (JNum n) out = out @ show (JNum n)"
| "canonical show (JStr s) out = out @ show (JStr s)"
  by pat_completeness auto
termination
  by (relation "measure (\<lambda>(_, v, _). size v)")
    (auto dest!: map_of_SomeD size_pair_in_list dest: size_elem_in_list simp: less_Suc_eq)

definition inputs_digest ::
    "(string \<Rightarrow> string) \<Rightarrow> (json \<Rightarrow> string) \<Rightarrow> json option \<Rightarrow> json option \<Rightarrow> json option \<Rightarrow> string" where
  "inputs_digest H show catalog_variables template_variables refs =
     take 32 (H (fold (\<lambda>part s. (case part of Some v \<Rightarrow> canonical show v s | None \<Rightarrow> s @ ''~'') @ ''|'')
       [catalog_variables, template_variables, refs] []))"

definition stale_leaves :: "(string \<times> string option \<times> string) list \<Rightarrow> string list" where
  "stale_leaves leaves =
     sort (map fst (filter (\<lambda>(_, recorded, current). case recorded of None \<Rightarrow> False | Some r \<Rightarrow> r \<noteq> current) leaves))"

section \<open>What is relied on\<close>

definition before :: "'a list \<Rightarrow> 'a \<Rightarrow> 'a \<Rightarrow> bool" where
  "before xs u t \<longleftrightarrow> (\<exists>ys zs. xs = ys @ t # zs \<and> u \<in> set ys)"

definition job_edges :: "('d, 'j) dag_ops \<Rightarrow> 'd \<Rightarrow> ('j \<times> 'j) set" where
  "job_edges D d = {(u, t). u \<in> set (predecessors D d t)}"

text \<open>\<open>N d\<close> stands for the node set of \<open>d\<close>, which the crate does not expose.\<close>

definition dag_laws :: "('d, 'j) dag_ops \<Rightarrow> ('d \<Rightarrow> 'j set) \<Rightarrow> bool" where
  "dag_laws D N \<longleftrightarrow>
     (\<forall>s. pinned_subject D (job_id_of D s) = Some s) \<and>
     N (dag_new D) = {} \<and> (\<forall>i. predecessors D (dag_new D) i = []) \<and>
     (\<forall>j d. N (ensure_node D j d) = insert j (N d)) \<and>
     (\<forall>j d i. set (predecessors D (ensure_node D j d) i) = set (predecessors D d i)) \<and>
     (\<forall>u t d. N (add_edge D u t d) = {u, t} \<union> N d) \<and>
     (\<forall>u t d i. set (predecessors D (add_edge D u t d) i) =
        set (predecessors D d i) \<union> (if i = t then {u} else {})) \<and>
     (\<forall>d. case waves D d of
        None \<Rightarrow> \<not> acyclic (job_edges D d)
      | Some ws \<Rightarrow> distinct (concat ws) \<and> set (concat ws) = N d \<and>
          (\<forall>u t. (u, t) \<in> job_edges D d \<longrightarrow> before (concat ws) u t))"

lemma dag_lawsD:
  assumes "dag_laws D N"
  shows "node_name D (node_id D s) = Some s" and "N (dag_new D) = {}" and "predecessors D (dag_new D) i = []"
    and "N (ensure_node D j d) = insert j (N d)"
    and "set (predecessors D (ensure_node D j d) i) = set (predecessors D d i)"
    and "N (add_edge D u t d) = {u, t} \<union> N d"
    and "set (predecessors D (add_edge D u t d) i) = set (predecessors D d i) \<union> (if i = t then {u} else {})"
  using assms unfolding dag_laws_def node_name_def node_id_def by simp_all

lemma dag_laws_waves:
  assumes "dag_laws D N"
  shows "case waves D d of
        None \<Rightarrow> \<not> acyclic (job_edges D d)
      | Some ws \<Rightarrow> distinct (concat ws) \<and> set (concat ws) = N d \<and>
          (\<forall>u t. (u, t) \<in> job_edges D d \<longrightarrow> before (concat ws) u t)"
  using assms unfolding dag_laws_def by blast

lemma node_id_inject: "dag_laws D N \<Longrightarrow> node_id D s = node_id D t \<longleftrightarrow> s = t"
  by (metis dag_lawsD(1) option.inject)

section \<open>Graphs from dependency lists\<close>

definition td_of :: "('d, 'j) dag_ops \<Rightarrow> (string \<times> string list) list \<Rightarrow> 'd template_dag" where
  "td_of D specs = fold (\<lambda>(t, us). td_add D t us) specs (td_new D)"

definition dep_edges :: "(string \<times> string list) list \<Rightarrow> (string \<times> string) set" where
  "dep_edges specs = {(u, t). \<exists>us. (t, us) \<in> set specs \<and> u \<in> set us}"

definition dep_nodes :: "(string \<times> string list) list \<Rightarrow> string set" where
  "dep_nodes specs = (\<Union>(t, us) \<in> set specs. insert t (set us))"

text \<open>The graph holds the nodes \<open>V\<close> and the edges \<open>E\<close>.\<close>

definition holds_graph :: "('d, 'j) dag_ops \<Rightarrow> ('d \<Rightarrow> 'j set) \<Rightarrow> 'd template_dag \<Rightarrow> string set \<Rightarrow> (string \<times> string) set \<Rightarrow> bool" where
  "holds_graph D N td V E \<longleftrightarrow> bs_wf (td_names td) \<and> set (td_names td) = V \<and> N (td_dag td) = node_id D ` V \<and>
     (\<forall>i. set (predecessors D (td_dag td) i) = {node_id D u | u t. i = node_id D t \<and> (u, t) \<in> E})"

lemma holds_graph_edge:
  assumes "dag_laws D N" and "holds_graph D N td V E" and "t \<in> V"
  shows "holds_graph D N \<lparr>td_dag = add_edge D (node_id D u) (node_id D t) (td_dag td),
      td_names = bs_insert u (td_names td)\<rparr> (insert u V) (insert (u, t) E)"
  using assms(2,3)
  by (auto simp: holds_graph_def dag_lawsD [OF assms(1)] bs_wf_insert node_id_inject [OF assms(1)])

lemma holds_graph_add:
  assumes "dag_laws D N" and "holds_graph D N td V E"
  shows "holds_graph D N (td_add D t us td) (V \<union> insert t (set us)) (E \<union> {(u, t) | u. u \<in> set us})"
proof -
  let ?td = "\<lparr>td_dag = ensure_node D (node_id D t) (td_dag td), td_names = bs_insert t (td_names td)\<rparr>"
  have node: "holds_graph D N ?td (insert t V) E"
    using assms(2) by (simp add: holds_graph_def dag_lawsD [OF assms(1)] bs_wf_insert)
  have "holds_graph D N (fold (\<lambda>u td. \<lparr>td_dag = add_edge D (node_id D u) (node_id D t) (td_dag td),
      td_names = bs_insert u (td_names td)\<rparr>) us td') (V' \<union> set us) (E' \<union> {(u, t) | u. u \<in> set us})"
    if "holds_graph D N td' V' E'" and "t \<in> V'" for td' V' E'
    using that
  proof (induction us arbitrary: td' V' E')
    case (Cons u us)
    note edge = holds_graph_edge [OF assms(1) Cons.prems, of u]
    have "insert u V' \<union> set us = V' \<union> set (u # us)"
      "insert (u, t) E' \<union> {(u, t) | u. u \<in> set us} = E' \<union> {(v, t) | v. v \<in> set (u # us)}" by auto
    with Cons.IH [OF edge] Cons.prems(2) show ?case by simp
  qed simp
  from this [OF node] show ?thesis by (simp add: td_add_def Let_def insert_commute)
qed

lemma holds_graph_td_of:
  assumes "dag_laws D N"
  shows "holds_graph D N (td_of D specs) (dep_nodes specs) (dep_edges specs)"
proof (induction specs rule: rev_induct)
  case Nil
  then show ?case by (simp add: holds_graph_def td_of_def td_new_def dep_nodes_def dep_edges_def dag_lawsD [OF assms])
next
  case (snoc x specs)
  obtain t us where x: "x = (t, us)" by fastforce
  have "dep_nodes (specs @ [x]) = dep_nodes specs \<union> insert t (set us)"
    "dep_edges (specs @ [x]) = dep_edges specs \<union> {(u, t) | u. u \<in> set us}"
    by (auto simp: dep_nodes_def dep_edges_def x)
  with holds_graph_add [OF assms snoc.IH, of t us] x show ?case by (simp add: td_of_def)
qed

lemma deps_satisfied_iff:
  assumes "dag_laws D N" and "holds_graph D N td V E"
  shows "deps_satisfied D td t ready \<longleftrightarrow> (\<forall>u. (u, t) \<in> E \<longrightarrow> u \<in> set ready)"
proof -
  have "set (predecessors D (td_dag td) (node_id D t)) = {node_id D u | u. (u, t) \<in> E}"
    using assms(2) by (auto simp: holds_graph_def node_id_inject [OF assms(1)])
  then show ?thesis
    by (auto simp: deps_satisfied_def list_all_iff dag_lawsD(1) [OF assms(1)])
qed

section \<open>Templates behind a cycle\<close>

definition stuck :: "('a \<times> 'a) set \<Rightarrow> 'a \<Rightarrow> bool" where
  "stuck E t \<longleftrightarrow> (\<exists>m. (m, m) \<in> E\<^sup>+ \<and> (m, t) \<in> E\<^sup>*)"

lemma acc_no_cycle: "x \<in> Wellfounded.acc E \<Longrightarrow> (x, x) \<notin> E\<^sup>+"
proof (induction rule: acc_induct_rule)
  case (1 x)
  show ?case
  proof
    assume "(x, x) \<in> E\<^sup>+"
    then obtain y where "(x, y) \<in> E\<^sup>*" and yx: "(y, x) \<in> E" by (meson tranclD2)
    then have "(y, y) \<in> E\<^sup>+" by (meson rtrancl_into_trancl2)
    with 1 yx show False by blast
  qed
qed

lemma acc_iff_not_stuck:
  assumes "finite E"
  shows "t \<in> Wellfounded.acc E \<longleftrightarrow> \<not> stuck E t"
proof
  assume "t \<in> Wellfounded.acc E"
  then show "\<not> stuck E t" by (metis acc_downwards acc_no_cycle stuck_def)
next
  assume not_stuck: "\<not> stuck E t"
  show "t \<in> Wellfounded.acc E"
  proof (rule ccontr)
    assume out: "t \<notin> Wellfounded.acc E"
    define S where "S = {x. x \<notin> Wellfounded.acc E \<and> (x, t) \<in> E\<^sup>*}"
    have "acyclic (E \<inter> S \<times> S)"
    proof (rule acyclicI, rule allI, rule notI)
      fix x assume cyc: "(x, x) \<in> (E \<inter> S \<times> S)\<^sup>+"
      then have "(x, x) \<in> E\<^sup>+" by (rule trancl_mono) auto
      moreover from cyc have "x \<in> S" by (auto dest: tranclD)
      ultimately show False using not_stuck by (auto simp: stuck_def S_def)
    qed
    then have "wf (E \<inter> S \<times> S)" using assms by (intro finite_acyclic_wf) auto
    moreover have "t \<in> S" using out by (simp add: S_def)
    ultimately obtain x where x: "x \<in> S" and least: "\<And>y. (y, x) \<in> E \<inter> S \<times> S \<Longrightarrow> y \<notin> S"
      by (metis wfE_min)
    from x obtain y where "(y, x) \<in> E" and "y \<notin> Wellfounded.acc E" by (auto simp: S_def dest: not_acc_down)
    moreover from this x have "y \<in> S" by (auto simp: S_def intro: converse_rtrancl_into_rtrancl)
    ultimately show False using least x by blast
  qed
qed

lemma finite_dep_edges: "finite (dep_edges specs)"
proof -
  have "dep_edges specs \<subseteq> dep_nodes specs \<times> dep_nodes specs" by (auto simp: dep_edges_def dep_nodes_def)
  moreover have "finite (dep_nodes specs)" by (auto simp: dep_nodes_def)
  ultimately show ?thesis by (meson finite_SigmaI finite_subset)
qed

section \<open>The fixed-point scan\<close>

lemma resolve_pass_acc:
  assumes laws: "dag_laws D N" and graph: "holds_graph D N td V E" and pass: "resolve_pass D td ready = (ready', g')"
    and "set ready \<subseteq> Wellfounded.acc E"
  shows "set ready' \<subseteq> Wellfounded.acc E"
proof (rule fold_pass_within [OF pass [unfolded resolve_pass_def] assms(4)])
  fix n r assume "deps_satisfied D td n r" and "set r \<subseteq> Wellfounded.acc E"
  then have "u \<in> Wellfounded.acc E" if "(u, n) \<in> E" for u
    using that by (auto simp: deps_satisfied_iff [OF laws graph])
  then show "n \<in> Wellfounded.acc E" by (rule accI)
qed

lemma closed_set_has_acc:
  assumes "\<forall>n \<in> V. n \<in> R \<or> (\<exists>u. (u, n) \<in> E \<and> u \<notin> R)" and "\<forall>u t. (u, t) \<in> E \<longrightarrow> u \<in> V"
    and "n \<in> Wellfounded.acc E" and "n \<in> V"
  shows "n \<in> R"
  using assms(3,4)
proof (induction rule: acc_induct_rule)
  case (1 n)
  with assms(1,2) show ?case by blast
qed

lemma resolve_loop_acc:
  assumes "dag_laws D N" and "holds_graph D N td V E" and "\<forall>u t. (u, t) \<in> E \<longrightarrow> u \<in> V"
    and "set ready \<subseteq> Wellfounded.acc E"
  shows "set (resolve_loop D td ready) \<inter> V = Wellfounded.acc E \<inter> V"
  using assms
proof (induction D td ready rule: resolve_loop.induct)
  case (1 D td ready)
  obtain ready' g' where pass: "resolve_pass D td ready = (ready', g')" by fastforce
  note acc = resolve_pass_acc [OF 1(2,3) pass 1(5)]
  show ?case
  proof (cases g')
    case True
    with 1(1) [OF pass [symmetric] True] 1(2-4) acc pass show ?thesis
      by (subst resolve_loop.simps) simp
  next
    case False
    with fold_pass_grows [OF pass [unfolded resolve_pass_def]] 1(3)
    have "ready' = ready" and "\<forall>n \<in> V. n \<in> set ready \<or> \<not> deps_satisfied D td n ready"
      by (simp_all add: holds_graph_def)
    then have "\<forall>n \<in> V. n \<in> set ready \<or> (\<exists>u. (u, n) \<in> E \<and> u \<notin> set ready)"
      by (simp add: deps_satisfied_iff [OF 1(2,3)])
    from closed_set_has_acc [OF this 1(4)] 1(5) \<open>ready' = ready\<close> pass False show ?thesis
      by (subst resolve_loop.simps) auto
  qed
qed

lemma unresolvable_stuck:
  assumes "dag_laws D N" and "holds_graph D N td V E" and "\<forall>u t. (u, t) \<in> E \<longrightarrow> u \<in> V" and "finite E"
  shows "set (unresolvable_nodes D td) = {t \<in> V. stuck E t}"
  using resolve_loop_acc [OF assms(1-3), of "[]"] assms(2) acc_iff_not_stuck [OF assms(4)]
  by (auto simp: unresolvable_nodes_def Let_def holds_graph_def)

section \<open>The orders\<close>

lemma trancl_map_inj:
  assumes "(x, y) \<in> (map_prod f f ` E)\<^sup>+" and "inj f" and "x = f a"
  shows "\<exists>b. y = f b \<and> (a, b) \<in> E\<^sup>+"
  using assms(1)
proof (induction rule: trancl_induct)
  case (base y)
  with assms(2,3) show ?case by (auto dest: injD)
next
  case (step y z)
  with assms(2) show ?case by (auto dest!: injD)
qed

lemma before_map_inj: "inj f \<Longrightarrow> before (map f ys) (f u) (f t) \<Longrightarrow> before ys u t"
  unfolding before_def by (fastforce simp: map_eq_append_conv map_eq_Cons_conv Cons_eq_map_conv dest: injD)

lemma before_position:
  assumes "distinct xs" and "before xs u t"
  shows "length (takeWhile (\<lambda>x. x \<noteq> u) xs) < length (takeWhile (\<lambda>x. x \<noteq> t) xs)"
proof -
  from assms(2) obtain ys zs where xs: "xs = ys @ t # zs" and u: "u \<in> set ys" by (auto simp: before_def)
  have "t \<notin> set ys" using assms(1) xs by simp
  then have "takeWhile (\<lambda>x. x \<noteq> t) xs = ys" unfolding xs by (induction ys) auto
  moreover have "takeWhile (\<lambda>x. x \<noteq> u) xs = takeWhile (\<lambda>x. x \<noteq> u) ys" using u by (simp add: xs)
  moreover have "length (takeWhile (\<lambda>x. x \<noteq> u) ys) < length ys"
    using u by (induction ys) auto
  ultimately show ?thesis by simp
qed

lemma ordered_acyclic:
  assumes "distinct xs" and "\<And>u t. (u, t) \<in> E \<Longrightarrow> before xs u t"
  shows "acyclic E"
proof -
  have "E \<subseteq> measure (\<lambda>t. length (takeWhile (\<lambda>x. x \<noteq> t) xs))"
    using before_position [OF assms(1)] assms(2) by auto
  then show ?thesis by (rule wf_acyclic [OF wf_subset [OF wf_measure]])
qed

lemma map_filter_names:
  assumes "dag_laws D N" and "set xs \<subseteq> range (node_id D)"
  shows "xs = map (node_id D) (List.map_filter (node_name D) xs)"
  using assms(2)
proof (induction xs)
  case (Cons x xs)
  then obtain s where "x = node_id D s" by auto
  with Cons show ?case by (simp add: List.map_filter_simps dag_lawsD(1) [OF assms(1)])
qed (simp add: List.map_filter_simps)

lemma job_edges_graph:
  assumes "holds_graph D N td V E"
  shows "job_edges D (td_dag td) = map_prod (node_id D) (node_id D) ` E"
  using assms by (force simp: job_edges_def holds_graph_def)

text \<open>C22: The run-all order is right on every graph. If the dependencies have no cycle, the
  apply order lists every template once, each after all its upstreams, and the destroy order is
  its reverse. If they have one, the error names exactly the templates that sit on or behind a
  cycle, the ones that can never become ready, and there is at least one.\<close>

theorem run_all_order:
  fixes specs :: "(string \<times> string list) list"
  assumes "dag_laws D N"
  defines "E \<equiv> dep_edges specs"
  shows "case apply_order D (td_of D specs) of
      Inr order \<Rightarrow> acyclic E \<and> distinct order \<and> set order = dep_nodes specs
        \<and> (\<forall>(u, t) \<in> E. before order u t) \<and> destroy_order D (td_of D specs) = Inr (rev order)
    | Inl (Cycle c) \<Rightarrow> \<not> acyclic E \<and> c \<noteq> [] \<and> set c = {t \<in> dep_nodes specs. stuck E t}
        \<and> destroy_order D (td_of D specs) = Inl (Cycle c)"
proof -
  let ?td = "td_of D specs" and ?f = "node_id D"
  note graph = holds_graph_td_of [OF assms(1), of specs, folded E_def]
  have inj: "inj ?f" by (rule injI) (simp add: node_id_inject [OF assms(1)])
  have dom: "\<forall>u t. (u, t) \<in> E \<longrightarrow> u \<in> dep_nodes specs" by (auto simp: E_def dep_edges_def dep_nodes_def)
  have edges: "job_edges D (td_dag ?td) = map_prod ?f ?f ` E" by (rule job_edges_graph [OF graph])
  show ?thesis
  proof (cases "waves D (td_dag ?td)")
    case None
    have "\<not> acyclic (map_prod ?f ?f ` E)"
      using dag_laws_waves [OF assms(1), of "td_dag ?td"] unfolding None edges by simp
    then obtain x where x: "(x, x) \<in> (map_prod ?f ?f ` E)\<^sup>+" unfolding acyclic_def by blast
    then obtain a where a: "x = ?f a" by (force dest: tranclD)
    from trancl_map_inj [OF x inj a] a inj have cyc: "(a, a) \<in> E\<^sup>+" by (metis injD)
    then have "a \<in> dep_nodes specs" using dom by (meson tranclD)
    moreover have "stuck E a" using cyc by (auto simp: stuck_def)
    moreover have set: "set (unresolvable_nodes D ?td) = {t \<in> dep_nodes specs. stuck E t}"
      using unresolvable_stuck [OF assms(1) graph dom] finite_dep_edges by (simp add: E_def)
    ultimately have "unresolvable_nodes D ?td \<noteq> []" by force
    moreover have "\<not> acyclic E" using cyc by (auto simp: acyclic_def)
    ultimately show ?thesis using set by (simp add: apply_order_def destroy_order_def None)
  next
    case (Some ws)
    define order where "order = List.map_filter (node_name D) (concat ws)"
    have N: "N (td_dag ?td) = ?f ` dep_nodes specs" using graph by (simp add: holds_graph_def)
    have ws: "distinct (concat ws)" "set (concat ws) = ?f ` dep_nodes specs"
      and topo: "\<forall>u t. (u, t) \<in> map_prod ?f ?f ` E \<longrightarrow> before (concat ws) u t"
      using dag_laws_waves [OF assms(1), of "td_dag ?td"] unfolding Some edges N option.case by blast+
    have edge: "before (concat ws) (?f u) (?f t)" if "(u, t) \<in> E" for u t
      using that topo by force
    have map: "concat ws = map ?f order"
      unfolding order_def by (rule map_filter_names [OF assms(1)]) (use ws(2) in auto)
    have enum: "distinct order" "set order = dep_nodes specs"
      using ws inj unfolding map set_map by (simp_all add: distinct_map inj_image_eq_iff)
    have topo: "before order u t" if "(u, t) \<in> E" for u t
      using edge [OF that] unfolding map by (rule before_map_inj [OF inj])
    have "acyclic E" by (rule ordered_acyclic [OF enum(1) topo])
    with enum topo show ?thesis by (auto simp: apply_order_def destroy_order_def Some order_def [symmetric])
  qed
qed

text \<open>The gate never deadlocks a run-all. A template is eligible exactly when it is not
  ready and all its upstreams are; and when nothing is eligible, every template that is not
  behind a cycle is ready already.\<close>

lemma eligible_progress:
  assumes "dag_laws D N"
  shows "set (eligible D (td_of D specs) ready) =
      {t \<in> dep_nodes specs. t \<notin> set ready \<and> (\<forall>u. (u, t) \<in> dep_edges specs \<longrightarrow> u \<in> set ready)}
    \<and> (eligible D (td_of D specs) ready = [] \<longrightarrow>
        (\<forall>t \<in> dep_nodes specs. \<not> stuck (dep_edges specs) t \<longrightarrow> t \<in> set ready))"
proof -
  note graph = holds_graph_td_of [OF assms, of specs]
  have eligible: "set (eligible D (td_of D specs) ready) =
      {t \<in> dep_nodes specs. t \<notin> set ready \<and> (\<forall>u. (u, t) \<in> dep_edges specs \<longrightarrow> u \<in> set ready)}"
    using graph by (auto simp: eligible_def deps_satisfied_iff [OF assms graph] holds_graph_def)
  have "t \<in> set ready" if "eligible D (td_of D specs) ready = []" and "t \<in> dep_nodes specs"
    and "\<not> stuck (dep_edges specs) t" for t
  proof (rule closed_set_has_acc [of "dep_nodes specs"])
    show "\<forall>n \<in> dep_nodes specs. n \<in> set ready \<or> (\<exists>u. (u, n) \<in> dep_edges specs \<and> u \<notin> set ready)"
      using eligible that(1) by auto
    show "\<forall>u t. (u, t) \<in> dep_edges specs \<longrightarrow> u \<in> dep_nodes specs" by (auto simp: dep_edges_def dep_nodes_def)
    show "t \<in> Wellfounded.acc (dep_edges specs)" using that(3) acc_iff_not_stuck [OF finite_dep_edges] by blast
  qed (rule that(2))
  with eligible show ?thesis by blast
qed

section \<open>A reference graph that meets the laws\<close>

datatype ref_item = RNode string | REdge string string

fun ref_nodes :: "ref_item list \<Rightarrow> string list" where
  "ref_nodes [] = []"
| "ref_nodes (RNode n # d) = bs_insert n (ref_nodes d)"
| "ref_nodes (REdge u t # d) = bs_insert u (bs_insert t (ref_nodes d))"

fun ref_preds :: "ref_item list \<Rightarrow> string \<Rightarrow> string list" where
  "ref_preds [] t = []"
| "ref_preds (RNode n # d) t = ref_preds d t"
| "ref_preds (REdge u t' # d) t = (if t' = t then u # ref_preds d t else ref_preds d t)"

definition ref_wave :: "ref_item list \<Rightarrow> string list \<Rightarrow> string list" where
  "ref_wave d rem = filter (\<lambda>n. list_all (\<lambda>u. u \<notin> set rem) (ref_preds d n)) rem"

fun ref_kahn :: "nat \<Rightarrow> ref_item list \<Rightarrow> string list \<Rightarrow> string list list option" where
  "ref_kahn fuel d rem =
     (if rem = [] then Some []
      else case fuel of
        0 \<Rightarrow> None
      | Suc f \<Rightarrow>
          (let wave = ref_wave d rem in
           if wave = [] then None
           else map_option ((#) wave) (ref_kahn f d (filter (\<lambda>n. n \<notin> set wave) rem))))"

declare ref_kahn.simps [simp del]

definition ref_ops :: "(ref_item list, string) dag_ops" where
  "ref_ops = \<lparr>job_id_of = id, pinned_subject = Some, dag_new = [],
     ensure_node = (\<lambda>n d. RNode n # d), add_edge = (\<lambda>u t d. REdge u t # d),
     predecessors = ref_preds, waves = (\<lambda>d. ref_kahn (length (ref_nodes d)) d (ref_nodes d))\<rparr>"

lemma bs_wf_ref_nodes: "bs_wf (ref_nodes d)"
  by (induction d rule: ref_nodes.induct) (auto intro: bs_wf_insert)

lemma before_append: "before xs u t \<Longrightarrow> before (ws @ xs) u t"
  unfolding before_def by (metis append.assoc UnCI set_append)

lemma before_split: "u \<in> set ws \<Longrightarrow> t \<in> set xs \<Longrightarrow> before (ws @ xs) u t"
  unfolding before_def by (metis append.assoc in_set_conv_decomp UnCI set_append)

lemma ref_kahn_Some:
  assumes "ref_kahn fuel d rem = Some ws" and "distinct rem"
  shows "distinct (concat ws) \<and> set (concat ws) = set rem \<and>
    (\<forall>u t. u \<in> set rem \<and> t \<in> set rem \<and> u \<in> set (ref_preds d t) \<longrightarrow> before (concat ws) u t)"
  using assms
proof (induction fuel arbitrary: rem ws)
  case 0
  then show ?case by (subst (asm) ref_kahn.simps) (auto split: if_splits)
next
  case (Suc f)
  show ?case
  proof (cases "rem = []")
    case True
    with Suc.prems show ?thesis by (subst (asm) ref_kahn.simps) auto
  next
    case False
    let ?w = "ref_wave d rem" and ?rest = "filter (\<lambda>n. n \<notin> set (ref_wave d rem)) rem"
    from Suc.prems(1) False obtain vs where vs: "ref_kahn f d ?rest = Some vs" and ws: "ws = ?w # vs"
      by (subst (asm) ref_kahn.simps) (auto simp: Let_def split: if_splits)
    from Suc.IH [OF vs] Suc.prems(2) have IH: "distinct (concat vs)" "set (concat vs) = set ?rest"
      "\<And>u t. u \<in> set ?rest \<Longrightarrow> t \<in> set ?rest \<Longrightarrow> u \<in> set (ref_preds d t) \<Longrightarrow> before (concat vs) u t" by auto
    have sub: "set ?w \<subseteq> set rem" "distinct ?w" using Suc.prems(2) by (auto simp: ref_wave_def)
    have "before (concat ws) u t" if "u \<in> set rem" "t \<in> set rem" "u \<in> set (ref_preds d t)" for u t
    proof -
      have t: "t \<in> set ?rest" using that by (auto simp: ref_wave_def list_all_iff)
      show ?thesis
      proof (cases "u \<in> set ?w")
        case True
        with t IH(2) show ?thesis unfolding ws concat.simps by (intro before_split) auto
      next
        case False
        with t that IH(3) [of u t] show ?thesis unfolding ws concat.simps by (intro before_append) auto
      qed
    qed
    moreover have "distinct (concat ws)" using IH(1,2) sub(2) unfolding ws by auto
    moreover have "set (concat ws) = set rem" using IH(2) sub(1) unfolding ws by auto
    ultimately show ?thesis by blast
  qed
qed

lemma no_source_cycle:
  assumes "finite S" and "x \<in> S" and "\<forall>n \<in> S. \<exists>u \<in> S. (u, n) \<in> E"
  shows "\<not> acyclic E"
proof
  assume "acyclic E"
  then have "acyclic (E \<inter> S \<times> S)" by (rule acyclic_subset) auto
  then have "wf (E \<inter> S \<times> S)" using assms(1) by (intro finite_acyclic_wf) auto
  then obtain n where "n \<in> S" and "\<And>u. (u, n) \<in> E \<inter> S \<times> S \<Longrightarrow> u \<notin> S" using assms(2) by (metis wfE_min)
  with assms(3) show False by blast
qed

lemma ref_kahn_None:
  assumes "ref_kahn fuel d rem = None" and "length rem \<le> fuel"
  shows "\<not> acyclic (job_edges ref_ops d)"
  using assms
proof (induction fuel arbitrary: rem)
  case 0
  then show ?case by (subst (asm) ref_kahn.simps) auto
next
  case (Suc f)
  have ne: "rem \<noteq> []" using Suc.prems(1) by (subst (asm) ref_kahn.simps) (auto split: if_splits)
  let ?w = "ref_wave d rem"
  show ?case
  proof (cases "?w = []")
    case True
    then have "\<forall>n \<in> set rem. \<exists>u \<in> set rem. (u, n) \<in> job_edges ref_ops d"
      by (auto simp: ref_wave_def filter_empty_conv list_all_iff job_edges_def ref_ops_def)
    moreover have "hd rem \<in> set rem" using ne by simp
    ultimately show ?thesis using no_source_cycle [of "set rem"] by blast
  next
    case False
    have "hd ?w \<in> set rem" using False hd_in_set [OF False] by (auto simp: ref_wave_def)
    then have "length (filter (\<lambda>n. n \<notin> set ?w) rem) < length rem"
      using hd_in_set [OF False] by (intro length_filter_less) auto
    with Suc.IH Suc.prems ne False show ?thesis
      by (subst (asm) (2) ref_kahn.simps) (auto simp: Let_def)
  qed
qed

lemma ref_preds_nodes: "u \<in> set (ref_preds d t) \<Longrightarrow> u \<in> set (ref_nodes d) \<and> t \<in> set (ref_nodes d)"
  by (induction d rule: ref_nodes.induct) (auto split: if_splits)

lemma ref_ops_laws: "dag_laws ref_ops (\<lambda>d. set (ref_nodes d))"
proof -
  have "case waves ref_ops d of
        None \<Rightarrow> \<not> acyclic (job_edges ref_ops d)
      | Some ws \<Rightarrow> distinct (concat ws) \<and> set (concat ws) = set (ref_nodes d) \<and>
          (\<forall>u t. (u, t) \<in> job_edges ref_ops d \<longrightarrow> before (concat ws) u t)" for d
  proof (cases "waves ref_ops d")
    case None
    then have "ref_kahn (length (ref_nodes d)) d (ref_nodes d) = None" by (simp add: ref_ops_def)
    with ref_kahn_None None show ?thesis by fastforce
  next
    case (Some ws)
    then have "ref_kahn (length (ref_nodes d)) d (ref_nodes d) = Some ws" by (simp add: ref_ops_def)
    moreover have "distinct (ref_nodes d)" using bs_wf_ref_nodes [of d] by (simp add: bs_wf_iff)
    ultimately have "distinct (concat ws) \<and> set (concat ws) = set (ref_nodes d) \<and>
      (\<forall>u t. u \<in> set (ref_nodes d) \<and> t \<in> set (ref_nodes d) \<and> u \<in> set (ref_preds d t) \<longrightarrow> before (concat ws) u t)"
      by (rule ref_kahn_Some)
    moreover have "(u, t) \<in> job_edges ref_ops d \<Longrightarrow> u \<in> set (ref_preds d t)" for u t
      by (simp add: job_edges_def ref_ops_def)
    ultimately show ?thesis unfolding Some option.case using ref_preds_nodes by blast
  qed
  then show ?thesis unfolding dag_laws_def by (simp add: ref_ops_def del: split_paired_All)
qed

definition sample_specs :: "(string \<times> string list) list" where
  "sample_specs = [(''app'', [''db'', ''net'']), (''db'', [''net''])]"

lemma sample_order: "apply_order ref_ops (td_of ref_ops sample_specs) = Inr [''net'', ''db'', ''app'']"
  by code_simp

lemma sample_cycle: "apply_order ref_ops (td_of ref_ops [(''a'', [''b'']), (''b'', [''a'']), (''c'', [''a'']), (''d'', [])]) =
    Inl (Cycle [''a'', ''b'', ''c''])"
  by code_simp

theorem run_all_order_witness:
  "set [''net'', ''db'', ''app''] = dep_nodes sample_specs \<and> acyclic (dep_edges sample_specs)"
  using run_all_order [OF ref_ops_laws, of sample_specs] unfolding sample_order sum.case by blast

lemma sample_eligible: "eligible ref_ops (td_of ref_ops sample_specs) [''net''] = [''db'']"
  by code_simp

section \<open>The gate of one template\<close>

lemma remdups_adj_sort: "remdups_adj (sort xs) = bs_of_list xs" for xs :: "'a::linorder list"
proof (rule bs_wf_unique)
  have "sorted_wrt (<) (remdups_adj ys)" if "sorted ys" for ys :: "'a list"
    using that
  proof (induction ys rule: remdups_adj.induct)
    case (3 x y ys)
    then show ?case by (cases "x = y") (auto simp: order.strict_iff_order)
  qed auto
  then show "bs_wf (remdups_adj (sort xs))" by (simp add: bs_wf_def)
qed simp_all

text \<open>What blocks a template is exactly the set of its upstreams that are neither ready
  nor, while only planning, mocked, reported once each in name order; so the template may go on
  exactly when that list is empty, and an apply never proceeds on a mocked upstream.\<close>

lemma blocked_by_exact:
  assumes "dag_laws D N"
  shows "bs_wf (blocked_by D template upstreams ready applying)
    \<and> set (blocked_by D template upstreams ready applying) =
        {up_template u | u. u \<in> set upstreams \<and> up_template u \<notin> set ready
           \<and> (applying \<or> \<not> (\<exists>v \<in> set upstreams. up_has_mock v \<and> up_template v = up_template u))}"
proof -
  let ?names = "map up_template upstreams"
  let ?eff = "if \<not> applying then fold bs_insert (map up_template (filter up_has_mock upstreams)) ready else ready"
  have td: "td_add D template ?names (td_new D) = td_of D [(template, ?names)]" by (simp add: td_of_def)
  have deps: "deps_satisfied D (td_of D [(template, ?names)]) template eff \<longleftrightarrow> (\<forall>u \<in> set upstreams. up_template u \<in> set eff)"
    for eff unfolding deps_satisfied_iff [OF assms holds_graph_td_of [OF assms]] by (auto simp: dep_edges_def)
  have eff: "set ?eff = set ready \<union> (if applying then {} else {up_template v | v. v \<in> set upstreams \<and> up_has_mock v})"
    by (auto simp: set_fold_bs_insert)
  define eff' where "eff' = ?eff"
  have blocked: "blocked_by D template upstreams ready applying = bs_of_list (filter (\<lambda>n. n \<notin> set eff') ?names)"
  proof (cases "\<forall>u \<in> set upstreams. up_template u \<in> set eff'")
    case True
    then have "filter (\<lambda>n. n \<notin> set eff') ?names = []" by (simp add: filter_empty_conv)
    then show ?thesis using True
      unfolding blocked_by_def Let_def td deps eff'_def [symmetric] by (simp add: bs_of_list_def)
  next
    case False
    then show ?thesis
      unfolding blocked_by_def Let_def td deps eff'_def [symmetric] by (simp only: if_False remdups_adj_sort)
  qed
  have mem: "n \<in> set eff' \<longleftrightarrow> n \<in> set ready \<or> \<not> applying \<and> (\<exists>v \<in> set upstreams. up_has_mock v \<and> up_template v = n)" for n
    unfolding eff'_def eff by auto
  show ?thesis unfolding blocked by (auto simp: mem)
qed

lemma sample_blocked:
  "blocked_by ref_ops ''app'' [\<lparr>up_template = ''net'', up_has_mock = False\<rparr>, \<lparr>up_template = ''db'', up_has_mock = True\<rparr>] [''net''] True = [''db'']"
  by code_simp

section \<open>Inputs that differ only in key order\<close>

inductive same_json :: "json \<Rightarrow> json \<Rightarrow> bool" where
  same_refl: "same_json v v"
| same_array: "list_all2 same_json xs ys \<Longrightarrow> same_json (JArr xs) (JArr ys)"
| same_object: "mset (map fst m) = mset (map fst n) \<Longrightarrow>
    (\<And>k x y. map_of m k = Some x \<Longrightarrow> map_of n k = Some y \<Longrightarrow> same_json x y) \<Longrightarrow> same_json (JObj m) (JObj n)"

lemma canonical_same: "same_json v w \<Longrightarrow> canonical show v out = canonical show w out"
proof (induction arbitrary: out rule: same_json.induct)
  case (same_array xs ys)
  then have "fold (\<lambda>x out. canonical show x out @ '','') xs s = fold (\<lambda>x out. canonical show x out @ '','') ys s" for s
    by (induction arbitrary: s rule: list_all2_induct) simp_all
  then show ?case by simp
next
  case (same_object m n)
  have keys: "sort (map fst m) = sort (map fst n)"
    by (rule properties_for_sort) (use same_object(1) in simp_all)
  have dom: "map_of m k = None \<longleftrightarrow> map_of n k = None" for k
    using same_object(1) mset_eq_setD [of "map fst m" "map fst n"] by (simp add: map_of_eq_None_iff)
  have step: "(case map_of m k of None \<Rightarrow> s | Some x \<Rightarrow> canonical show x (s @ show (JStr k) @ '':'') @ '','') =
      (case map_of n k of None \<Rightarrow> s | Some x \<Rightarrow> canonical show x (s @ show (JStr k) @ '':'') @ '','')" for k s
    using dom [of k] same_object(3) [of k] by (auto split: option.splits)
  show ?case by (simp only: canonical.simps keys step)
qed simp

text \<open>The inputs digest of a leaf does not depend on the order in which any object of its
  inputs lists its keys, at any depth, for every hash and every printer of scalars; so a
  re-serialised but unchanged input never makes a leaf stale.\<close>

lemma inputs_digest_key_order:
  assumes "rel_option same_json a a'" and "rel_option same_json b b'" and "rel_option same_json c c'"
  shows "inputs_digest H show a b c = inputs_digest H show a' b' c'
    \<and> stale_leaves [(name, Some (inputs_digest H show a b c), inputs_digest H show a' b' c')] = []"
proof -
  have "(case x of Some v \<Rightarrow> canonical show v s | None \<Rightarrow> s @ ''~'') = (case y of Some v \<Rightarrow> canonical show v s | None \<Rightarrow> s @ ''~'')"
    if "rel_option same_json x y" for x y s
    using that by (cases rule: option.rel_cases) (auto simp: canonical_same)
  with assms have "inputs_digest H show a b c = inputs_digest H show a' b' c'"
    by (simp add: inputs_digest_def)
  then show ?thesis by (simp add: stale_leaves_def)
qed

end
