(* ===== verification/Leaf_Admit.thy ===== *)
theory Leaf_Admit
  imports Leaf_Address
begin

text \<open>
  Admission of templates and of work (\<open>pangea-leaf/src/admission.rs\<close>,
  \<open>pangea-leaf/src/admit.rs\<close>): the decision whether a fat template may enter, and the greedy
  pass that picks, from the waiting candidates in priority order, those that fit the global,
  per-scope, drift and per-credential caps. Counts are \<open>usize\<close> on a 64-bit platform; only the
  drift share multiplies, and its saturation is written out. \<open>Share\<close> is its permille value;
  its conversions from and to floating point are not modelled.
\<close>

section \<open>Admission of a template\<close>

datatype admission_mode = Generate | Enforce | AdmissionOff

definition lower_trim :: "string \<Rightarrow> string" where
  "lower_trim raw = map to_ascii_lowercase (str_trim raw)"

definition admission_mode_parse :: "string \<Rightarrow> admission_mode option" where
  "admission_mode_parse raw =
     (let s = lower_trim raw in
      if s = ''generate'' then Some Generate
      else if s = ''enforce'' \<or> s = ''true'' \<or> s = ''1'' \<or> s = ''on'' then Some Enforce
      else if s = ''off'' \<or> s = ''false'' \<or> s = ''0'' then Some AdmissionOff
      else None)"

datatype skip_reason = ProviderSingleton | AtomicBootstrap | ExternalContract | SharedLifecycle

definition skip_reason_ALL :: "skip_reason list" where
  "skip_reason_ALL = [ProviderSingleton, AtomicBootstrap, ExternalContract, SharedLifecycle]"

fun skip_reason_as_str :: "skip_reason \<Rightarrow> string" where
  "skip_reason_as_str ProviderSingleton = ''provider-singleton''"
| "skip_reason_as_str AtomicBootstrap = ''atomic-bootstrap''"
| "skip_reason_as_str ExternalContract = ''external-contract''"
| "skip_reason_as_str SharedLifecycle = ''shared-lifecycle''"

definition skip_reason_parse :: "string \<Rightarrow> skip_reason option" where
  "skip_reason_parse raw =
     (let head = str_trim (hd (split_at CHR '':'' raw)) in
      find (\<lambda>r. skip_reason_as_str r = head) skip_reason_ALL)"

datatype skip_declaration = Absent | Valid skip_reason | Invalid string

definition skip_declaration_of :: "string option \<Rightarrow> skip_declaration" where
  "skip_declaration_of annotation =
     (case annotation of
        None \<Rightarrow> Absent
      | Some raw \<Rightarrow> (case skip_reason_parse raw of Some r \<Rightarrow> Valid r | None \<Rightarrow> Invalid raw))"

datatype admission = Admit | AdmitOff | AdmitGrandfathered | AdmitSkipped skip_reason | Refuse string

definition refused :: "admission \<Rightarrow> bool" where
  "refused a = (case a of Refuse _ \<Rightarrow> True | _ \<Rightarrow> False)"

record fix_hint =
  fix_workspace :: "string option"
  fix_draft :: "string option"

definition SKIP_LEAF_ANNOTATION :: string where
  "SKIP_LEAF_ANNOTATION = ''pangea.pleme.io/skip-leaf''"

definition leaves_path :: "string \<Rightarrow> string" where
  "leaves_path workspace = ''workspaces/'' @ workspace @ ''/leaves.b''"

definition refusal_message :: "admission_mode \<Rightarrow> classification \<Rightarrow> skip_declaration \<Rightarrow> fix_hint \<Rightarrow> string" where
  "refusal_message mode c skip fix_h =
     (let valid = map skip_reason_as_str skip_reason_ALL;
          skip_note = (case skip of
              Invalid v \<Rightarrow> ''annotation '' @ SKIP_LEAF_ANNOTATION @ ''=`'' @ v @ ''` is not a typed world-fact reason''
            | _ \<Rightarrow> ''no '' @ SKIP_LEAF_ANNOTATION @ '' annotation'');
          path = leaves_path (case fix_workspace fix_h of Some w \<Rightarrow> w | None \<Rightarrow> ''<workspace>'');
          msg = ''fat template refused at admission: '' @ show_nat (cl_leaf_keys c) @ '' leaf key sets in one state ('' @ skip_note @
                ''). Declare its leaves in pangea-architectures `'' @ path @ ''` (one `leaves(...)` entry, rendered by `nix run .#render-leaves`; `pangea leaf plan` shows the split), or declare '' @
                SKIP_LEAF_ANNOTATION @ ''=<'' @ join_with ''|'' valid @
                ''> (a world-fact, never time pressure), or set leaf.admission=off in the operator config''
      in (case (mode, fix_draft fix_h) of
            (Generate, Some draft) \<Rightarrow> msg @ [CHR 0x0A] @ ''entry for '' @ path @ '':'' @ [CHR 0x0A] @ draft
          | _ \<Rightarrow> msg))"

definition decide_with ::
    "admission_mode \<Rightarrow> bool \<Rightarrow> classification \<Rightarrow> skip_declaration \<Rightarrow> fix_hint \<Rightarrow> admission" where
  "decide_with mode never_reconciled c skip fix_h =
     (if \<not> cl_fat c then Admit
      else if mode = AdmissionOff then AdmitOff
      else (case skip of
              Valid r \<Rightarrow> AdmitSkipped r
            | _ \<Rightarrow> if \<not> never_reconciled then AdmitGrandfathered
                   else Refuse (refusal_message mode c skip fix_h)))"

definition decide :: "admission_mode \<Rightarrow> bool \<Rightarrow> classification \<Rightarrow> skip_declaration \<Rightarrow> admission" where
  "decide mode never_reconciled c skip =
     decide_with mode never_reconciled c skip \<lparr>fix_workspace = None, fix_draft = None\<rparr>"

section \<open>Admission of work\<close>

datatype work_class = Apply | Change | Unblocked | Retry | Drift

fun work_class_as_str :: "work_class \<Rightarrow> string" where
  "work_class_as_str Apply = ''apply''" | "work_class_as_str Change = ''change''"
| "work_class_as_str Unblocked = ''unblocked''" | "work_class_as_str Retry = ''retry''"
| "work_class_as_str Drift = ''drift''"

text \<open>The derived order of the variants.\<close>

fun class_rank :: "work_class \<Rightarrow> nat" where
  "class_rank Apply = 0" | "class_rank Change = 1" | "class_rank Unblocked = 2"
| "class_rank Retry = 3" | "class_rank Drift = 4"

instantiation work_class :: linorder
begin

definition less_eq_work_class :: "work_class \<Rightarrow> work_class \<Rightarrow> bool" where
  "a \<le> b \<longleftrightarrow> class_rank a \<le> class_rank b"

definition less_work_class :: "work_class \<Rightarrow> work_class \<Rightarrow> bool" where
  "a < b \<longleftrightarrow> class_rank a < class_rank b"

instance
proof intro_classes
  show "a \<le> b \<Longrightarrow> b \<le> a \<Longrightarrow> a = b" for a b :: work_class
    by (cases a; cases b) (simp_all add: less_eq_work_class_def)
qed (auto simp: less_eq_work_class_def less_work_class_def)

end

datatype priority_mode = PriorityOn | PriorityOff

definition priority_mode_parse :: "string \<Rightarrow> priority_mode option" where
  "priority_mode_parse raw =
     (let s = lower_trim raw in
      if s = ''on'' \<or> s = ''true'' \<or> s = ''1'' then Some PriorityOn
      else if s = ''off'' \<or> s = ''false'' \<or> s = ''0'' then Some PriorityOff
      else None)"

record candidate =
  cand_name :: string
  cand_scope :: string
  cand_credential :: "string option"
  cand_class :: work_class
  cand_depth :: u32
  cand_since :: u64

record caps =
  cap_global :: nat
  cap_per_scope :: nat
  cap_scope_caps :: "(string, nat) btmap"
  cap_per_credential :: nat
  cap_drift_share_permille :: nat
  cap_priority :: priority_mode

definition caps_scope_cap :: "caps \<Rightarrow> string \<Rightarrow> nat" where
  "caps_scope_cap caps scope =
     (case bm_get (cap_scope_caps caps) scope of Some n \<Rightarrow> n | None \<Rightarrow> cap_per_scope caps)"

record in_flight =
  fl_total :: nat
  fl_by_scope :: "(string, nat) btmap"
  fl_drift_by_scope :: "(string, nat) btmap"
  fl_by_credential :: "(string, nat) btmap"

definition count_of :: "(string, nat) btmap \<Rightarrow> string \<Rightarrow> nat" where
  "count_of m k = (case bm_get m k of Some n \<Rightarrow> n | None \<Rightarrow> 0)"

definition bump :: "string \<Rightarrow> (string, nat) btmap \<Rightarrow> (string, nat) btmap" where
  "bump k m = bm_entry k 0 (\<lambda>n. n + 1) m"

definition drift_slots :: "nat \<Rightarrow> nat \<Rightarrow> nat" where
  "drift_slots scope_cap share_permille =
     (if share_permille = 0 \<or> scope_cap = 0 then 0
      else let share = min share_permille 1000;
               raw = min (scope_cap * share) (2 ^ 64 - 1) div 1000
           in min (max raw 1) (max (scope_cap - 1) 1))"

definition candidate_age :: "candidate \<Rightarrow> u64" where
  "candidate_age c = (if cand_class c = Drift then cand_since c else 0)"

definition order :: "candidate list \<Rightarrow> priority_mode \<Rightarrow> candidate list" where
  "order candidates mode =
     (case mode of
        PriorityOn \<Rightarrow> sort_key (\<lambda>c. (cand_class c, candidate_age c, cand_depth c, cand_name c)) candidates
      | PriorityOff \<Rightarrow> sort_key (\<lambda>c. (cand_since c, cand_name c)) candidates)"

text \<open>The guards after the global one: \<open>continue\<close> unless all of them pass.\<close>

definition fits :: "caps \<Rightarrow> in_flight \<Rightarrow> candidate \<Rightarrow> bool" where
  "fits caps f c \<longleftrightarrow>
     count_of (fl_by_scope f) (cand_scope c) < caps_scope_cap caps (cand_scope c) \<and>
     (cand_class c = Drift \<and> 0 < cap_drift_share_permille caps \<longrightarrow>
        count_of (fl_drift_by_scope f) (cand_scope c) <
          drift_slots (caps_scope_cap caps (cand_scope c)) (cap_drift_share_permille caps)) \<and>
     (case cand_credential c of
        None \<Rightarrow> True
      | Some cred \<Rightarrow> \<not> (0 < cap_per_credential caps \<and> cap_per_credential caps \<le> count_of (fl_by_credential f) cred))"

definition take_off :: "candidate \<Rightarrow> in_flight \<Rightarrow> in_flight" where
  "take_off c f =
     \<lparr>fl_total = fl_total f + 1,
      fl_by_scope = bump (cand_scope c) (fl_by_scope f),
      fl_drift_by_scope = (if cand_class c = Drift then bump (cand_scope c) (fl_drift_by_scope f) else fl_drift_by_scope f),
      fl_by_credential = (case cand_credential c of Some cred \<Rightarrow> bump cred (fl_by_credential f) | None \<Rightarrow> fl_by_credential f)\<rparr>"

fun admit_loop :: "caps \<Rightarrow> in_flight \<Rightarrow> candidate list \<Rightarrow> candidate list" where
  "admit_loop caps f [] = []"
| "admit_loop caps f (c # cs) =
     (if cap_global caps \<le> fl_total f then []
      else if fits caps f c then c # admit_loop caps (take_off c f) cs
      else admit_loop caps f cs)"

definition admit :: "candidate list \<Rightarrow> caps \<Rightarrow> in_flight \<Rightarrow> string list" where
  "admit candidates caps f = map cand_name (admit_loop caps f (order candidates (cap_priority caps)))"

section \<open>Template admission\<close>

lemma skip_reason_found:
  "find (\<lambda>q. skip_reason_as_str q = str_trim (skip_reason_as_str r)) skip_reason_ALL = Some r"
proof -
  have "list_all (\<lambda>r. find (\<lambda>q. skip_reason_as_str q = str_trim (skip_reason_as_str r)) skip_reason_ALL = Some r) skip_reason_ALL"
    by code_simp
  moreover have "r \<in> set skip_reason_ALL" by (cases r) (simp_all add: skip_reason_ALL_def)
  ultimately show ?thesis by (simp add: list_all_iff)
qed

text \<open>A template is refused exactly when it is fat, admission is not off, its annotation
  gives no valid reason and it has never reconciled; a template that is not fat is always
  admitted, whatever the mode, and every reason the code can print is accepted back, also when
  a comment follows it after a colon.\<close>

lemma admission_refusal_exact:
  "(refused (decide_with mode never_reconciled c skip fix_h) \<longleftrightarrow>
      cl_fat c \<and> mode \<noteq> AdmissionOff \<and> (\<forall>r. skip \<noteq> Valid r) \<and> never_reconciled)
   \<and> (\<not> cl_fat c \<longleftrightarrow> decide_with mode never_reconciled c skip fix_h = Admit)
   \<and> skip_declaration_of (Some (skip_reason_as_str r @ '':'' @ note)) = Valid r
   \<and> skip_declaration_of (Some (skip_reason_as_str r)) = Valid r"
proof -
  have split: "split_at CHR '':'' (s @ '':'' @ note) = s # split_at CHR '':'' note" if "CHR '':'' \<notin> set s" for s
    using that by (induction s) auto
  have plain: "split_at CHR '':'' s = [s]" if "CHR '':'' \<notin> set s" for s
    using that by (induction s) auto
  have no_colon: "CHR '':'' \<notin> set (skip_reason_as_str r)" by (cases r) simp_all
  have "skip_reason_parse (skip_reason_as_str r @ '':'' @ note) = Some r" "skip_reason_parse (skip_reason_as_str r) = Some r"
    unfolding skip_reason_parse_def Let_def split [OF no_colon] plain [OF no_colon] by (simp_all add: skip_reason_found)
  then show ?thesis
    by (auto simp: refused_def decide_with_def skip_declaration_of_def split: skip_declaration.splits)
qed

section \<open>Counting what takes off\<close>

lemma count_of_bump: "count_of (bump k m) j = count_of m j + (if j = k then 1 else 0)"
  by (simp add: count_of_def bump_def bm_get_entry split: option.splits)

definition drift_in :: "string \<Rightarrow> candidate \<Rightarrow> bool" where
  "drift_in s c \<longleftrightarrow> cand_class c = Drift \<and> cand_scope c = s"

lemma take_off_counts:
  "fl_total (take_off c f) = fl_total f + 1"
  "count_of (fl_by_scope (take_off c f)) s = count_of (fl_by_scope f) s + (if cand_scope c = s then 1 else 0)"
  "count_of (fl_drift_by_scope (take_off c f)) s = count_of (fl_drift_by_scope f) s + (if drift_in s c then 1 else 0)"
  "count_of (fl_by_credential (take_off c f)) k = count_of (fl_by_credential f) k + (if cand_credential c = Some k then 1 else 0)"
  by (auto simp: take_off_def count_of_bump drift_in_def split: option.splits)

lemma fold_take_off:
  "fl_total (fold take_off cs f) = fl_total f + length cs"
  "count_of (fl_by_scope (fold take_off cs f)) s = count_of (fl_by_scope f) s + length (filter (\<lambda>c. cand_scope c = s) cs)"
  "count_of (fl_drift_by_scope (fold take_off cs f)) s = count_of (fl_drift_by_scope f) s + length (filter (drift_in s) cs)"
  "count_of (fl_by_credential (fold take_off cs f)) k = count_of (fl_by_credential f) k + length (filter (\<lambda>c. cand_credential c = Some k) cs)"
  by (induction cs arbitrary: f) (simp_all add: take_off_counts)

text \<open>No counter leaves the larger of its cap and its start.\<close>

definition within_caps :: "caps \<Rightarrow> in_flight \<Rightarrow> in_flight \<Rightarrow> bool" where
  "within_caps caps f g \<longleftrightarrow>
     fl_total g \<le> max (fl_total f) (cap_global caps) \<and>
     (\<forall>s. count_of (fl_by_scope g) s \<le> max (count_of (fl_by_scope f) s) (caps_scope_cap caps s)) \<and>
     (0 < cap_drift_share_permille caps \<longrightarrow>
        (\<forall>s. count_of (fl_drift_by_scope g) s \<le>
           max (count_of (fl_drift_by_scope f) s) (drift_slots (caps_scope_cap caps s) (cap_drift_share_permille caps)))) \<and>
     (0 < cap_per_credential caps \<longrightarrow>
        (\<forall>k. count_of (fl_by_credential g) k \<le> max (count_of (fl_by_credential f) k) (cap_per_credential caps)))"

lemma within_caps_refl: "within_caps caps f f"
  by (simp add: within_caps_def)

lemma within_caps_trans:
  assumes "within_caps caps f g" and "within_caps caps g h"
  shows "within_caps caps f h"
proof -
  have max_trans: "(x::nat) \<le> max y z \<Longrightarrow> y \<le> max w z \<Longrightarrow> x \<le> max w z" for x y z w by linarith
  show ?thesis using assms unfolding within_caps_def by (meson max_trans)
qed

lemma take_off_within:
  assumes "fl_total f < cap_global caps" and "fits caps f c"
  shows "within_caps caps f (take_off c f)"
  unfolding within_caps_def take_off_counts
proof (intro conjI impI allI)
  show "fl_total f + 1 \<le> max (fl_total f) (cap_global caps)" using assms(1) by simp
  show "count_of (fl_by_scope f) s + (if cand_scope c = s then 1 else 0) \<le> max (count_of (fl_by_scope f) s) (caps_scope_cap caps s)" for s
    using assms(2) by (auto simp: fits_def)
  show "count_of (fl_drift_by_scope f) s + (if drift_in s c then 1 else 0) \<le>
      max (count_of (fl_drift_by_scope f) s) (drift_slots (caps_scope_cap caps s) (cap_drift_share_permille caps))"
    if "0 < cap_drift_share_permille caps" for s
    using assms(2) that by (auto simp: fits_def drift_in_def)
  show "count_of (fl_by_credential f) k + (if cand_credential c = Some k then 1 else 0) \<le>
      max (count_of (fl_by_credential f) k) (cap_per_credential caps)" if "0 < cap_per_credential caps" for k
    using assms(2) that by (auto simp: fits_def)
qed

lemma admit_loop_within: "within_caps caps f (fold take_off (admit_loop caps f cs) f)"
proof (induction caps f cs rule: admit_loop.induct)
  case (2 caps f c cs)
  show ?case
  proof (cases "fl_total f < cap_global caps \<and> fits caps f c")
    case True
    with 2(1) take_off_within [of f caps c] within_caps_trans show ?thesis
      by (simp add: not_le)
  qed (use 2(2) within_caps_refl in \<open>auto simp: not_le\<close>)
qed (simp add: within_caps_refl)

lemma fits_antimono: "fits caps (fold take_off cs f) c \<Longrightarrow> fits caps f c"
  by (fastforce simp: fits_def fold_take_off split: option.splits)

lemma admit_loop_maximal:
  assumes "c \<in> set cs" and "c \<notin> set (admit_loop caps f cs)"
  defines "g \<equiv> fold take_off (admit_loop caps f cs) f"
  shows "cap_global caps \<le> fl_total g \<or> \<not> fits caps g c"
  using assms(1,2) unfolding g_def
proof (induction caps f cs rule: admit_loop.induct)
  case (2 caps f d cs)
  show ?case
  proof (cases "cap_global caps \<le> fl_total f")
    case False
    show ?thesis
    proof (cases "fits caps f d")
      case True
      with False 2 show ?thesis by auto
    next
      case unfit: False
      show ?thesis
      proof (cases "c = d")
        case True
        with unfit fits_antimono show ?thesis by blast
      next
        case False
        with unfit \<open>\<not> cap_global caps \<le> fl_total f\<close> 2 show ?thesis by auto
      qed
    qed
  qed (simp add: fold_take_off)
qed simp

lemma admit_loop_subset: "set (admit_loop caps f cs) \<subseteq> set cs"
  by (induction caps f cs rule: admit_loop.induct) auto

lemma set_order [simp]: "set (order cs m) = set cs"
  by (simp add: order_def split: priority_mode.splits)

text \<open>C27: The work picked together with what is already in flight never exceeds the global
  cap, a scope's cap, a scope's drift slots or a credential's cap, beyond what was in flight
  before; and the pick is maximal: every candidate left out is left out because one of those
  caps is full after the pick.\<close>

theorem admit_respects_caps:
  fixes caps f candidates
  defines "picked \<equiv> admit_loop caps f (order candidates (cap_priority caps))"
  defines "g \<equiv> fold take_off picked f"
  shows "admit candidates caps f = map cand_name picked \<and> set picked \<subseteq> set candidates
    \<and> within_caps caps f g
    \<and> (\<forall>c \<in> set candidates. c \<in> set picked \<or> cap_global caps \<le> fl_total g \<or> \<not> fits caps g c)"
  using admit_loop_within [of caps f "order candidates (cap_priority caps)"]
    admit_loop_maximal [of _ "order candidates (cap_priority caps)" caps f]
    admit_loop_subset [of caps f "order candidates (cap_priority caps)"]
  by (auto simp: admit_def picked_def g_def)

definition sample_caps :: caps where
  "sample_caps = \<lparr>cap_global = 5, cap_per_scope = 3, cap_scope_caps = [], cap_per_credential = 2,
     cap_drift_share_permille = 500, cap_priority = PriorityOn\<rparr>"

definition sample_candidate :: "string \<Rightarrow> work_class \<Rightarrow> candidate" where
  "sample_candidate n k = \<lparr>cand_name = n, cand_scope = ''s'', cand_credential = None, cand_class = k,
     cand_depth = 0, cand_since = 7\<rparr>"

definition idle :: in_flight where
  "idle = \<lparr>fl_total = 0, fl_by_scope = [], fl_drift_by_scope = [], fl_by_credential = []\<rparr>"

theorem admit_respects_caps_witness:
  "within_caps sample_caps idle (fold take_off (admit_loop sample_caps idle
     (order [sample_candidate ''a'' Apply] (cap_priority sample_caps))) idle)"
  using admit_respects_caps [of "[sample_candidate ''a'' Apply]" sample_caps idle] by blast

section \<open>Drift gives way\<close>

lemma drift_slots_bounds:
  "drift_slots n p \<le> n \<and> (2 \<le> n \<longrightarrow> drift_slots n p < n) \<and> (0 < p \<and> 0 < n \<longrightarrow> 1 \<le> drift_slots n p)"
  by (auto simp: drift_slots_def Let_def min_le_iff_disj min_less_iff_disj)

lemma admit_loop_append: "\<exists>zs. admit_loop caps f (xs @ ys) = admit_loop caps f xs @ zs \<and> set zs \<subseteq> set ys"
proof (induction caps f xs rule: admit_loop.induct)
  case (1 caps f)
  show ?case using admit_loop_subset by simp
next
  case (2 caps f c cs)
  then show ?case by (auto intro: exI [of _ "[]"])
qed

lemma sorted_split_class:
  assumes "sorted (map cand_class xs)"
  shows "xs = filter (\<lambda>c. cand_class c \<noteq> Drift) xs @ filter (\<lambda>c. cand_class c = Drift) xs"
  using assms
proof (induction xs)
  case (Cons c xs)
  show ?case
  proof (cases "cand_class c = Drift")
    case True
    have "d = Drift" if "Drift \<le> d" for d using that by (cases d) (simp_all add: less_eq_work_class_def)
    with Cons.prems True have "\<forall>x \<in> set xs. cand_class x = Drift" by auto
    with True show ?thesis by (auto simp: filter_empty_conv filter_id_conv)
  qed (use Cons in auto)
qed simp

lemma order_On_split:
  "order cs PriorityOn = order (filter (\<lambda>c. cand_class c \<noteq> Drift) cs) PriorityOn
     @ order (filter (\<lambda>c. cand_class c = Drift) cs) PriorityOn"
proof -
  let ?key = "\<lambda>c. (cand_class c, candidate_age c, cand_depth c, cand_name c)"
  have "sorted (map ?key (sort_key ?key cs))" by simp
  then have "sorted (map cand_class (sort_key ?key cs))"
    by (auto simp: sorted_map elim!: sorted_wrt_mono_rel [rotated])
  from sorted_split_class [OF this] show ?thesis by (simp add: order_def filter_sort)
qed

text \<open>With priorities on, drift detection never costs other work a slot: the work picked
  when drift candidates are present starts with exactly the work picked when there are none,
  in the same order, and everything after it is drift. In a scope with at least two slots,
  drift alone never fills the scope, yet it always has at least one slot.\<close>

lemma drift_never_displaces:
  assumes "cap_priority caps = PriorityOn"
  shows "(\<exists>zs. admit cs caps f = admit (filter (\<lambda>c. cand_class c \<noteq> Drift) cs) caps f @ map cand_name zs
        \<and> set zs \<subseteq> {c \<in> set cs. cand_class c = Drift})
    \<and> (2 \<le> n \<longrightarrow> drift_slots n p < n) \<and> (0 < p \<and> 0 < n \<longrightarrow> 1 \<le> drift_slots n p)"
proof -
  let ?work = "filter (\<lambda>c. cand_class c \<noteq> Drift) cs" and ?drift = "filter (\<lambda>c. cand_class c = Drift) cs"
  from admit_loop_append [of caps f "order ?work PriorityOn" "order ?drift PriorityOn"] obtain zs where
    zs: "admit_loop caps f (order cs PriorityOn) = admit_loop caps f (order ?work PriorityOn) @ zs"
    and "set zs \<subseteq> set (order ?drift PriorityOn)" by (auto simp flip: order_On_split)
  then have "admit cs caps f = admit ?work caps f @ map cand_name zs" and "set zs \<subseteq> {c \<in> set cs. cand_class c = Drift}"
    by (auto simp: admit_def assms)
  then show ?thesis using drift_slots_bounds [of n p] by blast
qed

end
