(* ===== verification/Leaf_Ratchet.thy ===== *)
theory Leaf_Ratchet
  imports Prelude
begin

text \<open>
  The leaf ratchet (\<open>pangea-leaf/src/ratchet.rs\<close>): the sliding window of cycle times and its
  95th percentile, the floor that only moves down, the regressions against it, and the status
  carried from one pass to the next. All counters are machine words; the saturating operations
  are those of the prelude.
\<close>

definition WINDOW :: nat where
  "WINDOW = 32"

record cycle_window =
  samples_ms :: "u64 list"

definition push :: "u64 \<Rightarrow> cycle_window \<Rightarrow> cycle_window" where
  "push ms w =
     (let s = samples_ms w @ [ms] in
      if WINDOW < length s then w\<lparr>samples_ms := drop (length s - WINDOW) s\<rparr> else w\<lparr>samples_ms := s\<rparr>)"

definition div_ceil :: "nat \<Rightarrow> nat \<Rightarrow> nat" where
  "div_ceil a b = (if a mod b = 0 then a div b else a div b + 1)"

definition p95_ms :: "cycle_window \<Rightarrow> u64 option" where
  "p95_ms w =
     (if samples_ms w = [] then None
      else let s = sort (samples_ms w); rank = max (div_ceil (length s * 95) 100) 1
           in Some (s ! (rank - 1)))"

record floor =
  fl_leaf_keys :: u32
  fl_cycle_p95_ms :: "u64 option"

datatype metric = LeafKeys | CycleP95Ms

record regression =
  rg_metric :: metric
  rg_floor :: u64
  rg_now :: u64
  rg_tolerance_percent :: "u32 option"

definition describe :: "regression \<Rightarrow> string" where
  "describe r =
     (case rg_metric r of
        LeafKeys \<Rightarrow> ''leaf key sets rose from '' @ show_nat (unat (rg_floor r)) @ '' to '' @ show_nat (unat (rg_now r))
      | CycleP95Ms \<Rightarrow> ''cycle p95 rose from '' @ show_nat (unat (rg_floor r)) @ '' ms to '' @ show_nat (unat (rg_now r))
          @ '' ms (tolerance '' @ show_nat (unat (case rg_tolerance_percent r of Some t \<Rightarrow> t | None \<Rightarrow> 0)) @ ''%)'')"

record verdict =
  vd_floor :: floor
  vd_regressions :: "regression list"

definition allowed_p95 :: "u64 \<Rightarrow> u32 \<Rightarrow> u64" where
  "allowed_p95 f tolerance_percent = sat_add f (sat_mul f (ucast tolerance_percent) div 100)"

definition evaluate :: "floor option \<Rightarrow> u32 \<Rightarrow> u64 option \<Rightarrow> u32 \<Rightarrow> verdict" where
  "evaluate floor_o leaf_keys cycle_p95_ms tolerance_percent =
     (case floor_o of
        None \<Rightarrow> \<lparr>vd_floor = \<lparr>fl_leaf_keys = leaf_keys, fl_cycle_p95_ms = cycle_p95_ms\<rparr>, vd_regressions = []\<rparr>
      | Some prev \<Rightarrow>
          \<lparr>vd_floor = \<lparr>fl_leaf_keys = min (fl_leaf_keys prev) leaf_keys,
                       fl_cycle_p95_ms = (case (fl_cycle_p95_ms prev, cycle_p95_ms) of
                           (Some f, Some n) \<Rightarrow> Some (min f n) | (None, n) \<Rightarrow> n | (f, None) \<Rightarrow> f)\<rparr>,
           vd_regressions =
             (if fl_leaf_keys prev < leaf_keys
              then [\<lparr>rg_metric = LeafKeys, rg_floor = ucast (fl_leaf_keys prev), rg_now = ucast leaf_keys,
                     rg_tolerance_percent = None\<rparr>] else []) @
             (case (fl_cycle_p95_ms prev, cycle_p95_ms) of
                (Some f, Some n) \<Rightarrow>
                  if allowed_p95 f tolerance_percent < n
                  then [\<lparr>rg_metric = CycleP95Ms, rg_floor = f, rg_now = n, rg_tolerance_percent = Some tolerance_percent\<rparr>]
                  else []
              | _ \<Rightarrow> [])\<rparr>)"

record refusal =
  rf_inputs :: string
  rf_reason :: string

record leaf_status =
  ls_leaf_keys :: u32
  ls_fat :: bool
  ls_cycle_p95_ms :: "u64 option"
  ls_floor :: "floor option"
  ls_regressions :: "regression list"
  ls_skip_reason :: "string option"
  ls_inputs_digest :: "string option"
  ls_peak_rss_bytes :: "u64 option"
  ls_refusal :: "refusal option"

datatype after_failure = Held refusal | Retry

definition after_failure_of :: "bool \<Rightarrow> leaf_status option \<Rightarrow> string \<Rightarrow> after_failure" where
  "after_failure_of hold status current_inputs =
     (case Option.bind status ls_refusal of
        Some r \<Rightarrow> if hold \<and> rf_inputs r = current_inputs then Held r else Retry
      | None \<Rightarrow> Retry)"

definition P95_BUCKET_MS :: nat where
  "P95_BUCKET_MS = 1000"

definition bucket_up :: "u64 \<Rightarrow> u64" where
  "bucket_up ms = sat_mul (of_nat (div_ceil (unat ms) P95_BUCKET_MS)) (of_nat P95_BUCKET_MS)"

definition next_status ::
    "leaf_status option \<Rightarrow> u32 \<Rightarrow> bool \<Rightarrow> u64 option \<Rightarrow> u32 \<Rightarrow> string option \<Rightarrow> string option \<Rightarrow> leaf_status" where
  "next_status prev leaf_keys fat p95 tolerance_percent skip_reason inputs_digest =
     (let p95 = map_option bucket_up p95;
          v = evaluate (Option.bind prev ls_floor) leaf_keys p95 tolerance_percent
      in \<lparr>ls_leaf_keys = leaf_keys, ls_fat = fat, ls_cycle_p95_ms = p95, ls_floor = Some (vd_floor v),
          ls_regressions = vd_regressions v, ls_skip_reason = skip_reason, ls_inputs_digest = inputs_digest,
          ls_peak_rss_bytes = Option.bind prev ls_peak_rss_bytes, ls_refusal = None\<rparr>)"

section \<open>The window\<close>

lemma samples_push: "samples_ms (push ms w) = drop (length (samples_ms w) + 1 - WINDOW) (samples_ms w @ [ms])"
  by (simp add: push_def Let_def)

lemma samples_fold_push:
  "length (samples_ms w) \<le> WINDOW \<Longrightarrow>
    samples_ms (fold push xs w) = drop (length (samples_ms w) + length xs - WINDOW) (samples_ms w @ xs)"
proof (induction xs rule: rev_induct)
  case (snoc x xs)
  let ?h = "samples_ms w @ xs"
  have "samples_ms (fold push (xs @ [x]) w) = drop (length (drop (length ?h - WINDOW) ?h) + 1 - WINDOW) (drop (length ?h - WINDOW) ?h @ [x])"
    using snoc by (simp add: samples_push)
  also have "drop (length ?h - WINDOW) ?h @ [x] = drop (length ?h - WINDOW) (?h @ [x])" by simp
  also have "drop (length (drop (length ?h - WINDOW) ?h) + 1 - WINDOW) (drop (length ?h - WINDOW) (?h @ [x])) =
      drop (length ?h + 1 - WINDOW) (?h @ [x])"
    unfolding drop_drop by (rule arg_cong2 [of _ _ _ _ drop]) (auto simp: WINDOW_def)
  finally show ?case by simp
qed simp

lemma div_ceil_le:
  assumes "0 < b"
  shows "a \<le> div_ceil a b * b" and "div_ceil a b * b < a + b"
proof -
  define q r where "q = a div b * b" and "r = a mod b"
  have split: "a = q + r" by (simp add: q_def r_def)
  have lt: "r < b" using assms by (simp add: r_def)
  have ceil: "div_ceil a b * b = (if r = 0 then q else q + b)"
    by (simp add: div_ceil_def q_def r_def algebra_simps)
  show "a \<le> div_ceil a b * b" "div_ceil a b * b < a + b"
    unfolding ceil using split lt assms by simp_all
qed

lemma sorted_rank_counts:
  assumes "sorted s" and "i < length s"
  shows "i + 1 \<le> length (filter (\<lambda>x. x \<le> s ! i) s)" and "length (filter (\<lambda>x. x < s ! i) s) \<le> i"
proof -
  have "take (i + 1) s = filter (\<lambda>x. x \<le> s ! i) (take (i + 1) s)"
    using assms by (auto simp: filter_id_conv in_set_conv_nth sorted_nth_mono intro!: sym [OF filter_True])
  moreover have "length (filter (\<lambda>x. x \<le> s ! i) (take (i + 1) s)) \<le> length (filter (\<lambda>x. x \<le> s ! i) s)"
    by (metis append_take_drop_id filter_append le_add1 length_append)
  ultimately show "i + 1 \<le> length (filter (\<lambda>x. x \<le> s ! i) s)"
    using assms(2) by (metis Suc_eq_plus1 Suc_leI length_take min.absorb2)
  have "filter (\<lambda>x. x < s ! i) (drop i s) = []"
    using assms by (auto simp: filter_empty_conv in_set_conv_nth not_less sorted_nth_mono)
  then have "filter (\<lambda>x. x < s ! i) s = filter (\<lambda>x. x < s ! i) (take i s)"
    by (metis append_Nil2 append_take_drop_id filter_append)
  then show "length (filter (\<lambda>x. x < s ! i) s) \<le> i"
    by (metis length_filter_le length_take min.bounded_iff)
qed

text \<open>The window always holds exactly the last 32 samples of the history, and its 95th
  percentile is a sample such that at least 95 percent of the samples are no larger and fewer
  than 95 percent are smaller; there is none only for an empty history.\<close>

lemma window_percentile:
  fixes history :: "u64 list"
  defines "w \<equiv> fold push history \<lparr>samples_ms = []\<rparr>"
  defines "s \<equiv> drop (length history - 32) history"
  shows "samples_ms w = s \<and> (p95_ms w = None \<longleftrightarrow> history = [])
    \<and> (\<forall>p. p95_ms w = Some p \<longrightarrow> p \<in> set s
         \<and> 95 * length s \<le> 100 * length (filter (\<lambda>x. x \<le> p) s)
         \<and> 100 * length (filter (\<lambda>x. x < p) s) < 95 * length s)"
proof -
  have samples: "samples_ms w = s"
    using samples_fold_push [of "\<lparr>samples_ms = []\<rparr>" history] by (simp add: w_def s_def WINDOW_def)
  have "s = [] \<longleftrightarrow> history = []" by (cases history) (simp_all add: s_def)
  moreover {
    fix p assume "p95_ms w = Some p"
    then have ne: "s \<noteq> []" and p: "p = sort s ! (max (div_ceil (length s * 95) 100) 1 - 1)"
      by (auto simp: p95_ms_def samples Let_def split: if_splits)
    define rank where "rank = div_ceil (length s * 95) 100"
    have r: "length s * 95 \<le> rank * 100" "rank * 100 < length s * 95 + 100"
      using div_ceil_le [of 100 "length s * 95"] by (simp_all add: rank_def)
    have "0 < length s" using ne by simp
    then have pos: "1 \<le> rank" using r(1) by linarith
    have "rank \<le> length s" using r(2) by linarith
    with pos have lt: "rank - 1 < length (sort s)" by simp
    have p': "p = sort s ! (rank - 1)" using p pos by (simp add: rank_def)
    have count: "length (filter P (sort s)) = length (filter P s)" for P :: "u64 \<Rightarrow> bool"
      by (metis mset_filter mset_sort size_mset)
    note c = sorted_rank_counts [OF sorted_sort lt, folded p', unfolded count]
    have "p \<in> set s" using lt p' by (metis nth_mem set_sort)
    moreover have "95 * length s \<le> 100 * length (filter (\<lambda>x. x \<le> p) s)" using c(1) r(1) pos by linarith
    moreover have "100 * length (filter (\<lambda>x. x < p) s) < 95 * length s" using c(2) r(2) pos by linarith
    ultimately have "p \<in> set s \<and> 95 * length s \<le> 100 * length (filter (\<lambda>x. x \<le> p) s)
         \<and> 100 * length (filter (\<lambda>x. x < p) s) < 95 * length s" by blast
  }
  ultimately show ?thesis using samples by (auto simp: p95_ms_def)
qed

section \<open>The floor\<close>

text \<open>What one pass observes.\<close>

record observation =
  ob_leaf_keys :: u32
  ob_fat :: bool
  ob_p95_ms :: "u64 option"
  ob_tolerance :: u32
  ob_skip_reason :: "string option"
  ob_inputs :: "string option"

definition observe_pass :: "observation \<Rightarrow> leaf_status option \<Rightarrow> leaf_status option" where
  "observe_pass ob prev = Some (next_status prev (ob_leaf_keys ob) (ob_fat ob) (ob_p95_ms ob)
     (ob_tolerance ob) (ob_skip_reason ob) (ob_inputs ob))"

definition observed_p95 :: "observation list \<Rightarrow> u64 list" where
  "observed_p95 obs = map bucket_up (List.map_filter ob_p95_ms obs)"

lemma observed_p95_snoc: "observed_p95 (obs @ [ob]) = observed_p95 obs @ (case ob_p95_ms ob of None \<Rightarrow> [] | Some p \<Rightarrow> [bucket_up p])"
  by (simp add: observed_p95_def List.map_filter_def split: option.splits)

definition min_option :: "u64 list \<Rightarrow> u64 option" where
  "min_option xs = (if xs = [] then None else Some (Min (set xs)))"

lemma min_option_snoc:
  "min_option (xs @ [x]) = Some (case min_option xs of None \<Rightarrow> x | Some m \<Rightarrow> min m x)"
  by (auto simp: min_option_def min.commute)

lemma observe_pass_floor:
  "Option.bind (observe_pass ob prev) ls_floor =
     Some (vd_floor (evaluate (Option.bind prev ls_floor) (ob_leaf_keys ob) (map_option bucket_up (ob_p95_ms ob)) (ob_tolerance ob)))"
  by (simp add: observe_pass_def next_status_def Let_def)

lemma floor_after:
  assumes "obs \<noteq> []"
  shows "Option.bind (fold observe_pass obs None) ls_floor =
    Some \<lparr>fl_leaf_keys = Min (set (map ob_leaf_keys obs)), fl_cycle_p95_ms = min_option (observed_p95 obs)\<rparr>"
  using assms
proof (induction obs rule: rev_induct)
  case (snoc ob obs)
  show ?case
  proof (cases "obs = []")
    case True
    then show ?thesis
      by (cases "ob_p95_ms ob") (simp_all add: observe_pass_def next_status_def evaluate_def Let_def
          observed_p95_def List.map_filter_def min_option_def)
  next
    case False
    from snoc.IH [OF this] have prev: "Option.bind (fold observe_pass obs None) ls_floor =
      Some \<lparr>fl_leaf_keys = Min (set (map ob_leaf_keys obs)), fl_cycle_p95_ms = min_option (observed_p95 obs)\<rparr>" .
    have "Min (insert (ob_leaf_keys ob) (ob_leaf_keys ` set obs)) = min (Min (ob_leaf_keys ` set obs)) (ob_leaf_keys ob)"
      using False by (simp add: min.commute)
    with prev show ?thesis
      by (simp add: observe_pass_floor evaluate_def observed_p95_snoc min_option_snoc split: option.splits)
  qed
qed simp

lemma unat_allowed: "unat (allowed_p95 f t) = min (unat f + min (unat f * unat t) (2 ^ 64 - 1) div 100) (2 ^ 64 - 1)"
proof -
  have "unat t < 2 ^ 64" using unsigned_less [of t] by (rule less_trans) simp
  then have t: "unat (ucast t :: u64) = unat t" by (simp add: unsigned_ucast_eq take_bit_nat_eq_self)
  show ?thesis unfolding allowed_p95_def unat_sat_add unat_div unat_sat_mul t by simp
qed

lemma evaluate_regressions:
  "(\<exists>r \<in> set (vd_regressions (evaluate (Some fl) n p t)). rg_metric r = LeafKeys) \<longleftrightarrow> fl_leaf_keys fl < n"
  "(\<exists>r \<in> set (vd_regressions (evaluate (Some fl) n p t)). rg_metric r = CycleP95Ms) \<longleftrightarrow>
     (\<exists>f q. fl_cycle_p95_ms fl = Some f \<and> p = Some q \<and> allowed_p95 f t < q)"
  by (auto simp: evaluate_def split: option.splits) metis

text \<open>The ratchet only tightens. After any run of passes the floor is the smallest number
  of leaf keys and the smallest bucketed percentile ever observed; the next pass reports a leaf
  key regression exactly when some earlier pass had fewer leaf keys, and a cycle
  regression exactly when its percentile is above the best one by more than the tolerance,
  computed without wrapping; and no pass carries a refusal over.\<close>

lemma ratchet_floor:
  assumes "obs \<noteq> []"
  defines "st \<equiv> fold observe_pass obs None"
  shows "\<exists>s fl. st = Some s \<and> ls_floor s = Some fl \<and> ls_refusal s = None
    \<and> fl_leaf_keys fl = Min (set (map ob_leaf_keys obs))
    \<and> fl_cycle_p95_ms fl = min_option (observed_p95 obs)
    \<and> ((\<exists>r \<in> set (ls_regressions (next_status st n fat p95 t sk dig)). rg_metric r = LeafKeys) \<longleftrightarrow>
         (\<exists>ob \<in> set obs. ob_leaf_keys ob < n))
    \<and> ((\<exists>r \<in> set (ls_regressions (next_status st n fat p95 t sk dig)). rg_metric r = CycleP95Ms) \<longleftrightarrow>
         (\<exists>f p. min_option (observed_p95 obs) = Some f \<and> p95 = Some p \<and>
            min (unat f + min (unat f * unat t) (2 ^ 64 - 1) div 100) (2 ^ 64 - 1) < unat (bucket_up p)))"
proof -
  have floor: "Option.bind st ls_floor = Some \<lparr>fl_leaf_keys = Min (set (map ob_leaf_keys obs)),
      fl_cycle_p95_ms = min_option (observed_p95 obs)\<rparr>"
    unfolding st_def by (rule floor_after [OF assms(1)])
  obtain init ob where obs: "obs = init @ [ob]" using assms(1) by (metis append_butlast_last_id)
  have refusal: "ls_refusal s = None" if "st = Some s" for s
    using that by (auto simp: st_def obs observe_pass_def next_status_def Let_def)
  have keys: "Min (set (map ob_leaf_keys obs)) < n \<longleftrightarrow> (\<exists>ob \<in> set obs. ob_leaf_keys ob < n)"
    using assms(1) by (subst Min_less_iff) auto
  have allowed: "(\<exists>f q. min_option (observed_p95 obs) = Some f \<and> map_option bucket_up p95 = Some q \<and> allowed_p95 f t < q) \<longleftrightarrow>
      (\<exists>f p. min_option (observed_p95 obs) = Some f \<and> p95 = Some p \<and>
         min (unat f + min (unat f * unat t) (2 ^ 64 - 1) div 100) (2 ^ 64 - 1) < unat (bucket_up p))"
    unfolding word_less_nat_alt unat_allowed by auto
  have regs: "ls_regressions (next_status st n fat p95 t sk dig) =
      vd_regressions (evaluate (Some \<lparr>fl_leaf_keys = Min (set (map ob_leaf_keys obs)),
        fl_cycle_p95_ms = min_option (observed_p95 obs)\<rparr>) n (map_option bucket_up p95) t)"
    by (simp add: next_status_def Let_def floor)
  from floor obtain s where "st = Some s" and "ls_floor s = Some \<lparr>fl_leaf_keys = Min (set (map ob_leaf_keys obs)),
      fl_cycle_p95_ms = min_option (observed_p95 obs)\<rparr>" by (auto simp: bind_eq_Some_conv)
  then show ?thesis
    unfolding regs evaluate_regressions keys [symmetric] allowed [symmetric] using refusal by auto
qed

definition sample_observation :: observation where
  "sample_observation = \<lparr>ob_leaf_keys = 3, ob_fat = True, ob_p95_ms = Some 1500, ob_tolerance = 10,
     ob_skip_reason = None, ob_inputs = None\<rparr>"

section \<open>Holding a refusal\<close>

lemma unat_bucket_up: "unat (bucket_up ms) = min (div_ceil (unat ms) 1000 * 1000) (2 ^ 64 - 1)"
proof -
  have "div_ceil (unat ms) 1000 * 1000 < unat ms + 1000" by (rule div_ceil_le) simp
  moreover have "unat ms < 2 ^ 64" using unsigned_less [of ms] by simp
  ultimately have "div_ceil (unat ms) 1000 < 2 ^ 64" by linarith
  then have "unat (of_nat (div_ceil (unat ms) 1000) :: u64) = div_ceil (unat ms) 1000"
    by (simp add: unat_of_nat)
  then show ?thesis by (simp add: bucket_up_def unat_sat_mul P95_BUCKET_MS_def)
qed

text \<open>Rounding a percentile up to its bucket never lowers it, adds less than one bucket,
  lands on a multiple of a second unless it saturates, and is monotone, for every 64-bit value.\<close>

lemma bucket_up_rounds:
  "unat ms \<le> unat (bucket_up ms) \<and> unat (bucket_up ms) < unat ms + 1000
   \<and> (unat (bucket_up ms) mod 1000 = 0 \<or> bucket_up ms = - 1)
   \<and> (ms \<le> ms' \<longrightarrow> bucket_up ms \<le> bucket_up ms')"
proof -
  have lt: "unat ms < 2 ^ 64" using unsigned_less [of ms] by simp
  note c = div_ceil_le [of 1000 "unat ms"]
  have "unat (bucket_up ms) mod 1000 = 0 \<or> bucket_up ms = - 1"
  proof (cases "div_ceil (unat ms) 1000 * 1000 \<le> 2 ^ 64 - 1")
    case True
    then show ?thesis by (simp add: unat_bucket_up)
  next
    case False
    then have "unat (bucket_up ms) = unat (- 1 :: u64)" by (simp add: unat_bucket_up unat_minus_one_word)
    then have "bucket_up ms = - 1" by (rule word_unat_eq_iff [THEN iffD2])
    then show ?thesis ..
  qed
  moreover have "bucket_up ms \<le> bucket_up ms'" if "ms \<le> ms'"
  proof -
    have "div_ceil (unat ms) 1000 \<le> div_ceil (unat ms') 1000"
    proof (rule ccontr)
      assume "\<not> ?thesis"
      then have "div_ceil (unat ms') 1000 * 1000 + 1000 \<le> div_ceil (unat ms) 1000 * 1000" by linarith
      with c div_ceil_le [of 1000 "unat ms'"] that show False by (simp add: word_le_nat_alt)
    qed
    then show ?thesis by (simp add: word_le_nat_alt unat_bucket_up min_le_iff_disj)
  qed
  ultimately show ?thesis using c lt by (auto simp: unat_bucket_up)
qed

end
