(* ===== verification/Leaf_Rollup.thy ===== *)
theory Leaf_Rollup
  imports Prelude
begin

text \<open>
  The rollup of a template's leaves (\<open>pangea-leaf/src/rollup.rs\<close>): which leaves hold others
  back, the counts, the capped name lists and the verdict, and the transitions announced
  between two passes. The memo of \<open>holders_of\<close> is threaded as state; its path set, which every
  call restores before it returns, is an argument. The \<open>u32\<close> counters count leaves of one
  template and are kept as naturals; the total is clamped as in the code.
\<close>

definition NAME_CAP :: nat where
  "NAME_CAP = 50"

datatype leaf_state = Ready | Planning | Applying
  | is_Failed: Failed (failed_reason: string) (failed_since: "string option")
  | is_Stalled: Stalled (stalled_state: string) (stalled_since: "string option")
  | is_RateLimited: RateLimited (limited_until: string)

record leaf_view =
  lv_name :: string
  lv_state :: leaf_state
  lv_upstreams :: "string list"

datatype verdict = Converged | Progressing | Partial

record counts =
  ct_ready :: nat
  ct_planning :: nat
  ct_applying :: nat
  ct_failed :: nat
  ct_stalled :: nat
  ct_rate_limited :: nat
  ct_blocked :: nat

record failed_leaf =
  fd_leaf :: string
  fd_reason :: string
  fd_since :: "string option"

record stalled_leaf =
  sd_leaf :: string
  sd_state :: string
  sd_since :: "string option"

record rate_limited_leaf =
  rl_leaf :: string
  rl_until :: string

record blocked_leaf =
  bl_leaf :: string
  bl_by :: "string list"

record leaves_rollup =
  ru_verdict :: verdict
  ru_total :: nat
  ru_counts :: counts
  ru_failed :: "failed_leaf list"
  ru_stalled :: "stalled_leaf list"
  ru_rate_limited :: "rate_limited_leaf list"
  ru_blocked :: "blocked_leaf list"
  ru_truncated :: nat

definition holding :: "leaf_state \<Rightarrow> bool" where
  "holding s = (case s of Failed _ _ \<Rightarrow> True | Stalled _ _ \<Rightarrow> True | RateLimited _ \<Rightarrow> True | _ \<Rightarrow> False)"

type_synonym by_name = "(string, leaf_view) btmap"
type_synonym memo = "(string, string list) btmap"

lemma path_shrinks:
  assumes "name \<notin> set path" and "bm_get by_name name = Some leaf"
  shows "card (fst ` set by_name - insert name (set path)) < card (fst ` set by_name - set path)"
proof (rule psubset_card_mono)
  have "name \<in> fst ` set by_name" using assms(2) bm_get_None_iff [of by_name name] by auto
  with assms(1) show "fst ` set by_name - insert name (set path) \<subset> fst ` set by_name - set path" by blast
qed simp

function holders_of :: "by_name \<Rightarrow> string \<Rightarrow> memo \<Rightarrow> string list \<Rightarrow> string list \<times> memo" where
  "holders_of by_name name memo path =
     (case bm_get memo name of
        Some h \<Rightarrow> (h, memo)
      | None \<Rightarrow>
          if name \<in> set path then ([], memo)
          else
            (let (out, memo) =
               (case bm_get by_name name of
                  None \<Rightarrow> ([], memo)
                | Some leaf \<Rightarrow>
                    fold (\<lambda>up (out, memo).
                        (case bm_get by_name up of
                           None \<Rightarrow> (out, memo)
                         | Some u \<Rightarrow>
                             (let out = (if holding (lv_state u) then bs_insert up out else out);
                                  (h, memo) = holders_of by_name up memo (bs_insert name path)
                              in (fold bs_insert h out, memo))))
                      (lv_upstreams leaf) ([], memo))
             in (out, bm_insert name out memo)))"
  by pat_completeness auto
termination
  by (relation "measure (\<lambda>(by_name, _, _, path). card (set (bm_keys by_name) - set path))")
    (auto intro: path_shrinks)

declare holders_of.simps [simp del]

text \<open>Appending to a name list below its cap; otherwise the entry is only counted.\<close>

definition push_capped :: "nat \<Rightarrow> 'a \<Rightarrow> 'a list \<Rightarrow> 'a list \<times> nat" where
  "push_capped cap x xs = (if length xs < cap then (xs @ [x], 0) else (xs, 1))"

definition record_leaf :: "nat \<Rightarrow> leaf_view \<Rightarrow> string list \<Rightarrow> leaves_rollup \<Rightarrow> leaves_rollup" where
  "record_leaf cap leaf held_by r =
     (let c = ru_counts r
      in if held_by \<noteq> [] then
           (let (xs, t) = push_capped cap \<lparr>bl_leaf = lv_name leaf, bl_by = held_by\<rparr> (ru_blocked r)
            in r\<lparr>ru_counts := c\<lparr>ct_blocked := ct_blocked c + 1\<rparr>, ru_blocked := xs, ru_truncated := ru_truncated r + t\<rparr>)
         else (case lv_state leaf of
           Ready \<Rightarrow> r\<lparr>ru_counts := c\<lparr>ct_ready := ct_ready c + 1\<rparr>\<rparr>
         | Planning \<Rightarrow> r\<lparr>ru_counts := c\<lparr>ct_planning := ct_planning c + 1\<rparr>\<rparr>
         | Applying \<Rightarrow> r\<lparr>ru_counts := c\<lparr>ct_applying := ct_applying c + 1\<rparr>\<rparr>
         | Failed reason since \<Rightarrow>
             (let (xs, t) = push_capped cap \<lparr>fd_leaf = lv_name leaf, fd_reason = reason, fd_since = since\<rparr> (ru_failed r)
              in r\<lparr>ru_counts := c\<lparr>ct_failed := ct_failed c + 1\<rparr>, ru_failed := xs, ru_truncated := ru_truncated r + t\<rparr>)
         | Stalled state since \<Rightarrow>
             (let (xs, t) = push_capped cap \<lparr>sd_leaf = lv_name leaf, sd_state = state, sd_since = since\<rparr> (ru_stalled r)
              in r\<lparr>ru_counts := c\<lparr>ct_stalled := ct_stalled c + 1\<rparr>, ru_stalled := xs, ru_truncated := ru_truncated r + t\<rparr>)
         | RateLimited until \<Rightarrow>
             (let (xs, t) = push_capped cap \<lparr>rl_leaf = lv_name leaf, rl_until = until\<rparr> (ru_rate_limited r)
              in r\<lparr>ru_counts := c\<lparr>ct_rate_limited := ct_rate_limited c + 1\<rparr>, ru_rate_limited := xs, ru_truncated := ru_truncated r + t\<rparr>)))"

definition judge_leaf :: "nat \<Rightarrow> by_name \<Rightarrow> leaf_view \<Rightarrow> leaves_rollup \<times> memo \<Rightarrow> leaves_rollup \<times> memo" where
  "judge_leaf cap by_name leaf s =
     (let (r, memo) = s;
          (held_by, memo) = (if holding (lv_state leaf) then ([], memo) else holders_of by_name (lv_name leaf) memo [])
      in (record_leaf cap leaf held_by r, memo))"

definition empty_rollup :: "nat \<Rightarrow> leaves_rollup" where
  "empty_rollup n =
     \<lparr>ru_verdict = Converged, ru_total = n,
      ru_counts = \<lparr>ct_ready = 0, ct_planning = 0, ct_applying = 0, ct_failed = 0, ct_stalled = 0,
                   ct_rate_limited = 0, ct_blocked = 0\<rparr>,
      ru_failed = [], ru_stalled = [], ru_rate_limited = [], ru_blocked = [], ru_truncated = 0\<rparr>"

definition verdict_of :: "leaves_rollup \<Rightarrow> verdict" where
  "verdict_of r =
     (let c = ru_counts r in
      if 0 < ct_failed c + ct_stalled c + ct_blocked c then Partial
      else if ct_ready c = ru_total r then Converged
      else Progressing)"

definition index_by_name :: "leaf_view list \<Rightarrow> by_name" where
  "index_by_name leaves = bm_of_list (map (\<lambda>l. (lv_name l, l)) leaves)"

definition judge :: "leaf_view list \<Rightarrow> nat \<Rightarrow> leaves_rollup" where
  "judge leaves cap =
     (let (r, _) = fold (judge_leaf cap (index_by_name leaves)) (sort_key lv_name leaves)
                     (empty_rollup (u32_clamp (length leaves)), [])
      in r\<lparr>ru_verdict := verdict_of r\<rparr>)"

section \<open>Announced transitions\<close>

datatype held = HeldFailed | HeldStalled

fun held_reason :: "held \<Rightarrow> string" where
  "held_reason HeldFailed = ''LeafFailed''"
| "held_reason HeldStalled = ''LeafStalled''"

record transition =
  tr_leaf :: string
  tr_held :: held
  tr_detail :: string

fun held_of :: "leaf_state \<Rightarrow> (held \<times> string) option" where
  "held_of (Failed reason _) = Some (HeldFailed, reason)"
| "held_of (Stalled state _) = Some (HeldStalled, state)"
| "held_of _ = None"

definition held_map :: "leaf_view list \<Rightarrow> (string, held) btmap" where
  "held_map leaves =
     bm_of_list (List.map_filter (\<lambda>l. map_option (\<lambda>(h, _). (lv_name l, h)) (held_of (lv_state l))) leaves)"

definition seed :: "leaves_rollup \<Rightarrow> (string, held) btmap" where
  "seed r = bm_of_list (map (\<lambda>f. (fd_leaf f, HeldFailed)) (ru_failed r)
     @ map (\<lambda>s. (sd_leaf s, HeldStalled)) (ru_stalled r))"

definition transitions :: "(string, held) btmap \<Rightarrow> leaf_view list \<Rightarrow> transition list" where
  "transitions prev leaves =
     sort_key tr_leaf (List.map_filter (\<lambda>l.
       (case held_of (lv_state l) of
          None \<Rightarrow> None
        | Some (h, detail) \<Rightarrow>
            if bm_get prev (lv_name l) \<noteq> Some h
            then Some \<lparr>tr_leaf = lv_name l, tr_held = h, tr_detail = detail\<rparr> else None)) leaves)"

section \<open>Who holds a leaf back\<close>

definition up_edges :: "by_name \<Rightarrow> (string \<times> string) set" where
  "up_edges m = {(u, n). \<exists>l. bm_get m n = Some l \<and> u \<in> set (lv_upstreams l) \<and> bm_get m u \<noteq> None}"

definition holds_back :: "by_name \<Rightarrow> string \<Rightarrow> bool" where
  "holds_back m u = (case bm_get m u of None \<Rightarrow> False | Some l \<Rightarrow> holding (lv_state l))"

definition holders :: "by_name \<Rightarrow> string \<Rightarrow> string set" where
  "holders m n = {u. (u, n) \<in> (up_edges m)\<^sup>+ \<and> holds_back m u}"

lemma holders_step:
  "holders m n = (\<Union>u \<in> {u. (u, n) \<in> up_edges m}. {v. v = u \<and> holds_back m u} \<union> holders m u)"
proof -
  have "(v, n) \<in> (up_edges m)\<^sup>+ \<longleftrightarrow> (\<exists>u. (u, n) \<in> up_edges m \<and> (v = u \<or> (v, u) \<in> (up_edges m)\<^sup>+))" for v
    by (subst trancl.simps) blast
  then show ?thesis by (auto simp: holders_def)
qed

definition memo_ok :: "by_name \<Rightarrow> memo \<Rightarrow> bool" where
  "memo_ok m memo \<longleftrightarrow> (\<forall>n h. bm_get memo n = Some h \<longrightarrow> bs_wf h \<and> set h = holders m n)"

definition answers :: "by_name \<Rightarrow> string \<Rightarrow> string list \<times> memo \<Rightarrow> bool" where
  "answers m n r \<longleftrightarrow> bs_wf (fst r) \<and> set (fst r) = holders m n \<and> memo_ok m (snd r)"

lemma upstream_loop:
  assumes "\<And>up memo. up \<in> set ups \<Longrightarrow> bm_get m up \<noteq> None \<Longrightarrow> memo_ok m memo \<Longrightarrow> answers m up (H up memo)"
    and "bs_wf out" and "memo_ok m memo"
    and "fold (\<lambda>up (out, memo).
        (case bm_get m up of
           None \<Rightarrow> (out, memo)
         | Some u \<Rightarrow>
             (let out = (if holding (lv_state u) then bs_insert up out else out); (h, memo) = H up memo
              in (fold bs_insert h out, memo)))) ups (out, memo) = (out', memo')"
  shows "bs_wf out' \<and> memo_ok m memo' \<and>
    set out' = set out \<union> (\<Union>u \<in> {u \<in> set ups. bm_get m u \<noteq> None}. {v. v = u \<and> holds_back m u} \<union> holders m u)"
  using assms
proof (induction ups arbitrary: out memo)
  case (Cons up ups)
  show ?case
  proof (cases "bm_get m up")
    case None
    then have "{u \<in> set (up # ups). bm_get m u \<noteq> None} = {u \<in> set ups. bm_get m u \<noteq> None}" by auto
    with None Cons.IH [OF Cons.prems(1) Cons.prems(2,3)] Cons.prems(4) show ?thesis by simp
  next
    case (Some u)
    obtain h memo1 where h: "H up memo = (h, memo1)" by fastforce
    with Cons.prems(1) [of up memo] Cons.prems(3) Some
    have ans: "bs_wf h" "set h = holders m up" "memo_ok m memo1" by (auto simp: answers_def)
    let ?out = "fold bs_insert h (if holding (lv_state u) then bs_insert up out else out)"
    have wf: "bs_wf ?out" using Cons.prems(2) by (simp add: bs_wf_fold_insert bs_wf_insert)
    have set_out: "set ?out = set out \<union> ({v. v = up \<and> holds_back m up} \<union> holders m up)"
      using ans(2) Some by (auto simp: set_fold_bs_insert holds_back_def)
    have rest: "fold (\<lambda>up (out, memo).
        (case bm_get m up of
           None \<Rightarrow> (out, memo)
         | Some u \<Rightarrow>
             (let out = (if holding (lv_state u) then bs_insert up out else out); (h, memo) = H up memo
              in (fold bs_insert h out, memo)))) ups (?out, memo1) = (out', memo')"
      using Cons.prems(4) Some h by simp
    have "{w \<in> set (up # ups). bm_get m w \<noteq> None} = insert up {w \<in> set ups. bm_get m w \<noteq> None}" using Some by auto
    with Cons.IH [OF Cons.prems(1) wf ans(3) rest] set_out show ?thesis by auto
  qed
qed simp

lemma memo_ok_insert:
  "memo_ok m memo \<Longrightarrow> bs_wf h \<Longrightarrow> set h = holders m n \<Longrightarrow> memo_ok m (bm_insert n h memo)"
  by (auto simp: memo_ok_def bm_get_insert split: if_splits)

lemma holders_of_correct:
  assumes "acyclic (up_edges m)" and "memo_ok m memo" and "\<forall>p \<in> set path. (name, p) \<in> (up_edges m)\<^sup>+"
  shows "answers m name (holders_of m name memo path)"
  using assms
proof (induction m name memo path rule: holders_of.induct)
  case (1 m name memo path)
  show ?case
  proof (cases "bm_get memo name")
    case (Some h)
    with 1(3) show ?thesis by (subst holders_of.simps) (auto simp: answers_def memo_ok_def)
  next
    case fresh: None
    have path: "name \<notin> set path" using 1(2,4) by (auto simp: acyclic_def)
    show ?thesis
    proof (cases "bm_get m name")
      case None
      then have "{u. (u, name) \<in> up_edges m} = {}" by (auto simp: up_edges_def)
      then have "holders m name = {}" by (subst holders_step) simp
      with None fresh path 1(3) show ?thesis
        by (subst holders_of.simps) (simp add: answers_def memo_ok_insert)
    next
      case (Some leaf)
      let ?H = "\<lambda>up memo. holders_of m up memo (bs_insert name path)"
      obtain out memo' where loop: "fold (\<lambda>up (out, memo).
        (case bm_get m up of
           None \<Rightarrow> (out, memo)
         | Some u \<Rightarrow>
             (let out = (if holding (lv_state u) then bs_insert up out else out); (h, memo) = ?H up memo
              in (fold bs_insert h out, memo)))) (lv_upstreams leaf) ([], memo) = (out, memo')"
        by fastforce
      have rec: "answers m up (?H up memo1)"
        if up: "up \<in> set (lv_upstreams leaf)" "bm_get m up \<noteq> None" and ok: "memo_ok m memo1" for up memo1
      proof -
        have edge: "(up, name) \<in> up_edges m" using up Some by (auto simp: up_edges_def)
        have "\<forall>p \<in> set (bs_insert name path). (up, p) \<in> (up_edges m)\<^sup>+"
          using edge 1(4) by (auto intro: trancl_into_trancl2)
        moreover obtain u where "bm_get m up = Some u" using up(2) by blast
        ultimately show ?thesis using 1(1) [OF fresh path Some up(1)] ok 1(2) by blast
      qed
      have "bs_wf out \<and> memo_ok m memo' \<and> set out = set [] \<union>
          (\<Union>u \<in> {u \<in> set (lv_upstreams leaf). bm_get m u \<noteq> None}. {v. v = u \<and> holds_back m u} \<union> holders m u)"
        by (rule upstream_loop [OF rec _ 1(3) loop]) simp_all
      moreover have "{u \<in> set (lv_upstreams leaf). bm_get m u \<noteq> None} = {u. (u, name) \<in> up_edges m}"
        using Some by (auto simp: up_edges_def)
      ultimately have "bs_wf out" "memo_ok m memo'" "set out = holders m name"
        using holders_step [of m name] by simp_all
      moreover have "holders_of m name memo path = (out, bm_insert name out memo')"
        by (subst holders_of.simps) (simp add: fresh path Some loop)
      ultimately show ?thesis by (simp add: answers_def memo_ok_insert)
    qed
  qed
qed

section \<open>The rollup in closed form\<close>

definition held_list :: "by_name \<Rightarrow> leaf_view \<Rightarrow> string list" where
  "held_list m l = (if holding (lv_state l) then [] else sorted_list_of_set (holders m (lv_name l)))"

lemma finite_holders: "finite (holders m n)"
proof (rule finite_subset)
  show "holders m n \<subseteq> set (bm_keys m)"
    using bm_get_None_iff [of m] by (auto simp: holders_def holds_back_def split: option.splits)
qed simp

lemma judge_leaf_eq:
  assumes "acyclic (up_edges m)" and "memo_ok m memo"
  shows "\<exists>memo'. judge_leaf cap m l (r, memo) = (record_leaf cap l (held_list m l) r, memo') \<and> memo_ok m memo'"
proof (cases "holding (lv_state l)")
  case True
  with assms(2) show ?thesis by (simp add: judge_leaf_def held_list_def)
next
  case False
  obtain h memo' where h: "holders_of m (lv_name l) memo [] = (h, memo')" by fastforce
  with holders_of_correct [OF assms, of "[]" "lv_name l"] have "bs_wf h" "set h = holders m (lv_name l)" "memo_ok m memo'"
    by (auto simp: answers_def)
  moreover from this have "h = sorted_list_of_set (holders m (lv_name l))"
    using finite_holders by (intro bs_wf_unique) (auto simp: bs_wf_iff)
  ultimately show ?thesis using False h by (simp add: judge_leaf_def held_list_def)
qed

lemma judge_fold_eq:
  assumes "acyclic (up_edges m)" and "memo_ok m memo"
  shows "fst (fold (judge_leaf cap m) ls (r, memo)) = fold (\<lambda>l. record_leaf cap l (held_list m l)) ls r"
  using assms(2)
proof (induction ls arbitrary: r memo)
  case (Cons l ls)
  from judge_leaf_eq [OF assms(1) Cons.prems, of cap l r] obtain memo' where
    "judge_leaf cap m l (r, memo) = (record_leaf cap l (held_list m l) r, memo')" and "memo_ok m memo'" by blast
  with Cons.IH show ?case by simp
qed simp

definition blocked_leaves :: "by_name \<Rightarrow> leaf_view list \<Rightarrow> leaf_view list" where
  "blocked_leaves m ls = filter (\<lambda>l. held_list m l \<noteq> []) ls"

definition in_state :: "by_name \<Rightarrow> (leaf_state \<Rightarrow> bool) \<Rightarrow> leaf_view list \<Rightarrow> leaf_view list" where
  "in_state m P ls = filter (\<lambda>l. held_list m l = [] \<and> P (lv_state l)) ls"

definition failed_entry :: "leaf_view \<Rightarrow> failed_leaf" where
  "failed_entry l = \<lparr>fd_leaf = lv_name l, fd_reason = failed_reason (lv_state l), fd_since = failed_since (lv_state l)\<rparr>"

definition stalled_entry :: "leaf_view \<Rightarrow> stalled_leaf" where
  "stalled_entry l = \<lparr>sd_leaf = lv_name l, sd_state = stalled_state (lv_state l), sd_since = stalled_since (lv_state l)\<rparr>"

definition limited_entry :: "leaf_view \<Rightarrow> rate_limited_leaf" where
  "limited_entry l = \<lparr>rl_leaf = lv_name l, rl_until = limited_until (lv_state l)\<rparr>"

definition blocked_entry :: "by_name \<Rightarrow> leaf_view \<Rightarrow> blocked_leaf" where
  "blocked_entry m l = \<lparr>bl_leaf = lv_name l, bl_by = held_list m l\<rparr>"

definition rollup_of :: "nat \<Rightarrow> by_name \<Rightarrow> nat \<Rightarrow> leaf_view list \<Rightarrow> leaves_rollup" where
  "rollup_of cap m n ls =
     \<lparr>ru_verdict = Converged, ru_total = n,
      ru_counts = \<lparr>ct_ready = length (in_state m (\<lambda>s. s = Ready) ls), ct_planning = length (in_state m (\<lambda>s. s = Planning) ls),
        ct_applying = length (in_state m (\<lambda>s. s = Applying) ls), ct_failed = length (in_state m is_Failed ls),
        ct_stalled = length (in_state m is_Stalled ls), ct_rate_limited = length (in_state m is_RateLimited ls),
        ct_blocked = length (blocked_leaves m ls)\<rparr>,
      ru_failed = take cap (map failed_entry (in_state m is_Failed ls)),
      ru_stalled = take cap (map stalled_entry (in_state m is_Stalled ls)),
      ru_rate_limited = take cap (map limited_entry (in_state m is_RateLimited ls)),
      ru_blocked = take cap (map (blocked_entry m) (blocked_leaves m ls)),
      ru_truncated = (length (in_state m is_Failed ls) - cap) + (length (in_state m is_Stalled ls) - cap)
        + (length (in_state m is_RateLimited ls) - cap) + (length (blocked_leaves m ls) - cap)\<rparr>"

lemma push_capped_take:
  "push_capped cap x (take cap xs) = (take cap (xs @ [x]), if length xs < cap then 0 else 1)"
  by (simp add: push_capped_def)

lemmas rollup_parts = rollup_of_def record_leaf_def in_state_def blocked_leaves_def

lemma record_rollup:
  "record_leaf cap l (held_list m l) (rollup_of cap m n ls) = rollup_of cap m n (ls @ [l])"
proof (cases "held_list m l = []")
  case True
  then show ?thesis
    by (cases "lv_state l")
      (simp_all add: rollup_parts push_capped_take failed_entry_def stalled_entry_def limited_entry_def
        Suc_diff_le not_less)
next
  case False
  then show ?thesis by (simp add: rollup_parts push_capped_take blocked_entry_def Suc_diff_le not_less)
qed

lemma fold_record: "fold (\<lambda>l. record_leaf cap l (held_list m l)) ls (empty_rollup n) = rollup_of cap m n ls"
proof (induction ls rule: rev_induct)
  case Nil
  then show ?case by (simp add: empty_rollup_def rollup_of_def in_state_def blocked_leaves_def)
qed (simp add: record_rollup)

lemma judge_closed:
  fixes leaves :: "leaf_view list" and cap :: nat
  assumes "acyclic (up_edges (index_by_name leaves))"
  defines "r \<equiv> rollup_of cap (index_by_name leaves) (u32_clamp (length leaves)) (sort_key lv_name leaves)"
  shows "judge leaves cap = r\<lparr>ru_verdict := verdict_of r\<rparr>"
proof -
  let ?m = "index_by_name leaves" and ?ls = "sort_key lv_name leaves"
  let ?s = "fold (judge_leaf cap ?m) ?ls (empty_rollup (u32_clamp (length leaves)), [])"
  have "fst ?s = r"
    using judge_fold_eq [OF assms(1), of "[]" cap ?ls "empty_rollup (u32_clamp (length leaves))"]
    by (simp add: memo_ok_def fold_record r_def)
  then show ?thesis by (simp add: judge_def Let_def case_prod_unfold)
qed

lemma bucket_total:
  "length (in_state m (\<lambda>s. s = Ready) ls) + length (in_state m (\<lambda>s. s = Planning) ls) + length (in_state m (\<lambda>s. s = Applying) ls)
   + length (in_state m is_Failed ls) + length (in_state m is_Stalled ls) + length (in_state m is_RateLimited ls)
   + length (blocked_leaves m ls) = length ls"
proof (induction ls)
  case (Cons l ls)
  then show ?case by (cases "held_list m l = []"; cases "lv_state l") (simp_all add: in_state_def blocked_leaves_def)
qed (simp add: in_state_def blocked_leaves_def)

text \<open>On an acyclic leaf graph every leaf is counted in exactly one bucket: blocked
  exactly when it is not itself failed, stalled or rate limited but some transitive upstream is,
  and by its own state otherwise. The blocked list names, for the first leaves in name order up
  to the cap, exactly the upstreams that hold each back, and what the caps cut off is counted.\<close>

lemma rollup_counts:
  fixes leaves :: "leaf_view list" and cap :: nat
  assumes "acyclic (up_edges (index_by_name leaves))"
  defines "m \<equiv> index_by_name leaves" and "r \<equiv> judge leaves cap"
  shows "(let c = ru_counts r in ct_ready c + ct_planning c + ct_applying c + ct_failed c + ct_stalled c
        + ct_rate_limited c + ct_blocked c = length leaves)
    \<and> ru_blocked r = take cap (map (\<lambda>l. \<lparr>bl_leaf = lv_name l, bl_by = sorted_list_of_set (holders m (lv_name l))\<rparr>)
        (filter (\<lambda>l. \<not> holding (lv_state l) \<and> holders m (lv_name l) \<noteq> {}) (sort_key lv_name leaves)))
    \<and> ru_truncated r + length (ru_blocked r) + length (ru_failed r) + length (ru_stalled r) + length (ru_rate_limited r)
        = ct_blocked (ru_counts r) + ct_failed (ru_counts r) + ct_stalled (ru_counts r) + ct_rate_limited (ru_counts r)"
proof -
  have blocked: "blocked_leaves m ls = filter (\<lambda>l. \<not> holding (lv_state l) \<and> holders m (lv_name l) \<noteq> {}) ls" for ls
    unfolding blocked_leaves_def by (rule filter_cong) (auto simp: held_list_def finite_holders)
  have entry: "map (blocked_entry m) (filter (\<lambda>l. \<not> holding (lv_state l) \<and> holders m (lv_name l) \<noteq> {}) ls) =
      map (\<lambda>l. \<lparr>bl_leaf = lv_name l, bl_by = sorted_list_of_set (holders m (lv_name l))\<rparr>)
        (filter (\<lambda>l. \<not> holding (lv_state l) \<and> holders m (lv_name l) \<noteq> {}) ls)" for ls
    by (auto simp: blocked_entry_def held_list_def)
  have r: "r = (rollup_of cap m (u32_clamp (length leaves)) (sort_key lv_name leaves))
      \<lparr>ru_verdict := verdict_of (rollup_of cap m (u32_clamp (length leaves)) (sort_key lv_name leaves))\<rparr>"
    unfolding r_def m_def by (rule judge_closed [OF assms(1)])
  show ?thesis
    unfolding r using bucket_total [of m "sort_key lv_name leaves"]
    by (simp add: rollup_of_def Let_def blocked entry)
qed

lemma length_filter_all_iff: "length (filter P xs) = length xs \<longleftrightarrow> (\<forall>x \<in> set xs. P x)"
  by (metis filter_True length_filter_less less_irrefl)

text \<open>The verdict is Partial exactly when some leaf failed, stalled or is blocked, and
  Converged exactly when every leaf is ready and none is blocked.\<close>

lemma rollup_verdict:
  fixes leaves :: "leaf_view list" and cap :: nat
  assumes "acyclic (up_edges (index_by_name leaves))" and "length leaves < 2 ^ 32"
  defines "m \<equiv> index_by_name leaves"
  shows "(ru_verdict (judge leaves cap) = Partial \<longleftrightarrow>
      (\<exists>l \<in> set leaves. is_Failed (lv_state l) \<or> is_Stalled (lv_state l)
         \<or> (\<not> holding (lv_state l) \<and> holders m (lv_name l) \<noteq> {})))
    \<and> (ru_verdict (judge leaves cap) = Converged \<longleftrightarrow>
      (\<forall>l \<in> set leaves. lv_state l = Ready \<and> holders m (lv_name l) = {}))"
proof -
  let ?ls = "sort_key lv_name leaves"
  have held: "held_list m l = [] \<longleftrightarrow> holding (lv_state l) \<or> holders m (lv_name l) = {}" for l
    by (simp add: held_list_def finite_holders)
  have holding: "is_Failed s \<Longrightarrow> holding s" "is_Stalled s \<Longrightarrow> holding s" for s
    by (cases s; simp add: holding_def)+
  have not_holding: "\<not> holding Ready" by (simp add: holding_def)
  have total: "u32_clamp (length leaves) = length ?ls" using assms(2) by (simp add: u32_clamp_def)
  let ?trouble = "0 < length (in_state m is_Failed ?ls) + length (in_state m is_Stalled ?ls) + length (blocked_leaves m ?ls)"
  have trouble: "?trouble \<longleftrightarrow> (\<exists>l \<in> set leaves. is_Failed (lv_state l) \<or> is_Stalled (lv_state l)
         \<or> (\<not> holding (lv_state l) \<and> holders m (lv_name l) \<noteq> {}))"
    by (auto simp: in_state_def blocked_leaves_def filter_empty_conv held dest: holding)
  have ready: "length (in_state m (\<lambda>s. s = Ready) ?ls) = length ?ls \<longleftrightarrow>
      (\<forall>l \<in> set leaves. lv_state l = Ready \<and> holders m (lv_name l) = {})"
    unfolding in_state_def length_filter_all_iff held using not_holding by auto
  have "ru_verdict (judge leaves cap) =
      (if ?trouble then Partial else if length (in_state m (\<lambda>s. s = Ready) ?ls) = length ?ls then Converged else Progressing)"
    unfolding judge_closed [OF assms(1)] by (simp add: verdict_of_def rollup_of_def Let_def total m_def [symmetric])
  then show ?thesis unfolding trouble ready
    using not_holding by (auto simp: is_Failed_def is_Stalled_def)
qed

definition sample_leaves :: "leaf_view list" where
  "sample_leaves =
     [\<lparr>lv_name = ''a'', lv_state = Ready, lv_upstreams = [''b'', ''zzz'']\<rparr>,
      \<lparr>lv_name = ''b'', lv_state = Planning, lv_upstreams = [''c'']\<rparr>,
      \<lparr>lv_name = ''c'', lv_state = Failed ''boom'' None, lv_upstreams = []\<rparr>]"

lemma sample_acyclic: "acyclic (up_edges (index_by_name sample_leaves))"
proof (rule wf_acyclic [OF wf_subset [OF wf_measure]])
  show "up_edges (index_by_name sample_leaves) \<subseteq>
      measure (\<lambda>n. if n = ''a'' then 2 else if n = ''b'' then 1 else 0)"
    by (auto simp: up_edges_def index_by_name_def bm_get_of_list sample_leaves_def split: if_splits)
qed

text \<open>On cyclic upstreams the memo keeps the truncated answer computed while the path was
  open: \<open>b\<close> reaches the failed \<open>c\<close> through \<open>a\<close>, but is not reported as blocked.\<close>

definition cyclic_leaves :: "leaf_view list" where
  "cyclic_leaves =
     [\<lparr>lv_name = ''a'', lv_state = Ready, lv_upstreams = [''b'', ''c'']\<rparr>,
      \<lparr>lv_name = ''b'', lv_state = Ready, lv_upstreams = [''a'']\<rparr>,
      \<lparr>lv_name = ''c'', lv_state = Failed ''boom'' None, lv_upstreams = []\<rparr>]"

definition cyclic_index :: by_name where
  "cyclic_index =
     [(''a'', \<lparr>lv_name = ''a'', lv_state = Ready, lv_upstreams = [''b'', ''c'']\<rparr>),
      (''b'', \<lparr>lv_name = ''b'', lv_state = Ready, lv_upstreams = [''a'']\<rparr>),
      (''c'', \<lparr>lv_name = ''c'', lv_state = Failed ''boom'' None, lv_upstreams = []\<rparr>)]"

lemma cyclic_order: "''a'' < (''b'' :: string)" "''b'' < (''c'' :: string)" "''a'' < (''c'' :: string)"
  by code_simp+

lemma cyclic_holders:
  "holders_of cyclic_index ''a'' [] [] = ([''c''], [(''a'', [''c'']), (''b'', []), (''c'', [])])"
  "holders_of cyclic_index ''b'' [(''a'', [''c'']), (''b'', []), (''c'', [])] [] = ([], [(''a'', [''c'']), (''b'', []), (''c'', [])])"
proof -
  note eval = cyclic_index_def bm_get_def bs_insert_def insort_insert_key_def holding_def
  have "holders_of cyclic_index ''a'' [] [''a'', ''b''] = ([], [])"
    by (subst holders_of.simps) (simp add: eval)
  moreover have path: "bs_insert ''b'' [''a''] = [''a'', ''b'']" "bs_insert ''a'' [] = [''a'']"
    by code_simp+
  ultimately have b: "holders_of cyclic_index ''b'' [] [''a''] = ([], [(''b'', [])])"
    by (subst holders_of.simps) (simp add: cyclic_index_def bm_get_def holding_def)
  have c: "holders_of cyclic_index ''c'' [(''b'', [])] [''a''] = ([], [(''b'', []), (''c'', [])])"
    using cyclic_order by (subst holders_of.simps) (simp add: cyclic_index_def bm_get_def not_less_iff_gr_or_eq)
  have ins: "bs_insert ''c'' [] = [''c'']" by code_simp
  show "holders_of cyclic_index ''a'' [] [] = ([''c''], [(''a'', [''c'']), (''b'', []), (''c'', [])])"
    using cyclic_order b [unfolded cyclic_index_def] c [unfolded cyclic_index_def]
    unfolding cyclic_index_def
    by (subst holders_of.simps) (simp add: path ins bm_get_def holding_def)
  show "holders_of cyclic_index ''b'' [(''a'', [''c'']), (''b'', []), (''c'', [])] [] = ([], [(''a'', [''c'']), (''b'', []), (''c'', [])])"
    by (subst holders_of.simps) (simp add: bm_get_def)
qed

lemma cyclic_memo_underreports: "map bl_leaf (ru_blocked (judge cyclic_leaves 50)) = [''a'']"
proof -
  have index: "index_by_name cyclic_leaves = cyclic_index" and sorted: "sort_key lv_name cyclic_leaves = cyclic_leaves"
    by code_simp+
  have leaf: "judge_leaf 50 cyclic_index l (r, memo) = (let (held_by, memo) = (if holding (lv_state l) then ([], memo)
      else holders_of cyclic_index (lv_name l) memo []) in (record_leaf 50 l held_by r, memo))" for l r memo
    by (simp add: judge_leaf_def)
  show ?thesis
    unfolding judge_def index sorted unfolding cyclic_leaves_def Let_def
    by (simp add: leaf cyclic_holders record_leaf_def push_capped_def empty_rollup_def holding_def)
qed

section \<open>What is announced\<close>

definition announcement :: "(string, held) btmap \<Rightarrow> leaf_view \<Rightarrow> transition option" where
  "announcement prev l =
     (case held_of (lv_state l) of
        None \<Rightarrow> None
      | Some (h, detail) \<Rightarrow>
          if bm_get prev (lv_name l) \<noteq> Some h
          then Some \<lparr>tr_leaf = lv_name l, tr_held = h, tr_detail = detail\<rparr> else None)"

lemma transitions_eq: "transitions prev leaves = sort_key tr_leaf (List.map_filter (announcement prev) leaves)"
  by (simp add: transitions_def announcement_def [abs_def])

lemma set_map_filter: "set (List.map_filter f xs) = {y. \<exists>x \<in> set xs. f x = Some y}"
  by (induction xs) (auto simp: List.map_filter_simps split: option.splits)

lemma transitions_Nil:
  assumes "\<And>l h d. l \<in> set leaves \<Longrightarrow> held_of (lv_state l) = Some (h, d) \<Longrightarrow> bm_get prev (lv_name l) = Some h"
  shows "transitions prev leaves = []"
proof -
  have "announcement prev l = None" if "l \<in> set leaves" for l
    using assms [OF that] by (auto simp: announcement_def split: option.splits)
  then have "List.map_filter (announcement prev) leaves = []"
    by (simp add: List.map_filter_def filter_empty_conv)
  then show ?thesis by (simp add: transitions_eq)
qed

lemma distinct_map_filter_fst:
  assumes "distinct (map lv_name leaves)" and "\<And>l x. f l = Some x \<Longrightarrow> fst x = lv_name l"
  shows "distinct (map fst (List.map_filter f leaves))"
  using assms(1)
proof (induction leaves)
  case (Cons l leaves)
  then have "lv_name l \<notin> fst ` set (List.map_filter f leaves)"
    using assms(2) by (force simp: set_map_filter)
  with Cons assms(2) show ?case by (auto simp: List.map_filter_simps split: option.splits)
qed (simp add: List.map_filter_simps)

lemma held_map_get:
  assumes "distinct (map lv_name leaves)" and "l \<in> set leaves" and "held_of (lv_state l) = Some (h, d)"
  shows "bm_get (held_map leaves) (lv_name l) = Some h"
proof -
  let ?f = "\<lambda>l. map_option (\<lambda>(h, _). (lv_name l, h)) (held_of (lv_state l))"
  have "distinct (map fst (List.map_filter ?f leaves))"
    by (rule distinct_map_filter_fst [OF assms(1)]) auto
  moreover have "(lv_name l, h) \<in> set (List.map_filter ?f leaves)"
    using assms(2,3) by (force simp: set_map_filter)
  ultimately show ?thesis by (simp add: held_map_def bm_get_of_list_distinct)
qed

lemma seed_get:
  assumes "acyclic (up_edges (index_by_name leaves))" and "length leaves \<le> cap"
    and "distinct (map lv_name leaves)" and "l \<in> set leaves" and "held_of (lv_state l) = Some (h, d)"
  shows "bm_get (seed (judge leaves cap)) (lv_name l) = Some h"
proof -
  let ?m = "index_by_name leaves" and ?ls = "sort_key lv_name leaves"
  let ?fs = "in_state ?m is_Failed ?ls" and ?ss = "in_state ?m is_Stalled ?ls"
  have len: "length ?fs \<le> cap" "length ?ss \<le> cap"
    using assms(2) length_filter_le [of _ ?ls] by (auto simp: in_state_def intro: order.trans)
  have seed: "seed (judge leaves cap) =
      bm_of_list (map (\<lambda>l. (lv_name l, HeldFailed)) ?fs @ map (\<lambda>l. (lv_name l, HeldStalled)) ?ss)"
    unfolding judge_closed [OF assms(1)] using len
    by (simp add: seed_def rollup_of_def failed_entry_def stalled_entry_def comp_def)
  have held: "is_Failed s \<Longrightarrow> holding s" "is_Stalled s \<Longrightarrow> holding s" "is_Failed s \<Longrightarrow> \<not> is_Stalled s" for s
    by (cases s; simp add: holding_def)+
  have "distinct (map lv_name ?ls)"
    using assms(3) by (metis distinct_map distinct_sort set_sort)
  then have names: "distinct (map lv_name (filter P ?ls))" for P by (rule distinct_map_filter)
  have inj: "inj_on lv_name (set ?ls)" using assms(3) by (simp add: distinct_map)
  have "lv_name ` set ?fs \<inter> lv_name ` set ?ss = {}"
    using inj held(3) by (auto simp: in_state_def dest: inj_onD)
  then have "distinct (map fst (map (\<lambda>l. (lv_name l, HeldFailed)) ?fs @ map (\<lambda>l. (lv_name l, HeldStalled)) ?ss))"
    using names by (simp add: comp_def in_state_def image_image)
  moreover have "(lv_name l, h) \<in> set (map (\<lambda>l. (lv_name l, HeldFailed)) ?fs @ map (\<lambda>l. (lv_name l, HeldStalled)) ?ss)"
    using assms(4,5) held by (cases "lv_state l") (auto simp: in_state_def held_list_def)
  ultimately show ?thesis unfolding seed
    by (simp only: bm_get_of_list_distinct map_of_is_SomeI)
qed

text \<open>Failures and stalls are announced once. Comparing the leaves with their own held
  map announces nothing; nor does comparing them, after a restart, with the held map rebuilt
  from the stored rollup, unless the rollup cut names off. Otherwise exactly the leaves that
  are newly failed or stalled, or changed between the two, are announced.\<close>

lemma transitions_announced_once:
  assumes "distinct (map lv_name leaves)" and "acyclic (up_edges (index_by_name leaves))" and "length leaves \<le> cap"
  shows "transitions (held_map leaves) leaves = [] \<and> transitions (seed (judge leaves cap)) leaves = []
    \<and> set (transitions prev leaves) =
        {\<lparr>tr_leaf = lv_name l, tr_held = h, tr_detail = d\<rparr> | l h d.
           l \<in> set leaves \<and> held_of (lv_state l) = Some (h, d) \<and> bm_get prev (lv_name l) \<noteq> Some h}"
proof -
  have "set (transitions prev leaves) = {t. \<exists>l \<in> set leaves. announcement prev l = Some t}"
    by (simp add: transitions_eq set_map_filter)
  also have "\<dots> = {\<lparr>tr_leaf = lv_name l, tr_held = h, tr_detail = d\<rparr> | l h d.
      l \<in> set leaves \<and> held_of (lv_state l) = Some (h, d) \<and> bm_get prev (lv_name l) \<noteq> Some h}"
    by (fastforce simp: announcement_def split: option.splits if_splits)
  finally show ?thesis
    using transitions_Nil held_map_get [OF assms(1)] seed_get [OF assms(2,3,1)] by (metis (no_types, lifting))
qed

end
