(* ===== verification/Leaf_Drift.thy ===== *)
theory Leaf_Drift
  imports Leaf_Ratchet
begin

text \<open>
  Drift scheduling (\<open>pangea-leaf/src/drift.rs\<close>): every leaf gets an offset inside the drift
  interval by the rank of its hash, and is due when a slot \<open>offset + k * interval\<close> has passed
  since its last check. Times are \<open>u64\<close> seconds; the sum in \<open>next_due_in\<close> can wrap, which the
  theorem excludes by a bound on the clock. The product in \<open>offsets\<close> is a \<open>u128\<close> of two
  64-bit factors and cannot overflow. BLAKE3's 32 bytes are the parameter \<open>H\<close>.
\<close>

record drift_leaf =
  dl_name :: string
  dl_last_check :: "u64 option"

text \<open>Sorted by hash, then name. Two entries with the same name are the same entry, so the
  code's removal of neighbours with equal names removes equal neighbours.\<close>

definition ranked :: "(string \<Rightarrow> string) \<Rightarrow> string list \<Rightarrow> string list" where
  "ranked H names = map snd (remdups_adj (sort (map (\<lambda>n. (H n, n)) names)))"

definition rank_offset :: "nat \<Rightarrow> nat \<Rightarrow> nat \<Rightarrow> u64" where
  "rank_offset interval n r = (let o' = r * interval div n in if o' < 2 ^ 64 then of_nat o' else 0)"

definition offsets :: "(string \<Rightarrow> string) \<Rightarrow> string list \<Rightarrow> u64 \<Rightarrow> (string, u64) btmap" where
  "offsets H names interval_secs =
     (let rs = ranked H names; n = max (length rs) 1; interval = unat (max interval_secs 1)
      in bm_of_list (map (\<lambda>(r, name). (name, rank_offset interval n r)) (enumerate 0 rs)))"

definition last_slot :: "u64 \<Rightarrow> u64 \<Rightarrow> u64 \<Rightarrow> u64 option" where
  "last_slot offset now interval_secs =
     (let interval = max interval_secs 1 in
      if now < offset then None else Some (now - (now - offset) mod interval))"

definition is_due :: "u64 \<Rightarrow> u64 \<Rightarrow> u64 \<Rightarrow> u64 option \<Rightarrow> bool" where
  "is_due offset now interval_secs last_check =
     (case last_slot offset now interval_secs of
        None \<Rightarrow> False
      | Some slot \<Rightarrow> (case last_check of None \<Rightarrow> True | Some checked \<Rightarrow> checked < slot))"

definition sat_sub :: "u64 \<Rightarrow> u64 \<Rightarrow> u64" where
  "sat_sub a b = (if b \<le> a then a - b else 0)"

definition next_due_in :: "u64 \<Rightarrow> u64 \<Rightarrow> u64 \<Rightarrow> u64 option \<Rightarrow> u64" where
  "next_due_in offset now interval_secs last_check =
     (if is_due offset now interval_secs last_check then 0
      else let interval = max interval_secs 1;
               next = (case last_slot offset now interval of Some slot \<Rightarrow> slot + interval | None \<Rightarrow> offset)
           in sat_sub next now)"

definition drift_due :: "(string \<Rightarrow> string) \<Rightarrow> drift_leaf list \<Rightarrow> u64 \<Rightarrow> u64 \<Rightarrow> string list" where
  "drift_due H leaves now interval_secs =
     (let placed = offsets H (map dl_name leaves) interval_secs
      in remdups_adj (sort (map dl_name (filter (\<lambda>l.
           (case bm_get placed (dl_name l) of
              None \<Rightarrow> False
            | Some o' \<Rightarrow> is_due o' now interval_secs (dl_last_check l))) leaves))))"

section \<open>Slots\<close>

text \<open>The slots of a leaf: its offset and every whole interval after it.\<close>

definition slot_at :: "u64 \<Rightarrow> u64 \<Rightarrow> nat \<Rightarrow> bool" where
  "slot_at offset interval_secs t \<longleftrightarrow> (\<exists>k. t = unat offset + k * unat (max interval_secs 1))"

lemma interval_pos: "0 < unat (max i 1 :: u64)"
  by (metis le_zero_eq max.cobounded2 not_gr_zero unat_1 unat_mono word_le_nat_alt zero_neq_one)

lemma last_slot_Some:
  assumes "last_slot offset now i = Some s"
  shows "slot_at offset i (unat s)" and "unat s \<le> unat now" and "unat now < unat s + unat (max i 1)"
    and "unat offset \<le> unat now"
proof -
  from assms have le: "offset \<le> now" and s: "s = now - (now - offset) mod max i 1"
    by (auto simp: last_slot_def Let_def not_less split: if_splits)
  let ?I = "unat (max i 1)" and ?d = "unat now - unat offset"
  have mod: "unat ((now - offset) mod max i 1) = ?d mod ?I" using le by (simp add: unat_mod unat_sub)
  have "?d mod ?I \<le> unat now" by (meson diff_le_self le_trans mod_less_eq_dividend)
  then have "(now - offset) mod max i 1 \<le> now" using mod by (simp add: word_le_nat_alt)
  then have us: "unat s = unat now - ?d mod ?I" unfolding s by (simp add: unat_sub mod)
  show off: "unat offset \<le> unat now" using le by (simp add: word_le_nat_alt)
  have split: "?d = ?d div ?I * ?I + ?d mod ?I" by simp
  have "unat s = unat offset + ?d div ?I * ?I" using us split off by linarith
  then show "slot_at offset i (unat s)" by (auto simp: slot_at_def)
  show "unat s \<le> unat now" using us by simp
  show "unat now < unat s + ?I"
    using us mod_less_divisor [OF interval_pos, of ?d i] \<open>?d mod ?I \<le> unat now\<close> by linarith
qed

lemma slot_unique:
  assumes "slot_at offset i s" and "slot_at offset i t" and "s < t"
  shows "s + unat (max i 1) \<le> t"
proof -
  let ?I = "unat (max i 1)"
  from assms obtain k l where st: "s = unat offset + k * ?I" "t = unat offset + l * ?I" by (auto simp: slot_at_def)
  with assms(3) interval_pos have "k < l" by (metis add_less_cancel_left mult_less_cancel2)
  then have "Suc k * ?I \<le> l * ?I" by (intro mult_le_mono1) simp
  then show ?thesis by (simp add: st)
qed

lemma is_due_iff:
  "is_due offset now i lc \<longleftrightarrow>
     (\<exists>t \<le> unat now. slot_at offset i t \<and> (case lc of None \<Rightarrow> True | Some l \<Rightarrow> unat l < t))"
proof (cases "last_slot offset now i")
  case None
  then have "unat now < unat offset" by (auto simp: last_slot_def Let_def word_less_nat_alt split: if_splits)
  then show ?thesis using None by (auto simp: is_due_def slot_at_def)
next
  case (Some s)
  note s = last_slot_Some [OF Some]
  have "t \<le> unat s" if "t \<le> unat now" "slot_at offset i t" for t
    using slot_unique [OF s(1) that(2)] that(1) s(3) by linarith
  then show ?thesis using Some s(1,2)
    by (auto simp: is_due_def word_less_nat_alt split: option.splits intro: le_less_trans dest: order.strict_trans2)
qed

lemma slot_before: "slot_at offset i t \<Longrightarrow> unat offset \<le> t"
  by (auto simp: slot_at_def)

lemma slot_next: "slot_at offset i t \<Longrightarrow> slot_at offset i (t + unat (max i 1))"
  unfolding slot_at_def by (metis add.assoc add.commute mult_Suc)

text \<open>The next slot after now, when the leaf is not due.\<close>

definition next_slot :: "u64 \<Rightarrow> u64 \<Rightarrow> u64 \<Rightarrow> u64" where
  "next_slot offset now i = (case last_slot offset now i of Some s \<Rightarrow> s + max i 1 | None \<Rightarrow> offset)"

lemma next_slot_props:
  assumes "unat now + unat (max i 1) < 2 ^ 64"
  shows "slot_at offset i (unat (next_slot offset now i))" and "now < next_slot offset now i"
    and "slot_at offset i t \<Longrightarrow> unat now < t \<Longrightarrow> unat (next_slot offset now i) \<le> t"
proof -
  have "slot_at offset i (unat (next_slot offset now i)) \<and> now < next_slot offset now i
    \<and> (\<forall>t. slot_at offset i t \<and> unat now < t \<longrightarrow> unat (next_slot offset now i) \<le> t)"
  proof (cases "last_slot offset now i")
    case None
    then have "now < offset" by (auto simp: last_slot_def Let_def split: if_splits)
    moreover have "slot_at offset i (unat offset)" unfolding slot_at_def by (rule exI [of _ 0]) simp
    ultimately show ?thesis using None slot_before by (auto simp: next_slot_def)
  next
    case (Some s)
    note s = last_slot_Some [OF Some]
    have "unat (s + max i 1) = unat s + unat (max i 1)"
      using assms s(2) by (simp add: unat_word_ariths)
    with s slot_next [OF s(1)] slot_unique [OF s(1)] Some show ?thesis
      by (auto simp: next_slot_def word_less_nat_alt)
  qed
  then show "slot_at offset i (unat (next_slot offset now i))" "now < next_slot offset now i"
    "slot_at offset i t \<Longrightarrow> unat now < t \<Longrightarrow> unat (next_slot offset now i) \<le> t" by blast+
qed

lemma max_max_one: "max (max i 1) 1 = max i (1 :: u64)"
  by simp

lemma next_due_in_eq:
  assumes "\<not> is_due offset now i lc" and "unat now + unat (max i 1) < 2 ^ 64"
  shows "next_due_in offset now i lc = next_slot offset now i - now"
proof -
  have "last_slot offset now (max i 1) = last_slot offset now i" by (simp add: last_slot_def max_max_one)
  then have "next_due_in offset now i lc = sat_sub (next_slot offset now i) now"
    using assms(1) by (simp add: next_due_in_def next_slot_def Let_def)
  then show ?thesis using next_slot_props(2) [OF assms(2), of offset] by (simp add: sat_sub_def less_imp_le)
qed

text \<open>The time to the next drift check is exact. It is 0 exactly when the leaf is due; if
  it is \<open>d > 0\<close>, the leaf is due at \<open>now + d\<close> and at no earlier time from now on, as long as it
  is not checked in between, its last check is not in the future and the clock plus one interval
  does not overflow 64 bits. A leaf that was not checked for a whole interval is due once its
  offset has passed.\<close>

lemma next_due_exact:
  fixes offset now i :: u64 and lc :: "u64 option"
  assumes "unat now + unat (max i 1) < 2 ^ 64" and "\<forall>l. lc = Some l \<longrightarrow> l \<le> now"
  defines "d \<equiv> next_due_in offset now i lc"
  shows "(d = 0 \<longleftrightarrow> is_due offset now i lc)
    \<and> (0 < d \<longrightarrow> is_due offset (now + d) i lc \<and> (\<forall>t. now \<le> t \<and> t < now + d \<longrightarrow> \<not> is_due offset t i lc))
    \<and> (\<forall>l. lc = Some l \<and> offset \<le> now \<and> unat l + unat (max i 1) \<le> unat now \<longrightarrow> is_due offset now i lc)"
proof (intro conjI impI allI)
  note n = next_slot_props [OF assms(1), of offset]
  have eq: "now + d = next_slot offset now i" if "\<not> is_due offset now i lc"
    using next_due_in_eq [OF that assms(1)] by (simp add: d_def)
  show zero: "d = 0 \<longleftrightarrow> is_due offset now i lc"
    using eq n(2) by (cases "is_due offset now i lc") (auto simp: d_def next_due_in_def)
  assume "0 < d"
  then have not_due: "\<not> is_due offset now i lc" using zero by auto
  show "is_due offset (now + d) i lc"
    unfolding eq [OF not_due] is_due_iff using n(1,2) assms(2)
    by (intro exI [of _ "unat (next_slot offset now i)"])
      (auto simp: word_le_nat_alt word_less_nat_alt split: option.splits)
  fix t assume t: "now \<le> t \<and> t < now + d"
  show "\<not> is_due offset t i lc"
  proof
    assume "is_due offset t i lc"
    then obtain s where s: "s \<le> unat t" "slot_at offset i s" and after: "case lc of None \<Rightarrow> True | Some l \<Rightarrow> unat l < s"
      unfolding is_due_iff by blast
    show False
    proof (cases "s \<le> unat now")
      case True
      with s(2) after not_due show False unfolding is_due_iff by blast
    next
      case False
      with n(3) [OF s(2)] s(1) t eq [OF not_due] show False by (simp add: word_less_nat_alt)
    qed
  qed
next
  fix l assume l: "lc = Some l \<and> offset \<le> now \<and> unat l + unat (max i 1) \<le> unat now"
  then have "\<not> now < offset" by auto
  then obtain s where slot: "last_slot offset now i = Some s" by (simp add: last_slot_def Let_def)
  note s = last_slot_Some [OF slot]
  show "is_due offset now i lc"
    unfolding is_due_iff using l s by (intro exI [of _ "unat s"]) auto
qed

section \<open>An even spread\<close>

lemma remdups_adj_sorted_distinct: "sorted xs \<Longrightarrow> distinct (remdups_adj xs)" for xs :: "'a::linorder list"
  by (induction xs rule: remdups_adj.induct) (auto simp: order.order_iff_strict)

lemma ranked_props:
  shows "distinct (ranked H names)" and "set (ranked H names) = set names"
proof -
  let ?ps = "remdups_adj (sort (map (\<lambda>n. (H n, n)) names))"
  have set: "set ?ps = (\<lambda>n. (H n, n)) ` set names" by simp
  then have "inj_on snd (set ?ps)" by (auto simp: inj_on_def)
  moreover have "distinct ?ps" by (rule remdups_adj_sorted_distinct) simp
  ultimately show "distinct (ranked H names)" by (simp add: ranked_def distinct_map)
  show "set (ranked H names) = set names" unfolding ranked_def set_map set by force
qed

lemma rank_offset_value:
  assumes "r < n" and "0 < interval" and "interval < 2 ^ 64"
  shows "unat (rank_offset interval n r) = r * interval div n" and "r * interval div n < interval"
proof -
  have "r * interval < n * interval" using assms by simp
  then show lt: "r * interval div n < interval" by (simp add: less_mult_imp_div_less mult.commute)
  then show "unat (rank_offset interval n r) = r * interval div n"
    using assms(3) by (simp add: rank_offset_def Let_def unat_of_nat)
qed

lemma offsets_get:
  assumes "r < length (ranked H names)"
  shows "bm_get (offsets H names i) (ranked H names ! r) =
    Some (rank_offset (unat (max i 1)) (length (ranked H names)) r)"
proof -
  let ?rs = "ranked H names" and ?f = "rank_offset (unat (max i 1)) (length (ranked H names))"
  have n: "max (length ?rs) 1 = length ?rs" using assms by simp
  let ?ps = "map (\<lambda>(r, name). (name, ?f r)) (enumerate 0 ?rs)"
  have "map fst ?ps = ?rs" by (rule nth_equalityI) (simp_all add: nth_enumerate_eq)
  then have "distinct (map fst ?ps)" using ranked_props(1) by simp
  moreover have "(?rs ! r, ?f r) \<in> set ?ps"
    using assms by (auto simp: in_set_enumerate_eq intro!: image_eqI [where x = "(r, ?rs ! r)"])
  ultimately have "bm_get (bm_of_list ?ps) (?rs ! r) = Some (?f r)" by (simp add: bm_get_of_list_distinct)
  then show ?thesis unfolding offsets_def Let_def n .
qed

lemma step_le: "r < q \<Longrightarrow> r * k + k \<le> q * k" for r q k :: nat
  using mult_le_mono1 [of "Suc r" q k] by simp

lemma rank_before_iff:
  fixes n t c k r :: nat
  assumes "0 < n" and lo: "t * n \<le> c * k" and hi: "c * k < t * n + k"
  shows "r * k div n < t \<longleftrightarrow> r < c"
proof -
  have "r * k div n < t \<longleftrightarrow> r * k < t * n" using assms(1) by (simp add: div_less_iff_less_mult)
  also have "\<dots> \<longleftrightarrow> r < c"
  proof
    assume "r * k < t * n"
    then have "r * k < c * k" using lo by linarith
    then show "r < c" by (rule mult_less_cancel2 [THEN iffD1, THEN conjunct2])
  next
    assume "r < c"
    then have "r * k + k \<le> c * k" by (rule step_le)
    then show "r * k < t * n" using hi by linarith
  qed
  finally show ?thesis .
qed

lemma share_le:
  fixes t k c n :: nat
  assumes "t \<le> k" and "c * k < t * n + k"
  shows "c \<le> n"
proof -
  have "t * n \<le> k * n" using assms(1) by (rule mult_le_mono1)
  with assms(2) have "c * k < k * n + k" by linarith
  then have "c * k < (n + 1) * k" by (simp add: algebra_simps)
  then have "c < n + 1" by (rule mult_less_cancel2 [THEN iffD1, THEN conjunct2])
  then show ?thesis by simp
qed

lemma count_ranks_below:
  assumes "0 < n" and "0 < k" and "t \<le> k"
  shows "card {r. r < n \<and> r * k div n < t} = div_ceil (t * n) k"
proof -
  note c = div_ceil_le [OF assms(2), of "t * n"]
  have "{r. r < n \<and> r * k div n < t} = {..< div_ceil (t * n) k}"
    unfolding rank_before_iff [OF assms(1) c] using share_le [OF assms(3) c(2)] by auto
  then show ?thesis by simp
qed

text \<open>Drift checks are spread evenly. Every leaf has one offset inside the interval, and
  for every point of the interval the number of leaves whose offset lies before it is exactly
  the proportional share of the leaves, rounded up, whatever the hash function.\<close>

lemma offsets_spread:
  assumes "names \<noteq> []" and "t \<le> unat (max i 1)"
  shows "(\<forall>n \<in> set names. \<exists>o'. bm_get (offsets H names i) n = Some o' \<and> o' < max i 1)
    \<and> card {n \<in> set names. \<exists>o'. bm_get (offsets H names i) n = Some o' \<and> unat o' < t}
        = div_ceil (t * card (set names)) (unat (max i 1))"
proof -
  let ?rs = "ranked H names" and ?I = "unat (max i 1)"
  let ?n = "length ?rs"
  have n: "?n = card (set names)" using ranked_props [of H names] by (metis distinct_card)
  have npos: "0 < ?n" using n assms(1) by (simp add: card_gt_0_iff)
  have I: "0 < ?I" "?I < 2 ^ 64" using interval_pos unsigned_less [of "max i 1"] by auto
  have at: "bm_get (offsets H names i) (?rs ! r) = Some (rank_offset ?I ?n r)"
    "unat (rank_offset ?I ?n r) = r * ?I div ?n" "r * ?I div ?n < ?I" if "r < ?n" for r
    using that offsets_get rank_offset_value [OF that I] by blast+
  have ex: "\<exists>r < ?n. ?rs ! r = x" if "x \<in> set names" for x
    using that ranked_props(2) [of H names] by (metis in_set_conv_nth)
  have "\<exists>o'. bm_get (offsets H names i) x = Some o' \<and> o' < max i 1" if "x \<in> set names" for x
    using ex [OF that] at by (metis word_less_nat_alt)
  moreover have "{x \<in> set names. \<exists>o'. bm_get (offsets H names i) x = Some o' \<and> unat o' < t} =
      (!) ?rs ` {r. r < ?n \<and> r * ?I div ?n < t}"
    using ex at nth_mem [of _ ?rs] ranked_props(2) [of H names] by (auto simp: image_iff) (metis option.inject)+
  moreover have "inj_on ((!) ?rs) {r. r < ?n \<and> r * ?I div ?n < t}"
    using ranked_props(1) [of H names] by (auto simp: inj_on_def nth_eq_iff_index_eq)
  ultimately show ?thesis
    using count_ranks_below [OF npos I(1) assms(2)] n by (simp add: card_image)
qed

end
