(* ===== verification/Pass.thy ===== *)
theory Pass
  imports Lifecycle Prelude
begin

text \<open>
  The pass machine of a template and the status projected from it
  (\<open>pangea-operator/src/controller/template/pass.rs\<close>,
  \<open>pangea-operator/src/crd/pass_status.rs\<close>, \<open>merge_condition_transitions\<close> of
  \<open>controller/status.rs\<close> and the status fields of \<open>crd/infrastructure_template.rs\<close> and
  \<open>crd/live_status.rs\<close> that these read).

  A \<open>DateTime<Utc>\<close> is its number of nanoseconds since the epoch and a \<open>Duration\<close> a number
  of nanoseconds, both integers; generations are integers too, since the code only compares them
  and takes maxima. The rendering of a time as RFC 3339 text and the incarnation string of the
  process are parameters (\<open>rfc\<close>, \<open>me\<close>). The merge patch of \<open>projection_patch\<close> is a record with
  one optional field per key the code may insert.
\<close>

type_synonym time = int
type_synonym duration = int

definition num_seconds :: "duration \<Rightarrow> int" where
  "num_seconds d = (if d < 0 then - ((- d) div 10 ^ 9) else d div 10 ^ 9)"

section \<open>Data\<close>

datatype pass_kind = Settled | Pending | Planning | Applying | Failed | Stalled

fun show_kind :: "pass_kind \<Rightarrow> string" where
  "show_kind pass_kind.Settled = ''settled''" | "show_kind pass_kind.Pending = ''pending''"
| "show_kind pass_kind.Planning = ''planning''" | "show_kind pass_kind.Applying = ''applying''"
| "show_kind pass_kind.Failed = ''failed''" | "show_kind pass_kind.Stalled = ''stalled''"

datatype stall_state = QueuedBehind | PendingNotStarted | HeartbeatLost | OrphanedPhase | NoProgress | Unnamed

definition stall_state_ALL :: "stall_state list" where
  "stall_state_ALL = [QueuedBehind, PendingNotStarted, HeartbeatLost, OrphanedPhase, NoProgress, Unnamed]"

fun remedy :: "stall_state \<Rightarrow> string" where
  "remedy QueuedBehind = ''wait and report the blocking pass''"
| "remedy PendingNotStarted = ''re-dispatch the reconcile''"
| "remedy HeartbeatLost = ''re-dispatch the reconcile''"
| "remedy OrphanedPhase = ''resume the pass under this incarnation''"
| "remedy NoProgress = ''re-dispatch the reconcile''"
| "remedy Unnamed = ''report an unnamed state so it can be named''"

definition redispatches :: "stall_state \<Rightarrow> bool" where
  "redispatches s \<longleftrightarrow> s = PendingNotStarted \<or> s = HeartbeatLost \<or> s = OrphanedPhase \<or> s = NoProgress"

record pass_status =
  ps_kind :: pass_kind
  ps_generation :: int
  ps_since :: "time option"
  ps_heartbeat_at :: "time option"
  ps_reason :: "string option"
  ps_queued_generation :: "int option"
  ps_queued_since :: "time option"
  ps_stall :: "stall_state option"
  ps_incarnation :: "string option"

record queued =
  q_generation :: int
  q_since :: time

datatype pass_phase =
    Settled int
  | Pending int time
  | Planning int time time "queued option"
  | Applying int time time "queued option"
  | Failed int string
  | Stalled int time stall_state string

record deadlines =
  d_heartbeat :: duration
  d_pending_start :: duration
  d_orphan_grace :: duration
  d_no_progress :: duration
  d_backstop :: duration

definition minutes :: "int \<Rightarrow> duration" where
  "minutes n = n * 60 * 10 ^ 9"

definition default_deadlines :: deadlines where
  "default_deadlines = \<lparr>d_heartbeat = minutes 5, d_pending_start = minutes 30, d_orphan_grace = minutes 2,
     d_no_progress = minutes 10, d_backstop = minutes 120\<rparr>"

text \<open>\<open>str::parse::<i64>\<close>: an optional sign, at least one digit, and the value in range.\<close>

definition parse_digits :: "string \<Rightarrow> int option" where
  "parse_digits s = (if s = [] \<or> \<not> list_all is_ascii_digit s then None
     else Some (foldl (\<lambda>n c. n * 10 + (of_char c - 48)) 0 s))"

definition parse_i64 :: "string \<Rightarrow> int option" where
  "parse_i64 s =
     (let r = (case s of
          c # cs \<Rightarrow> if c = CHR ''-'' then map_option uminus (parse_digits cs)
                    else if c = CHR ''+'' then parse_digits cs else parse_digits s
        | [] \<Rightarrow> None)
      in (case r of Some n \<Rightarrow> if - (2 ^ 63) \<le> n \<and> n < 2 ^ 63 then Some n else None | None \<Rightarrow> None))"

text \<open>\<open>Duration::seconds\<close> panics beyond \<open>i64::MAX / 1000\<close> seconds: the result is \<open>None\<close> then.\<close>

definition read_deadline :: "(string \<Rightarrow> string option) \<Rightarrow> string \<Rightarrow> duration \<Rightarrow> duration option" where
  "read_deadline env name dflt =
     (case Option.bind (env name) (\<lambda>v. parse_i64 (str_trim v)) of
        Some s \<Rightarrow> if 0 < s then (if s \<le> (2 ^ 63 - 1) div 1000 then Some (s * 10 ^ 9) else None) else Some dflt
      | None \<Rightarrow> Some dflt)"

definition deadlines_from_env :: "(string \<Rightarrow> string option) \<Rightarrow> deadlines option" where
  "deadlines_from_env env =
     (let d = default_deadlines in
      Option.bind (read_deadline env ''PANGEA_WATCHDOG_HEARTBEAT_SECS'' (d_heartbeat d)) (\<lambda>a.
      Option.bind (read_deadline env ''PANGEA_WATCHDOG_PENDING_START_SECS'' (d_pending_start d)) (\<lambda>b.
      Option.bind (read_deadline env ''PANGEA_WATCHDOG_ORPHAN_GRACE_SECS'' (d_orphan_grace d)) (\<lambda>c.
      Option.bind (read_deadline env ''PANGEA_WATCHDOG_NO_PROGRESS_SECS'' (d_no_progress d)) (\<lambda>n.
      Option.bind (read_deadline env ''PANGEA_WATCHDOG_BACKSTOP_SECS'' (d_backstop d)) (\<lambda>e.
        Some \<lparr>d_heartbeat = a, d_pending_start = b, d_orphan_grace = c, d_no_progress = n, d_backstop = e\<rparr>))))))"

section \<open>The pass\<close>

fun generation :: "pass_phase \<Rightarrow> int" where
  "generation (pass_phase.Settled g) = g"
| "generation (pass_phase.Pending g _) = g"
| "generation (pass_phase.Planning g _ _ _) = g"
| "generation (pass_phase.Applying g _ _ _) = g"
| "generation (pass_phase.Failed g _) = g"
| "generation (pass_phase.Stalled g _ _ _) = g"

fun kind :: "pass_phase \<Rightarrow> pass_kind" where
  "kind (pass_phase.Settled _) = pass_kind.Settled"
| "kind (pass_phase.Pending _ _) = pass_kind.Pending"
| "kind (pass_phase.Planning _ _ _ _) = pass_kind.Planning"
| "kind (pass_phase.Applying _ _ _ _) = pass_kind.Applying"
| "kind (pass_phase.Failed _ _) = pass_kind.Failed"
| "kind (pass_phase.Stalled _ _ _ _) = pass_kind.Stalled"

fun is_active :: "pass_phase \<Rightarrow> bool" where
  "is_active (pass_phase.Planning _ _ _ _) = True"
| "is_active (pass_phase.Applying _ _ _ _) = True"
| "is_active _ = False"

fun queued_of :: "pass_phase \<Rightarrow> queued option" where
  "queued_of (pass_phase.Planning _ _ _ q) = q"
| "queued_of (pass_phase.Applying _ _ _ q) = q"
| "queued_of _ = None"

definition behind_text :: "(time \<Rightarrow> string) \<Rightarrow> string \<Rightarrow> queued \<Rightarrow> int \<Rightarrow> time \<Rightarrow> string" where
  "behind_text rfc label q g started =
     ''generation '' @ show_int (q_generation q) @ '' is queued behind the '' @ label @ '' pass for generation ''
     @ show_int g @ '' started '' @ rfc started"

fun blocked_behind :: "(time \<Rightarrow> string) \<Rightarrow> pass_phase \<Rightarrow> string option" where
  "blocked_behind rfc (pass_phase.Planning g started _ (Some q)) = Some (behind_text rfc ''Planning'' q g started)"
| "blocked_behind rfc (pass_phase.Applying g started _ (Some q)) = Some (behind_text rfc ''Applying'' q g started)"
| "blocked_behind rfc _ = None"

fun lag_since :: "pass_phase \<Rightarrow> time option" where
  "lag_since (pass_phase.Pending _ since) = Some since"
| "lag_since other = map_option q_since (queued_of other)"

fun observed_generation :: "pass_phase \<Rightarrow> int \<Rightarrow> int" where
  "observed_generation (pass_phase.Settled g) previous = max previous g"
| "observed_generation (pass_phase.Failed g reason) previous = (if reason \<noteq> [] then max previous g else previous)"
| "observed_generation _ previous = previous"

definition from_status :: "pass_status \<Rightarrow> time \<Rightarrow> pass_phase" where
  "from_status status fallback =
     (let g = ps_generation status;
          since = (case ps_since status of Some s \<Rightarrow> s | None \<Rightarrow> fallback);
          queued = (case (ps_queued_generation status, ps_queued_since status) of
              (Some g, Some s) \<Rightarrow> Some \<lparr>q_generation = g, q_since = s\<rparr>
            | (Some g, None) \<Rightarrow> Some \<lparr>q_generation = g, q_since = fallback\<rparr>
            | _ \<Rightarrow> None);
          reason = (case ps_reason status of Some r \<Rightarrow> r | None \<Rightarrow> []);
          heartbeat = (case ps_heartbeat_at status of Some h \<Rightarrow> h | None \<Rightarrow> since)
      in (case ps_kind status of
            pass_kind.Settled \<Rightarrow> pass_phase.Settled g
          | pass_kind.Pending \<Rightarrow> pass_phase.Pending g since
          | pass_kind.Planning \<Rightarrow> pass_phase.Planning g since heartbeat queued
          | pass_kind.Applying \<Rightarrow> pass_phase.Applying g since heartbeat queued
          | pass_kind.Failed \<Rightarrow> pass_phase.Failed g reason
          | pass_kind.Stalled \<Rightarrow>
              pass_phase.Stalled g since (case ps_stall status of Some s \<Rightarrow> s | None \<Rightarrow> Unnamed) reason))"

definition to_status :: "string \<Rightarrow> pass_phase \<Rightarrow> pass_status" where
  "to_status me p =
     (let s = \<lparr>ps_kind = kind p, ps_generation = generation p, ps_since = None, ps_heartbeat_at = None,
               ps_reason = None, ps_queued_generation = None, ps_queued_since = None, ps_stall = None,
               ps_incarnation = Some me\<rparr>
      in (case p of
            pass_phase.Settled _ \<Rightarrow> s
          | pass_phase.Pending _ since \<Rightarrow> s\<lparr>ps_since := Some since\<rparr>
          | pass_phase.Planning _ started heartbeat queued \<Rightarrow>
              s\<lparr>ps_since := Some started, ps_heartbeat_at := Some heartbeat,
                ps_queued_generation := map_option q_generation queued, ps_queued_since := map_option q_since queued\<rparr>
          | pass_phase.Applying _ started heartbeat queued \<Rightarrow>
              s\<lparr>ps_since := Some started, ps_heartbeat_at := Some heartbeat,
                ps_queued_generation := map_option q_generation queued, ps_queued_since := map_option q_since queued\<rparr>
          | pass_phase.Failed _ reason \<Rightarrow> s\<lparr>ps_reason := Some reason\<rparr>
          | pass_phase.Stalled _ since state reason \<Rightarrow>
              s\<lparr>ps_since := Some since, ps_stall := Some state, ps_reason := Some reason\<rparr>))"

fun show_phase :: "phase \<Rightarrow> string" where
  "show_phase phase.Pending = ''Pending''" | "show_phase phase.Verifying = ''Verifying''"
| "show_phase phase.Verified = ''Verified''" | "show_phase phase.Compiling = ''Compiling''"
| "show_phase phase.Initializing = ''Initializing''" | "show_phase phase.Planning = ''Planning''"
| "show_phase phase.Applying = ''Applying''" | "show_phase phase.Ready = ''Ready''"
| "show_phase phase.Drifted = ''Drifted''" | "show_phase phase.Failed = ''Failed''"
| "show_phase phase.CompileBlocked = ''CompileBlocked''" | "show_phase phase.Destroying = ''Destroying''"

definition entering :: "phase \<Rightarrow> int \<Rightarrow> string option \<Rightarrow> pass_phase option \<Rightarrow> time \<Rightarrow> pass_phase" where
  "entering ph g error previous now =
     (let carried_queue = Option.bind previous queued_of in
      if ph = phase.Ready \<or> ph = phase.Drifted then pass_phase.Settled g
      else if ph = phase.Failed \<or> ph = phase.CompileBlocked then
        pass_phase.Failed g
          (case error of
             Some e \<Rightarrow> e
           | None \<Rightarrow> (case previous of Some (pass_phase.Failed _ reason) \<Rightarrow> reason | _ \<Rightarrow> show_phase ph))
      else if ph = phase.Planning \<or> ph = phase.Compiling \<or> ph = phase.Initializing then
        pass_phase.Planning g
          (case previous of Some (pass_phase.Planning g' started _ _) \<Rightarrow> if g' = g then started else now | _ \<Rightarrow> now)
          now carried_queue
      else if ph = phase.Applying then
        pass_phase.Applying g
          (case previous of Some (pass_phase.Applying g' started _ _) \<Rightarrow> if g' = g then started else now | _ \<Rightarrow> now)
          now carried_queue
      else
        pass_phase.Pending g
          (case previous of Some (pass_phase.Pending g' since) \<Rightarrow> if g' = g then since else now | _ \<Rightarrow> now))"

definition drop_stale_queue :: "int \<Rightarrow> queued option \<Rightarrow> queued option" where
  "drop_stale_queue g q = (case q of Some q' \<Rightarrow> if q_generation q' \<le> g then None else q | None \<Rightarrow> None)"

definition enqueue :: "int \<Rightarrow> time \<Rightarrow> queued option \<Rightarrow> queued option" where
  "enqueue live now q = Some \<lparr>q_generation = live, q_since = (case q of Some q' \<Rightarrow> q_since q' | None \<Rightarrow> now)\<rparr>"

definition observe :: "int \<Rightarrow> time \<Rightarrow> pass_phase \<Rightarrow> pass_phase" where
  "observe live now p =
     (if live \<le> generation p then
        (case p of
           pass_phase.Planning g started heartbeat q \<Rightarrow> pass_phase.Planning g started heartbeat (drop_stale_queue g q)
         | pass_phase.Applying g started heartbeat q \<Rightarrow> pass_phase.Applying g started heartbeat (drop_stale_queue g q)
         | other \<Rightarrow> other)
      else
        (case p of
           pass_phase.Settled _ \<Rightarrow> pass_phase.Pending live now
         | pass_phase.Failed _ _ \<Rightarrow> pass_phase.Pending live now
         | pass_phase.Pending _ since \<Rightarrow> pass_phase.Pending live since
         | pass_phase.Planning g started heartbeat q \<Rightarrow> pass_phase.Planning g started heartbeat (enqueue live now q)
         | pass_phase.Applying g started heartbeat q \<Rightarrow> pass_phase.Applying g started heartbeat (enqueue live now q)
         | pass_phase.Stalled _ since state reason \<Rightarrow> pass_phase.Stalled live since state reason))"

definition beat :: "time \<Rightarrow> pass_phase \<Rightarrow> pass_phase" where
  "beat now p =
     (case p of
        pass_phase.Planning g started _ q \<Rightarrow> pass_phase.Planning g started now q
      | pass_phase.Applying g started _ q \<Rightarrow> pass_phase.Applying g started now q
      | other \<Rightarrow> other)"

definition watchdog_active ::
    "(time \<Rightarrow> string) \<Rightarrow> time \<Rightarrow> deadlines \<Rightarrow> string \<Rightarrow> pass_phase \<Rightarrow> int \<Rightarrow> time \<Rightarrow> time \<Rightarrow> queued option \<Rightarrow> pass_phase" where
  "watchdog_active rfc now d label self g started heartbeat q =
     (if d_heartbeat d < now - heartbeat then
        pass_phase.Stalled (case q of Some q' \<Rightarrow> q_generation q' | None \<Rightarrow> g) now HeartbeatLost
          (label @ '' pass for generation '' @ show_int g @ '' started '' @ rfc started
             @ '' has no heartbeat for '' @ show_int (num_seconds (now - heartbeat)) @ ''s'')
      else
        let unnamed = pass_phase.Stalled g now Unnamed
              (''unnamed stall: '' @ label @ '' pass for generation '' @ show_int g @ '' running ''
                 @ show_int (num_seconds (now - started)) @ ''s with no named wedge state matched; name this state'');
            rest = (if d_backstop d < now - started then unnamed else self)
        in (case q of
              Some q' \<Rightarrow>
                if d_pending_start d < now - q_since q' then
                  pass_phase.Stalled (q_generation q') now QueuedBehind
                    (''generation '' @ show_int (q_generation q') @ '' queued '' @ show_int (num_seconds (now - q_since q'))
                       @ ''s behind '' @ label @ '' pass for generation '' @ show_int g @ '' started '' @ rfc started)
                else rest
            | None \<Rightarrow> rest))"

definition watchdog :: "(time \<Rightarrow> string) \<Rightarrow> time \<Rightarrow> deadlines \<Rightarrow> pass_phase \<Rightarrow> pass_phase" where
  "watchdog rfc now d p =
     (case p of
        pass_phase.Planning g started heartbeat q \<Rightarrow> watchdog_active rfc now d ''Planning'' p g started heartbeat q
      | pass_phase.Applying g started heartbeat q \<Rightarrow> watchdog_active rfc now d ''Applying'' p g started heartbeat q
      | pass_phase.Pending g since \<Rightarrow>
          if d_pending_start d < now - since then
            pass_phase.Stalled g now PendingNotStarted
              (''generation '' @ show_int g @ '' pending for '' @ show_int (num_seconds (now - since)) @ ''s and no pass started'')
          else p
      | _ \<Rightarrow> p)"

section \<open>Conditions\<close>

record condition =
  c_type :: string
  c_status :: string
  c_last_transition_time :: time
  c_reason :: string
  c_message :: string
  c_observed_generation :: "int option"

definition merge_condition_transitions :: "condition list \<Rightarrow> condition list \<Rightarrow> condition list" where
  "merge_condition_transitions prev new =
     map (\<lambda>n. (case find (\<lambda>p. c_type p = c_type n) prev of
                 None \<Rightarrow> n
               | Some p \<Rightarrow>
                   if c_status p = c_status n \<and> c_reason p = c_reason n \<and> c_message p = c_message n
                   then n\<lparr>c_last_transition_time := c_last_transition_time p\<rparr> else n)) new"

definition conditions_observably_equal :: "condition list \<Rightarrow> condition list \<Rightarrow> bool" where
  "conditions_observably_equal prev new \<longleftrightarrow> length prev = length new \<and>
     list_all (\<lambda>n. list_ex (\<lambda>p. c_type p = c_type n \<and> c_status p = c_status n \<and> c_reason p = c_reason n
       \<and> c_message p = c_message n) prev) new"

definition claims_good :: "condition \<Rightarrow> bool" where
  "claims_good c \<longleftrightarrow> c_type c = ''Ready'' \<or> c_type c = ''Settled''"

definition is_stalled :: "pass_phase \<Rightarrow> bool" where
  "is_stalled p = (case p of pass_phase.Stalled _ _ _ _ \<Rightarrow> True | _ \<Rightarrow> False)"

definition is_failed :: "pass_phase \<Rightarrow> bool" where
  "is_failed p = (case p of pass_phase.Failed _ _ \<Rightarrow> True | _ \<Rightarrow> False)"

definition project_condition :: "(time \<Rightarrow> string) \<Rightarrow> pass_phase \<Rightarrow> int \<Rightarrow> int \<Rightarrow> condition \<Rightarrow> condition" where
  "project_condition rfc p observed live c =
     (let caught_up = live \<le> observed;
          may_claim_good = (caught_up \<and> \<not> (is_stalled p \<or> is_failed p));
          behind_reason = (case blocked_behind rfc p of
              Some r \<Rightarrow> r
            | None \<Rightarrow> ''observed generation '' @ show_int observed @ '' is behind generation '' @ show_int live);
          c = c\<lparr>c_observed_generation := Some live\<rparr>;
          c = (if claims_good c \<and> c_status c = ''True'' \<and> \<not> may_claim_good then
                 c\<lparr>c_status := ''False'',
                   c_reason := (if caught_up then ''PassNotHealthy'' else ''GenerationBehind''),
                   c_message := (if caught_up
                      then ''pass for generation '' @ show_int (generation p) @ '' is '' @ show_kind (kind p)
                      else behind_reason)\<rparr>
               else c)
      in if c_type c = ''Reconciling'' \<and> c_status c \<noteq> ''True'' \<and> \<not> caught_up
         then c\<lparr>c_status := ''True'', c_reason := ''GenerationBehind'', c_message := behind_reason\<rparr>
         else c)"

definition project :: "(time \<Rightarrow> string) \<Rightarrow> condition list \<Rightarrow> pass_phase \<Rightarrow> int \<Rightarrow> int \<Rightarrow> time \<Rightarrow> condition list" where
  "project rfc conditions p observed live now =
     (let cs = filter (\<lambda>c. c_type c \<noteq> ''Stalled'') (map (project_condition rfc p observed live) conditions);
          (stalled, reason, message) = (case p of
              pass_phase.Stalled _ _ _ r \<Rightarrow> (''True'', ''Stalled'', r)
            | _ \<Rightarrow> (''False'', ''NotStalled'', ''pass is making progress or idle''))
      in cs @ [\<lparr>c_type = ''Stalled'', c_status = stalled, c_last_transition_time = now, c_reason = reason,
               c_message = message, c_observed_generation = Some live\<rparr>])"

definition violates_generation_invariant :: "condition list \<Rightarrow> int \<Rightarrow> int \<Rightarrow> bool" where
  "violates_generation_invariant conditions observed live \<longleftrightarrow>
     list_ex (\<lambda>c. c_status c = ''True'' \<and> claims_good c
       \<and> (observed < live \<or> (case c_observed_generation c of None \<Rightarrow> True | Some g \<Rightarrow> g < live))) conditions"

section \<open>The projected status\<close>

record in_flight_call =
  if_rpc :: "string option"
  if_address :: string
  if_since :: time

datatype progress_step = Preflight | Compile | Refresh | Plan | Apply | Record

record resume_record =
  rr_at :: time
  rr_phase :: phase
  rr_previous_phase_started_at :: "time option"
  rr_previous_pod :: "string option"

record live_progress =
  lp_phase :: phase
  lp_phase_started_at :: time
  lp_step :: "progress_step option"
  lp_step_started_at :: "time option"
  lp_resources_total :: "u64 option"
  lp_resources_done :: u64
  lp_in_flight :: "in_flight_call option"
  lp_last_progress_at :: time
  lp_credential_expires_at :: "time option"
  lp_pod :: "string option"
  lp_finished_at :: "time option"
  lp_resumed :: "resume_record option"

definition live_progress_new :: "phase \<Rightarrow> time \<Rightarrow> string option \<Rightarrow> live_progress" where
  "live_progress_new ph now pod =
     \<lparr>lp_phase = ph, lp_phase_started_at = now, lp_step = None, lp_step_started_at = None, lp_resources_total = None,
      lp_resources_done = 0, lp_in_flight = None, lp_last_progress_at = now, lp_credential_expires_at = None, lp_pod = pod,
      lp_finished_at = None, lp_resumed = None\<rparr>"

text \<open>The fields of \<open>InfrastructureTemplateStatus\<close> the pass reads or writes.\<close>

record template_status =
  st_phase :: "phase option"
  st_conditions :: "condition list"
  st_observed_generation :: int
  st_acknowledged_generation :: int
  st_pass :: "pass_status option"
  st_last_error :: "string option"
  st_progress :: "live_progress option"
  st_generation_lag_since :: "time option"

definition acknowledged :: "template_status \<Rightarrow> int" where
  "acknowledged st = (if st_acknowledged_generation st \<noteq> 0 then st_acknowledged_generation st else st_observed_generation st)"

record status_projection =
  pr_pass :: pass_phase
  pr_observed_generation :: int
  pr_conditions :: "condition list"
  pr_lag_since :: "time option"

definition stored_pass :: "template_status \<Rightarrow> time \<Rightarrow> pass_phase" where
  "stored_pass st now =
     (case st_pass st of
        Some p \<Rightarrow> from_status p now
      | None \<Rightarrow> entering (case st_phase st of Some ph \<Rightarrow> ph | None \<Rightarrow> phase.Pending) (acknowledged st) (st_last_error st) None now)"

definition active_parts :: "pass_phase \<Rightarrow> (int \<times> time) option" where
  "active_parts p =
     (case p of
        pass_phase.Planning g _ heartbeat _ \<Rightarrow> Some (g, heartbeat)
      | pass_phase.Applying g _ heartbeat _ \<Rightarrow> Some (g, heartbeat)
      | _ \<Rightarrow> None)"

definition no_progress_text :: "(time \<Rightarrow> string) \<Rightarrow> live_progress \<Rightarrow> time \<Rightarrow> string" where
  "no_progress_text rfc pg now =
     ''no progress for '' @ show_int (num_seconds (now - lp_last_progress_at pg)) @ ''s with ''
     @ show_nat (unat (lp_resources_done pg)) @ ''/''
     @ (case lp_resources_total pg of Some n \<Rightarrow> show_nat (unat n) | None \<Rightarrow> ''?'') @ '' resources done''
     @ (case lp_in_flight pg of
          Some c \<Rightarrow> ''; in flight: '' @ (case if_rpc c of Some r \<Rightarrow> r | None \<Rightarrow> ''rpc'') @ '' '' @ if_address c
            @ '' since '' @ rfc (if_since c)
        | None \<Rightarrow> [])"

definition named_stall ::
    "(time \<Rightarrow> string) \<Rightarrow> string \<Rightarrow> template_status \<Rightarrow> pass_phase \<Rightarrow> time \<Rightarrow> deadlines \<Rightarrow> pass_phase" where
  "named_stall rfc me st p now d =
     (case active_parts p of
        None \<Rightarrow> p
      | Some (g, heartbeat) \<Rightarrow>
          (let owner = Option.bind (st_pass st) ps_incarnation in
           if owner \<noteq> Some me \<and> d_orphan_grace d < now - heartbeat then
             pass_phase.Stalled g now OrphanedPhase
               (show_kind (kind p) @ '' pass for generation '' @ show_int g @ '' belongs to incarnation ''
                  @ (case owner of Some o' \<Rightarrow> o' | None \<Rightarrow> ''unrecorded'') @ '' and this is '' @ me
                  @ ''; no heartbeat for '' @ show_int (num_seconds (now - heartbeat)) @ ''s'')
           else
             (case st_progress st of
                Some pg \<Rightarrow>
                  if lp_finished_at pg = None \<and> d_no_progress d < now - lp_last_progress_at pg
                  then pass_phase.Stalled g now NoProgress (no_progress_text rfc pg now)
                  else p
              | None \<Rightarrow> p)))"

definition project_status ::
    "(time \<Rightarrow> string) \<Rightarrow> string \<Rightarrow> template_status \<Rightarrow> int \<Rightarrow> time \<Rightarrow> deadlines \<Rightarrow> status_projection" where
  "project_status rfc me st live now d =
     (let p = watchdog rfc now d (observe live now (named_stall rfc me st (stored_pass st now) now d));
          observed = observed_generation p (st_observed_generation st);
          projected = project rfc (st_conditions st) p observed live now
      in \<lparr>pr_pass = p, pr_observed_generation = observed,
          pr_conditions = merge_condition_transitions (st_conditions st) projected,
          pr_lag_since = lag_since p\<rparr>)"

definition condition_key :: "condition \<Rightarrow> string \<times> string \<times> string \<times> string \<times> (int option)" where
  "condition_key c = (c_type c, c_status c, c_reason c, c_message c, c_observed_generation c)"

text \<open>Sorting the two lists of keys and comparing them compares them as multisets.\<close>

definition conditions_differ :: "condition list \<Rightarrow> condition list \<Rightarrow> bool" where
  "conditions_differ a b \<longleftrightarrow> mset (map condition_key a) \<noteq> mset (map condition_key b)"

text \<open>The merge patch: a pass written whole, or single fields of the stored one.\<close>

record pass_fields =
  pf_generation :: "int option"
  pf_queued_generation :: "int option option"
  pf_queued_since :: "time option option"

datatype pass_patch = WholePass pass_status | PassFields pass_fields

record status_patch =
  sp_pass :: "pass_patch option"
  sp_observed_generation :: "int option"
  sp_conditions :: "condition list option"
  sp_lag_since :: "time option option"

definition changed :: "'a \<Rightarrow> 'a \<Rightarrow> 'a option" where
  "changed old new = (if old \<noteq> new then Some new else None)"

definition pass_patch_of :: "pass_status option \<Rightarrow> pass_status \<Rightarrow> pass_patch option" where
  "pass_patch_of stored new =
     (case stored of
        Some old \<Rightarrow>
          if ps_kind old = ps_kind new then
            (let fields = \<lparr>pf_generation = changed (ps_generation old) (ps_generation new),
                           pf_queued_generation = changed (ps_queued_generation old) (ps_queued_generation new),
                           pf_queued_since = changed (ps_queued_since old) (ps_queued_since new)\<rparr>
             in if pf_generation fields = None \<and> pf_queued_generation fields = None \<and> pf_queued_since fields = None
                then None else Some (PassFields fields))
          else Some (WholePass new)
      | None \<Rightarrow> Some (WholePass new))"

definition projection_patch :: "string \<Rightarrow> template_status \<Rightarrow> status_projection \<Rightarrow> status_patch option" where
  "projection_patch me st pr =
     (let patch = \<lparr>sp_pass = pass_patch_of (st_pass st) (to_status me (pr_pass pr)),
                   sp_observed_generation = changed (st_observed_generation st) (pr_observed_generation pr),
                   sp_conditions = (if conditions_differ (st_conditions st) (pr_conditions pr) then Some (pr_conditions pr) else None),
                   sp_lag_since = changed (st_generation_lag_since st) (pr_lag_since pr)\<rparr>
      in if sp_pass patch = None \<and> sp_observed_generation patch = None \<and> sp_conditions patch = None \<and> sp_lag_since patch = None
         then None else Some patch)"

section \<open>What the status may claim\<close>

lemma project_condition_type [simp]: "c_type (project_condition rfc p observed live c) = c_type c"
  by (simp add: project_condition_def Let_def)

lemma project_condition_generation [simp]:
  "c_observed_generation (project_condition rfc p observed live c) = Some live"
  by (simp add: project_condition_def Let_def)

lemma project_condition_good:
  assumes "claims_good c" and "c_status (project_condition rfc p observed live c) = ''True''"
  shows "live \<le> observed \<and> \<not> is_stalled p \<and> \<not> is_failed p"
proof -
  have "c_type c \<noteq> ''Reconciling''" using assms(1) by (auto simp: claims_good_def)
  with assms show ?thesis
    by (simp add: project_condition_def Let_def claims_good_def split: if_splits)
qed

definition restamped :: "condition list \<Rightarrow> condition \<Rightarrow> condition" where
  "restamped prev n =
     (case find (\<lambda>p. c_type p = c_type n) prev of
        None \<Rightarrow> n
      | Some p \<Rightarrow>
          if c_status p = c_status n \<and> c_reason p = c_reason n \<and> c_message p = c_message n
          then n\<lparr>c_last_transition_time := c_last_transition_time p\<rparr> else n)"

lemma merge_eq: "merge_condition_transitions prev new = map (restamped prev) new"
  by (simp add: merge_condition_transitions_def restamped_def)

lemma restamped_fields [simp]:
  "c_type (restamped prev n) = c_type n" "c_status (restamped prev n) = c_status n"
  "c_reason (restamped prev n) = c_reason n" "c_message (restamped prev n) = c_message n"
  "c_observed_generation (restamped prev n) = c_observed_generation n"
  by (simp_all add: restamped_def split: option.splits)

lemma restamped_good: "claims_good (restamped prev n) = claims_good n"
  by (simp add: claims_good_def)

lemma project_good:
  assumes "c \<in> set (project rfc cs p observed live now)" and "claims_good c" and "c_status c = ''True''"
  shows "live \<le> observed \<and> c_observed_generation c = Some live \<and> \<not> is_stalled p \<and> \<not> is_failed p"
proof -
  have "c_type c \<noteq> ''Stalled''" using assms(2) by (auto simp: claims_good_def)
  with assms(1) obtain c' where c: "c = project_condition rfc p observed live c'"
    by (auto simp: project_def Let_def split: prod.splits)
  with assms(2) have "claims_good c'" by (simp add: claims_good_def)
  with project_condition_good assms(3) c show ?thesis by auto
qed

text \<open>C6: A projected status never overclaims. Whatever conditions were stored, after the
  projection a Ready or Settled condition is True only if the observed generation has caught up
  with the live one, the condition itself was made for the live generation, and the pass is
  neither stalled nor failed; in particular the published generation invariant is never violated.\<close>

theorem status_never_overclaims:
  fixes rfc me st live now d
  defines "pr \<equiv> project_status rfc me st live now d"
  shows "\<not> violates_generation_invariant (pr_conditions pr) (pr_observed_generation pr) live
    \<and> (\<forall>c \<in> set (pr_conditions pr). claims_good c \<and> c_status c = ''True'' \<longrightarrow>
         live \<le> pr_observed_generation pr \<and> c_observed_generation c = Some live
         \<and> \<not> is_stalled (pr_pass pr) \<and> \<not> is_failed (pr_pass pr))"
proof -
  have good: "live \<le> pr_observed_generation pr \<and> c_observed_generation c = Some live
      \<and> \<not> is_stalled (pr_pass pr) \<and> \<not> is_failed (pr_pass pr)"
    if "c \<in> set (pr_conditions pr)" "claims_good c" "c_status c = ''True''" for c
  proof -
    from that(1) obtain c' where c': "c = restamped (st_conditions st) c'"
      and mem: "c' \<in> set (project rfc (st_conditions st) (pr_pass pr) (pr_observed_generation pr) live now)"
      by (auto simp: pr_def project_status_def Let_def merge_eq)
    from c' that(2,3) have "claims_good c'" "c_status c' = ''True''" by (simp_all add: restamped_good)
    from project_good [OF mem this] c' show ?thesis by simp
  qed
  then show ?thesis
    unfolding violates_generation_invariant_def list_ex_iff by fastforce
qed

theorem status_never_overclaims_witness:
  "\<not> violates_generation_invariant
     (pr_conditions (project_status (\<lambda>_. []) ''pod-1''
        \<lparr>st_phase = Some phase.Ready, st_conditions = [\<lparr>c_type = ''Ready'', c_status = ''True'', c_last_transition_time = 0,
           c_reason = [], c_message = [], c_observed_generation = None\<rparr>], st_observed_generation = 1,
         st_acknowledged_generation = 0, st_pass = None, st_last_error = None, st_progress = None,
         st_generation_lag_since = None\<rparr> 2 0 default_deadlines)) 1 2"
proof -
  let ?st = "\<lparr>st_phase = Some phase.Ready, st_conditions = [\<lparr>c_type = ''Ready'', c_status = ''True'', c_last_transition_time = 0,
           c_reason = [], c_message = [], c_observed_generation = None\<rparr>], st_observed_generation = 1,
         st_acknowledged_generation = 0, st_pass = None, st_last_error = None, st_progress = None,
         st_generation_lag_since = None\<rparr> :: template_status"
  have "pr_observed_generation (project_status (\<lambda>_. []) ''pod-1'' ?st 2 0 default_deadlines) = 1" by code_simp
  with status_never_overclaims [of "\<lambda>_. []" "''pod-1''" ?st 2 0 default_deadlines] show ?thesis by simp
qed

section \<open>Generations\<close>

lemma watchdog_ended: "observed_generation (watchdog rfc now d p) n =
    (if watchdog rfc now d p = p then observed_generation p n else n)"
  by (cases p) (auto simp: watchdog_def watchdog_active_def Let_def split: option.splits)

lemma ended_after_observe:
  assumes "observed_generation (watchdog rfc now d (observe live now p)) n \<noteq> n"
  shows "live \<le> observed_generation (watchdog rfc now d (observe live now p)) n
    \<and> kind p \<in> {pass_kind.Settled, pass_kind.Failed}
    \<and> observed_generation (watchdog rfc now d (observe live now p)) n = generation p"
  using assms
  by (cases p) (auto simp: watchdog_ended observe_def max_def watchdog_def watchdog_active_def Let_def
      split: if_splits option.splits)

text \<open>The observed generation never goes back, and it moves only to the generation of a
  stored pass that ended, settled or failed, and only if that pass covers the live generation;
  a pending, running or stalled pass leaves it where it was.\<close>

lemma observed_generation_advances:
  fixes rfc me st live now d
  defines "pr \<equiv> project_status rfc me st live now d"
  shows "st_observed_generation st \<le> pr_observed_generation pr
    \<and> (pr_observed_generation pr \<noteq> st_observed_generation st \<longrightarrow>
         live \<le> pr_observed_generation pr
         \<and> kind (stored_pass st now) \<in> {pass_kind.Settled, pass_kind.Failed}
         \<and> pr_observed_generation pr = generation (stored_pass st now))"
proof -
  let ?p = "stored_pass st now" and ?n = "st_observed_generation st"
  let ?q = "named_stall rfc me st ?p now d"
  have obs: "pr_observed_generation pr = observed_generation (watchdog rfc now d (observe live now ?q)) ?n"
    by (simp add: pr_def project_status_def Let_def)
  have mono: "n \<le> observed_generation p n" for p n by (cases p) auto
  have "live \<le> pr_observed_generation pr \<and> kind ?p \<in> {pass_kind.Settled, pass_kind.Failed} \<and> pr_observed_generation pr = generation ?p"
    if "pr_observed_generation pr \<noteq> ?n"
  proof -
    note e = ended_after_observe [OF that [unfolded obs]]
    have "?q = ?p" using e by (cases ?p) (auto simp: named_stall_def active_parts_def Let_def split: if_splits option.splits)
    with e obs show ?thesis by simp
  qed
  then show ?thesis using mono obs by auto
qed

section \<open>Storing and reading a pass\<close>

lemma pass_status_decode: "from_status (to_status me p) fallback = p"
  by (cases p) (auto simp: from_status_def to_status_def Let_def split: option.splits)

text \<open>Storing a pass and reading it back gives the same pass, whatever fallback time the
  reader uses and whichever incarnation wrote it; reading never changes the kind or the
  generation that was stored.\<close>

lemma pass_status_roundtrip:
  "from_status (to_status me p) fallback = p
   \<and> kind (from_status s fallback) = ps_kind s \<and> generation (from_status s fallback) = ps_generation s"
proof -
  have "kind (from_status s fallback) = ps_kind s \<and> generation (from_status s fallback) = ps_generation s"
    by (cases "ps_kind s") (simp_all add: from_status_def Let_def)
  then show ?thesis using pass_status_decode by blast
qed

text \<open>Applying the patch to the stored status, as a merge patch does.\<close>

definition apply_pass_patch :: "pass_patch option \<Rightarrow> pass_status option \<Rightarrow> pass_status option" where
  "apply_pass_patch patch stored =
     (case patch of
        None \<Rightarrow> stored
      | Some (WholePass p) \<Rightarrow> Some p
      | Some (PassFields f) \<Rightarrow>
          map_option (\<lambda>s. s\<lparr>ps_generation := (case pf_generation f of Some g \<Rightarrow> g | None \<Rightarrow> ps_generation s),
            ps_queued_generation := (case pf_queued_generation f of Some q \<Rightarrow> q | None \<Rightarrow> ps_queued_generation s),
            ps_queued_since := (case pf_queued_since f of Some q \<Rightarrow> q | None \<Rightarrow> ps_queued_since s)\<rparr>) stored)"

definition apply_patch :: "status_patch option \<Rightarrow> template_status \<Rightarrow> template_status" where
  "apply_patch patch st =
     (case patch of
        None \<Rightarrow> st
      | Some p \<Rightarrow> st\<lparr>st_pass := apply_pass_patch (sp_pass p) (st_pass st),
          st_observed_generation := (case sp_observed_generation p of Some g \<Rightarrow> g | None \<Rightarrow> st_observed_generation st),
          st_conditions := (case sp_conditions p of Some c \<Rightarrow> c | None \<Rightarrow> st_conditions st),
          st_generation_lag_since := (case sp_lag_since p of Some l \<Rightarrow> l | None \<Rightarrow> st_generation_lag_since st)\<rparr>)"

lemma changed_apply [simp]: "(case changed old new of Some x \<Rightarrow> x | None \<Rightarrow> old) = new"
  by (simp add: changed_def)

lemma changed_None [simp]: "changed old new = None \<longleftrightarrow> old = new"
  by (auto simp: changed_def)

text \<open>The projected pass keeps everything a field patch does not write.\<close>

definition same_but_queue :: "pass_phase \<Rightarrow> pass_phase \<Rightarrow> bool" where
  "same_but_queue p q \<longleftrightarrow>
     (case (p, q) of
        (pass_phase.Settled _, pass_phase.Settled _) \<Rightarrow> True
      | (pass_phase.Pending _ s, pass_phase.Pending _ s') \<Rightarrow> s = s'
      | (pass_phase.Planning _ s h _, pass_phase.Planning _ s' h' _) \<Rightarrow> s = s' \<and> h = h'
      | (pass_phase.Applying _ s h _, pass_phase.Applying _ s' h' _) \<Rightarrow> s = s' \<and> h = h'
      | (pass_phase.Failed _ r, pass_phase.Failed _ r') \<Rightarrow> r = r'
      | (pass_phase.Stalled _ s k r, pass_phase.Stalled _ s' k' r') \<Rightarrow> s = s' \<and> k = k' \<and> r = r'
      | _ \<Rightarrow> False)"

lemma same_but_queue_trans: "same_but_queue p q \<Longrightarrow> same_but_queue q r \<Longrightarrow> same_but_queue p r"
  by (cases p; cases q; cases r) (simp_all add: same_but_queue_def)

lemma kind_same_named: "kind (named_stall rfc me st p now d) = kind p \<Longrightarrow> named_stall rfc me st p now d = p"
  by (cases p) (auto simp: named_stall_def active_parts_def Let_def split: if_splits option.splits)

lemma kind_same_observe: "kind (observe live now p) = kind p \<Longrightarrow> same_but_queue p (observe live now p)"
  by (cases p) (auto simp: observe_def same_but_queue_def split: if_splits)

lemma kind_same_watchdog: "kind (watchdog rfc now d p) = kind p \<Longrightarrow> watchdog rfc now d p = p"
  by (cases p) (auto simp: watchdog_def watchdog_active_def Let_def split: if_splits option.splits)

lemma stalled_final:
  "kind p = pass_kind.Stalled \<Longrightarrow> kind (watchdog rfc now d (observe live now p)) = pass_kind.Stalled"
  by (cases p) (auto simp: watchdog_def observe_def)

lemma kind_changes:
  "kind (named_stall rfc me st p now d) \<in> {kind p, pass_kind.Stalled}"
  "kind (observe live now p) = kind p \<or> (kind p \<in> {pass_kind.Settled, pass_kind.Failed} \<and> kind (observe live now p) = pass_kind.Pending)"
  "kind (watchdog rfc now d p) \<in> {kind p, pass_kind.Stalled}"
  by (cases p; auto simp: named_stall_def active_parts_def observe_def watchdog_def watchdog_active_def Let_def
      split: if_splits option.splits)+

lemma projected_same_but_queue:
  assumes "kind (watchdog rfc now d (observe live now (named_stall rfc me st p now d))) = kind p"
  shows "same_but_queue p (watchdog rfc now d (observe live now (named_stall rfc me st p now d)))"
proof -
  let ?q = "named_stall rfc me st p now d"
  have "kind ?q = kind p"
    using assms kind_changes(1) [of rfc me st p now d] stalled_final [of ?q rfc now d live] by auto
  then have q: "?q = p" by (rule kind_same_named)
  have "kind (observe live now p) = kind p"
    using assms kind_changes(2) [of live now p] kind_changes(3) [of rfc now d "observe live now p"] unfolding q by auto
  with kind_same_observe [OF this] kind_same_watchdog [of rfc now d "observe live now p"] assms show ?thesis
    unfolding q by simp
qed

lemma from_status_fields:
  assumes "same_but_queue (from_status s now) p" and "ps_kind s = kind p"
  shows "from_status (s\<lparr>ps_generation := generation p,
    ps_queued_generation := ps_queued_generation (to_status me p), ps_queued_since := ps_queued_since (to_status me p)\<rparr>) now = p"
  using assms
  by (cases p; cases "ps_kind s")
    (auto simp: from_status_def to_status_def same_but_queue_def Let_def split: option.splits)

lemma apply_projection_patch:
  "apply_patch (projection_patch me st pr) st =
     apply_patch (Some \<lparr>sp_pass = pass_patch_of (st_pass st) (to_status me (pr_pass pr)),
       sp_observed_generation = changed (st_observed_generation st) (pr_observed_generation pr),
       sp_conditions = (if conditions_differ (st_conditions st) (pr_conditions pr) then Some (pr_conditions pr) else None),
       sp_lag_since = changed (st_generation_lag_since st) (pr_lag_since pr)\<rparr>) st"
  unfolding projection_patch_def Let_def by (simp add: apply_patch_def apply_pass_patch_def)

lemma patch_carries:
  fixes rfc me st live now d
  defines "pr \<equiv> project_status rfc me st live now d"
  defines "st' \<equiv> apply_patch (projection_patch me st pr) st"
  shows "stored_pass st' now = pr_pass pr \<and> st_observed_generation st' = pr_observed_generation pr
    \<and> st_generation_lag_since st' = pr_lag_since pr \<and> \<not> conditions_differ (st_conditions st') (pr_conditions pr)"
proof -
  let ?new = "to_status me (pr_pass pr)"
  let ?patch = "\<lparr>sp_pass = pass_patch_of (st_pass st) ?new,
     sp_observed_generation = changed (st_observed_generation st) (pr_observed_generation pr),
     sp_conditions = (if conditions_differ (st_conditions st) (pr_conditions pr) then Some (pr_conditions pr) else None),
     sp_lag_since = changed (st_generation_lag_since st) (pr_lag_since pr)\<rparr>"
  have st': "st' = apply_patch (Some ?patch) st"
    unfolding st'_def by (rule apply_projection_patch)
  have pass: "pr_pass pr = watchdog rfc now d (observe live now (named_stall rfc me st (stored_pass st now) now d))"
    by (simp add: pr_def project_status_def Let_def)
  have "stored_pass st' now = pr_pass pr"
  proof (cases "st_pass st")
    case None
    then show ?thesis
      using pass_status_decode [of me "pr_pass pr" now]
      by (simp add: st' apply_patch_def apply_pass_patch_def pass_patch_of_def stored_pass_def)
  next
    case (Some s)
    show ?thesis
    proof (cases "ps_kind s = kind (pr_pass pr)")
      case False
      then have "ps_kind s \<noteq> ps_kind ?new" by (cases "pr_pass pr") (simp_all add: to_status_def)
      then show ?thesis using Some pass_status_decode [of me "pr_pass pr" now]
        by (simp add: st' apply_patch_def apply_pass_patch_def pass_patch_of_def stored_pass_def)
    next
      case True
      have stored: "stored_pass st now = from_status s now" using Some by (simp add: stored_pass_def)
      then have k: "kind (pr_pass pr) = kind (stored_pass st now)"
        using True by (cases "ps_kind s") (simp_all add: from_status_def Let_def)
      have "same_but_queue (from_status s now) (pr_pass pr)"
        using projected_same_but_queue [of rfc now d live me st "stored_pass st now"] k unfolding pass stored by simp
      note dec = from_status_fields [OF this True, of me]
      have kn: "ps_kind ?new = kind (pr_pass pr)" "ps_generation ?new = generation (pr_pass pr)"
        by (cases "pr_pass pr"; simp add: to_status_def)+
      have "apply_pass_patch (pass_patch_of (st_pass st) ?new) (st_pass st) =
          Some (s\<lparr>ps_generation := generation (pr_pass pr), ps_queued_generation := ps_queued_generation ?new,
            ps_queued_since := ps_queued_since ?new\<rparr>)"
        using True kn Some by (auto simp: pass_patch_of_def apply_pass_patch_def Let_def)
      then show ?thesis using dec by (simp add: st' apply_patch_def stored_pass_def)
    qed
  qed
  then show ?thesis by (simp add: st' apply_patch_def conditions_differ_def)
qed

text \<open>C33: The patch carries exactly the projection. Merged into the stored status, it leaves a
  status whose pass decodes to the projected pass, with the projected observed generation and
  lag clock and the projected conditions up to order and timestamps; and no patch is sent only
  when the stored status already says all of that.\<close>

theorem projection_patch_faithful:
  fixes rfc me st live now d
  defines "pr \<equiv> project_status rfc me st live now d"
  defines "st' \<equiv> apply_patch (projection_patch me st pr) st"
  shows "stored_pass st' now = pr_pass pr \<and> st_observed_generation st' = pr_observed_generation pr
    \<and> st_generation_lag_since st' = pr_lag_since pr \<and> \<not> conditions_differ (st_conditions st') (pr_conditions pr)"
  unfolding pr_def st'_def by (rule patch_carries)

section \<open>No silent wedge\<close>

definition within :: "duration \<Rightarrow> time \<Rightarrow> time \<Rightarrow> bool" where
  "within limit now since \<longleftrightarrow> now - since \<le> limit"

text \<open>The promise of a projected pass: what still counts as running or waiting is within every
  deadline, and what does not is reported as stalled.\<close>

definition on_time :: "time \<Rightarrow> deadlines \<Rightarrow> pass_phase \<Rightarrow> bool" where
  "on_time now d p =
     (case p of
        pass_phase.Planning _ started heartbeat q \<Rightarrow> within (d_heartbeat d) now heartbeat \<and> within (d_backstop d) now started
          \<and> pred_option (\<lambda>q. within (d_pending_start d) now (q_since q)) q
      | pass_phase.Applying _ started heartbeat q \<Rightarrow> within (d_heartbeat d) now heartbeat \<and> within (d_backstop d) now started
          \<and> pred_option (\<lambda>q. within (d_pending_start d) now (q_since q)) q
      | pass_phase.Pending _ since \<Rightarrow> within (d_pending_start d) now since
      | _ \<Rightarrow> True)"

lemma watchdog_on_time: "on_time now d (watchdog rfc now d p)"
  by (cases p) (auto simp: watchdog_def watchdog_active_def on_time_def within_def Let_def split: option.splits)

lemma watchdog_fires: "\<not> on_time now d p \<longleftrightarrow> kind (watchdog rfc now d p) \<noteq> kind p"
  by (cases p) (auto simp: watchdog_def watchdog_active_def on_time_def within_def Let_def split: option.splits)

lemma watchdog_id: "on_time now d p \<Longrightarrow> watchdog rfc now d p = p"
  using watchdog_fires kind_same_watchdog by blast

definition owned :: "string \<Rightarrow> template_status \<Rightarrow> bool" where
  "owned me st \<longleftrightarrow> Option.bind (st_pass st) ps_incarnation = Some me"

lemma named_stall_id_iff:
  "named_stall rfc me st p now d = p \<longleftrightarrow>
     (case active_parts p of
        None \<Rightarrow> True
      | Some (g, heartbeat) \<Rightarrow> (owned me st \<or> within (d_orphan_grace d) now heartbeat)
          \<and> pred_option (\<lambda>pg. lp_finished_at pg \<noteq> None \<or> within (d_no_progress d) now (lp_last_progress_at pg)) (st_progress st))"
  by (cases p)
    (auto simp: named_stall_def active_parts_def within_def owned_def Let_def split: option.splits if_splits)

lemma is_stalled_kind: "is_stalled p \<longleftrightarrow> kind p = pass_kind.Stalled"
  by (cases p) (simp_all add: is_stalled_def)

lemma active_parts_after:
  assumes "active_parts (watchdog rfc now d (observe live now q)) = Some x"
  shows "active_parts q = Some x"
  using assms
  by (cases q) (auto simp: watchdog_def watchdog_active_def observe_def active_parts_def Let_def
      split: option.splits if_splits)

lemma active_named: "active_parts (named_stall rfc me st p now d) = Some x \<Longrightarrow> named_stall rfc me st p now d = p"
  by (cases p) (auto simp: named_stall_def active_parts_def Let_def split: option.splits if_splits)


definition running_status :: template_status where
  "running_status = \<lparr>st_phase = Some phase.Planning, st_conditions = [], st_observed_generation = 1, st_acknowledged_generation = 2,
     st_pass = Some (to_status ''pod-1'' (pass_phase.Planning 2 0 0 None)), st_last_error = None, st_progress = None,
     st_generation_lag_since = None\<rparr>"


section \<open>A projection settles\<close>

lemma project_condition_again:
  "condition_key (project_condition rfc p observed live (restamped cs (project_condition rfc p observed live c)))
     = condition_key (project_condition rfc p observed live c)"
proof (cases "claims_good c")
  case True
  then have "c_type c \<noteq> ''Reconciling''" by (auto simp: claims_good_def)
  with True show ?thesis by (simp add: condition_key_def project_condition_def Let_def claims_good_def)
next
  case False
  then show ?thesis by (simp add: condition_key_def project_condition_def Let_def claims_good_def)
qed

lemma observe_again: "\<not> is_stalled p \<or> live \<le> generation p \<Longrightarrow> p = observe live now q \<Longrightarrow> observe live now p = p"
  by (cases q) (auto simp: observe_def drop_stale_queue_def enqueue_def is_stalled_def split: option.splits if_splits)

lemma observed_generation_again [simp]: "observed_generation p (observed_generation p n) = observed_generation p n"
  by (cases p) simp_all

lemma watchdog_observe_again:
  assumes "p = watchdog rfc now d (observe live now q)" and "\<not> is_stalled p \<or> live \<le> generation p"
  shows "watchdog rfc now d (observe live now p) = p"
proof (cases "is_stalled p")
  case True
  with assms(2) have "observe live now p = p" by (cases p) (auto simp: is_stalled_def observe_def)
  with True show ?thesis by (cases p) (auto simp: watchdog_def is_stalled_def)
next
  case False
  have "kind p = kind (observe live now q)"
    using assms(1) False kind_changes(3) [of rfc now d "observe live now q"] by (auto simp: is_stalled_kind)
  with assms(1) have "p = observe live now q" using kind_same_watchdog by metis
  with False have "observe live now p = p" by (intro observe_again) auto
  with watchdog_on_time [of now d rfc "observe live now q"] assms(1) show ?thesis by (simp add: watchdog_id)
qed

lemma filter_map_type:
  assumes "\<And>c. c_type (f c) = c_type c"
  shows "filter (\<lambda>c. c_type c \<noteq> y) (map f cs) = map f (filter (\<lambda>c. c_type c \<noteq> y) cs)"
  using assms by (induction cs) auto

definition rekey ::
    "(time \<Rightarrow> string) \<Rightarrow> pass_phase \<Rightarrow> int \<Rightarrow> int \<Rightarrow> string \<times> string \<times> string \<times> string \<times> (int option)
      \<Rightarrow> string \<times> string \<times> string \<times> string \<times> (int option)" where
  "rekey rfc p observed live k =
     (let (y, st, r, m, g) = k in
      condition_key (project_condition rfc p observed live
        \<lparr>c_type = y, c_status = st, c_last_transition_time = 0, c_reason = r, c_message = m, c_observed_generation = g\<rparr>))"

lemma key_project_condition:
  "condition_key (project_condition rfc p observed live c) = rekey rfc p observed live (condition_key c)"
proof (cases c)
  case (fields y st x r m g)
  show ?thesis
    by (simp add: fields rekey_def condition_key_def project_condition_def Let_def claims_good_def) blast
qed

lemma rekey_again [simp]: "rekey rfc p observed live (rekey rfc p observed live k) = rekey rfc p observed live k"
proof -
  obtain y st r m g where k: "k = (y, st, r, m, g)" by (cases k) auto
  let ?c = "\<lparr>c_type = y, c_status = st, c_last_transition_time = 0, c_reason = r, c_message = m, c_observed_generation = g\<rparr>"
  have "k = condition_key ?c" by (simp add: k condition_key_def)
  then show ?thesis
    using project_condition_again [of rfc p observed live "[]" ?c]
    by (simp only: key_project_condition [symmetric]) (simp add: restamped_def)
qed

lemma rekey_type [simp]: "fst (rekey rfc p observed live k) = fst k"
  by (cases k) (simp add: rekey_def condition_key_def)

definition stalled_key :: "pass_phase \<Rightarrow> int \<Rightarrow> string \<times> string \<times> string \<times> string \<times> (int option)" where
  "stalled_key p live =
     (''Stalled'', (if is_stalled p then ''True'' else ''False''), (if is_stalled p then ''Stalled'' else ''NotStalled''),
      (case p of pass_phase.Stalled _ _ _ r \<Rightarrow> r | _ \<Rightarrow> ''pass is making progress or idle''), Some live)"

lemma fst_condition_key [simp]: "fst (condition_key c) = c_type c"
  by (simp add: condition_key_def)

lemma project_keys:
  "map condition_key (project rfc cs p observed live now) =
     map (rekey rfc p observed live) (filter (\<lambda>k. fst k \<noteq> ''Stalled'') (map condition_key cs)) @ [stalled_key p live]"
proof -
  have "map condition_key (project rfc cs p observed live now) =
     map (\<lambda>c. condition_key (project_condition rfc p observed live c)) (filter (\<lambda>c. c_type c \<noteq> ''Stalled'') cs)
     @ [stalled_key p live]"
    by (cases p) (simp_all add: project_def is_stalled_def stalled_key_def filter_map_type comp_def condition_key_def Let_def)
  then show ?thesis by (simp add: key_project_condition filter_map comp_def)
qed

lemma project_mset_keys:
  "mset (map condition_key (project rfc cs p observed live now)) =
     image_mset (rekey rfc p observed live) (filter_mset (\<lambda>k. fst k \<noteq> ''Stalled'') (mset (map condition_key cs)))
     + {#stalled_key p live#}"
  unfolding project_keys by (simp add: mset_filter)

lemma project_mset_keys_again:
  assumes "mset (map condition_key cs') = mset (map condition_key (project rfc cs p observed live now))"
  shows "mset (map condition_key (project rfc cs' p observed live now')) = mset (map condition_key cs')"
proof -
  have "fst (stalled_key p live) = ''Stalled''" by (simp add: stalled_key_def)
  then show ?thesis
    unfolding project_mset_keys assms
    by (simp add: filter_mset_image_mset comp_def image_mset.compositionality filter_filter_mset)
qed

lemma merge_keys: "map condition_key (merge_condition_transitions prev cs) = map condition_key cs"
  by (simp add: merge_eq condition_key_def)

lemma stalled_below_live:
  assumes "is_stalled (watchdog rfc now d (observe live now q))"
  shows "live \<le> generation (watchdog rfc now d (observe live now q))
    \<or> (\<exists>g since reason. watchdog rfc now d (observe live now q) = pass_phase.Stalled g since Unnamed reason)"
  using assms
  by (cases q) (auto simp: watchdog_def watchdog_active_def observe_def drop_stale_queue_def enqueue_def is_stalled_def Let_def
      split: option.splits if_splits)

lemma to_status_fields [simp]: "ps_kind (to_status me p) = kind p" "ps_generation (to_status me p) = generation p"
  by (cases p; simp add: to_status_def)+

lemma pass_patch_again:
  "pass_patch_of (apply_pass_patch (pass_patch_of stored (to_status me p)) stored) (to_status me p) = None"
  by (auto simp: pass_patch_of_def apply_pass_patch_def changed_def Let_def split: option.splits)

lemma incarnation_after:
  "Option.bind (apply_pass_patch (pass_patch_of stored (to_status me p)) stored) ps_incarnation
     \<in> {Option.bind stored ps_incarnation, Some me}"
proof -
  have "ps_incarnation (to_status me p) = Some me" by (cases p) (simp_all add: to_status_def)
  then show ?thesis by (auto simp: pass_patch_of_def apply_pass_patch_def Let_def split: option.splits)
qed

lemma named_stall_again:
  assumes "active_parts p \<noteq> None \<Longrightarrow> named_stall rfc me st p now d = p"
    and "st_progress st' = st_progress st" and "owned me st \<Longrightarrow> owned me st'"
  shows "named_stall rfc me st' p now d = p"
  using assms unfolding named_stall_id_iff by (auto split: option.splits)

text \<open>A projection settles. Merging the patch of a projection and projecting again at the
  same time, for the same live generation, has nothing left to send, so a reconcile that changes
  nothing does not keep writing the status. The one exception is a pass stopped by the backstop
  while a newer generation was queued behind it: it is recorded as stalled for the generation that
  ran, and only the next projection moves it to the live one.\<close>

lemma projection_settles:
  fixes rfc me st live now d
  defines "pr \<equiv> project_status rfc me st live now d"
  defines "st' \<equiv> apply_patch (projection_patch me st pr) st"
  shows "projection_patch me st' (project_status rfc me st' live now d) = None
    \<or> (\<exists>g since reason. pr_pass pr = pass_phase.Stalled g since Unnamed reason \<and> g < live)"
proof (cases "\<not> is_stalled (pr_pass pr) \<or> live \<le> generation (pr_pass pr)")
  case False
  then show ?thesis
    using stalled_below_live [of rfc now d live "named_stall rfc me st (stored_pass st now) now d"]
    by (auto simp: pr_def project_status_def Let_def)
next
  case True
  let ?p = "pr_pass pr" and ?q = "named_stall rfc me st (stored_pass st now) now d"
  have p: "?p = watchdog rfc now d (observe live now ?q)" by (simp add: pr_def project_status_def Let_def)
  note carried = patch_carries [of me st rfc live now d, folded pr_def, folded st'_def]
  have st'_eq: "st' = apply_patch (Some \<lparr>sp_pass = pass_patch_of (st_pass st) (to_status me ?p),
       sp_observed_generation = changed (st_observed_generation st) (pr_observed_generation pr),
       sp_conditions = (if conditions_differ (st_conditions st) (pr_conditions pr) then Some (pr_conditions pr) else None),
       sp_lag_since = changed (st_generation_lag_since st) (pr_lag_since pr)\<rparr>) st"
    unfolding st'_def by (rule apply_projection_patch)
  have "named_stall rfc me st' ?p now d = ?p"
  proof (rule named_stall_again)
    show "named_stall rfc me st ?p now d = ?p" if "active_parts ?p \<noteq> None"
    proof -
      from that obtain x where x: "active_parts ?p = Some x" by blast
      then have "active_parts ?q = Some x" "?q = stored_pass st now"
        using active_parts_after active_named unfolding p by blast+
      then show ?thesis using x named_stall_id_iff [of rfc me st ?q now d] named_stall_id_iff [of rfc me st ?p now d] by simp
    qed
    show "st_progress st' = st_progress st" by (simp add: st'_eq apply_patch_def)
    show "owned me st'" if "owned me st"
      using that incarnation_after [of "st_pass st" me ?p] by (auto simp: owned_def st'_eq apply_patch_def)
  qed
  then have p2: "pr_pass (project_status rfc me st' live now d) = ?p"
    using carried watchdog_observe_again [OF p True] by (simp add: project_status_def Let_def)
  moreover have o2: "pr_observed_generation (project_status rfc me st' live now d) = pr_observed_generation pr"
    using p2 carried by (simp add: project_status_def Let_def pr_def)
  moreover have "pr_lag_since (project_status rfc me st' live now d) = st_generation_lag_since st'"
    using p2 carried by (simp add: project_status_def Let_def pr_def)
  moreover have "\<not> conditions_differ (st_conditions st') (pr_conditions (project_status rfc me st' live now d))"
  proof -
    have "mset (map condition_key (st_conditions st'))
        = mset (map condition_key (project rfc (st_conditions st) ?p (pr_observed_generation pr) live now))"
      using carried unfolding conditions_differ_def by (simp only: pr_def project_status_def Let_def merge_keys status_projection.simps simp_thms)
    from project_mset_keys_again [OF this, of now] p2 o2 show ?thesis
      unfolding conditions_differ_def project_status_def Let_def status_projection.simps merge_keys by simp
  qed
  moreover have "pass_patch_of (st_pass st') (to_status me ?p) = None"
    using pass_patch_again [of "st_pass st" me ?p] by (simp add: st'_eq apply_patch_def)
  ultimately show ?thesis using carried by (simp add: projection_patch_def Let_def)
qed

end
