(* ===== verification/Reconciler.thy ===== *)
theory Reconciler
  imports Pass
begin

text \<open>
  Requeue cadence, durations, backoff and the conditions of a phase
  (\<open>pangea-operator/src/controller/reconciler.rs\<close>, \<open>tiered_backoff\<close> of
  \<open>controller/error_policy.rs\<close>, \<open>source_fresh_state\<close> of \<open>controller/template/status.rs\<close>).

  A \<open>std::time::Duration\<close> is its number of milliseconds, the finest unit these functions make.
  \<open>parse_duration\<close> multiplies at the width of \<open>u64\<close> and wraps, as the release profile does
  (it sets no overflow checks); a slice off a character boundary panics, the outcome \<open>Panic\<close>.
\<close>

section \<open>Requeue cadence\<close>

type_synonym std_duration = nat

definition from_secs :: "u64 \<Rightarrow> std_duration" where
  "from_secs n = unat n * 1000"

definition from_millis :: "u64 \<Rightarrow> std_duration" where
  "from_millis n = unat n"

definition DEFAULT_REQUEUE_INTERVAL :: std_duration where
  "DEFAULT_REQUEUE_INTERVAL = from_secs 300"

definition SHORT_REQUEUE_INTERVAL :: std_duration where
  "SHORT_REQUEUE_INTERVAL = from_secs 30"

definition ERROR_REQUEUE_INTERVAL :: std_duration where
  "ERROR_REQUEUE_INTERVAL = from_secs 60"

datatype requeue_outcome = Progressing | TransientError | Steady

definition from_retryable :: "bool \<Rightarrow> requeue_outcome" where
  "from_retryable retryable = (if retryable then TransientError else Steady)"

record requeue_cooldowns =
  rc_progressing :: std_duration
  rc_transient_error :: std_duration
  rc_steady :: std_duration

definition default_cooldowns :: requeue_cooldowns where
  "default_cooldowns = \<lparr>rc_progressing = SHORT_REQUEUE_INTERVAL, rc_transient_error = ERROR_REQUEUE_INTERVAL,
     rc_steady = DEFAULT_REQUEUE_INTERVAL\<rparr>"

definition well_ordered :: "requeue_cooldowns \<Rightarrow> bool" where
  "well_ordered c \<longleftrightarrow> rc_progressing c \<le> rc_transient_error c \<and> rc_transient_error c \<le> rc_steady c"

fun next_requeue :: "requeue_outcome \<Rightarrow> requeue_cooldowns \<Rightarrow> std_duration" where
  "next_requeue Progressing c = rc_progressing c"
| "next_requeue TransientError c = rc_transient_error c"
| "next_requeue Steady c = rc_steady c"

definition NON_RETRYABLE_BACKOFF :: std_duration where
  "NON_RETRYABLE_BACKOFF = from_secs 300"

definition tiered_backoff :: "bool \<Rightarrow> std_duration" where
  "tiered_backoff retryable = next_requeue (from_retryable retryable) default_cooldowns"

definition DEFAULT_RECONCILE_WORKERS :: nat where
  "DEFAULT_RECONCILE_WORKERS = 16"

definition clamp_reconcile_workers :: "nat option \<Rightarrow> nat" where
  "clamp_reconcile_workers raw = min 32 (max 1 (case raw of Some n \<Rightarrow> n | None \<Rightarrow> DEFAULT_RECONCILE_WORKERS))"

text \<open>\<open>str::parse\<close> for an unsigned integer of 64 bits: an optional plus sign and digits.\<close>

definition parse_u64 :: "string \<Rightarrow> u64 option" where
  "parse_u64 s =
     (case parse_digits (case s of c # cs \<Rightarrow> if c = CHR ''+'' then cs else s | [] \<Rightarrow> s) of
        Some n \<Rightarrow> if n < 2 ^ 64 then Some (word_of_int n) else None
      | None \<Rightarrow> None)"

definition reconcile_workers_from_env :: "(string \<Rightarrow> string option) \<Rightarrow> nat" where
  "reconcile_workers_from_env env =
     clamp_reconcile_workers (Option.bind (env ''PANGEA_RECONCILE_WORKERS'') (\<lambda>s. map_option unat (parse_u64 s)))"

datatype reconcile_action = Requeue std_duration | Done

definition default_action :: reconcile_action where
  "default_action = Requeue DEFAULT_REQUEUE_INTERVAL"

section \<open>Durations and backoff\<close>

datatype 'a outcome = Panic | Returns 'a

definition strip_suffix :: "string \<Rightarrow> string \<Rightarrow> string option" where
  "strip_suffix s p = (if length p \<le> length s \<and> drop (length s - length p) s = p then Some (take (length s - length p) s) else None)"

definition unit_duration :: "string \<Rightarrow> u64 \<Rightarrow> std_duration option" where
  "unit_duration unit num =
     (if unit = ''ms'' then Some (from_millis num)
      else if unit = ''s'' then Some (from_secs num)
      else if unit = ''m'' then Some (from_secs (num * 60))
      else if unit = ''h'' then Some (from_secs (num * 3600))
      else if unit = ''d'' then Some (from_secs (num * 86400))
      else None)"

definition split_unit :: "string \<Rightarrow> (string \<times> string) outcome" where
  "split_unit s =
     (case strip_suffix s ''ms'' of
        Some stripped \<Rightarrow> Returns (stripped, ''ms'')
      | None \<Rightarrow>
          if is_ascii_digit (last s) then Returns (s, ''s'')
          else if is_char_boundary s (length s - 1) then Returns (take (length s - 1) s, drop (length s - 1) s)
          else Panic)"

definition parse_duration :: "string \<Rightarrow> std_duration option outcome" where
  "parse_duration text =
     (let s = str_trim text in
      if s = [] then Returns None
      else (case split_unit s of
              Panic \<Rightarrow> Panic
            | Returns (num_str, unit) \<Rightarrow>
                Returns (Option.bind (parse_u64 num_str) (unit_duration unit))))"

definition pow2_sat :: "u32 \<Rightarrow> u32" where
  "pow2_sat attempt = (if unat attempt < 32 then 2 ^ unat attempt else - 1)"

definition exponential_backoff :: "u32 \<Rightarrow> u32 \<Rightarrow> u32 \<Rightarrow> std_duration" where
  "exponential_backoff attempt base_secs max_secs =
     (let backoff = sat_mul base_secs (pow2_sat attempt) in from_secs (ucast (min backoff max_secs)))"

section \<open>Phases and conditions\<close>

fun next_phase :: "phase \<Rightarrow> bool \<Rightarrow> phase" where
  "next_phase current success =
     (if \<not> success then phase.Failed
      else (case current of
          phase.Pending \<Rightarrow> phase.Verifying | phase.Verifying \<Rightarrow> phase.Verified | phase.Verified \<Rightarrow> phase.Compiling
        | phase.Compiling \<Rightarrow> phase.Initializing | phase.Initializing \<Rightarrow> phase.Planning | phase.Planning \<Rightarrow> phase.Applying
        | phase.Applying \<Rightarrow> phase.Ready | phase.Ready \<Rightarrow> phase.Ready | phase.Drifted \<Rightarrow> phase.Planning
        | phase.Failed \<Rightarrow> phase.Pending | phase.CompileBlocked \<Rightarrow> phase.Compiling | phase.Destroying \<Rightarrow> phase.Pending))"

definition create_condition :: "string \<Rightarrow> bool \<Rightarrow> string \<Rightarrow> string \<Rightarrow> time \<Rightarrow> condition" where
  "create_condition condition_type status reason message now =
     \<lparr>c_type = condition_type, c_status = (if status then ''True'' else ''False''), c_last_transition_time = now,
      c_reason = reason, c_message = message, c_observed_generation = None\<rparr>"

datatype source_fresh_state = Fresh | Behind | Unverified | NotApplicable

definition permits_ready :: "source_fresh_state \<Rightarrow> bool" where
  "permits_ready s \<longleftrightarrow> s = Fresh \<or> s = NotApplicable"

text \<open>The fields of the template that \<open>source_fresh_state\<close> reads: whether the source is a git
  repository, and the observed and the compiled revision of the status, if there is one.\<close>

definition source_fresh_state_of :: "bool \<Rightarrow> (string option \<times> string option) option \<Rightarrow> source_fresh_state" where
  "source_fresh_state_of git status =
     (if \<not> git then NotApplicable
      else let observed = Option.bind status fst; compiled = Option.bind status snd
           in (case observed of
                 None \<Rightarrow> Unverified
               | Some o' \<Rightarrow> if compiled = Some o' then Fresh else Behind))"

definition phase_flags :: "phase \<Rightarrow> source_fresh_state \<Rightarrow> bool \<times> bool \<times> bool" where
  "phase_flags ph fresh =
     (case ph of
        phase.Pending \<Rightarrow> (False, False, False) | phase.Verifying \<Rightarrow> (False, True, False)
      | phase.Verified \<Rightarrow> (False, True, False) | phase.Compiling \<Rightarrow> (False, True, False)
      | phase.Initializing \<Rightarrow> (False, True, False) | phase.Planning \<Rightarrow> (False, True, False)
      | phase.Applying \<Rightarrow> (False, True, False) | phase.Ready \<Rightarrow> (permits_ready fresh, False, False)
      | phase.Drifted \<Rightarrow> (False, False, True) | phase.Failed \<Rightarrow> (False, False, False)
      | phase.CompileBlocked \<Rightarrow> (False, True, False) | phase.Destroying \<Rightarrow> (False, False, False))"

text \<open>An em dash is its three bytes in UTF-8.\<close>

definition em_dash :: string where
  "em_dash = map char_of [226 :: nat, 128, 148]"

definition phase_message :: "phase \<Rightarrow> string option \<Rightarrow> source_fresh_state \<Rightarrow> string" where
  "phase_message ph error_msg fresh =
     (case error_msg of
        Some msg \<Rightarrow> msg
      | None \<Rightarrow>
          (case ph of
             phase.Ready \<Rightarrow>
               if \<not> permits_ready fresh then
                 (if fresh = Behind then ''Source HEAD has advanced past the applied revision '' @ em_dash @ '' recompiling''
                  else ''Source HEAD not yet verified '' @ em_dash @ '' observing the git edge'')
               else ''Infrastructure is up to date''
           | phase.Drifted \<Rightarrow> ''Infrastructure drift detected''
           | phase.Failed \<Rightarrow> ''Operation failed''
           | phase.CompileBlocked \<Rightarrow> ''Source HEAD does not compile '' @ em_dash
               @ '' retrying on backoff; resumes automatically when a compiling commit lands''
           | phase.Pending \<Rightarrow> ''Waiting to be processed''
           | phase.Destroying \<Rightarrow> ''Infrastructure is being destroyed''
           | _ \<Rightarrow> show_phase ph @ '' in progress''))"

definition apostrophe :: string where
  "apostrophe = [char_of (39 :: nat)]"

fun source_fresh_text :: "source_fresh_state \<Rightarrow> bool \<times> string \<times> string" where
  "source_fresh_text Fresh = (True, ''AtHead'', ''Compiled revision is at the source'' @ apostrophe @ ''s git HEAD'')"
| "source_fresh_text NotApplicable = (True, ''NoGitSource'', ''Non-git source; no git edge to track'')"
| "source_fresh_text Behind = (False, ''BehindHead'', ''Compiled revision is behind the source'' @ apostrophe @ ''s git HEAD'')"
| "source_fresh_text Unverified = (False, ''Unverified'', ''Source git HEAD not yet observed'')"

definition conditions_for_phase :: "phase \<Rightarrow> string option \<Rightarrow> source_fresh_state \<Rightarrow> time \<Rightarrow> condition list" where
  "conditions_for_phase ph error_msg fresh now =
     (let (ready, reconciling, drift) = phase_flags ph fresh;
          reason = show_phase ph;
          message = phase_message ph error_msg fresh;
          (sf_ok, sf_reason, sf_msg) = source_fresh_text fresh
      in [create_condition ''Ready'' ready reason message now,
          create_condition ''Reconciling'' reconciling reason message now,
          create_condition ''DriftDetected'' drift reason message now,
          create_condition ''SourceFresh'' sf_ok sf_reason sf_msg now])"

definition conditions_for_suspended :: "time \<Rightarrow> condition list" where
  "conditions_for_suspended now =
     map (\<lambda>ty. create_condition ty False ''Suspended'' ''Template reconciliation is suspended'' now)
       [''Ready'', ''Reconciling'', ''DriftDetected'']"

section \<open>What the durations are\<close>

lemma digit_value: "d < 10 \<Longrightarrow> of_char (char_of (48 + d) :: char) - 48 = int d"
proof -
  assume "d < 10"
  have "of_char (char_of (48 + d) :: char) = int (of_char (char_of (48 + d) :: char))" by (simp only: of_nat_of_char)
  also have "\<dots> = 48 + int d" using \<open>d < 10\<close> by simp
  finally show ?thesis by simp
qed

lemma foldl_show_nat: "foldl (\<lambda>n c. n * 10 + (of_char c - 48)) 0 (show_nat n) = int n"
proof (induction n rule: show_nat.induct)
  case (1 n)
  show ?case
  proof (cases "n < 10")
    case True
    then show ?thesis using digit_value [of n] by (simp add: show_nat.simps [of n])
  next
    case False
    have "int (n div 10) * 10 + int (n mod 10) = int n" by presburger
    with 1 [OF False] digit_value [of "n mod 10"] False show ?thesis by (simp add: show_nat.simps [of n])
  qed
qed

lemma parse_show_nat: "parse_digits (show_nat n) = Some (int n)"
  using show_nat_digits [of n] by (simp only: parse_digits_def foldl_show_nat show_nat_not_Nil) simp

lemma parse_u64_show:
  assumes "n < 2 ^ 64"
  shows "parse_u64 (show_nat n) = Some (of_nat n)"
proof -
  obtain c cs where c: "show_nat n = c # cs" by (cases "show_nat n") simp_all
  with show_nat_hd_last(1) [of n] have "c \<noteq> CHR ''+''" by (auto simp: is_ascii_digit_def)
  with c assms show ?thesis using parse_show_nat [of n] by (simp add: parse_u64_def)
qed

lemma trim_id:
  assumes "s \<noteq> []" and "\<not> is_space (hd s)" and "\<not> is_space (last s)"
  shows "str_trim s = s"
proof -
  have "dropWhile is_space s = s" using assms(1,2) by (cases s) simp_all
  moreover have "dropWhile is_space (rev s) = rev s" using assms(1,3) by (cases s rule: rev_cases) simp_all
  ultimately show ?thesis by (simp add: str_trim_def trim_matches_def)
qed

lemma digit_not_space: "is_ascii_digit c \<Longrightarrow> \<not> is_space c"
  by (auto simp: is_ascii_digit_def is_space_def)

definition seconds_per :: "(string \<times> nat) list" where
  "seconds_per = [([], 1), (''s'', 1), (''m'', 60), (''h'', 3600), (''d'', 86400)]"

lemma split_unit_plain:
  assumes "is_ascii_digit (last s)" and "s \<noteq> []"
  shows "split_unit s = Returns (s, ''s'')"
proof -
  have "last s \<noteq> CHR ''s''" using assms(1) by (auto simp: is_ascii_digit_def)
  then have "strip_suffix s ''ms'' = None"
    by (cases s rule: rev_cases) (auto simp: strip_suffix_def)
  with assms show ?thesis by (simp add: split_unit_def)
qed

lemma split_unit_letter:
  assumes "is_ascii_digit (last w)" and "w \<noteq> []" and "c \<in> {CHR ''s'', CHR ''m'', CHR ''h'', CHR ''d''}"
  shows "split_unit (w @ [c]) = Returns (w, [c])"
proof -
  obtain v d where w: "w = v @ [d]" "is_ascii_digit d" using assms(1,2) by (cases w rule: rev_cases) simp_all
  then have "d \<noteq> CHR ''m''" by (auto simp: is_ascii_digit_def)
  then have "strip_suffix (w @ [c]) ''ms'' = None" by (simp add: strip_suffix_def w)
  then show ?thesis using assms(3) by (auto simp: split_unit_def is_ascii_digit_def is_char_boundary_def is_continuation_def)
qed

lemma split_unit_ms: "split_unit (w @ ''ms'') = Returns (w, ''ms'')"
  by (simp add: split_unit_def strip_suffix_def)

lemma split_unit_panics:
  assumes "s \<noteq> []"
  shows "split_unit s = Panic \<longleftrightarrow> 1 < length s \<and> is_continuation (last s)"
proof -
  obtain v c where s: "s = v @ [c]" using assms by (cases s rule: rev_cases) simp_all
  have "\<not> is_continuation CHR ''s''" by (simp add: is_continuation_def)
  moreover have "is_ascii_digit c \<Longrightarrow> \<not> is_continuation c" by (auto simp: is_ascii_digit_def is_continuation_def)
  moreover have "strip_suffix s ''ms'' \<noteq> None \<Longrightarrow> c = CHR ''s''"
    by (cases v rule: rev_cases) (auto simp: s strip_suffix_def split: if_splits)
  ultimately show ?thesis
    by (auto simp: split_unit_def s is_char_boundary_def split: option.splits)
qed

lemma parse_duration_trimmed:
  assumes "is_ascii_digit (hd s)" and "s \<noteq> []" and "\<not> is_space (last s)" and "split_unit s = Returns (show_nat n, u)" and "n < 2 ^ 64"
  shows "parse_duration s = Returns (unit_duration u (of_nat n))"
  using assms trim_id [of s] digit_not_space [of "hd s"] by (simp add: parse_duration_def parse_u64_show)

lemma parse_ms:
  assumes "n < 2 ^ 64"
  shows "parse_duration (show_nat n @ ''ms'') = Returns (Some n)"
proof -
  have "parse_duration (show_nat n @ ''ms'') = Returns (unit_duration ''ms'' (of_nat n))"
    by (rule parse_duration_trimmed [OF _ _ _ split_unit_ms assms])
      (use show_nat_hd_last(1) [of n] in \<open>simp_all add: hd_append is_space_def\<close>)
  moreover have "unat (of_nat n :: u64) = n" using assms by (simp add: unat_of_nat)
  ultimately show ?thesis by (simp add: unit_duration_def from_millis_def)
qed

lemma parse_plain:
  assumes "n < 2 ^ 64"
  shows "parse_duration (show_nat n) = Returns (unit_duration ''s'' (of_nat n))"
  by (rule parse_duration_trimmed [OF _ _ _ split_unit_plain [OF show_nat_hd_last(2) show_nat_not_Nil] assms])
    (use show_nat_hd_last [of n] digit_not_space in auto)

lemma parse_letter:
  assumes "n < 2 ^ 64" and "c \<in> {CHR ''s'', CHR ''m'', CHR ''h'', CHR ''d''}"
  shows "parse_duration (show_nat n @ [c]) = Returns (unit_duration [c] (of_nat n))"
  by (rule parse_duration_trimmed [OF _ _ _ split_unit_letter [OF show_nat_hd_last(2) show_nat_not_Nil assms(2)] assms(1)])
    (use show_nat_hd_last(1) [of n] assms(2) in \<open>auto simp: hd_append is_space_def\<close>)

lemma from_secs_mult: "from_secs (of_nat n * of_nat k) = n * k mod 2 ^ 64 * 1000"
proof -
  have "of_nat n * of_nat k = (of_nat (n * k) :: u64)" by simp
  then show ?thesis unfolding from_secs_def by (simp only: unat_of_nat) simp
qed

lemma unit_seconds:
  "unit_duration ''s'' (of_nat n) = Some (n * 1 mod 2 ^ 64 * 1000)"
  "unit_duration ''m'' (of_nat n) = Some (n * 60 mod 2 ^ 64 * 1000)"
  "unit_duration ''h'' (of_nat n) = Some (n * 3600 mod 2 ^ 64 * 1000)"
  "unit_duration ''d'' (of_nat n) = Some (n * 86400 mod 2 ^ 64 * 1000)"
  using from_secs_mult [of n 1] from_secs_mult [of n 60] from_secs_mult [of n 3600] from_secs_mult [of n 86400]
  by (simp_all only: unit_duration_def of_nat_1 of_nat_numeral mult_1_right) simp_all

lemma parse_seconds:
  assumes "n < 2 ^ 64" and "(u, k) \<in> set seconds_per"
  shows "parse_duration (show_nat n @ u) = Returns (Some (n * k mod 2 ^ 64 * 1000))"
proof -
  consider "u = []" "k = 1" | "u = ''s''" "k = 1" | "u = ''m''" "k = 60" | "u = ''h''" "k = 3600" | "u = ''d''" "k = 86400"
    using assms(2) by (auto simp: seconds_per_def)
  then show ?thesis
    by cases (simp_all only: append_Nil2 parse_plain [OF assms(1)] parse_letter [OF assms(1)] unit_seconds insertI1 insertI2)
qed

lemma parse_panics:
  "parse_duration text = Panic \<longleftrightarrow> 1 < length (str_trim text) \<and> is_continuation (last (str_trim text))"
  using split_unit_panics [of "str_trim text"]
  by (cases "str_trim text = []") (auto simp: parse_duration_def split: outcome.splits)

text \<open>A decimal number of less than 64 bits with a unit reads as that many milliseconds,
  seconds, minutes, hours or days, and without a unit as seconds; the product is taken modulo
  two to the 64, so only a text whose value does not fit in 64 bits of seconds reads short.
  Reading panics exactly when the trimmed text ends in the middle of a multi-byte character
  one byte before its end, that is when its last character is not ASCII.\<close>

lemma parse_duration_exact:
  "(\<forall>n < 2 ^ 64. parse_duration (show_nat n @ ''ms'') = Returns (Some n)
      \<and> (\<forall>(u, k) \<in> set seconds_per. parse_duration (show_nat n @ u) = Returns (Some (n * k mod 2 ^ 64 * 1000))))
   \<and> (parse_duration text = Panic \<longleftrightarrow> 1 < length (str_trim text) \<and> is_continuation (last (str_trim text)))"
  using parse_ms parse_seconds parse_panics by blast

section \<open>What the backoff is\<close>

lemma unat_pow2_sat: "unat (pow2_sat a) = min (2 ^ unat a) (2 ^ 32 - 1)"
proof (cases "unat a < 32")
  case True
  have "(2 :: nat) ^ unat a < 2 ^ 32" using True by (intro power_strict_increasing) simp_all
  moreover have "unat (2 ^ unat a :: u32) = 2 ^ unat a mod 2 ^ 32"
    using unat_of_nat [where x = "2 ^ unat a" and 'a = 32] by simp
  ultimately show ?thesis using True by (simp add: pow2_sat_def)
next
  case False
  then have "(2 :: nat) ^ 32 \<le> 2 ^ unat a" by (intro power_increasing) simp_all
  with False show ?thesis by (simp add: pow2_sat_def unat_minus_one_word min_def)
qed

lemma min_saturated:
  fixes b p m l :: nat
  assumes "l \<le> m"
  shows "min (min (b * min p m) m) l = min (b * p) l"
proof (cases "p \<le> m \<or> b = 0")
  case True
  with assms show ?thesis by (auto simp: min_def)
next
  case False
  then have "m \<le> b * m" "b * m \<le> b * p" "min p m = m" by auto
  then have "min (min (b * min p m) m) l = l" and "min (b * p) l = l" using assms by linarith+
  then show ?thesis by simp
qed

lemma unat_min: "unat (min a b) = min (unat a) (unat b)"
  by (simp add: min_def word_le_nat_alt)

lemma unat_ucast_up: "unat (ucast (x :: u32) :: u64) = unat x"
proof -
  have "unat x < 2 ^ 64" using unsigned_less [where 'a = nat and w = x] by simp
  then show ?thesis by (simp add: unsigned_ucast_eq take_bit_nat_eq_self)
qed

text \<open>The saturating arithmetic of the backoff loses nothing: for every attempt it is the base
  doubled that many times, in seconds, cut at the limit, so it never decreases with the attempt
  and never exceeds the limit, and two attempts with no cut are a factor of two apart.\<close>

lemma exponential_backoff_exact:
  "exponential_backoff attempt base_secs max_secs = min (unat base_secs * 2 ^ unat attempt) (unat max_secs) * 1000"
proof -
  have "unat max_secs \<le> 2 ^ 32 - 1" using unsigned_less [where 'a = nat and w = max_secs] by simp
  from min_saturated [OF this, of "unat base_secs" "2 ^ unat attempt"] show ?thesis
    by (simp only: exponential_backoff_def Let_def from_secs_def unat_ucast_up unat_min unat_sat_mul unat_pow2_sat) simp
qed

section \<open>Phases\<close>

text \<open>The edges \<open>next_phase\<close> proposes that the lifecycle table does not have.\<close>

lemma next_phase_off_table:
  "filter (\<lambda>p. \<not> edge_is_legal p (next_phase p True)) all_lifecycle
     = [phase.Pending, phase.Verifying, phase.Destroying]"
  by code_simp

text \<open>The cadence tiers are ordered, and the tiered backoff is the one it replaced.\<close>

lemma tiered_backoff_values:
  "well_ordered default_cooldowns
   \<and> tiered_backoff retryable = (if retryable then ERROR_REQUEUE_INTERVAL else NON_RETRYABLE_BACKOFF)"
  by (cases retryable)
    (simp_all add: well_ordered_def default_cooldowns_def tiered_backoff_def from_retryable_def SHORT_REQUEUE_INTERVAL_def
      ERROR_REQUEUE_INTERVAL_def DEFAULT_REQUEUE_INTERVAL_def NON_RETRYABLE_BACKOFF_def from_secs_def)

lemma conditions_for_phase_ready:
  assumes "c \<in> set (conditions_for_phase ph err fresh now)" and "c_type c = ''Ready''"
  shows "c_status c = ''True'' \<longleftrightarrow> ph = phase.Ready \<and> permits_ready fresh"
proof -
  have flag: "fst (phase_flags ph fresh) \<longleftrightarrow> ph = phase.Ready \<and> permits_ready fresh"
    by (cases ph) (simp_all add: phase_flags_def)
  obtain r k d where fl: "phase_flags ph fresh = (r, k, d)" by (cases "phase_flags ph fresh")
  obtain ok re m where sf: "source_fresh_text fresh = (ok, re, m)" by (cases "source_fresh_text fresh")
  from assms flag show ?thesis
    by (auto simp: conditions_for_phase_def create_condition_def fl sf Let_def split: if_splits)
qed

lemma conditions_for_phase_types:
  "map c_type (conditions_for_phase ph err fresh now) = [''Ready'', ''Reconciling'', ''DriftDetected'', ''SourceFresh'']"
  by (cases "phase_flags ph fresh"; cases "source_fresh_text fresh")
    (simp add: conditions_for_phase_def create_condition_def Let_def)

end
