(* ===== verification/Pass_Registry.thy ===== *)
theory Pass_Registry
  imports Pass
begin

text \<open>
  The registry of the passes running in this process
  (\<open>pangea-operator/src/controller/template/pass_registry.rs\<close>).

  \<open>PassRegistry::run\<close> is an asynchronous operation with two visible steps, the registration at
  its start and the drop of its \<open>Registration\<close> when the work is over or aborted, and other calls
  come between them. The model has one operation per step. An abort handle is the number of the
  run that made it; \<open>rg_aborted\<close> lists the handles on which \<open>abort\<close> was called, and the
  registration guard a run still holds is its entry in \<open>rg_guards\<close>. Identifiers are drawn from
  an \<open>AtomicU64\<close> and wrap.
\<close>

section \<open>State and operations\<close>

definition pass_key :: "string \<Rightarrow> string \<Rightarrow> string" where
  "pass_key ns name = join_with ''/'' [ns, name]"

record entry =
  en_id :: u64
  en_abort :: nat
  en_last_sign :: time

record pass_registry =
  rg_entries :: "(string, entry) btmap"
  rg_next :: u64
  rg_guards :: "(string \<times> u64) list"
  rg_aborted :: "nat list"

definition registry_default :: pass_registry where
  "registry_default = \<lparr>rg_entries = [], rg_next = 0, rg_guards = [], rg_aborted = []\<rparr>"

text \<open>The start of \<open>run\<close>: the number of the run is the position of its guard.\<close>

definition run_begin :: "string \<Rightarrow> time \<Rightarrow> pass_registry \<Rightarrow> pass_registry" where
  "run_begin key now r =
     (let rid = rg_next r; run = length (rg_guards r)
      in r\<lparr>rg_next := rid + 1,
           rg_entries := bm_insert key \<lparr>en_id = rid, en_abort = run, en_last_sign = now\<rparr> (rg_entries r),
           rg_guards := rg_guards r @ [(key, rid)]\<rparr>)"

definition drop_registration :: "string \<Rightarrow> u64 \<Rightarrow> pass_registry \<Rightarrow> pass_registry" where
  "drop_registration key rid r =
     (case bm_get (rg_entries r) key of
        Some e \<Rightarrow> if en_id e = rid then r\<lparr>rg_entries := bm_remove key (rg_entries r)\<rparr> else r
      | None \<Rightarrow> r)"

definition run_end :: "nat \<Rightarrow> pass_registry \<Rightarrow> pass_registry" where
  "run_end run r = (let (key, rid) = rg_guards r ! run in drop_registration key rid r)"

definition beat_landed :: "string \<Rightarrow> time \<Rightarrow> pass_registry \<Rightarrow> pass_registry" where
  "beat_landed key at r =
     (case bm_get (rg_entries r) key of
        Some e \<Rightarrow> r\<lparr>rg_entries := bm_insert key (e\<lparr>en_last_sign := max (en_last_sign e) at\<rparr>) (rg_entries r)\<rparr>
      | None \<Rightarrow> r)"

definition holds :: "string \<Rightarrow> pass_registry \<Rightarrow> bool" where
  "holds key r \<longleftrightarrow> bm_get (rg_entries r) key \<noteq> None"

definition last_sign :: "string \<Rightarrow> pass_registry \<Rightarrow> time option" where
  "last_sign key r = map_option en_last_sign (bm_get (rg_entries r) key)"

definition local_pass_is_stuck :: "stall_state \<Rightarrow> time \<Rightarrow> time \<Rightarrow> duration \<Rightarrow> bool" where
  "local_pass_is_stuck stall sign now heartbeat =
     (case stall of
        NoProgress \<Rightarrow> True
      | other \<Rightarrow> redispatches other \<and> heartbeat < now - sign)"

definition preempt :: "string \<Rightarrow> stall_state \<Rightarrow> time \<Rightarrow> duration \<Rightarrow> pass_registry \<Rightarrow> bool \<times> pass_registry" where
  "preempt key stall now heartbeat r =
     (case bm_get (rg_entries r) key of
        Some e \<Rightarrow>
          if local_pass_is_stuck stall (en_last_sign e) now heartbeat
          then (True, r\<lparr>rg_entries := bm_remove key (rg_entries r), rg_aborted := en_abort e # rg_aborted r\<rparr>)
          else (False, r)
      | None \<Rightarrow> (False, r))"

section \<open>Interleavings\<close>

datatype reg_event =
    Begin string time
  | End nat
  | Beat string time
  | Preempt string stall_state time duration

fun reg_step :: "reg_event \<Rightarrow> pass_registry \<Rightarrow> pass_registry" where
  "reg_step (Begin key now) r = run_begin key now r"
| "reg_step (End run) r = (if run < length (rg_guards r) then run_end run r else r)"
| "reg_step (Beat key at) r = beat_landed key at r"
| "reg_step (Preempt key stall now heartbeat) r = snd (preempt key stall now heartbeat r)"

definition registry_after :: "reg_event list \<Rightarrow> pass_registry" where
  "registry_after evs = fold reg_step evs registry_default"

text \<open>What the registry should hold, read off the history alone: the last run that began under
  the key, until that run ends or is preempted, and the latest sign of life of that run.\<close>

record tracked =
  tk_run :: nat
  tk_sign :: time

fun track :: "string \<Rightarrow> reg_event \<Rightarrow> nat \<times> tracked option \<Rightarrow> nat \<times> tracked option" where
  "track key (Begin k now) (n, cur) = (n + 1, if k = key then Some \<lparr>tk_run = n, tk_sign = now\<rparr> else cur)"
| "track key (End run) (n, cur) = (n, case cur of Some c \<Rightarrow> if tk_run c = run then None else cur | None \<Rightarrow> None)"
| "track key (Beat k at) (n, cur) =
     (n, if k = key then map_option (\<lambda>c. c\<lparr>tk_sign := max (tk_sign c) at\<rparr>) cur else cur)"
| "track key (Preempt k stall now hb) (n, cur) =
     (n, case cur of Some c \<Rightarrow> if k = key \<and> local_pass_is_stuck stall (tk_sign c) now hb then None else cur | None \<Rightarrow> None)"

definition current_run :: "string \<Rightarrow> reg_event list \<Rightarrow> tracked option" where
  "current_run key evs = snd (fold (track key) evs (0, None))"

definition begun :: "reg_event list \<Rightarrow> nat" where
  "begun evs = length (filter (\<lambda>e. case e of Begin _ _ \<Rightarrow> True | _ \<Rightarrow> False) evs)"

fun reg_invariant :: "pass_registry \<Rightarrow> bool" where
  "reg_invariant r \<longleftrightarrow> bm_wf (rg_entries r)
     \<and> rg_next r = of_nat (length (rg_guards r))
     \<and> (\<forall>i < length (rg_guards r). snd (rg_guards r ! i) = of_nat i)
     \<and> (\<forall>key e. bm_get (rg_entries r) key = Some e \<longrightarrow>
          en_abort e < length (rg_guards r) \<and> rg_guards r ! en_abort e = (key, en_id e) \<and> en_abort e \<notin> set (rg_aborted r))
     \<and> (\<forall>a \<in> set (rg_aborted r). a < length (rg_guards r))"

declare reg_invariant.simps [simp del]

section \<open>The registry holds the current runs\<close>

lemma registry_after_snoc: "registry_after (evs @ [e]) = reg_step e (registry_after evs)"
  by (simp add: registry_after_def)

lemma guards_step:
  "rg_guards (reg_step e r) = rg_guards r @ (case e of Begin key _ \<Rightarrow> [(key, rg_next r)] | _ \<Rightarrow> [])"
  by (cases e) (auto simp: run_begin_def run_end_def drop_registration_def beat_landed_def preempt_def Let_def
      split: option.splits prod.splits)

lemma guards_after: "length (rg_guards (registry_after evs)) = begun evs"
proof (induction evs rule: rev_induct)
  case (snoc e evs)
  then show ?case unfolding registry_after_snoc guards_step by (cases e) (simp_all add: begun_def)
qed (simp add: registry_after_def registry_default_def begun_def)

lemma entry_run:
  assumes "reg_invariant r" and "bm_get (rg_entries r) key = Some e"
  shows "en_abort e < length (rg_guards r)" and "rg_guards r ! en_abort e = (key, en_id e)"
    and "en_abort e \<notin> set (rg_aborted r)" and "en_id e = of_nat (en_abort e)"
proof -
  show "en_abort e < length (rg_guards r)" "rg_guards r ! en_abort e = (key, en_id e)" "en_abort e \<notin> set (rg_aborted r)"
    using assms by (auto simp: reg_invariant.simps)
  moreover have "\<forall>i < length (rg_guards r). snd (rg_guards r ! i) = of_nat i" using assms(1) by (simp add: reg_invariant.simps)
  ultimately show "en_id e = of_nat (en_abort e)" by fastforce
qed

lemma invariant_begin:
  assumes "reg_invariant r"
  shows "reg_invariant (run_begin key now r)"
  using assms
  by (auto simp: reg_invariant.simps run_begin_def Let_def bm_wf_insert bm_get_insert nth_append less_Suc_eq
      split: if_splits)

lemma invariant_drop:
  assumes "reg_invariant r"
  shows "reg_invariant (drop_registration key rid r)"
  using assms
  by (auto simp: reg_invariant.simps drop_registration_def bm_wf_remove bm_get_remove split: option.splits if_splits)

lemma invariant_beat:
  assumes "reg_invariant r"
  shows "reg_invariant (beat_landed key at r)"
  using assms
  by (auto simp: reg_invariant.simps beat_landed_def bm_wf_insert bm_get_insert split: option.splits if_splits)

lemma invariant_preempt:
  assumes "reg_invariant r"
  shows "reg_invariant (snd (preempt key stall now hb r))"
proof (cases "bm_get (rg_entries r) key")
  case (Some e)
  have "en_abort e' \<noteq> en_abort e" if "bm_get (rg_entries r) k = Some e'" "k \<noteq> key" for k e'
    using entry_run(2) [OF assms Some] entry_run(2) [OF assms that(1)] that(2) by auto
  with assms Some show ?thesis
    by (auto simp: reg_invariant.simps preempt_def bm_wf_remove bm_get_remove split: if_splits)
qed (use assms in \<open>simp add: preempt_def\<close>)

lemma invariant_step: "reg_invariant r \<Longrightarrow> reg_invariant (reg_step e r)"
  by (cases e) (auto simp: run_end_def Let_def invariant_begin invariant_drop invariant_beat invariant_preempt split: prod.splits)

lemma invariant_after: "reg_invariant (registry_after evs)"
proof (induction evs rule: rev_induct)
  case (snoc e evs)
  then show ?case by (simp add: registry_after_snoc invariant_step)
qed (simp add: registry_after_def registry_default_def reg_invariant.simps)

definition held_run :: "string \<Rightarrow> pass_registry \<Rightarrow> tracked option" where
  "held_run key r = map_option (\<lambda>e. \<lparr>tk_run = en_abort e, tk_sign = en_last_sign e\<rparr>) (bm_get (rg_entries r) key)"

lemma held_run_get:
  "held_run key r = Some c \<longleftrightarrow> (\<exists>e. bm_get (rg_entries r) key = Some e \<and> c = \<lparr>tk_run = en_abort e, tk_sign = en_last_sign e\<rparr>)"
  by (auto simp: held_run_def)

lemma held_run_begin:
  "held_run key (run_begin k now r) =
     (if k = key then Some \<lparr>tk_run = length (rg_guards r), tk_sign = now\<rparr> else held_run key r)"
  by (simp add: held_run_def run_begin_def Let_def bm_get_insert)

lemma held_run_beat:
  "held_run key (beat_landed k at r) =
     (if k = key then map_option (\<lambda>c. c\<lparr>tk_sign := max (tk_sign c) at\<rparr>) (held_run key r) else held_run key r)"
  by (simp add: held_run_def beat_landed_def bm_get_insert split: option.splits)

lemma held_run_preempt:
  "held_run key (snd (preempt k stall now hb r)) =
     (case held_run key r of Some c \<Rightarrow> if k = key \<and> local_pass_is_stuck stall (tk_sign c) now hb then None else Some c | None \<Rightarrow> None)"
  by (cases "bm_get (rg_entries r) k"; cases "bm_get (rg_entries r) key") (auto simp: held_run_def preempt_def bm_get_remove)

text \<open>The guard of a run removes only the entry of that run: identifiers do not repeat before
  the counter wraps.\<close>

lemma guard_id_run:
  assumes "reg_invariant r" and "length (rg_guards r) \<le> 2 ^ 64" and "run < length (rg_guards r)"
    and "bm_get (rg_entries r) key = Some e" and "en_id e = snd (rg_guards r ! run)"
  shows "run = en_abort e"
proof -
  have "snd (rg_guards r ! run) = of_nat run" using assms(1,3) by (simp add: reg_invariant.simps)
  with assms(5) entry_run(4) [OF assms(1,4)] have "(of_nat run :: u64) = of_nat (en_abort e)" by simp
  then have "unat (of_nat run :: u64) = unat (of_nat (en_abort e) :: u64)" by simp
  moreover have "run < 2 ^ 64" "en_abort e < 2 ^ 64" using assms(2,3) entry_run(1) [OF assms(1,4)] by simp_all
  ultimately show ?thesis by (simp add: unat_of_nat)
qed

lemma held_run_end:
  assumes "reg_invariant r" and "length (rg_guards r) \<le> 2 ^ 64" and "run < length (rg_guards r)"
  shows "held_run key (run_end run r) =
     (case held_run key r of Some c \<Rightarrow> if tk_run c = run then None else Some c | None \<Rightarrow> None)"
proof -
  obtain k rid where g: "rg_guards r ! run = (k, rid)" by fastforce
  have same: "k = key \<and> en_id e = rid \<longleftrightarrow> en_abort e = run" if "bm_get (rg_entries r) key = Some e" for e
    using guard_id_run [OF assms that] assms(1) that g by (auto simp: reg_invariant.simps)
  show ?thesis
    using same by (auto simp: run_end_def g drop_registration_def held_run_def bm_get_remove split: option.splits)
qed

lemma tracked_after:
  assumes "begun evs \<le> 2 ^ 64"
  shows "fold (track key) evs (0, None) = (begun evs, held_run key (registry_after evs))"
  using assms
proof (induction evs rule: rev_induct)
  case (snoc e evs)
  have le: "begun evs \<le> 2 ^ 64" using snoc.prems by (simp add: begun_def split: if_splits)
  note IH = snoc.IH [OF le]
  let ?r = "registry_after evs"
  show ?case
  proof (cases e)
    case (End run)
    have b: "begun (evs @ [End run]) = begun evs" by (simp add: begun_def)
    show ?thesis
    proof (cases "run < begun evs")
      case True
      then show ?thesis
        using held_run_end [OF invariant_after, of evs run key] le
        by (simp add: IH End registry_after_snoc b guards_after split: option.splits)
    next
      case False
      then have "\<And>c. held_run key ?r = Some c \<Longrightarrow> tk_run c \<noteq> run"
        using invariant_after [of evs] by (auto simp: held_run_get reg_invariant.simps guards_after)
      with False show ?thesis by (simp add: IH End registry_after_snoc b guards_after split: option.splits)
    qed
  qed (simp_all add: IH registry_after_snoc held_run_begin held_run_beat held_run_preempt guards_after begun_def split: option.splits)
qed (simp add: registry_after_def registry_default_def held_run_def begun_def)

lemma aborted_step:
  "rg_aborted (reg_step e r) = rg_aborted r \<or>
   (\<exists>key x. bm_get (rg_entries r) key = Some x \<and> rg_aborted (reg_step e r) = en_abort x # rg_aborted r)"
  by (cases e)
    (auto simp: run_begin_def run_end_def drop_registration_def beat_landed_def preempt_def Let_def
      split: option.splits prod.splits)

lemma aborted_distinct: "distinct (rg_aborted (registry_after evs))"
proof (induction evs rule: rev_induct)
  case (snoc e evs)
  then show ?case
    using aborted_step [of e "registry_after evs"] entry_run(3) [OF invariant_after]
    by (auto simp: registry_after_snoc)
qed (simp add: registry_after_def registry_default_def)

text \<open>C34: However the passes of this process interleave, the registry holds under a key exactly
  the run that began last under it, with its latest sign of life, until that run ends or is
  preempted; the guard of an older run that ends late takes nothing away. Preemption aborts
  that run and no other, exactly when it is stuck, and no run is aborted twice. The run counter
  has 64 bits, so this holds for the first two to the 64 runs.\<close>

theorem registry_exact:
  fixes evs key stall now hb
  assumes "begun evs \<le> 2 ^ 64"
  defines "r \<equiv> registry_after evs"
  shows "held_run key r = current_run key evs
    \<and> (fst (preempt key stall now hb r) \<longleftrightarrow>
         (\<exists>c. current_run key evs = Some c \<and> local_pass_is_stuck stall (tk_sign c) now hb))
    \<and> rg_aborted (snd (preempt key stall now hb r)) =
        (if fst (preempt key stall now hb r) then tk_run (the (current_run key evs)) # rg_aborted r else rg_aborted r)
    \<and> distinct (rg_aborted (snd (preempt key stall now hb r)))"
proof -
  have held: "held_run key r = current_run key evs"
    using tracked_after [OF assms(1), of key] by (simp add: current_run_def r_def)
  have "snd (preempt key stall now hb r) = registry_after (evs @ [Preempt key stall now hb])"
    by (simp add: registry_after_snoc r_def)
  then have "distinct (rg_aborted (snd (preempt key stall now hb r)))" by (simp only: aborted_distinct)
  then show ?thesis
    unfolding held [symmetric] by (auto simp: held_run_def preempt_def split: option.splits)
qed

theorem registry_exact_witness:
  "held_run ''ns/a'' (registry_after [Begin ''ns/a'' 0, Begin ''ns/a'' 5, End 0, Beat ''ns/a'' 7])
     = Some \<lparr>tk_run = 1, tk_sign = 7\<rparr>"
proof -
  let ?evs = "[Begin ''ns/a'' 0, Begin ''ns/a'' 5, End 0, Beat ''ns/a'' 7]"
  have "begun ?evs \<le> 2 ^ 64" by (simp add: begun_def)
  moreover have "current_run ''ns/a'' ?evs = Some \<lparr>tk_run = 1, tk_sign = 7\<rparr>" by code_simp
  ultimately show ?thesis using registry_exact [of ?evs "''ns/a''"] by simp
qed

end
