(* ===== verification/Pass_Driver.thy ===== *)
theory Pass_Driver
  imports Pass_Registry Reconciler
begin

text \<open>
  What drives the pass of a template
  (\<open>pangea-operator/src/controller/template/pass_driver.rs\<close>): the start and the end of a pass, its
  heartbeat, the adoption of a pass a previous process left, and the watchdog loop with its
  re-dispatches.

  The calls to the API server are not modelled inside: each operation takes their outcome (the
  object read, or whether a write succeeded) and returns the writes and events it makes, in order,
  as a list of effects. Clock readings, the process flags (\<open>honors_reconcile_requests\<close>,
  \<open>preempts_stalled_pass\<close>, ...), the incarnation and the RFC 3339 rendering are arguments.
\<close>

section \<open>Data\<close>

record reaction_record =
  rx_trigger :: string
  rx_at :: time
  rx_age_seconds :: int
  rx_notified :: bool

record reaction_ledger =
  rl_counts :: "(string, u64) btmap"
  rl_active_since :: "(string, time) btmap"
  rl_last :: "reaction_record option"

definition ledger_default :: reaction_ledger where
  "ledger_default = \<lparr>rl_counts = [], rl_active_since = [], rl_last = None\<rparr>"

text \<open>The status fields the driver reads beside those of the pass itself.\<close>

record driver_status =
  ds_core :: template_status
  ds_reactions :: "reaction_ledger option"
  ds_last_reconcile_request_handled :: "string option"
  ds_observed_head_revision :: "string option"
  ds_compiled_revision :: "string option"

definition status_default :: driver_status where
  "status_default =
     \<lparr>ds_core = \<lparr>st_phase = None, st_conditions = [], st_observed_generation = 0, st_acknowledged_generation = 0,
        st_pass = None, st_last_error = None, st_progress = None, st_generation_lag_since = None\<rparr>,
      ds_reactions = None, ds_last_reconcile_request_handled = None, ds_observed_head_revision = None,
      ds_compiled_revision = None\<rparr>"

record driver_template =
  dt_name :: string
  dt_namespace :: "string option"
  dt_generation :: "int option"
  dt_deleted :: bool
  dt_suspend :: bool
  dt_request :: "string option"
  dt_git :: bool
  dt_status :: "driver_status option"

definition generation_of :: "driver_template \<Rightarrow> int" where
  "generation_of template = (case dt_generation template of Some g \<Rightarrow> g | None \<Rightarrow> 0)"

definition namespace_of :: "driver_template \<Rightarrow> string" where
  "namespace_of template = (case dt_namespace template of Some n \<Rightarrow> n | None \<Rightarrow> [])"

section \<open>Requests and the live generation\<close>

definition live_generation :: "driver_template \<Rightarrow> driver_template option \<Rightarrow> int" where
  "live_generation template fresh =
     (let snapshot = generation_of template
      in max (case Option.bind fresh dt_generation of Some g \<Rightarrow> g | None \<Rightarrow> snapshot) snapshot)"

definition requested_value :: "bool \<Rightarrow> driver_template \<Rightarrow> string option" where
  "requested_value honor template = (if \<not> honor then None else dt_request template)"

definition unhandled_request :: "bool \<Rightarrow> driver_template \<Rightarrow> string option" where
  "unhandled_request honor template =
     (let handled = Option.bind (dt_status template) ds_last_reconcile_request_handled
      in (case requested_value honor template of
            Some v \<Rightarrow> if Some v \<noteq> handled then Some v else None
          | None \<Rightarrow> None))"

definition reconcile_request_pending :: "bool \<Rightarrow> driver_template \<Rightarrow> bool" where
  "reconcile_request_pending honor template \<longleftrightarrow> unhandled_request honor template \<noteq> None"

section \<open>The end of a pass\<close>

definition settled_base :: "condition list \<Rightarrow> condition list \<Rightarrow> condition list" where
  "settled_base previous legacy_ready =
     (let owned = map c_type legacy_ready
      in legacy_ready @ filter (\<lambda>c. c_type c \<notin> set owned \<and> c_type c \<noteq> ''Stalled'') previous)"

record settled_write =
  sw_pass :: pass_status
  sw_observed_generation :: int
  sw_conditions :: "condition list"
  sw_generation_lag_since :: "time option"
  sw_last_reconcile_request_handled :: "string option"

definition settled_pass :: "int \<Rightarrow> int \<Rightarrow> time option \<Rightarrow> time \<Rightarrow> pass_phase" where
  "settled_pass g live queued_since now =
     (if g < live then pass_phase.Pending live (case queued_since of Some s \<Rightarrow> s | None \<Rightarrow> now)
      else pass_phase.Settled g)"

definition fresh_state :: "driver_template \<Rightarrow> source_fresh_state" where
  "fresh_state template =
     source_fresh_state_of (dt_git template)
       (map_option (\<lambda>s. (ds_observed_head_revision s, ds_compiled_revision s)) (dt_status template))"

definition base_status :: "driver_template \<Rightarrow> driver_template option \<Rightarrow> driver_status" where
  "base_status template fresh =
     (case Option.bind fresh dt_status of
        Some s \<Rightarrow> s
      | None \<Rightarrow> (case dt_status template of Some s \<Rightarrow> s | None \<Rightarrow> status_default))"

definition queue_clock :: "driver_status \<Rightarrow> time \<Rightarrow> time option" where
  "queue_clock base now =
     Option.bind (st_pass (ds_core base)) (\<lambda>p. map_option q_since (queued_of (from_status p now)))"

definition finish_settled_pass ::
    "(time \<Rightarrow> string) \<Rightarrow> string \<Rightarrow> bool \<Rightarrow> driver_template \<Rightarrow> driver_template option \<Rightarrow> time \<Rightarrow> settled_write" where
  "finish_settled_pass rfc me honor template fresh now =
     (let g = generation_of template;
          live = live_generation template fresh;
          base = ds_core (base_status template fresh);
          p = settled_pass g live (queue_clock (base_status template fresh) now) now;
          observed = observed_generation (pass_phase.Settled g) (st_observed_generation base);
          legacy = conditions_for_phase phase.Ready None (fresh_state template) now;
          projected = project rfc (settled_base (st_conditions base) legacy) p observed live now
      in \<lparr>sw_pass = to_status me p, sw_observed_generation = observed,
          sw_conditions = merge_condition_transitions (st_conditions base) projected,
          sw_generation_lag_since = lag_since p,
          sw_last_reconcile_request_handled = unhandled_request honor template\<rparr>)"

section \<open>The start of a pass and its heartbeat\<close>

record pass_start =
  pb_pass :: pass_phase
  pb_write :: "pass_status \<times> time option"
  pb_registry :: pass_registry

definition pass_guard_begin ::
    "string \<Rightarrow> driver_template \<Rightarrow> driver_template option \<Rightarrow> phase \<Rightarrow> bool \<Rightarrow> time \<Rightarrow> pass_registry \<Rightarrow> pass_start" where
  "pass_guard_begin me template fresh ph written now registry =
     (let previous = map_option (\<lambda>s. stored_pass (ds_core s) now) (dt_status template);
          p = observe (live_generation template fresh) now (entering ph (generation_of template) None previous now);
          key = pass_key (namespace_of template) (dt_name template)
      in \<lparr>pb_pass = p, pb_write = (to_status me p, lag_since p),
          pb_registry = (if written then beat_landed key now registry else registry)\<rparr>)"

definition withdraws_heartbeat_lost :: "pass_status option \<Rightarrow> bool" where
  "withdraws_heartbeat_lost stored =
     (case stored of Some p \<Rightarrow> ps_kind p = pass_kind.Stalled \<and> ps_stall p = Some HeartbeatLost | None \<Rightarrow> False)"

text \<open>One beat: the outcome of the heartbeat write is \<open>None\<close> on an error and otherwise the pass
  the server now stores; the result is whether the beat landed and the pass written to withdraw a
  stall, if one is.\<close>

definition beat_once :: "string \<Rightarrow> pass_status option option \<Rightarrow> pass_phase \<Rightarrow> time \<Rightarrow> bool \<Rightarrow> bool \<times> pass_status option" where
  "beat_once me stored own_pass now resume =
     (case stored of
        None \<Rightarrow> (False, None)
      | Some now_stored \<Rightarrow>
          (True, if resume \<and> withdraws_heartbeat_lost now_stored then Some (to_status me (beat now own_pass)) else None))"

definition orphaned_by_restart :: "pass_status option \<Rightarrow> string \<Rightarrow> bool" where
  "orphaned_by_restart stored own =
     (case stored of
        None \<Rightarrow> False
      | Some p \<Rightarrow>
          (let foreign = ps_incarnation p \<noteq> Some own
           in (case ps_kind p of
                 pass_kind.Planning \<Rightarrow> foreign
               | pass_kind.Applying \<Rightarrow> foreign
               | pass_kind.Stalled \<Rightarrow> ps_stall p = Some OrphanedPhase
               | _ \<Rightarrow> False)))"

definition adopt_orphaned_pass ::
    "string \<Rightarrow> driver_template \<Rightarrow> string \<Rightarrow> time \<Rightarrow> bool \<Rightarrow> bool \<Rightarrow> bool \<times> pass_status option" where
  "adopt_orphaned_pass me template own now adopt write_ok =
     (let stored = Option.bind (dt_status template) (\<lambda>s. st_pass (ds_core s))
      in if \<not> adopt \<or> \<not> orphaned_by_restart stored own then (False, None)
         else (case stored of
                 None \<Rightarrow> (False, None)
               | Some s \<Rightarrow>
                   (write_ok, Some ((to_status me (pass_phase.Pending (ps_generation s) now))\<lparr>ps_incarnation := Some own\<rparr>))))"

section \<open>The watchdog\<close>

definition MAX_NUDGES :: nat where
  "MAX_NUDGES = 5"

definition nudge_backoff :: "nat \<Rightarrow> duration" where
  "nudge_backoff attempts = min (60 * 2 ^ min attempts 5) 1800 * 10 ^ 9"

definition nudge_due :: "nat \<Rightarrow> time option \<Rightarrow> time \<Rightarrow> bool" where
  "nudge_due attempts last_at now \<longleftrightarrow>
     attempts < MAX_NUDGES \<and> (case last_at of None \<Rightarrow> True | Some l \<Rightarrow> nudge_backoff attempts \<le> now - l)"

type_synonym nudges = "(string, nat \<times> time) btmap"

fun show_stall :: "stall_state \<Rightarrow> string" where
  "show_stall QueuedBehind = ''queuedBehind''" | "show_stall PendingNotStarted = ''pendingNotStarted''"
| "show_stall HeartbeatLost = ''heartbeatLost''" | "show_stall OrphanedPhase = ''orphanedPhase''"
| "show_stall NoProgress = ''noProgress''" | "show_stall Unnamed = ''unnamed''"

text \<open>\<open>capitalize\<close> is applied to the ASCII labels above only.\<close>

definition capitalize :: "string \<Rightarrow> string" where
  "capitalize s =
     (case s of
        c # cs \<Rightarrow> (if is_ascii_lower c then char_of ((of_char c :: nat) - 32) else c) # cs
      | [] \<Rightarrow> [])"

definition ledger_with :: "driver_status \<Rightarrow> stall_state \<Rightarrow> time \<Rightarrow> reaction_ledger" where
  "ledger_with status k now =
     (let ledger = (case ds_reactions status of Some l \<Rightarrow> l | None \<Rightarrow> ledger_default);
          trigger = ''Stalled:'' @ show_stall k
      in \<lparr>rl_counts = bm_entry trigger 0 (\<lambda>n. n + 1) (rl_counts ledger),
          rl_active_since = bm_insert trigger now (rl_active_since ledger),
          rl_last = Some \<lparr>rx_trigger = trigger, rx_at = now, rx_age_seconds = 0, rx_notified = False\<rparr>\<rparr>)"

datatype effect =
    StalledGauge bool
  | LagGauge int
  | StatusPatched status_patch "reaction_ledger option"
  | StallCounted string
  | EventRecorded string string
  | ReconcileRequested string bool

record api_outcome =
  ao_status_written :: bool
  ao_request_written :: bool

definition redispatch ::
    "string \<Rightarrow> string \<Rightarrow> stall_state \<Rightarrow> time \<Rightarrow> duration \<Rightarrow> bool \<Rightarrow> bool \<Rightarrow> pass_registry \<Rightarrow> pass_registry \<times> effect list" where
  "redispatch ns name stall now heartbeat preempts written registry =
     (let registry = (if preempts then snd (preempt (pass_key ns name) stall now heartbeat registry) else registry)
      in (registry, [ReconcileRequested (''watchdog-'' @ show_int (now div 10 ^ 6)) written]))"

definition escalation_text :: "string \<Rightarrow> string" where
  "escalation_text reason =
     reason @ ''. '' @ show_nat MAX_NUDGES
     @ '' re-dispatches did not move it; a human or the reactive policy must act.''"

definition nudge ::
    "deadlines \<Rightarrow> bool \<Rightarrow> bool \<Rightarrow> string \<Rightarrow> string \<Rightarrow> stall_state \<Rightarrow> string \<Rightarrow> time \<Rightarrow> nudges \<times> pass_registry
      \<Rightarrow> (nudges \<times> pass_registry) \<times> effect list" where
  "nudge d preempts written ns name k reason now s =
     (let (nudges, registry) = s;
          key = ns @ ''/'' @ name;
          (attempts, last_at) = (case bm_get nudges key of Some (a, l) \<Rightarrow> (a, Some l) | None \<Rightarrow> (0, None))
      in if nudge_due attempts last_at now then
           (let (registry, effects) = redispatch ns name k now (d_heartbeat d) preempts written registry
            in ((if written then bm_insert key (attempts + 1, now) nudges else nudges, registry), effects))
         else if attempts = MAX_NUDGES then
           ((bm_insert key (attempts, now + 3650 * 86400 * 10 ^ 9) nudges, registry),
            [EventRecorded ''StallEscalated'' (escalation_text reason)])
         else ((nudges, registry), []))"

definition stall_of :: "pass_phase \<Rightarrow> (stall_state \<times> string) option" where
  "stall_of p = (case p of pass_phase.Stalled _ _ k reason \<Rightarrow> Some (k, reason) | _ \<Rightarrow> None)"

definition was_stalled :: "driver_status \<Rightarrow> bool" where
  "was_stalled status = (case st_pass (ds_core status) of Some p \<Rightarrow> ps_kind p = pass_kind.Stalled | None \<Rightarrow> False)"

definition gauges :: "status_projection \<Rightarrow> time \<Rightarrow> effect list" where
  "gauges pr now =
     [StalledGauge (kind (pr_pass pr) = pass_kind.Stalled),
      LagGauge (case pr_lag_since pr of Some s \<Rightarrow> max (num_seconds (now - s)) 0 | None \<Rightarrow> 0)]"

definition announce :: "driver_status \<Rightarrow> stall_state \<Rightarrow> string \<Rightarrow> effect list" where
  "announce status k reason =
     (if was_stalled status then []
      else [StallCounted (show_stall k),
            EventRecorded (''Stalled'' @ capitalize (show_stall k)) (reason @ ''. Remedy: '' @ remedy k @ ''.'')])"

definition patch_effects :: "status_patch option \<Rightarrow> reaction_ledger option \<Rightarrow> effect list" where
  "patch_effects patch ledger = (case patch of None \<Rightarrow> [] | Some p \<Rightarrow> [StatusPatched p ledger])"

definition watch_one ::
    "(time \<Rightarrow> string) \<Rightarrow> string \<Rightarrow> deadlines \<Rightarrow> bool \<Rightarrow> driver_template \<Rightarrow> time \<Rightarrow> api_outcome \<Rightarrow> nudges \<times> pass_registry
      \<Rightarrow> (nudges \<times> pass_registry) \<times> effect list" where
  "watch_one rfc me d preempts template now api s =
     (if dt_deleted template \<or> dt_suspend template then (s, [])
      else (case dt_status template of
        None \<Rightarrow> (s, [])
      | Some status \<Rightarrow>
          (let (nudges, registry) = s;
               pr = project_status rfc me (ds_core status) (generation_of template) now d;
               name = dt_name template;
               ns = namespace_of template;
               stall = stall_of (pr_pass pr);
               nudges = (if stall = None then bm_remove (ns @ ''/'' @ name) nudges else nudges);
               patch = projection_patch me (ds_core status) pr;
               ledger = (case stall of
                   Some (k, _) \<Rightarrow> if was_stalled status then None else Some (ledger_with status k now)
                 | None \<Rightarrow> None);
               written = patch_effects patch ledger;
               effects = gauges pr now @ written
           in if patch \<noteq> None \<and> \<not> ao_status_written api then ((nudges, registry), effects)
              else (case stall of
                      None \<Rightarrow> ((nudges, registry), effects)
                    | Some (k, reason) \<Rightarrow>
                        (let effects = effects @ announce status k reason
                         in if \<not> redispatches k then ((nudges, registry), effects)
                            else (let (s, more) = nudge d preempts (ao_request_written api) ns name k reason now (nudges, registry)
                                  in (s, effects @ more)))))))"

section \<open>What the end of a pass claims\<close>

lemma project_ready:
  assumes "c \<in> set (project rfc cs p observed live now)" and "c_type c = ''Ready''" and "c_status c = ''True''"
  shows "\<exists>b \<in> set cs. c_type b = ''Ready'' \<and> c_status b = ''True''"
proof -
  from assms(1,2) obtain b where b: "b \<in> set cs" "c = project_condition rfc p observed live b"
    by (auto simp: project_def Let_def split: prod.splits)
  with assms(2,3) have "c_type b = ''Ready''" "c_status b = ''True''"
    by (auto simp: project_condition_def Let_def claims_good_def split: if_splits)
  with b show ?thesis by blast
qed

lemma settled_base_ready:
  assumes "b \<in> set (settled_base previous (conditions_for_phase ph err fresh now))" and "c_type b = ''Ready''"
  shows "b \<in> set (conditions_for_phase ph err fresh now)"
proof -
  have "c_type ` set (conditions_for_phase ph err fresh now) = set [''Ready'', ''Reconciling'', ''DriftDetected'', ''SourceFresh'']"
    using arg_cong [OF conditions_for_phase_types, of set ph err fresh now] by simp
  with assms show ?thesis by (auto simp: settled_base_def Let_def)
qed

text \<open>A pass that ends well records what it did and no more. The observed generation becomes
  the one it ran, if that is newer; if a newer generation is live, the pass goes back to pending
  for it with the clock the queue started; and of the conditions written, Ready or Settled is
  True only if the live generation is covered, and Ready only if the source is at its git head
  or has none.\<close>

lemma finish_settled_sound:
  fixes rfc me honor template fresh now later
  defines "w \<equiv> finish_settled_pass rfc me honor template fresh now"
  defines "live \<equiv> live_generation template fresh"
  shows "from_status (sw_pass w) later =
      (if generation_of template < live
       then pass_phase.Pending live (case queue_clock (base_status template fresh) now of Some s \<Rightarrow> s | None \<Rightarrow> now)
       else pass_phase.Settled (generation_of template))
    \<and> sw_observed_generation w = max (st_observed_generation (ds_core (base_status template fresh))) (generation_of template)
    \<and> \<not> violates_generation_invariant (sw_conditions w) (sw_observed_generation w) live
    \<and> (\<forall>c \<in> set (sw_conditions w). c_status c = ''True'' \<and> c_type c = ''Ready'' \<longrightarrow>
         live \<le> sw_observed_generation w \<and> permits_ready (fresh_state template))"
proof -
  let ?base = "ds_core (base_status template fresh)"
  let ?p = "settled_pass (generation_of template) live (queue_clock (base_status template fresh) now) now"
  let ?cs = "settled_base (st_conditions ?base) (conditions_for_phase phase.Ready None (fresh_state template) now)"
  let ?pr = "project rfc ?cs ?p (sw_observed_generation w) live now"
  have w: "sw_pass w = to_status me ?p" "sw_observed_generation w = max (st_observed_generation ?base) (generation_of template)"
    "sw_conditions w = map (restamped (st_conditions ?base)) ?pr"
    by (simp_all add: w_def finish_settled_pass_def Let_def live_def merge_eq)
  have good: "live \<le> sw_observed_generation w \<and> c_observed_generation c = Some live"
    if c: "c \<in> set (sw_conditions w)" "claims_good c" "c_status c = ''True''" for c
  proof -
    from c(1) obtain b where "b \<in> set ?pr" "c = restamped (st_conditions ?base) b" by (auto simp: w(3))
    with project_good [of b rfc ?cs ?p "sw_observed_generation w" live now] c(2,3) show ?thesis
      by (simp add: restamped_good)
  qed
  have "permits_ready (fresh_state template)"
    if c: "c \<in> set (sw_conditions w)" "c_type c = ''Ready''" "c_status c = ''True''" for c
  proof -
    from c obtain b where "b \<in> set ?pr" "c_type b = ''Ready''" "c_status b = ''True''" by (auto simp: w(3))
    from project_ready [OF this] obtain a where a: "a \<in> set ?cs" "c_type a = ''Ready''" "c_status a = ''True''" by blast
    with conditions_for_phase_ready [OF settled_base_ready [OF a(1,2)] a(2)] show ?thesis by simp
  qed
  moreover have "from_status (sw_pass w) later = ?p" unfolding w(1) by (rule pass_status_decode)
  moreover have "claims_good c" if "c_type c = ''Ready''" for c using that by (simp add: claims_good_def)
  ultimately show ?thesis
    using good w(2) unfolding violates_generation_invariant_def list_ex_iff settled_pass_def by fastforce
qed

definition behind_template :: driver_template where
  "behind_template = \<lparr>dt_name = ''app'', dt_namespace = Some ''prod'', dt_generation = Some 2, dt_deleted = False,
     dt_suspend = False, dt_request = None, dt_git = True, dt_status = Some status_default\<rparr>"

section \<open>Adoption and heartbeats\<close>

text \<open>An adopted pass belongs to this process, waits for the generation that was running, and is
  not adopted a second time.\<close>

lemma adopted_once:
  assumes "adopt_orphaned_pass me template own now adopt ok = (b, Some p)"
  shows "\<not> orphaned_by_restart (Some p) own \<and> (\<exists>g. from_status p later = pass_phase.Pending g now) \<and> ps_incarnation p = Some own"
  using assms
  by (auto simp: adopt_orphaned_pass_def orphaned_by_restart_def to_status_def from_status_def Let_def split: if_splits option.splits)

text \<open>A beat withdraws only a lost heartbeat, and what it writes is the pass of its owner with a
  heartbeat of now, which no heartbeat deadline can end at once.\<close>

lemma beat_withdraws:
  assumes "beat_once me stored q now resume = (landed, Some p)" and "is_active q"
  shows "landed \<and> (\<exists>s. stored = Some (Some s) \<and> ps_kind s = pass_kind.Stalled \<and> ps_stall s = Some HeartbeatLost)
    \<and> kind (from_status p later) = kind q \<and> (\<exists>g. active_parts (from_status p later) = Some (g, now))"
proof -
  from assms(1) obtain s where s: "stored = Some (Some s)" "ps_kind s = pass_kind.Stalled" "ps_stall s = Some HeartbeatLost"
    "p = to_status me (beat now q)" landed
    by (auto simp: beat_once_def withdraws_heartbeat_lost_def split: option.splits if_splits)
  then show ?thesis using assms(2) unfolding s(4) pass_status_decode
    by (cases q) (auto simp: beat_def active_parts_def)
qed

section \<open>Nudges are bounded\<close>

type_synonym visit = "driver_template \<times> time \<times> api_outcome"

fun watch_run ::
    "(time \<Rightarrow> string) \<Rightarrow> string \<Rightarrow> deadlines \<Rightarrow> bool \<Rightarrow> visit list \<Rightarrow> nudges \<times> pass_registry
      \<Rightarrow> (nudges \<times> pass_registry) \<times> (visit \<times> effect list) list" where
  "watch_run rfc me d preempts [] s = (s, [])"
| "watch_run rfc me d preempts ((template, now, api) # vs) s =
     (let (s, effects) = watch_one rfc me d preempts template now api s;
          (s, log) = watch_run rfc me d preempts vs s
      in (s, ((template, now, api), effects) # log))"

definition template_key :: "driver_template \<Rightarrow> string" where
  "template_key template = namespace_of template @ ''/'' @ dt_name template"

definition stall_at :: "(time \<Rightarrow> string) \<Rightarrow> string \<Rightarrow> deadlines \<Rightarrow> driver_template \<Rightarrow> time \<Rightarrow> (stall_state \<times> string) option" where
  "stall_at rfc me d template now =
     Option.bind (dt_status template) (\<lambda>status.
       stall_of (pr_pass (project_status rfc me (ds_core status) (generation_of template) now d)))"

definition skipped :: "driver_template \<Rightarrow> bool" where
  "skipped template \<longleftrightarrow> dt_deleted template \<or> dt_suspend template \<or> dt_status template = None"

definition requested :: "effect list \<Rightarrow> bool" where
  "requested effects \<longleftrightarrow> (\<exists>v. ReconcileRequested v True \<in> set effects)"

definition requests :: "string \<Rightarrow> (visit \<times> effect list) list \<Rightarrow> time list" where
  "requests key log =
     map (\<lambda>((_, now, _), _). now) (filter (\<lambda>((template, _, _), effects). template_key template = key \<and> requested effects) log)"

definition escalated :: "effect list \<Rightarrow> bool" where
  "escalated effects \<longleftrightarrow> (\<exists>text. EventRecorded ''StallEscalated'' text \<in> set effects)"

definition attempts_of :: "nudges \<Rightarrow> string \<Rightarrow> nat \<times> time option" where
  "attempts_of nudges key = (case bm_get nudges key of Some (a, l) \<Rightarrow> (a, Some l) | None \<Rightarrow> (0, None))"

lemma not_requested [simp]:
  "requested (gauges pr now @ xs) = requested xs"
  "requested (patch_effects p l @ xs) = requested xs" "\<not> requested (patch_effects p l)"
  "requested (announce status k reason @ xs) = requested xs"
  "\<not> requested []" "\<not> requested [EventRecorded a b]" "\<not> requested (gauges pr now)" "\<not> requested (announce status k reason)"
  by (auto simp: requested_def gauges_def announce_def patch_effects_def split: option.splits)

lemma nudge_get_other:
  assumes "nudge d preempts written ns name k reason now (n, r) = ((n', r'), effects)" and "key \<noteq> ns @ ''/'' @ name"
  shows "bm_get n' key = bm_get n key"
  using assms by (auto simp: nudge_def redispatch_def Let_def bm_get_insert split: prod.splits if_splits option.splits)

lemma nudge_get:
  assumes "nudge d preempts written ns name k reason now (n, r) = ((n', r'), effects)"
    and "key = ns @ ''/'' @ name" and "attempts_of n key = (a, l)"
  shows "requested effects \<and> nudge_due a l now \<and> bm_get n' key = Some (a + 1, now)
    \<or> \<not> requested effects \<and> (bm_get n' key = bm_get n key \<or> a = MAX_NUDGES \<and> (\<exists>x. bm_get n' key = Some (MAX_NUDGES, x)))"
  using assms
  by (auto simp: nudge_def redispatch_def attempts_of_def requested_def Let_def bm_get_insert
      split: prod.splits if_splits option.splits)

lemma nudge_escalates:
  assumes "nudge d preempts written ns name k reason now (n, r) = ((n', r'), effects)"
    and "bm_get n (ns @ ''/'' @ name) = Some (MAX_NUDGES, x)"
  shows "escalated effects"
  using assms by (auto simp: nudge_def nudge_due_def escalated_def split: prod.splits if_splits)

text \<open>A visit either leaves its template alone, or it forgets the nudges of a template that
  moves, or it stops before the nudge, or it nudges.\<close>

lemma watch_one_cases:
  assumes "watch_one rfc me d preempts template now api (n, r) = ((n', r'), effects)"
  obtains (skip) "skipped template" "n' = n" "effects = []"
  | (moving) "\<not> skipped template" "stall_at rfc me d template now = None" "n' = bm_remove (template_key template) n" "\<not> requested effects"
  | (quiet) k reason where "\<not> skipped template" "stall_at rfc me d template now = Some (k, reason)" "n' = n" "\<not> requested effects"
      "ao_status_written api \<longrightarrow> \<not> redispatches k"
  | (nudged) k reason before effects' where "\<not> skipped template" "stall_at rfc me d template now = Some (k, reason)" "redispatches k"
      "nudge d preempts (ao_request_written api) (namespace_of template) (dt_name template) k reason now (n, r) = ((n', r'), effects')"
      "effects = before @ effects'" "requested effects = requested effects'"
proof (cases "skipped template")
  case True
  with assms have "n' = n" "effects = []" by (auto simp: watch_one_def skipped_def split: if_splits)
  with skip True show ?thesis by blast
next
  case False
  then obtain status where st: "dt_status template = Some status" "\<not> dt_deleted template" "\<not> dt_suspend template"
    by (auto simp: skipped_def)
  let ?pr = "project_status rfc me (ds_core status) (generation_of template) now d"
  have at: "stall_at rfc me d template now = stall_of (pr_pass ?pr)" by (simp add: stall_at_def st)
  show ?thesis
  proof (cases "stall_of (pr_pass ?pr)")
    case None
    with assms st have "n' = bm_remove (template_key template) n" "\<not> requested effects"
      by (auto simp: watch_one_def template_key_def Let_def split: if_splits option.splits)
    with moving False at None show ?thesis by simp
  next
    case (Some kr)
    obtain k reason where kr: "kr = (k, reason)" by (cases kr)
    let ?patch = "projection_patch me (ds_core status) ?pr"
    let ?written = "patch_effects ?patch (if was_stalled status then None else Some (ledger_with status k now))"
    show ?thesis
    proof (cases "?patch \<noteq> None \<and> \<not> ao_status_written api \<or> \<not> redispatches k")
      case True
      with assms st Some kr have "n' = n" "\<not> requested effects"
        by (auto simp: watch_one_def Let_def split: if_splits)
      with quiet False at Some kr True show ?thesis by auto
    next
      case False2: False
      obtain s' more where n: "nudge d preempts (ao_request_written api) (namespace_of template) (dt_name template) k reason now (n, r)
          = (s', more)" by fastforce
      with assms st Some kr False2 have "s' = (n', r')" "effects = (gauges ?pr now @ ?written @ announce status k reason) @ more"
        by (auto simp: watch_one_def Let_def split: if_splits)
      with nudged [of k reason more] n False at Some kr False2 show ?thesis by simp
    qed
  qed
qed

definition spaced :: "time list \<Rightarrow> bool" where
  "spaced rs \<longleftrightarrow> (\<forall>i. Suc i < length rs \<longrightarrow> nudge_backoff (Suc i) \<le> rs ! Suc i - rs ! i)"

definition nudge_inv :: "time list \<Rightarrow> (nat \<times> time) option \<Rightarrow> bool" where
  "nudge_inv rs stored \<longleftrightarrow> length rs \<le> MAX_NUDGES \<and> spaced rs \<and>
     (case stored of
        None \<Rightarrow> rs = []
      | Some (a, l) \<Rightarrow> a = length rs \<and> rs \<noteq> [] \<and> (l = last rs \<or> a = MAX_NUDGES))"

lemma spaced_snoc:
  "spaced (rs @ [now]) \<longleftrightarrow> spaced rs \<and> (rs \<noteq> [] \<longrightarrow> nudge_backoff (length rs) \<le> now - last rs)"
  by (cases rs rule: rev_cases) (auto simp: spaced_def nth_append less_Suc_eq)

lemma nudge_inv_step:
  assumes "nudge_inv rs (bm_get n key)" and "attempts_of n key = (a, l)" and "nudge_due a l now"
  shows "nudge_inv (rs @ [now]) (Some (a + 1, now))"
  using assms
  by (auto simp: nudge_inv_def attempts_of_def nudge_due_def spaced_snoc split: option.splits)

lemma nudge_inv_escalated:
  assumes "nudge_inv rs (bm_get n key)" and "attempts_of n key = (MAX_NUDGES, l)"
  shows "nudge_inv rs (Some (MAX_NUDGES, x))"
  using assms by (auto simp: nudge_inv_def attempts_of_def MAX_NUDGES_def split: option.splits)

lemma nudge_inv_visit:
  assumes "watch_one rfc me d preempts template now api (n, r) = ((n', r'), effects)"
    and "nudge_inv rs (bm_get n key)"
    and "template_key template = key \<Longrightarrow> \<not> skipped template \<Longrightarrow> stall_at rfc me d template now \<noteq> None"
  shows "nudge_inv (rs @ requests key [((template, now, api), effects)]) (bm_get n' key)"
  using assms(1)
proof (cases rule: watch_one_cases)
  case skip
  with assms(2) show ?thesis by (simp add: requests_def)
next
  case moving
  with assms(2,3) show ?thesis by (cases "template_key template = key") (auto simp: requests_def bm_get_remove)
next
  case (quiet k reason)
  with assms(2) show ?thesis by (simp add: requests_def)
next
  case (nudged k reason before effects')
  obtain a l where al: "attempts_of n key = (a, l)" by fastforce
  show ?thesis
  proof (cases "template_key template = key")
    case True
    from nudge_get [OF nudged(4) True [unfolded template_key_def, symmetric] al]
    show ?thesis
    proof (elim disjE conjE exE)
      assume "requested effects'" "nudge_due a l now" "bm_get n' key = Some (a + 1, now)"
      with nudge_inv_step [OF assms(2) al] nudged(6) True show ?thesis by (simp add: requests_def)
    next
      assume "\<not> requested effects'" "bm_get n' key = bm_get n key"
      with assms(2) nudged(6) show ?thesis by (simp add: requests_def)
    next
      fix x assume "\<not> requested effects'" "a = MAX_NUDGES" "bm_get n' key = Some (MAX_NUDGES, x)"
      with nudge_inv_escalated [OF assms(2)] al nudged(6) show ?thesis by (simp add: requests_def)
    qed
  next
    case False
    with nudge_get_other [OF nudged(4), of key] assms(2) show ?thesis by (simp add: requests_def template_key_def)
  qed
qed

lemma requests_append: "requests key (xs @ ys) = requests key xs @ requests key ys"
  by (simp add: requests_def)

definition stays_stalled :: "(time \<Rightarrow> string) \<Rightarrow> string \<Rightarrow> deadlines \<Rightarrow> string \<Rightarrow> visit list \<Rightarrow> bool" where
  "stays_stalled rfc me d key vs \<longleftrightarrow>
     (\<forall>(template, now, _) \<in> set vs. template_key template = key \<longrightarrow> \<not> skipped template \<longrightarrow> stall_at rfc me d template now \<noteq> None)"

lemma nudge_inv_run:
  assumes "watch_run rfc me d preempts vs (n, r) = ((n', r'), log)" and "nudge_inv rs (bm_get n key)"
    and "stays_stalled rfc me d key vs"
  shows "nudge_inv (rs @ requests key log) (bm_get n' key)"
  using assms
proof (induction vs arbitrary: n r rs log)
  case (Cons v vs)
  obtain template now api where v: "v = (template, now, api)" by (cases v)
  obtain n1 r1 effects where one: "watch_one rfc me d preempts template now api (n, r) = ((n1, r1), effects)" by (metis surj_pair)
  obtain log' where rest: "watch_run rfc me d preempts vs (n1, r1) = ((n', r'), log')" and log: "log = (v, effects) # log'"
    using Cons.prems(1) by (cases "watch_run rfc me d preempts vs (n1, r1)") (simp add: v one)
  have "nudge_inv (rs @ requests key [((template, now, api), effects)]) (bm_get n1 key)"
    using Cons.prems(3) by (intro nudge_inv_visit [OF one Cons.prems(2)]) (simp add: stays_stalled_def v)
  moreover have "stays_stalled rfc me d key vs" using Cons.prems(3) by (simp add: stays_stalled_def)
  moreover have "requests key log = requests key [((template, now, api), effects)] @ requests key log'"
    using requests_append [of key "[(v, effects)]" log'] by (simp add: log v)
  ultimately show ?case
    using Cons.IH [OF rest, of "rs @ requests key [((template, now, api), effects)]"] by simp
qed (simp add: requests_def)

lemma watch_run_split:
  assumes "watch_run rfc me d preempts vs (n, r) = (s', pre @ ((template, now, api), effects) # post)"
  shows "\<exists>vs1 vs2 n1 r1 s2. vs = vs1 @ (template, now, api) # vs2 \<and> watch_run rfc me d preempts vs1 (n, r) = ((n1, r1), pre)
    \<and> watch_one rfc me d preempts template now api (n1, r1) = (s2, effects)"
  using assms
proof (induction pre arbitrary: vs n r)
  case Nil
  then obtain vs2 where "vs = (template, now, api) # vs2" by (cases vs) (auto split: prod.splits)
  moreover from this Nil have "\<exists>s2. watch_one rfc me d preempts template now api (n, r) = (s2, effects)"
    by (auto split: prod.splits)
  moreover have "watch_run rfc me d preempts [] (n, r) = ((n, r), [])" by simp
  ultimately show ?case by (metis append_Nil)
next
  case (Cons x pre)
  then obtain t0 now0 api0 vs' where vs: "vs = (t0, now0, api0) # vs'" by (cases vs) (auto split: prod.splits)
  obtain n0 r0 e0 where one: "watch_one rfc me d preempts t0 now0 api0 (n, r) = ((n0, r0), e0)" by (metis surj_pair)
  have x: "x = ((t0, now0, api0), e0)" and rest: "watch_run rfc me d preempts vs' (n0, r0) = (s', pre @ ((template, now, api), effects) # post)"
    using Cons.prems by (auto simp: vs one split: prod.splits)
  from Cons.IH [OF rest] obtain vs1 vs2 n1 r1 s2 where "vs' = vs1 @ (template, now, api) # vs2"
    and run: "watch_run rfc me d preempts vs1 (n0, r0) = ((n1, r1), pre)"
    and "watch_one rfc me d preempts template now api (n1, r1) = (s2, effects)" by blast
  moreover have "watch_run rfc me d preempts ((t0, now0, api0) # vs1) (n, r) = ((n1, r1), x # pre)"
    by (simp add: one run x)
  ultimately show ?case using vs by (metis append_Cons)
qed

lemma full_nudges: "nudge_inv rs stored \<Longrightarrow> length rs = MAX_NUDGES \<Longrightarrow> \<exists>x. stored = Some (MAX_NUDGES, x)"
  by (auto simp: nudge_inv_def MAX_NUDGES_def split: option.splits)

lemma visit_escalates:
  assumes "watch_one rfc me d preempts template now api (n, r) = (s2, effects)"
    and "bm_get n (template_key template) = Some (MAX_NUDGES, x)"
    and "\<not> skipped template" and "stall_at rfc me d template now = Some (k, reason)" and "redispatches k"
    and "ao_status_written api"
  shows "escalated effects"
proof -
  obtain n' r' where s2: "s2 = (n', r')" by fastforce
  from assms(1) [unfolded s2] show ?thesis
  proof (cases rule: watch_one_cases)
    case (nudged k reason before effects')
    then show ?thesis using nudge_escalates [OF nudged(4)] assms(2) by (auto simp: template_key_def escalated_def)
  qed (use assms in auto)
qed

text \<open>The watchdog nudges a wedged template a bounded number of times. Over any run of
  visits, of this template and of others, in which it stays stalled, the reconcile requests
  that land number at most five and lie apart by at least the growing backoff. From the fifth
  on it only escalates, and it does so again on every single visit at which the status write
  succeeds and the stall is one that asks for a re-dispatch.\<close>

lemma nudges_bounded:
  assumes "watch_run rfc me d preempts vs ([], registry) = (s', log)" and "stays_stalled rfc me d key vs"
  shows "length (requests key log) \<le> MAX_NUDGES \<and> spaced (requests key log)
    \<and> (\<forall>pre template now api effects post k reason.
         log = pre @ ((template, now, api), effects) # post \<and> template_key template = key \<and> \<not> skipped template
         \<and> length (requests key pre) = MAX_NUDGES \<and> ao_status_written api
         \<and> stall_at rfc me d template now = Some (k, reason) \<and> redispatches k \<longrightarrow> escalated effects)"
proof -
  obtain n' r' where s': "s' = (n', r')" by fastforce
  have start: "nudge_inv [] (bm_get [] key)" by (simp add: nudge_inv_def spaced_def)
  from nudge_inv_run [OF assms(1) [unfolded s'] start assms(2)] have "nudge_inv (requests key log) (bm_get n' key)" by simp
  moreover have "escalated effects"
    if log: "log = pre @ ((template, now, api), effects) # post" and "template_key template = key" "\<not> skipped template"
      "length (requests key pre) = MAX_NUDGES" "ao_status_written api" "stall_at rfc me d template now = Some (k, reason)" "redispatches k"
    for pre template now api effects post k reason
  proof -
    from watch_run_split [OF assms(1) [unfolded log]] obtain vs1 vs2 n1 r1 s2 where vs: "vs = vs1 @ (template, now, api) # vs2"
      and run: "watch_run rfc me d preempts vs1 ([], registry) = ((n1, r1), pre)"
      and one: "watch_one rfc me d preempts template now api (n1, r1) = (s2, effects)" by blast
    have "stays_stalled rfc me d key vs1" using assms(2) by (simp add: stays_stalled_def vs)
    from full_nudges [OF nudge_inv_run [OF run start this]] that obtain x where "bm_get n1 key = Some (MAX_NUDGES, x)" by auto
    then show ?thesis using visit_escalates [OF one] that by simp
  qed
  ultimately show ?thesis unfolding nudge_inv_def by blast
qed

definition wedged_template :: driver_template where
  "wedged_template = behind_template\<lparr>dt_status := Some (status_default\<lparr>ds_core :=
     (ds_core status_default)\<lparr>st_pass := Some (to_status ''pod-1'' (pass_phase.Stalled 2 0 HeartbeatLost ''gone''))\<rparr>\<rparr>)\<rparr>"

definition wedged_visits :: "visit list" where
  "wedged_visits = map (\<lambda>i. (wedged_template, int i * 3600 * 10 ^ 9, \<lparr>ao_status_written = True, ao_request_written = True\<rparr>)) [0..<7]"

end
