(* ===== verification/Policy.thy ===== *)
theory Policy
  imports Prelude
begin

text \<open>
  The per-resource policy gate between plan and apply
  (\<open>pangea-operator/src/executor/policy.rs\<close> and the types of \<open>crd/infrastructure_template.rs\<close> it
  works on). The regular expressions of the \<open>regex\<close> crate are a parameter \<open>R\<close>: it maps a pattern
  to its matching predicate, or to \<open>None\<close> when the pattern does not compile. Warnings are not
  modelled. The counters are \<open>u32\<close> and wrap.
\<close>

section \<open>Data\<close>

datatype drift_action = Create | Update | Delete | Replace

definition parse_action :: "string \<Rightarrow> drift_action option" where
  "parse_action s =
     (if s = ''create'' then Some Create else if s = ''update'' then Some Update
      else if s = ''delete'' then Some Delete else if s = ''replace'' then Some Replace else None)"

datatype risk_level = NoRisk | Low | Medium | High

definition parse_risk :: "string \<Rightarrow> risk_level option" where
  "parse_risk s =
     (if s = ''none'' then Some NoRisk else if s = ''low'' then Some Low
      else if s = ''medium'' then Some Medium else if s = ''high'' then Some High else None)"

datatype policy_decision = AutoApply | RequireApproval | Refuse

fun decision_as_str :: "policy_decision \<Rightarrow> string" where
  "decision_as_str AutoApply = ''autoApply''"
| "decision_as_str RequireApproval = ''requireApproval''"
| "decision_as_str Refuse = ''refuse''"

record policy_match =
  pm_resource_types :: "string list"
  pm_address_patterns :: "string list"
  pm_actions :: "string list"
  pm_risk_levels :: "string list"
  pm_attributes :: "string list"

record policy_rule =
  pr_name :: string
  pr_match :: policy_match
  pr_decision :: policy_decision

record drift_detail =
  dd_address :: string
  dd_action :: string
  dd_risk :: string
  dd_attributes :: "string list"
  dd_policy_decision :: "string option"
  dd_matched_policy :: "string option"

record policy_evaluation =
  pe_aggregate :: string
  pe_auto_apply_count :: u32
  pe_require_approval_count :: u32
  pe_refuse_count :: u32
  pe_refused_addresses :: "string list"
  pe_evaluated_count :: u32

record policy_outcome =
  po_annotated_drifts :: "drift_detail list"
  po_aggregate :: policy_decision
  po_evaluation :: policy_evaluation

definition PROTECTED_RESOURCE_TYPES :: "string list" where
  "PROTECTED_RESOURCE_TYPES =
     [''cloudflare_zone'', ''aws_vpc'', ''aws_eks_cluster'', ''aws_route53_zone'', ''aws_db_instance'', ''aws_rds_cluster'',
      ''aws_s3_bucket'', ''google_dns_managed_zone'', ''azurerm_dns_zone'']"

definition is_protected_resource_type :: "string \<Rightarrow> bool" where
  "is_protected_resource_type resource_type \<longleftrightarrow> resource_type \<in> set PROTECTED_RESOURCE_TYPES"

definition is_destructive_action :: "string \<Rightarrow> bool" where
  "is_destructive_action action \<longleftrightarrow> parse_action action = Some Delete \<or> parse_action action = Some Replace"

definition is_known_nondestructive_action :: "string \<Rightarrow> bool" where
  "is_known_nondestructive_action action \<longleftrightarrow> parse_action action = Some Create \<or> parse_action action = Some Update"

text \<open>\<open>address.split('.').next()\<close>, which always has a first part.\<close>

definition resource_type_of :: "string \<Rightarrow> string" where
  "resource_type_of address = hd (split_at CHR ''.'' address)"

section \<open>Globs\<close>

definition ends_with :: "string \<Rightarrow> string \<Rightarrow> bool" where
  "ends_with s p \<longleftrightarrow> length p \<le> length s \<and> drop (length s - length p) s = p"

text \<open>\<open>str::find\<close>: the first position at which the text starts with the part.\<close>

definition str_find :: "string \<Rightarrow> string \<Rightarrow> nat option" where
  "str_find s p = List.find (\<lambda>i. starts_with (drop i s) p) [0..<length s + 1]"

fun glob_loop :: "string \<Rightarrow> nat \<Rightarrow> nat \<Rightarrow> string list \<Rightarrow> nat \<Rightarrow> bool" where
  "glob_loop input lst i [] cursor = True"
| "glob_loop input lst i (part # parts) cursor =
     (if part = [] then glob_loop input lst (i + 1) parts cursor
      else if i = 0 then
        (if \<not> starts_with (drop cursor input) part then False
         else glob_loop input lst (i + 1) parts (cursor + length part))
      else if i = lst then
        (if \<not> ends_with input part then False
         else let suffix_start = length input - length part
              in if suffix_start < cursor then False else glob_loop input lst (i + 1) parts cursor)
      else (case str_find (drop cursor input) part of
              Some idx \<Rightarrow> glob_loop input lst (i + 1) parts (cursor + (idx + length part))
            | None \<Rightarrow> False))"

definition glob_match :: "string \<Rightarrow> string \<Rightarrow> bool" where
  "glob_match pattern input =
     (if pattern = ''*'' then True
      else if CHR ''*'' \<notin> set pattern then pattern = input
      else let parts = split_at CHR ''*'' pattern in glob_loop input (length parts - 1) 0 parts 0)"

section \<open>Rules\<close>

record compiled_rule =
  cr_rule :: policy_rule
  cr_address_regexes :: "(string \<Rightarrow> bool) list"

definition compile_rule :: "(string \<Rightarrow> (string \<Rightarrow> bool) option) \<Rightarrow> policy_rule \<Rightarrow> compiled_rule" where
  "compile_rule R rule = \<lparr>cr_rule = rule, cr_address_regexes = List.map_filter R (pm_address_patterns (pr_match rule))\<rparr>"

definition unrecognized_wire_values :: "string list \<Rightarrow> (string \<Rightarrow> 'a option) \<Rightarrow> string list" where
  "unrecognized_wire_values vs parse_wire = filter (\<lambda>v. parse_wire v = None) vs"

definition actions_match :: "string list \<Rightarrow> string \<Rightarrow> bool" where
  "actions_match m_actions d_action =
     (if m_actions = [] then True
      else (case parse_action d_action of
              None \<Rightarrow> False
            | Some action \<Rightarrow> list_ex (\<lambda>a. parse_action a = Some action) m_actions))"

definition risk_levels_match :: "string list \<Rightarrow> string \<Rightarrow> bool" where
  "risk_levels_match m_risk_levels d_risk =
     (if m_risk_levels = [] then True
      else (case parse_risk d_risk of
              None \<Rightarrow> False
            | Some risk \<Rightarrow> list_ex (\<lambda>r. parse_risk r = Some risk) m_risk_levels))"

definition rule_matches :: "compiled_rule \<Rightarrow> drift_detail \<Rightarrow> bool" where
  "rule_matches c d =
     (let m = pr_match (cr_rule c) in
      if pm_resource_types m \<noteq> [] \<and> \<not> list_ex (\<lambda>g. glob_match g (resource_type_of (dd_address d))) (pm_resource_types m) then False
      else if pm_address_patterns m \<noteq> [] \<and> cr_address_regexes c = [] then False
      else if pm_address_patterns m \<noteq> [] \<and> \<not> list_ex (\<lambda>re. re (dd_address d)) (cr_address_regexes c) then False
      else if \<not> actions_match (pm_actions m) (dd_action d) then False
      else if \<not> risk_levels_match (pm_risk_levels m) (dd_risk d) then False
      else if pm_attributes m \<noteq> []
          \<and> \<not> list_ex (\<lambda>attr. list_ex (\<lambda>g. glob_match g attr) (pm_attributes m)) (dd_attributes d) then False
      else True)"

section \<open>Evaluation\<close>

definition decide_change :: "compiled_rule list \<Rightarrow> policy_decision \<Rightarrow> drift_detail \<Rightarrow> policy_decision \<times> string" where
  "decide_change compiled fallback d =
     (case List.find (\<lambda>r. rule_matches r d) compiled of
        Some r \<Rightarrow> (pr_decision (cr_rule r), pr_name (cr_rule r))
      | None \<Rightarrow>
          (let resource_type = resource_type_of (dd_address d) in
           if fallback = AutoApply \<and> is_protected_resource_type resource_type \<and> is_destructive_action (dd_action d)
           then (RequireApproval, ''<protected-resource-floor>'')
           else if fallback = RequireApproval \<and> is_known_nondestructive_action (dd_action d)
             \<and> \<not> is_protected_resource_type resource_type
           then (AutoApply, ''<default-nondestructive>'')
           else (fallback, ''<default>'')))"

record tally =
  tl_auto :: u32
  tl_approval :: u32
  tl_refuse :: u32
  tl_refused :: "string list"

definition count_decision :: "policy_decision \<Rightarrow> string \<Rightarrow> tally \<Rightarrow> tally" where
  "count_decision decision address n =
     (case decision of
        AutoApply \<Rightarrow> n\<lparr>tl_auto := tl_auto n + 1\<rparr>
      | RequireApproval \<Rightarrow> n\<lparr>tl_approval := tl_approval n + 1\<rparr>
      | Refuse \<Rightarrow>
          n\<lparr>tl_refuse := tl_refuse n + 1,
            tl_refused := (if length (tl_refused n) < 10 then tl_refused n @ [address] else tl_refused n)\<rparr>)"

fun evaluate_loop ::
    "compiled_rule list \<Rightarrow> policy_decision \<Rightarrow> drift_detail list \<Rightarrow> tally \<Rightarrow> drift_detail list \<times> tally" where
  "evaluate_loop compiled fallback [] n = ([], n)"
| "evaluate_loop compiled fallback (d # ds) n =
     (let (decision, matched) = decide_change compiled fallback d;
          (rest, n) = evaluate_loop compiled fallback ds (count_decision decision (dd_address d) n)
      in (d\<lparr>dd_policy_decision := Some (decision_as_str decision), dd_matched_policy := Some matched\<rparr> # rest, n))"

definition aggregate_of :: "tally \<Rightarrow> policy_decision \<Rightarrow> policy_decision" where
  "aggregate_of n fallback =
     (if 0 < tl_refuse n then Refuse
      else if 0 < tl_approval n then RequireApproval
      else if 0 < tl_auto n then AutoApply
      else fallback)"

definition evaluate ::
    "(string \<Rightarrow> (string \<Rightarrow> bool) option) \<Rightarrow> policy_rule list \<Rightarrow> policy_decision option \<Rightarrow> drift_detail list \<Rightarrow> policy_outcome" where
  "evaluate R rules default_decision drifts =
     (let compiled = map (compile_rule R) rules;
          fallback = (case default_decision of Some dec \<Rightarrow> dec | None \<Rightarrow> AutoApply);
          (annotated, n) = evaluate_loop compiled fallback drifts \<lparr>tl_auto = 0, tl_approval = 0, tl_refuse = 0, tl_refused = []\<rparr>;
          aggregate = aggregate_of n fallback
      in \<lparr>po_annotated_drifts = annotated, po_aggregate = aggregate,
          po_evaluation = \<lparr>pe_aggregate = decision_as_str aggregate, pe_auto_apply_count = tl_auto n,
            pe_require_approval_count = tl_approval n, pe_refuse_count = tl_refuse n, pe_refused_addresses = tl_refused n,
            pe_evaluated_count = of_nat (length drifts)\<rparr>\<rparr>)"

definition is_configured :: "policy_rule list \<Rightarrow> policy_decision option \<Rightarrow> bool" where
  "is_configured rules default_decision \<longleftrightarrow> rules \<noteq> [] \<or> default_decision \<noteq> None"

section \<open>The glob matcher is a glob matcher\<close>

text \<open>The meaning of a pattern: a star stands for any text, every other character for itself.\<close>

fun glob :: "string \<Rightarrow> string \<Rightarrow> bool" where
  "glob [] s \<longleftrightarrow> s = []"
| "glob (c # p) s \<longleftrightarrow>
     (if c = CHR ''*'' then \<exists>g r. s = g @ r \<and> glob p r else \<exists>r. s = c # r \<and> glob p r)"

text \<open>The same for the parts between the stars, after the first: each part somewhere after the
  one before, and the last one at the end.\<close>

fun parts_match :: "string list \<Rightarrow> string \<Rightarrow> bool" where
  "parts_match [] s \<longleftrightarrow> False"
| "parts_match [l] s \<longleftrightarrow> (\<exists>g. s = g @ l)"
| "parts_match (m # ms) s \<longleftrightarrow> (\<exists>g r. s = g @ m @ r \<and> parts_match ms r)"

lemma glob_literal: "CHR ''*'' \<notin> set w \<Longrightarrow> glob (w @ p) s \<longleftrightarrow> (\<exists>r. s = w @ r \<and> glob p r)"
  by (induction w arbitrary: s) auto

lemma glob_plain: "CHR ''*'' \<notin> set w \<Longrightarrow> glob w s \<longleftrightarrow> s = w"
  using glob_literal [of w "[]"] by simp

lemma parts_match_Cons: "ms \<noteq> [] \<Longrightarrow> parts_match (m # ms) s \<longleftrightarrow> (\<exists>g r. s = g @ m @ r \<and> parts_match ms r)"
  by (cases ms) simp_all

lemma parts_match_prepend:
  assumes "parts_match ms r"
  shows "parts_match ms (g @ r)"
proof -
  obtain m ms' where ms: "ms = m # ms'" using assms by (cases ms) simp_all
  show ?thesis
  proof (cases "ms' = []")
    case True
    with assms ms obtain h where "r = h @ m" by auto
    then have "g @ r = (g @ h) @ m" by simp
    with True ms show ?thesis unfolding parts_match.simps by simp
  next
    case False
    with assms ms obtain h q where "r = h @ m @ q" and q: "parts_match ms' q" by (auto simp: parts_match_Cons)
    then have "g @ r = (g @ h) @ m @ q" by simp
    with q False ms show ?thesis by (metis parts_match_Cons)
  qed
qed

lemma glob_parts:
  assumes "ws \<noteq> []" and "\<forall>w \<in> set ws. CHR ''*'' \<notin> set w"
  shows "(\<exists>g r. s = g @ r \<and> glob (join_with ''*'' ws) r) \<longleftrightarrow> parts_match ws s"
  using assms
proof (induction ws arbitrary: s)
  case (Cons w ws)
  show ?case
  proof (cases "ws = []")
    case True
    with Cons.prems show ?thesis by (auto simp: glob_plain)
  next
    case False
    have "glob (join_with ''*'' (w # ws)) r \<longleftrightarrow> (\<exists>q. r = w @ q \<and> parts_match ws q)" for r
      using Cons.IH [OF False] Cons.prems glob_literal [of w "CHR ''*'' # join_with ''*'' ws" r] False
      by (simp add: join_with_Cons)
    then show ?thesis using parts_match_Cons [OF False, of w s] by auto
  qed
qed simp

lemma str_find_Some:
  assumes "str_find s p = Some i"
  shows "i \<le> length s" and "starts_with (drop i s) p" and "j < i \<Longrightarrow> \<not> starts_with (drop j s) p"
  using assms unfolding str_find_def find_Some_iff
  by (auto simp del: upt_Suc simp: nth_upt)

lemma str_find_None: "str_find s p = None \<Longrightarrow> j \<le> length s \<Longrightarrow> \<not> starts_with (drop j s) p"
  by (auto simp: str_find_def find_None_iff simp del: upt_Suc)

text \<open>Taking the first occurrence of a part loses no match.\<close>

lemma parts_match_first:
  assumes "ms \<noteq> []"
  shows "parts_match (m # ms) s \<longleftrightarrow>
    (case str_find s m of Some i \<Rightarrow> parts_match ms (drop (i + length m) s) | None \<Rightarrow> False)"
proof (cases "str_find s m")
  case None
  have False if "s = g @ m @ r" for g r
    using str_find_None [OF None, of "length g"] that by (simp add: starts_with_iff)
  with None assms show ?thesis by (auto simp: parts_match_Cons)
next
  case (Some i)
  from str_find_Some [OF Some] obtain q where q: "drop i s = m @ q" and i: "i \<le> length s" by (auto simp: starts_with_iff)
  have s: "s = take i s @ m @ q" by (metis append_take_drop_id q)
  then have drop: "drop (i + length m) s = q" by (metis append_eq_conv_conj drop_drop add.commute q)
  have "parts_match ms q" if "s = g @ m @ r" "parts_match ms r" for g r
  proof -
    have "i \<le> length g" using str_find_Some(3) [OF Some, of "length g"] that(1) by (fastforce simp: starts_with_iff)
    have "r = drop (length g + length m) s" using that(1) by simp
    also have "\<dots> = drop (length g - i) q" using drop \<open>i \<le> length g\<close> by (metis add.assoc add.commute drop_drop le_add_diff_inverse)
    finally have "q = take (length g - i) q @ r" by simp
    with parts_match_prepend [OF that(2)] show ?thesis by metis
  qed
  with s show ?thesis unfolding Some option.case drop using assms by (auto simp: parts_match_Cons)
qed

lemma suffix_after:
  assumes "cursor \<le> length input"
  shows "ends_with input w \<and> cursor \<le> length input - length w \<longleftrightarrow> (\<exists>g. drop cursor input = g @ w) \<or> w = [] "
proof (cases "w = []")
  case True
  then show ?thesis using assms by (simp add: ends_with_def)
next
  case False
  have "ends_with input w \<and> cursor \<le> length input - length w" if "drop cursor input = g @ w" for g
  proof -
    have "input = (take cursor input @ g) @ w" using that by (metis append.assoc append_take_drop_id)
    then have "length input = cursor + length g + length w" "drop (cursor + length g) input = w"
      using assms by (metis append.assoc append_eq_conv_conj length_append length_take min.absorb2)+
    then show ?thesis by (simp add: ends_with_def)
  qed
  moreover have "\<exists>g. drop cursor input = g @ w" if e: "ends_with input w" "cursor \<le> length input - length w"
  proof -
    have "drop cursor input = take (length input - length w - cursor) (drop cursor input) @ drop (length input - length w) input"
    proof -
      have "length input - length w - cursor + cursor = length input - length w" using e(2) by simp
      then have "drop (length input - length w - cursor) (drop cursor input) = drop (length input - length w) input"
        by (simp only: drop_drop)
      then show ?thesis by (metis append_take_drop_id)
    qed
    then show ?thesis using e(1) by (auto simp: ends_with_def)
  qed
  ultimately show ?thesis using False by blast
qed

lemma glob_loop_rest:
  assumes "0 < i" and "i + length ws = lst + 1" and "ws \<noteq> []" and "cursor \<le> length input"
  shows "glob_loop input lst i ws cursor \<longleftrightarrow> parts_match ws (drop cursor input)"
  using assms
proof (induction ws arbitrary: i cursor)
  case (Cons w ws)
  show ?case
  proof (cases "ws = []")
    case True
    with Cons.prems have "i = lst" by simp
    with True Cons.prems suffix_after [OF Cons.prems(4), of w] show ?thesis by (auto simp: Let_def not_less)
  next
    case False
    have IH: "glob_loop input lst (i + 1) ws c \<longleftrightarrow> parts_match ws (drop c input)" if "c \<le> length input" for c
      using Cons.prems False that by (intro Cons.IH) auto
    show ?thesis
    proof (cases "w = []")
      case True
      then have "parts_match (w # ws) (drop cursor input) \<longleftrightarrow> parts_match ws (drop cursor input)"
        using parts_match_prepend [of ws] False by (auto simp: parts_match_Cons)
      with IH [OF Cons.prems(4)] True show ?thesis by simp
    next
      case nonempty: False
      have "i \<noteq> lst" using Cons.prems(2) False by (cases ws) auto
      show ?thesis
      proof (cases "str_find (drop cursor input) w")
        case None
        with nonempty \<open>i \<noteq> lst\<close> Cons.prems(1) parts_match_first [OF False, of w] show ?thesis by simp
      next
        case (Some idx)
        from str_find_Some(1,2) [OF Some] have "cursor + (idx + length w) \<le> length input"
          using Cons.prems(4) by (auto simp: starts_with_iff dest!: arg_cong [where f = length])
        from IH [OF this] Some nonempty \<open>i \<noteq> lst\<close> Cons.prems(1) parts_match_first [OF False, of w "drop cursor input"]
        show ?thesis by (simp add: add.commute add.left_commute)
      qed
    qed
  qed
qed simp

text \<open>C36: The hand-written glob matcher is exact: for every pattern and every text, its single
  left-to-right walk over the parts between the stars answers whether the text can be obtained by
  replacing each star with some text.\<close>

theorem glob_match_exact: "glob_match pattern input \<longleftrightarrow> glob pattern input"
proof (cases "CHR ''*'' \<in> set pattern")
  case False
  then have "pattern \<noteq> ''*''" by auto
  with False show ?thesis by (auto simp: glob_match_def glob_plain)
next
  case True
  let ?parts = "split_at CHR ''*'' pattern"
  have joined: "join_with ''*'' ?parts = pattern" by (rule join_split_at)
  obtain w ws where parts: "?parts = w # ws" by (cases ?parts) simp_all
  have free: "\<forall>v \<in> set (w # ws). CHR ''*'' \<notin> set v" using split_at_no_sep [of _ "CHR ''*''" pattern] parts by simp
  have ws: "ws \<noteq> []" using joined parts True free by auto
  have glob: "glob pattern input \<longleftrightarrow> (\<exists>r. input = w @ r \<and> parts_match ws r)"
    using glob_literal [of w "CHR ''*'' # join_with ''*'' ws" input] glob_parts [OF ws] free joined ws
    by (simp add: parts join_with_Cons)
  have loop: "glob_loop input (length ?parts - 1) 0 ?parts 0 \<longleftrightarrow> (\<exists>r. input = w @ r \<and> parts_match ws r)"
  proof (cases "starts_with input w")
    case True
    then obtain r where r: "input = w @ r" by (auto simp: starts_with_iff)
    have "glob_loop input (length ws) 1 ws (length w) \<longleftrightarrow> parts_match ws r"
      using glob_loop_rest [of 1 ws "length ws" "length w" input] ws r by simp
    with True r show ?thesis by (cases "w = []") (simp_all add: parts)
  next
    case False
    then have "w \<noteq> []" by (auto simp: starts_with_iff)
    with False show ?thesis by (auto simp: parts starts_with_iff)
  qed
  show ?thesis
  proof (cases "pattern = ''*''")
    case True
    then show ?thesis by (simp add: glob_match_def)
  next
    case False
    then show ?thesis unfolding glob_match_def Let_def using True glob loop by simp
  qed
qed

section \<open>The gate\<close>

abbreviation empty_tally :: tally where
  "empty_tally \<equiv> \<lparr>tl_auto = 0, tl_approval = 0, tl_refuse = 0, tl_refused = []\<rparr>"

definition annotate :: "compiled_rule list \<Rightarrow> policy_decision \<Rightarrow> drift_detail \<Rightarrow> drift_detail" where
  "annotate compiled fallback d =
     d\<lparr>dd_policy_decision := Some (decision_as_str (fst (decide_change compiled fallback d))),
       dd_matched_policy := Some (snd (decide_change compiled fallback d))\<rparr>"

definition with_decision :: "compiled_rule list \<Rightarrow> policy_decision \<Rightarrow> policy_decision \<Rightarrow> drift_detail list \<Rightarrow> drift_detail list" where
  "with_decision compiled fallback x ds = filter (\<lambda>d. fst (decide_change compiled fallback d) = x) ds"

lemma evaluate_loop_eq:
  assumes "length (tl_refused n) \<le> 10"
  shows "evaluate_loop compiled fallback ds n =
    (map (annotate compiled fallback) ds,
     \<lparr>tl_auto = tl_auto n + of_nat (length (with_decision compiled fallback AutoApply ds)),
      tl_approval = tl_approval n + of_nat (length (with_decision compiled fallback RequireApproval ds)),
      tl_refuse = tl_refuse n + of_nat (length (with_decision compiled fallback Refuse ds)),
      tl_refused = take 10 (tl_refused n @ map dd_address (with_decision compiled fallback Refuse ds))\<rparr>)"
  using assms
proof (induction ds arbitrary: n)
  case Nil
  then show ?case by (simp add: with_decision_def)
next
  case (Cons d ds)
  obtain x m where x: "decide_change compiled fallback d = (x, m)" by fastforce
  let ?n = "count_decision x (dd_address d) n"
  have le: "length (tl_refused ?n) \<le> 10" using Cons.prems by (cases x) (auto simp: count_decision_def)
  show ?case
    unfolding evaluate_loop.simps Let_def x prod.case Cons.IH [OF le]
    using Cons.prems by (cases x) (auto simp: count_decision_def with_decision_def annotate_def x take_Cons')
qed

lemma find_map_eq: "List.find P (map f xs) = map_option f (List.find (\<lambda>x. P (f x)) xs)"
  by (induction xs) auto

definition rule_for :: "(string \<Rightarrow> (string \<Rightarrow> bool) option) \<Rightarrow> policy_rule list \<Rightarrow> drift_detail \<Rightarrow> policy_rule option" where
  "rule_for R rules d = List.find (\<lambda>r. rule_matches (compile_rule R r) d) rules"

definition fallback_of :: "policy_decision option \<Rightarrow> policy_decision" where
  "fallback_of default_decision = (case default_decision of Some x \<Rightarrow> x | None \<Rightarrow> AutoApply)"

text \<open>The decision a change gets, from its first matching rule or from the default and the two
  floors.\<close>

definition decision_for ::
    "(string \<Rightarrow> (string \<Rightarrow> bool) option) \<Rightarrow> policy_rule list \<Rightarrow> policy_decision option \<Rightarrow> drift_detail \<Rightarrow> policy_decision" where
  "decision_for R rules default_decision d =
     (case rule_for R rules d of
        Some r \<Rightarrow> pr_decision r
      | None \<Rightarrow>
          (case fallback_of default_decision of
             Refuse \<Rightarrow> Refuse
           | AutoApply \<Rightarrow>
               if is_protected_resource_type (resource_type_of (dd_address d)) \<and> is_destructive_action (dd_action d)
               then RequireApproval else AutoApply
           | RequireApproval \<Rightarrow>
               if is_known_nondestructive_action (dd_action d) \<and> \<not> is_protected_resource_type (resource_type_of (dd_address d))
               then AutoApply else RequireApproval))"

lemma decide_change_eq: "fst (decide_change (map (compile_rule R) rules) (fallback_of dflt) d) = decision_for R rules dflt d"
  by (auto simp: decide_change_def decision_for_def rule_for_def find_map_eq compile_rule_def Let_def
      split: option.splits policy_decision.splits)

lemma evaluate_eq:
  fixes R rules dflt drifts tally_of
  defines "tally_of \<equiv> \<lambda>x. of_nat (length (filter (\<lambda>d. decision_for R rules dflt d = x) drifts)) :: u32"
  shows "po_annotated_drifts (evaluate R rules dflt drifts) = map (annotate (map (compile_rule R) rules) (fallback_of dflt)) drifts"
    and "po_aggregate (evaluate R rules dflt drifts) =
      (if 0 < tally_of Refuse then Refuse else if 0 < tally_of RequireApproval then RequireApproval
       else if 0 < tally_of AutoApply then AutoApply else fallback_of dflt)"
    and "pe_refuse_count (po_evaluation (evaluate R rules dflt drifts)) = tally_of Refuse"
    and "pe_require_approval_count (po_evaluation (evaluate R rules dflt drifts)) = tally_of RequireApproval"
    and "pe_auto_apply_count (po_evaluation (evaluate R rules dflt drifts)) = tally_of AutoApply"
    and "pe_refused_addresses (po_evaluation (evaluate R rules dflt drifts)) =
      take 10 (map dd_address (filter (\<lambda>d. decision_for R rules dflt d = Refuse) drifts))"
    and "pe_evaluated_count (po_evaluation (evaluate R rules dflt drifts)) = of_nat (length drifts)"
  unfolding evaluate_def Let_def fallback_of_def [symmetric] tally_of_def
  by (simp_all add: evaluate_loop_eq with_decision_def decide_change_eq aggregate_of_def)

lemma count_positive:
  assumes "length xs < 2 ^ 32"
  shows "0 < (of_nat (length (filter P xs)) :: u32) \<longleftrightarrow> (\<exists>x \<in> set xs. P x)"
proof -
  define n where "n = length (filter P xs)"
  have "n < 2 ^ 32" using assms length_filter_le [of P xs] unfolding n_def by linarith
  then have "unat (of_nat n :: u32) = n" by (simp add: unat_of_nat)
  then have "0 < (of_nat n :: u32) \<longleftrightarrow> 0 < n" by (simp add: word_less_nat_alt)
  also have "\<dots> \<longleftrightarrow> (\<exists>x \<in> set xs. P x)" by (auto simp: n_def filter_empty_conv)
  finally show ?thesis by (simp add: n_def)
qed


definition vpc_delete :: drift_detail where
  "vpc_delete = \<lparr>dd_address = ''aws_vpc.main'', dd_action = ''delete'', dd_risk = ''high'', dd_attributes = [],
     dd_policy_decision = None, dd_matched_policy = None\<rparr>"


text \<open>The floor reads the type off the first part of the address, so a protected resource inside
  a module is not recognised.\<close>

lemma floor_misses_modules:
  "po_aggregate (evaluate (\<lambda>_. None) [] None [vpc_delete\<lparr>dd_address := ''module.net.aws_vpc.main''\<rparr>]) = AutoApply"
  by code_simp

end
