(* ===== verification/Operator_Policy.thy ===== *)
theory Operator_Policy
  imports Reconciler
begin

text \<open>
  The cluster-wide pause (\<open>pangea-operator/src/crd/operator_policy.rs\<close>,
  \<open>controller/operator_policy_cache.rs\<close>, \<open>controller/policy_gate.rs\<close>,
  \<open>controller/policy_pipeline.rs\<close>): the policy object, the ladder that resolves the state of one
  workspace, and the gates every reconcile passes first.

  The cache is a record of the current spec and the skip counter (an \<open>AtomicU64\<close>, which wraps);
  the Prometheus counter of skips is the list of the label triples it was incremented with. Log
  lines are not modelled. A requeue is the duration it names.
\<close>

section \<open>The policy object\<close>

datatype workspace_state = Inherit | Paused | Active

record workspace_suspend_entry =
  we_state :: workspace_state
  we_reason :: "string option"

record workspace_suspend =
  ws_templates :: "(string, workspace_suspend_entry) btmap"
  ws_catalogs :: "(string, workspace_suspend_entry) btmap"

record controller_suspend =
  cs_template :: bool
  cs_namespace :: bool
  cs_workspace_catalog :: bool
  cs_architecture_gem :: bool
  cs_compliance_binding :: bool
  cs_compliance_schedule :: bool
  cs_image_pipeline :: bool
  cs_flow :: bool
  cs_dashboard :: bool
  cs_ami_test :: bool
  cs_packer_build :: bool
  cs_synthesizer_format :: bool

record operator_policy_spec =
  op_global_suspend :: bool
  op_global_suspend_reason :: "string option"
  op_controller_suspend :: controller_suspend
  op_workspace_suspend :: workspace_suspend

definition default_policy_spec :: operator_policy_spec where
  "default_policy_spec =
     \<lparr>op_global_suspend = False, op_global_suspend_reason = None,
      op_controller_suspend = \<lparr>cs_template = False, cs_namespace = False, cs_workspace_catalog = False,
        cs_architecture_gem = False, cs_compliance_binding = False, cs_compliance_schedule = False,
        cs_image_pipeline = False, cs_flow = False, cs_dashboard = False, cs_ami_test = False, cs_packer_build = False,
        cs_synthesizer_format = False\<rparr>,
      op_workspace_suspend = \<lparr>ws_templates = [], ws_catalogs = []\<rparr>\<rparr>"

datatype suspension_source = Global | Controller | Catalog | Workspace

fun source_name :: "suspension_source \<Rightarrow> string" where
  "source_name Global = ''global''" | "source_name Controller = ''controller''"
| "source_name Catalog = ''catalog''" | "source_name Workspace = ''workspace''"

datatype suspension_decision =
    NotSuspended
  | PausedBy "string option" suspension_source
  | ActiveBy "string option" suspension_source

fun is_paused :: "suspension_decision \<Rightarrow> bool" where
  "is_paused (PausedBy _ _) = True"
| "is_paused _ = False"

fun is_active_override :: "suspension_decision \<Rightarrow> bool" where
  "is_active_override (ActiveBy _ _) = True"
| "is_active_override _ = False"

fun decision_source :: "suspension_decision \<Rightarrow> suspension_source option" where
  "decision_source NotSuspended = None"
| "decision_source (PausedBy _ s) = Some s"
| "decision_source (ActiveBy _ s) = Some s"

fun decision_reason :: "suspension_decision \<Rightarrow> string option" where
  "decision_reason NotSuspended = None"
| "decision_reason (PausedBy r _) = r"
| "decision_reason (ActiveBy r _) = r"

datatype controller_kind =
    Template | Namespace | WorkspaceCatalog | ArchitectureGem | ComplianceBinding | ComplianceSchedule
  | ImagePipeline | Flow | Dashboard | AmiTest | PackerBuild | SynthesizerFormat

fun controller_name :: "controller_kind \<Rightarrow> string" where
  "controller_name Template = ''template''"
| "controller_name Namespace = ''namespace''"
| "controller_name WorkspaceCatalog = ''workspaceCatalog''"
| "controller_name ArchitectureGem = ''architectureGem''"
| "controller_name ComplianceBinding = ''complianceBinding''"
| "controller_name ComplianceSchedule = ''complianceSchedule''"
| "controller_name ImagePipeline = ''imagePipeline''"
| "controller_name Flow = ''flow''"
| "controller_name Dashboard = ''dashboard''"
| "controller_name AmiTest = ''amiTest''"
| "controller_name PackerBuild = ''packerBuild''"
| "controller_name SynthesizerFormat = ''synthesizerFormat''"

fun is_set :: "controller_suspend \<Rightarrow> controller_kind \<Rightarrow> bool" where
  "is_set s Template = cs_template s"
| "is_set s Namespace = cs_namespace s"
| "is_set s WorkspaceCatalog = cs_workspace_catalog s"
| "is_set s ArchitectureGem = cs_architecture_gem s"
| "is_set s ComplianceBinding = cs_compliance_binding s"
| "is_set s ComplianceSchedule = cs_compliance_schedule s"
| "is_set s ImagePipeline = cs_image_pipeline s"
| "is_set s Flow = cs_flow s"
| "is_set s Dashboard = cs_dashboard s"
| "is_set s AmiTest = cs_ami_test s"
| "is_set s PackerBuild = cs_packer_build s"
| "is_set s SynthesizerFormat = cs_synthesizer_format s"

definition count_active_overrides :: "workspace_suspend \<Rightarrow> nat" where
  "count_active_overrides w =
     length (filter (\<lambda>e. we_state e = Active) (bm_values (ws_templates w)))
     + length (filter (\<lambda>e. we_state e = Active) (bm_values (ws_catalogs w)))"

definition suspend_key :: "string \<Rightarrow> string \<Rightarrow> string" where
  "suspend_key ns name = ns @ ''/'' @ name"

definition template_entry :: "workspace_suspend \<Rightarrow> string \<Rightarrow> string \<Rightarrow> workspace_suspend_entry option" where
  "template_entry w ns name = bm_get (ws_templates w) (suspend_key ns name)"

definition catalog_entry :: "workspace_suspend \<Rightarrow> string \<Rightarrow> workspace_suspend_entry option" where
  "catalog_entry w name = bm_get (ws_catalogs w) name"

definition OPERATOR_POLICY_SINGLETON :: string where
  "OPERATOR_POLICY_SINGLETON = ''default''"

section \<open>The cache\<close>

record policy_cache =
  pc_snapshot :: operator_policy_spec
  pc_skipped :: u64

definition new_permissive :: policy_cache where
  "new_permissive = \<lparr>pc_snapshot = default_policy_spec, pc_skipped = 0\<rparr>"

definition store :: "operator_policy_spec \<Rightarrow> policy_cache \<Rightarrow> policy_cache" where
  "store spec cache = cache\<lparr>pc_snapshot := spec\<rparr>"

definition bump_skipped :: "policy_cache \<Rightarrow> policy_cache" where
  "bump_skipped cache = cache\<lparr>pc_skipped := pc_skipped cache + 1\<rparr>"

definition is_singleton_name :: "string \<Rightarrow> bool" where
  "is_singleton_name name \<longleftrightarrow> name = OPERATOR_POLICY_SINGLETON"

section \<open>The ladder\<close>

definition POLICY_RECHECK_INTERVAL :: std_duration where
  "POLICY_RECHECK_INTERVAL = from_secs 30"

fun decision_from_entry :: "workspace_suspend_entry \<Rightarrow> suspension_source \<Rightarrow> suspension_decision option" where
  "decision_from_entry e source =
     (case we_state e of
        Inherit \<Rightarrow> None
      | Paused \<Rightarrow> Some (PausedBy (we_reason e) source)
      | Active \<Rightarrow> Some (ActiveBy (we_reason e) source))"

definition resolve_template_state :: "operator_policy_spec \<Rightarrow> string \<Rightarrow> string \<Rightarrow> string option \<Rightarrow> suspension_decision" where
  "resolve_template_state spec ns name parent_catalog =
     (case Option.bind (template_entry (op_workspace_suspend spec) ns name) (\<lambda>e. decision_from_entry e Workspace) of
        Some d \<Rightarrow> d
      | None \<Rightarrow>
          (case Option.bind parent_catalog (\<lambda>c.
              Option.bind (catalog_entry (op_workspace_suspend spec) c) (\<lambda>e. decision_from_entry e Catalog)) of
             Some d \<Rightarrow> d
           | None \<Rightarrow>
               if is_set (op_controller_suspend spec) Template
               then PausedBy (Some (''controllerSuspend.'' @ controller_name Template)) Controller
               else if op_global_suspend spec then PausedBy (op_global_suspend_reason spec) Global
               else NotSuspended))"

definition resolve_catalog_state :: "operator_policy_spec \<Rightarrow> string \<Rightarrow> suspension_decision" where
  "resolve_catalog_state spec name =
     (case Option.bind (catalog_entry (op_workspace_suspend spec) name) (\<lambda>e. decision_from_entry e Workspace) of
        Some d \<Rightarrow> d
      | None \<Rightarrow>
          if is_set (op_controller_suspend spec) WorkspaceCatalog
          then PausedBy (Some (''controllerSuspend.'' @ controller_name WorkspaceCatalog)) Controller
          else if op_global_suspend spec then PausedBy (op_global_suspend_reason spec) Global
          else NotSuspended)"

section \<open>The gates\<close>

record gate_state =
  gs_cache :: policy_cache
  gs_skips :: "(string \<times> string \<times> string) list"

definition evaluate_against_cache :: "controller_kind \<Rightarrow> policy_cache \<Rightarrow> std_duration option \<times> policy_cache" where
  "evaluate_against_cache controller cache =
     (let spec = pc_snapshot cache in
      if op_global_suspend spec then (Some POLICY_RECHECK_INTERVAL, bump_skipped cache)
      else if is_set (op_controller_suspend spec) controller then (Some POLICY_RECHECK_INTERVAL, bump_skipped cache)
      else (None, cache))"

definition check_operator_policy :: "controller_kind \<Rightarrow> gate_state \<Rightarrow> std_duration option \<times> gate_state" where
  "check_operator_policy controller s =
     (let (result, cache) = evaluate_against_cache controller (gs_cache s);
          s = s\<lparr>gs_cache := cache\<rparr>
      in if result \<noteq> None then
           (let source = (if op_global_suspend (pc_snapshot cache) then Global else Controller)
            in (result, s\<lparr>gs_skips := gs_skips s @ [(controller_name controller, source_name source, [])]\<rparr>))
         else (result, s))"

definition check_template_workspace_policy ::
    "string \<Rightarrow> string \<Rightarrow> string option \<Rightarrow> gate_state \<Rightarrow> std_duration option \<times> gate_state" where
  "check_template_workspace_policy ns name parent_catalog s =
     (case resolve_template_state (pc_snapshot (gs_cache s)) ns name parent_catalog of
        NotSuspended \<Rightarrow> (None, s)
      | ActiveBy _ _ \<Rightarrow> (None, s)
      | PausedBy _ source \<Rightarrow>
          (Some POLICY_RECHECK_INTERVAL,
           s\<lparr>gs_cache := bump_skipped (gs_cache s),
             gs_skips := gs_skips s @ [(controller_name Template, source_name source, suspend_key ns name)]\<rparr>))"

definition check_catalog_workspace_policy :: "string \<Rightarrow> gate_state \<Rightarrow> std_duration option \<times> gate_state" where
  "check_catalog_workspace_policy name s =
     (case resolve_catalog_state (pc_snapshot (gs_cache s)) name of
        NotSuspended \<Rightarrow> (None, s)
      | ActiveBy _ _ \<Rightarrow> (None, s)
      | PausedBy _ source \<Rightarrow>
          (Some POLICY_RECHECK_INTERVAL,
           s\<lparr>gs_cache := bump_skipped (gs_cache s),
             gs_skips := gs_skips s @ [(controller_name WorkspaceCatalog, source_name source, name)]\<rparr>))"

definition evaluate_catalog_against_cache :: "string \<Rightarrow> policy_cache \<Rightarrow> std_duration option \<times> policy_cache" where
  "evaluate_catalog_against_cache name cache =
     (case resolve_catalog_state (pc_snapshot cache) name of
        NotSuspended \<Rightarrow> (None, cache)
      | ActiveBy _ _ \<Rightarrow> (None, cache)
      | PausedBy _ _ \<Rightarrow> (Some POLICY_RECHECK_INTERVAL, bump_skipped cache))"

section \<open>The pipeline\<close>

datatype pre_reconcile_decision = Proceed | SkipWith std_duration

fun into_skip_action :: "pre_reconcile_decision \<Rightarrow> std_duration option" where
  "into_skip_action Proceed = None"
| "into_skip_action (SkipWith a) = Some a"

definition run_for_template :: "string \<Rightarrow> string \<Rightarrow> string option \<Rightarrow> gate_state \<Rightarrow> pre_reconcile_decision \<times> gate_state" where
  "run_for_template ns name parent_catalog s =
     (case check_operator_policy Template s of
        (Some action, s) \<Rightarrow> (SkipWith action, s)
      | (None, s) \<Rightarrow>
          (case check_template_workspace_policy ns name parent_catalog s of
             (Some action, s) \<Rightarrow> (SkipWith action, s)
           | (None, s) \<Rightarrow> (Proceed, s)))"

definition run_for_controller :: "controller_kind \<Rightarrow> gate_state \<Rightarrow> pre_reconcile_decision \<times> gate_state" where
  "run_for_controller controller s =
     (case check_operator_policy controller s of
        (Some action, s) \<Rightarrow> (SkipWith action, s)
      | (None, s) \<Rightarrow> (Proceed, s))"

definition run_for_controller_with_cache :: "controller_kind \<Rightarrow> policy_cache \<Rightarrow> pre_reconcile_decision \<times> policy_cache" where
  "run_for_controller_with_cache controller cache =
     (case evaluate_against_cache controller cache of
        (Some action, cache) \<Rightarrow> (SkipWith action, cache)
      | (None, cache) \<Rightarrow> (Proceed, cache))"

definition run_for_catalog_with_cache :: "string \<Rightarrow> policy_cache \<Rightarrow> pre_reconcile_decision \<times> policy_cache" where
  "run_for_catalog_with_cache name cache =
     (case evaluate_catalog_against_cache name cache of
        (Some action, cache) \<Rightarrow> (SkipWith action, cache)
      | (None, cache) \<Rightarrow> (Proceed, cache))"

section \<open>What the gates decide\<close>

text \<open>The ladder as the policy object documents it: the decisions of the layers from the most
  specific down, of which the first one counts.\<close>

definition entry_layer :: "workspace_suspend_entry option \<Rightarrow> suspension_source \<Rightarrow> suspension_decision option" where
  "entry_layer e source = Option.bind e (\<lambda>e. decision_from_entry e source)"

definition binary_layers :: "operator_policy_spec \<Rightarrow> controller_kind \<Rightarrow> suspension_decision option list" where
  "binary_layers spec ck =
     [if is_set (op_controller_suspend spec) ck then Some (PausedBy (Some (''controllerSuspend.'' @ controller_name ck)) Controller) else None,
      if op_global_suspend spec then Some (PausedBy (op_global_suspend_reason spec) Global) else None]"

definition template_ladder :: "operator_policy_spec \<Rightarrow> string \<Rightarrow> string \<Rightarrow> string option \<Rightarrow> suspension_decision option list" where
  "template_ladder spec ns name parent =
     entry_layer (template_entry (op_workspace_suspend spec) ns name) Workspace
     # entry_layer (Option.bind parent (catalog_entry (op_workspace_suspend spec))) Catalog
     # binary_layers spec Template"

definition catalog_ladder :: "operator_policy_spec \<Rightarrow> string \<Rightarrow> suspension_decision option list" where
  "catalog_ladder spec name =
     entry_layer (catalog_entry (op_workspace_suspend spec) name) Workspace # binary_layers spec WorkspaceCatalog"

definition first_decision :: "suspension_decision option list \<Rightarrow> suspension_decision" where
  "first_decision layers = (case List.find (\<lambda>l. l \<noteq> None) layers of Some (Some d) \<Rightarrow> d | _ \<Rightarrow> NotSuspended)"

lemma resolve_template_ladder: "resolve_template_state spec ns name parent = first_decision (template_ladder spec ns name parent)"
  by (cases parent)
    (auto simp: resolve_template_state_def first_decision_def template_ladder_def entry_layer_def binary_layers_def
      split: option.splits)

lemma resolve_catalog_ladder: "resolve_catalog_state spec name = first_decision (catalog_ladder spec name)"
  by (auto simp: resolve_catalog_state_def first_decision_def catalog_ladder_def entry_layer_def binary_layers_def
      split: option.splits)

lemma run_for_template_cases:
  obtains (switch) source where "op_global_suspend (pc_snapshot (gs_cache s)) \<or> is_set (op_controller_suspend (pc_snapshot (gs_cache s))) Template"
      "run_for_template ns name parent s = (SkipWith POLICY_RECHECK_INTERVAL,
         s\<lparr>gs_cache := bump_skipped (gs_cache s), gs_skips := gs_skips s @ [(''template'', source, [])]\<rparr>)"
  | (workspace) source where "\<not> op_global_suspend (pc_snapshot (gs_cache s))" "\<not> is_set (op_controller_suspend (pc_snapshot (gs_cache s))) Template"
      "is_paused (resolve_template_state (pc_snapshot (gs_cache s)) ns name parent)"
      "run_for_template ns name parent s = (SkipWith POLICY_RECHECK_INTERVAL,
         s\<lparr>gs_cache := bump_skipped (gs_cache s), gs_skips := gs_skips s @ [(''template'', source, suspend_key ns name)]\<rparr>)"
  | (pass) "\<not> op_global_suspend (pc_snapshot (gs_cache s))" "\<not> is_set (op_controller_suspend (pc_snapshot (gs_cache s))) Template"
      "\<not> is_paused (resolve_template_state (pc_snapshot (gs_cache s)) ns name parent)"
      "run_for_template ns name parent s = (Proceed, s)"
proof (cases "op_global_suspend (pc_snapshot (gs_cache s)) \<or> is_set (op_controller_suspend (pc_snapshot (gs_cache s))) Template")
  case True
  then show ?thesis
    using switch [of "source_name (if op_global_suspend (pc_snapshot (gs_cache s)) then Global else Controller)"]
    by (auto simp: run_for_template_def check_operator_policy_def evaluate_against_cache_def bump_skipped_def Let_def)
next
  case False
  then have check: "check_operator_policy Template s = (None, s)"
    by (simp add: check_operator_policy_def evaluate_against_cache_def)
  show ?thesis
  proof (cases "resolve_template_state (pc_snapshot (gs_cache s)) ns name parent")
    case (PausedBy r source)
    then show ?thesis using workspace [of "source_name source"] False
      by (simp add: run_for_template_def check check_template_workspace_policy_def)
  qed (use pass False in \<open>simp_all add: run_for_template_def check check_template_workspace_policy_def\<close>)
qed


definition carved_out_policy :: operator_policy_spec where
  "carved_out_policy = default_policy_spec\<lparr>op_global_suspend := True,
     op_workspace_suspend := \<lparr>ws_templates = [(''prod/app'', \<lparr>we_state = Active, we_reason = None\<rparr>)], ws_catalogs = []\<rparr>\<rparr>"

text \<open>The ladder resolves this template to an active override, and the pipeline skips it.\<close>

lemma carve_out_ineffective:
  "is_active_override (resolve_template_state carved_out_policy ''prod'' ''app'' None)
   \<and> fst (run_for_template ''prod'' ''app'' None \<lparr>gs_cache = store carved_out_policy new_permissive, gs_skips = []\<rparr>)
       = SkipWith POLICY_RECHECK_INTERVAL"
  by code_simp

text \<open>The same at the catalog, where the two gates run one after the other.\<close>

lemma catalog_gate:
  "fst (run_for_controller_with_cache WorkspaceCatalog cache) = Proceed \<Longrightarrow>
   fst (run_for_catalog_with_cache name cache) = Proceed \<longleftrightarrow> \<not> is_paused (first_decision (catalog_ladder (pc_snapshot cache) name))"
  by (auto simp: run_for_catalog_with_cache_def evaluate_catalog_against_cache_def resolve_catalog_ladder
      split: suspension_decision.splits)

end
