(* ===== verification/Settling.thy ===== *)
theory Settling
  imports Policy
begin

text \<open>
  The settling tracker (\<open>pangea-operator/src/controller/settling.rs\<close> and the policy types of
  \<open>crd/infrastructure_template.rs\<close>): how many drift checks in a row found drift, whether the drift
  is the one of the check before, and what the template does about it.

  The algorithm of the standard library's \<open>DefaultHasher\<close> is left open by its documentation, so the
  hash of the bytes written to it is a parameter \<open>S\<close>. Hashing a text writes its bytes and a final
  0xff.
\<close>

section \<open>Data\<close>

datatype settling_exhaustion_action = Fail | Alert | Continue

record settling_policy =
  sp_max_consecutive_drift_cycles :: u32
  sp_on_exhaustion :: settling_exhaustion_action

definition default_max_drift_cycles :: u32 where
  "default_max_drift_cycles = 5"

definition default_settling :: settling_policy where
  "default_settling = \<lparr>sp_max_consecutive_drift_cycles = default_max_drift_cycles, sp_on_exhaustion = Fail\<rparr>"

datatype settling_outcome =
    Settled
  | Progressing u32
  | StuckByFingerprint u32 string "string list"
  | StuckByCount u32 "string list"

fun is_stuck :: "settling_outcome \<Rightarrow> bool" where
  "is_stuck (StuckByFingerprint _ _ _) = True"
| "is_stuck (StuckByCount _ _) = True"
| "is_stuck _ = False"

fun cycle_count :: "settling_outcome \<Rightarrow> u32" where
  "cycle_count Settled = 0"
| "cycle_count (Progressing cycles) = cycles"
| "cycle_count (StuckByFingerprint cycles _ _) = cycles"
| "cycle_count (StuckByCount cycles _) = cycles"

datatype settling_action = AcceptSettled | KeepTrying | AlertButContinue | EscalateToFailed

section \<open>The fingerprint of a drift\<close>

definition hash_str :: "string \<Rightarrow> string" where
  "hash_str s = s @ [char_of (255 :: nat)]"

definition hex_digit :: "nat \<Rightarrow> char" where
  "hex_digit n = (if n < 10 then char_of (48 + n) else char_of (87 + n))"

text \<open>The format \<open>{:016x}\<close>.\<close>

definition hex16 :: "u64 \<Rightarrow> string" where
  "hex16 w = map (\<lambda>i. hex_digit (unat w div 16 ^ (15 - i) mod 16)) [0..<16]"

definition drift_entry :: "drift_detail \<Rightarrow> string \<times> string \<times> string list" where
  "drift_entry d = (dd_address d, dd_action d, sort (dd_attributes d))"

definition entry_bytes :: "string \<times> string \<times> string list \<Rightarrow> string" where
  "entry_bytes e = (case e of (addr, action, attrs) \<Rightarrow> hash_str addr @ hash_str action @ concat (map hash_str attrs))"

definition fingerprint :: "(string \<Rightarrow> u64) \<Rightarrow> drift_detail list \<Rightarrow> string" where
  "fingerprint S drifts =
     (let entries = sort_key fst (map drift_entry drifts)
      in hex16 (S (concat (map entry_bytes entries))))"

section \<open>Evaluation\<close>

definition evaluate_settling ::
    "(string \<Rightarrow> u64) \<Rightarrow> settling_policy \<Rightarrow> u32 \<Rightarrow> string option \<Rightarrow> drift_detail list \<Rightarrow> settling_outcome" where
  "evaluate_settling S policy prior_cycles prior_fingerprint current_drifts =
     (if current_drifts = [] then Settled
      else let cycles = sat_add prior_cycles 1;
               current_fp = fingerprint S current_drifts;
               stuck_addresses = map dd_address (take 20 current_drifts)
           in if prior_fingerprint = Some current_fp then StuckByFingerprint cycles current_fp stuck_addresses
              else if sp_max_consecutive_drift_cycles policy \<le> cycles then StuckByCount cycles stuck_addresses
              else Progressing cycles)"

definition action_for :: "settling_outcome \<Rightarrow> settling_policy \<Rightarrow> settling_action" where
  "action_for outcome policy =
     (case outcome of
        Settled \<Rightarrow> AcceptSettled
      | Progressing _ \<Rightarrow> KeepTrying
      | _ \<Rightarrow> (case sp_on_exhaustion policy of
                Fail \<Rightarrow> EscalateToFailed | Alert \<Rightarrow> AlertButContinue | Continue \<Rightarrow> KeepTrying))"

section \<open>Facts\<close>

text \<open>What a fingerprint depends on: neither the order of the changes, if their addresses differ,
  nor the order of the attributes, nor the risk or the policy annotations.\<close>

lemma sort_key_mset_unique:
  assumes "mset xs = mset ys" and "distinct (map f xs)"
  shows "sort_key f xs = sort_key f ys"
proof (rule properties_for_sort_key)
  show "mset (sort_key f ys) = mset xs" using assms(1) by simp
  show "filter (\<lambda>x. f k = f x) (sort_key f ys) = filter (\<lambda>x. f k = f x) xs" if "k \<in> set (sort_key f ys)" for k
  proof -
    have dist: "distinct (map f ys)"
      using assms mset_map by (metis mset_eq_imp_distinct_iff)
    have eq: "filter (\<lambda>x. f k = f x) zs = [k]" if "k \<in> set zs" "distinct (map f zs)" for zs
      using that by (induction zs) (auto simp: filter_empty_conv image_iff)
    have "k \<in> set ys" "k \<in> set xs" using that assms(1) by (auto dest: mset_eq_setD)
    then show ?thesis
      using eq [of xs] eq [of "sort_key f ys"] assms(2) dist that
      by (metis mset_map mset_eq_imp_distinct_iff mset_sort)
  qed
  show "sorted (map f (sort_key f ys))" by simp
qed

lemma fingerprint_cong:
  assumes "mset (map drift_entry xs) = mset (map drift_entry ys)" and "distinct (map dd_address xs)"
  shows "fingerprint S xs = fingerprint S ys"
proof -
  have "map fst (map drift_entry xs) = map dd_address xs" by (simp add: drift_entry_def)
  with assms(2) have "distinct (map fst (map drift_entry xs))" by metis
  from sort_key_mset_unique [OF assms(1) this] show ?thesis by (simp add: fingerprint_def)
qed

lemma fingerprint_annotations:
  "map drift_entry xs = map drift_entry ys \<Longrightarrow> fingerprint S xs = fingerprint S ys"
  by (simp add: fingerprint_def)

lemma cycle_count_evaluate:
  "cycle_count (evaluate_settling S policy n fp drifts) = (if drifts = [] then 0 else sat_add n 1)"
  by (simp add: evaluate_settling_def Let_def)

lemma is_stuck_iff:
  "is_stuck (evaluate_settling S policy n fp drifts) \<longleftrightarrow>
   drifts \<noteq> [] \<and> (fp = Some (fingerprint S drifts) \<or> sp_max_consecutive_drift_cycles policy \<le> sat_add n 1)"
  by (simp add: evaluate_settling_def Let_def)

lemma action_for_fail:
  "sp_on_exhaustion policy = Fail \<Longrightarrow> action_for out policy = EscalateToFailed \<longleftrightarrow> is_stuck out"
  by (cases out) (simp_all add: action_for_def)

end
