(* ===== verification/Source_Freshness.thy ===== *)
theory Source_Freshness
  imports Prelude
begin

text \<open>
  The freshness of a git source (\<open>pangea-operator/src/controller/template/freshness.rs\<close>): the
  verdict on a compiled revision, what a drift check may conclude from it, and which of the
  advertised references a name selects. A reference advertised by the remote is its name, the
  object it points at and the commit it peels to, as \<open>gix\<close> unpacks it; the transport itself is an
  argument of \<open>observe_head\<close>.
\<close>

datatype freshness = Fresh | Stale "string option" string | Unknown

definition evaluate_source_freshness :: "string option \<Rightarrow> string \<Rightarrow> freshness" where
  "evaluate_source_freshness compiled observed_head =
     (if compiled = Some observed_head then Fresh else Stale compiled observed_head)"

datatype ready_action = RecompileStale | ReadySettled | ReadyDrifted

fun ready_drift_decision :: "freshness \<Rightarrow> bool \<Rightarrow> ready_action" where
  "ready_drift_decision (Stale _ _) _ = RecompileStale"
| "ready_drift_decision _ False = ReadySettled"
| "ready_drift_decision _ True = ReadyDrifted"

record advertised_ref =
  ar_name :: string
  ar_oid :: "string option"
  ar_peeled :: "string option"

definition ref_target :: "advertised_ref \<Rightarrow> string option" where
  "ref_target r = (case ar_peeled r of Some commit \<Rightarrow> Some commit | None \<Rightarrow> ar_oid r)"

definition ref_candidates :: "string \<Rightarrow> string list" where
  "ref_candidates git_ref = [''refs/heads/'' @ git_ref, ''refs/tags/'' @ git_ref, git_ref]"

text \<open>The nested loops return at the first reference with a wanted name, whatever it points at.\<close>

fun select_loop :: "advertised_ref list \<Rightarrow> string list \<Rightarrow> string option" where
  "select_loop refs [] = None"
| "select_loop refs (want # wants) =
     (case List.find (\<lambda>r. ar_name r = want) refs of
        Some r \<Rightarrow> ref_target r
      | None \<Rightarrow> select_loop refs wants)"

definition select_ref :: "advertised_ref list \<Rightarrow> string \<Rightarrow> string option" where
  "select_ref refs git_ref = select_loop refs (ref_candidates git_ref)"

definition is_ascii_hexdigit :: "char \<Rightarrow> bool" where
  "is_ascii_hexdigit c \<longleftrightarrow> is_ascii_digit c \<or> c \<in> set ''abcdefABCDEF''"

datatype probe_error = Unreachable | RefNotFound

definition observe_head :: "advertised_ref list option \<Rightarrow> string \<Rightarrow> (probe_error, string) result" where
  "observe_head listing git_ref =
     (if length git_ref = 40 \<and> list_all is_ascii_hexdigit git_ref then Inr git_ref
      else (case listing of
              None \<Rightarrow> Inl Unreachable
            | Some refs \<Rightarrow> (case select_ref refs git_ref of Some head \<Rightarrow> Inr head | None \<Rightarrow> Inl RefNotFound)))"

definition git_env_defaults :: "(string \<times> string) list" where
  "git_env_defaults =
     [(''GIT_TERMINAL_PROMPT'', ''0''), (''GIT_CONFIG_NOSYSTEM'', ''1''), (''GIT_CONFIG_GLOBAL'', ''/dev/null'')]"

definition non_interactive_git_env :: "(string \<times> string) list \<Rightarrow> (string \<times> string) list" where
  "non_interactive_git_env base =
     fold (\<lambda>(k, v) env. if list_ex (\<lambda>(ek, _). ek = k) env then env else env @ [(k, v)]) git_env_defaults base"

section \<open>Facts\<close>

text \<open>A drift check concludes nothing from a stale compile, and a compile is fresh exactly when it
  is the commit the remote advertises.\<close>

lemma ready_drift_decision_stale:
  "ready_drift_decision f changes = RecompileStale \<longleftrightarrow> (\<exists>c h. f = Stale c h)"
  by (cases "(f, changes)" rule: ready_drift_decision.cases) auto

lemma fresh_iff: "evaluate_source_freshness compiled head = Fresh \<longleftrightarrow> compiled = Some head"
  by (simp add: evaluate_source_freshness_def)

text \<open>A branch wins over a tag of the same name, and a tag over a reference in another namespace
  whatever their order in the listing; an annotated tag selects the commit it peels to.\<close>

lemma select_ref_branch:
  assumes "List.find (\<lambda>r. ar_name r = ''refs/heads/'' @ git_ref) refs = Some r"
  shows "select_ref refs git_ref = ref_target r"
  using assms by (simp add: select_ref_def ref_candidates_def)

lemma select_ref_order_irrelevant:
  assumes "distinct (map ar_name refs)" and "mset refs = mset refs'"
  shows "select_ref refs git_ref = select_ref refs' git_ref"
proof -
  have find_eq: "List.find (\<lambda>r. ar_name r = want) refs = List.find (\<lambda>r. ar_name r = want) refs'" for want
  proof -
    have find_in: "List.find (\<lambda>r. ar_name r = want) rs = (if r \<in> set rs \<and> ar_name r = want then Some r else List.find (\<lambda>r. ar_name r = want) rs)"
      if "distinct (map ar_name rs)" for rs r
      using that by (induction rs) (auto simp: image_iff)
    have d': "distinct (map ar_name refs')" using assms by (metis mset_map mset_eq_imp_distinct_iff)
    show ?thesis
    proof (cases "\<exists>r \<in> set refs. ar_name r = want")
      case True
      then obtain r where r: "r \<in> set refs" "ar_name r = want" by blast
      with assms(2) have "r \<in> set refs'" by (metis mset_eq_setD)
      with r find_in [OF assms(1), of r] find_in [OF d', of r] show ?thesis by simp
    next
      case False
      with assms(2) have "\<forall>r \<in> set refs'. ar_name r \<noteq> want" by (metis mset_eq_setD)
      with False show ?thesis by (metis (mono_tags, lifting) find_None_iff)
    qed
  qed
  have "select_loop refs wants = select_loop refs' wants" for wants
    by (induction wants) (simp_all add: find_eq split: option.split)
  then show ?thesis by (simp add: select_ref_def)
qed

lemma observe_head_pinned:
  "length git_ref = 40 \<Longrightarrow> list_all is_ascii_hexdigit git_ref \<Longrightarrow> observe_head listing git_ref = Inr git_ref"
  by (simp add: observe_head_def)

text \<open>The guardrails are all set afterwards, and nothing the caller set is overridden.\<close>

lemma non_interactive_git_env_keys:
  "set (map fst git_env_defaults) \<subseteq> set (map fst (non_interactive_git_env base))"
  by (auto simp: non_interactive_git_env_def git_env_defaults_def list_ex_iff image_iff split: prod.splits) force+

lemma non_interactive_git_env_keeps: "\<exists>more. non_interactive_git_env base = base @ more"
  by (auto simp: non_interactive_git_env_def git_env_defaults_def)

end
