(* ===== verification/Template_Status.thy ===== *)
theory Template_Status
  imports Pass_Driver Settling Source_Freshness Leaf_Sources
begin

text \<open>
  The writers of a template's status
  (\<open>pangea-operator/src/controller/template/status.rs\<close>, with \<open>InfrastructureTemplateStatus\<close> of
  \<open>crd/infrastructure_template.rs\<close>).

  A writer reads the status of the object its reconcile started with, the snapshot, and sends a
  JSON merge patch; the server applies it to what is stored by then, which other writers may have
  changed. A patch is the list of the status keys it carries with their values (\<open>None\<close> is the JSON
  null, which clears a key), and \<open>apply_field\<close> is what the merge of one key does to the stored
  status: scalars and arrays are replaced, and objects are merged key by key.

  Arguments stand for what a writer reads besides: the live object of \<open>live_generation\<close>, the
  digest of the material spec, the clock (one reading per call), the incarnation \<open>me\<close> and the
  RFC 3339 rendering \<open>rfc\<close>. Log lines are not modelled.
\<close>

section \<open>The status and the template\<close>

record resource_summary =
  rs_total :: u32
  rs_added :: u32
  rs_changed :: u32
  rs_destroyed :: u32

text \<open>The keys the writers touch, beside those the driver reads.\<close>

record itr_status = driver_status +
  is_last_applied_revision :: "string option"
  is_compiled_at :: "time option"
  is_last_freshness_check_at :: "time option"
  is_last_planned_at :: "time option"
  is_last_applied_at :: "time option"
  is_last_drift_check_at :: "time option"
  is_resources :: "resource_summary option"
  is_outputs :: "json option"
  is_plan_summary :: "string option"
  is_failure_count :: u32
  is_drift_details :: "drift_detail list"
  is_drift_fingerprint :: "string option"
  is_drift_total :: u32
  is_observed_spec_digest :: "string option"
  is_pending_plan_hash :: "string option"
  is_approved_plan_hash :: "string option"
  is_policy_evaluation :: "policy_evaluation option"
  is_consecutive_drift_cycles :: u32
  is_stuck_resources :: "string list"
  is_phase_entered_at :: "time option"
  is_consecutive_compile_failures :: u32
  is_apply_cursor_count :: "u64 option"
  is_apply_cursor_advanced_at :: "time option"
  is_verified_blocked_since :: "time option"
  is_auto_suspended :: bool
  is_last_escalated_at :: "time option"
  is_last_escalation_reason :: "string option"
  is_rate_limited_until :: "time option"

definition itr_default :: itr_status where
  "itr_default = driver_status.extend status_default
     (itr_status.fields None None None None None None None None None 0 [] None 0 None None None None 0 [] None
       0 None None None False None None None)"

record retry_policy =
  rp_max_retries :: u32
  rp_backoff_seconds :: u32

text \<open>The fields of a template its status writers and phase handlers read.\<close>

record infrastructure_template =
  it_name :: string
  it_namespace :: "string option"
  it_generation :: "int option"
  it_deleted :: bool
  it_suspend :: bool
  it_request :: "string option"
  it_git_ref :: "string option"
  it_auto_approve :: bool
  it_refresh_interval :: string
  it_retry_policy :: "retry_policy option"
  it_settling_policy :: "settling_policy option"
  it_approved_plan_hash :: "string option"
  it_status :: "itr_status option"

definition snapshot :: "infrastructure_template \<Rightarrow> itr_status" where
  "snapshot template = (case it_status template of Some s \<Rightarrow> s | None \<Rightarrow> itr_default)"

definition driver_of :: "infrastructure_template \<Rightarrow> driver_template" where
  "driver_of template =
     \<lparr>dt_name = it_name template, dt_namespace = it_namespace template, dt_generation = it_generation template,
      dt_deleted = it_deleted template, dt_suspend = it_suspend template, dt_request = it_request template,
      dt_git = (it_git_ref template \<noteq> None), dt_status = map_option driver_status.truncate (it_status template)\<rparr>"

section \<open>Merge patches\<close>

datatype status_field =
    SPhase "phase option" | SConditions "condition list" | SLastAppliedRevision "string option"
  | SCompiledRevision "string option" | SCompiledAt "time option" | SObservedHeadRevision "string option"
  | SLastFreshnessCheckAt "time option" | SLastPlannedAt "time option" | SLastAppliedAt "time option"
  | SLastDriftCheckAt "time option" | SResources "resource_summary option" | SOutputs "json option"
  | SPlanSummary "string option" | SObservedGeneration int | SAcknowledgedGeneration int
  | SPass "pass_status option" | SLastReconcileRequestHandled "string option" | SFailureCount u32
  | SLastError "string option" | SDriftDetails "drift_detail list" | SDriftFingerprint "string option"
  | SDriftTotal u32 | SObservedSpecDigest "string option" | SPendingPlanHash "string option"
  | SApprovedPlanHash "string option" | SPolicyEvaluation "policy_evaluation option"
  | SConsecutiveDriftCycles u32 | SStuckResources "string list" | SPhaseEnteredAt "time option"
  | SGenerationLagSince "time option"
  | SConsecutiveCompileFailures u32
  | SApplyCursorCount "u64 option"
  | SApplyCursorAdvancedAt "time option"
  | SVerifiedBlockedSince "time option"
  | SAutoSuspended bool
  | SLastEscalatedAt "time option"
  | SLastEscalationReason "string option"
  | SRateLimitedUntil "time option"

text \<open>The merge of JSON values (RFC 7396): an object is merged into the target key by key, a null
  removes its key, anything else replaces the target.\<close>

definition set_key :: "string \<Rightarrow> 'a \<Rightarrow> (string \<times> 'a) list \<Rightarrow> (string \<times> 'a) list" where
  "set_key k v kvs =
     (if k \<in> set (map fst kvs) then map (\<lambda>(k', v'). (k', if k' = k then v else v')) kvs else kvs @ [(k, v)])"

function (sequential) json_merge :: "json option \<Rightarrow> json \<Rightarrow> json" where
  "json_merge target (JObj kvs) =
     JObj (fold (\<lambda>(k, v) kvs'.
             (case v of
                JNull \<Rightarrow> filter (\<lambda>(k', _). k' \<noteq> k) kvs'
              | _ \<Rightarrow> set_key k (json_merge (map_of kvs' k) v) kvs'))
           kvs (case target of Some (JObj old) \<Rightarrow> old | _ \<Rightarrow> []))"
| "json_merge target v = v"
  by pat_completeness auto
termination
  by (relation "measure (\<lambda>(_, v). size v)") (auto dest: size_pair_in_list simp: less_Suc_eq)

text \<open>\<open>refusedAddresses\<close> is left out of the patch when it is empty; the other keys are always there.\<close>

definition merge_evaluation :: "policy_evaluation option \<Rightarrow> policy_evaluation \<Rightarrow> policy_evaluation" where
  "merge_evaluation stored e =
     (case stored of
        Some old \<Rightarrow> if pe_refused_addresses e = [] then e\<lparr>pe_refused_addresses := pe_refused_addresses old\<rparr> else e
      | None \<Rightarrow> e)"

fun apply_field :: "status_field \<Rightarrow> itr_status \<Rightarrow> itr_status" where
  "apply_field (SPhase x) s = s\<lparr>ds_core := (ds_core s)\<lparr>st_phase := x\<rparr>\<rparr>"
| "apply_field (SConditions x) s = s\<lparr>ds_core := (ds_core s)\<lparr>st_conditions := x\<rparr>\<rparr>"
| "apply_field (SLastAppliedRevision x) s = s\<lparr>is_last_applied_revision := x\<rparr>"
| "apply_field (SCompiledRevision x) s = s\<lparr>ds_compiled_revision := x\<rparr>"
| "apply_field (SCompiledAt x) s = s\<lparr>is_compiled_at := x\<rparr>"
| "apply_field (SObservedHeadRevision x) s = s\<lparr>ds_observed_head_revision := x\<rparr>"
| "apply_field (SLastFreshnessCheckAt x) s = s\<lparr>is_last_freshness_check_at := x\<rparr>"
| "apply_field (SLastPlannedAt x) s = s\<lparr>is_last_planned_at := x\<rparr>"
| "apply_field (SLastAppliedAt x) s = s\<lparr>is_last_applied_at := x\<rparr>"
| "apply_field (SLastDriftCheckAt x) s = s\<lparr>is_last_drift_check_at := x\<rparr>"
| "apply_field (SResources x) s = s\<lparr>is_resources := x\<rparr>"
| "apply_field (SOutputs x) s = s\<lparr>is_outputs := map_option (json_merge (is_outputs s)) x\<rparr>"
| "apply_field (SPlanSummary x) s = s\<lparr>is_plan_summary := x\<rparr>"
| "apply_field (SObservedGeneration x) s = s\<lparr>ds_core := (ds_core s)\<lparr>st_observed_generation := x\<rparr>\<rparr>"
| "apply_field (SAcknowledgedGeneration x) s = s\<lparr>ds_core := (ds_core s)\<lparr>st_acknowledged_generation := x\<rparr>\<rparr>"
| "apply_field (SPass x) s = s\<lparr>ds_core := (ds_core s)\<lparr>st_pass := x\<rparr>\<rparr>"
| "apply_field (SLastReconcileRequestHandled x) s = s\<lparr>ds_last_reconcile_request_handled := x\<rparr>"
| "apply_field (SFailureCount x) s = s\<lparr>is_failure_count := x\<rparr>"
| "apply_field (SLastError x) s = s\<lparr>ds_core := (ds_core s)\<lparr>st_last_error := x\<rparr>\<rparr>"
| "apply_field (SDriftDetails x) s = s\<lparr>is_drift_details := x\<rparr>"
| "apply_field (SDriftFingerprint x) s = s\<lparr>is_drift_fingerprint := x\<rparr>"
| "apply_field (SDriftTotal x) s = s\<lparr>is_drift_total := x\<rparr>"
| "apply_field (SObservedSpecDigest x) s = s\<lparr>is_observed_spec_digest := x\<rparr>"
| "apply_field (SPendingPlanHash x) s = s\<lparr>is_pending_plan_hash := x\<rparr>"
| "apply_field (SApprovedPlanHash x) s = s\<lparr>is_approved_plan_hash := x\<rparr>"
| "apply_field (SPolicyEvaluation x) s = s\<lparr>is_policy_evaluation := map_option (merge_evaluation (is_policy_evaluation s)) x\<rparr>"
| "apply_field (SConsecutiveDriftCycles x) s = s\<lparr>is_consecutive_drift_cycles := x\<rparr>"
| "apply_field (SStuckResources x) s = s\<lparr>is_stuck_resources := x\<rparr>"
| "apply_field (SPhaseEnteredAt x) s = s\<lparr>is_phase_entered_at := x\<rparr>"
| "apply_field (SGenerationLagSince x) s = s\<lparr>ds_core := (ds_core s)\<lparr>st_generation_lag_since := x\<rparr>\<rparr>"
| "apply_field (SConsecutiveCompileFailures x) s = s\<lparr>is_consecutive_compile_failures := x\<rparr>"
| "apply_field (SApplyCursorCount x) s = s\<lparr>is_apply_cursor_count := x\<rparr>"
| "apply_field (SApplyCursorAdvancedAt x) s = s\<lparr>is_apply_cursor_advanced_at := x\<rparr>"
| "apply_field (SVerifiedBlockedSince x) s = s\<lparr>is_verified_blocked_since := x\<rparr>"
| "apply_field (SAutoSuspended x) s = s\<lparr>is_auto_suspended := x\<rparr>"
| "apply_field (SLastEscalatedAt x) s = s\<lparr>is_last_escalated_at := x\<rparr>"
| "apply_field (SLastEscalationReason x) s = s\<lparr>is_last_escalation_reason := x\<rparr>"
| "apply_field (SRateLimitedUntil x) s = s\<lparr>is_rate_limited_until := x\<rparr>"

definition patch_status :: "status_field list \<Rightarrow> itr_status \<Rightarrow> itr_status" where
  "patch_status patch stored = fold apply_field patch stored"

text \<open>The keys by their names in JSON.\<close>

datatype status_key =
    K_phase | K_conditions | K_lastAppliedRevision | K_compiledRevision | K_compiledAt
     | K_observedHeadRevision | K_lastFreshnessCheckAt | K_lastPlannedAt | K_lastAppliedAt
     | K_lastDriftCheckAt | K_resources | K_outputs | K_planSummary | K_observedGeneration
     | K_acknowledgedGeneration | K_pass | K_lastReconcileRequestHandled | K_failureCount | K_lastError
     | K_driftDetails | K_driftFingerprint | K_driftTotal | K_observedSpecDigest | K_pendingPlanHash
     | K_approvedPlanHash | K_policyEvaluation | K_consecutiveDriftCycles | K_stuckResources
     | K_phaseEnteredAt | K_generationLagSince
     | K_consecutiveCompileFailures | K_applyCursorCount | K_applyCursorAdvancedAt | K_verifiedBlockedSince
     | K_autoSuspended | K_lastEscalatedAt | K_lastEscalationReason | K_rateLimitedUntil

text \<open>The value \<open>serde_json::to_value\<close> gives a status under a key: \<open>skip_serializing_if\<close> leaves an
  absent option and an empty list of conditions out.\<close>

definition some_field :: "('a option \<Rightarrow> status_field) \<Rightarrow> 'a option \<Rightarrow> status_field option" where
  "some_field f x = (if x = None then None else Some (f x))"

fun to_value :: "itr_status \<Rightarrow> status_key \<Rightarrow> status_field option" where
  "to_value s K_phase = some_field SPhase (st_phase (ds_core s))"
| "to_value s K_conditions = (if st_conditions (ds_core s) = [] then None else Some (SConditions (st_conditions (ds_core s))))"
| "to_value s K_lastAppliedRevision = some_field SLastAppliedRevision (is_last_applied_revision s)"
| "to_value s K_compiledRevision = some_field SCompiledRevision (ds_compiled_revision s)"
| "to_value s K_compiledAt = some_field SCompiledAt (is_compiled_at s)"
| "to_value s K_observedHeadRevision = some_field SObservedHeadRevision (ds_observed_head_revision s)"
| "to_value s K_lastFreshnessCheckAt = some_field SLastFreshnessCheckAt (is_last_freshness_check_at s)"
| "to_value s K_lastPlannedAt = some_field SLastPlannedAt (is_last_planned_at s)"
| "to_value s K_lastAppliedAt = some_field SLastAppliedAt (is_last_applied_at s)"
| "to_value s K_lastDriftCheckAt = some_field SLastDriftCheckAt (is_last_drift_check_at s)"
| "to_value s K_resources = some_field SResources (is_resources s)"
| "to_value s K_outputs = some_field SOutputs (is_outputs s)"
| "to_value s K_planSummary = some_field SPlanSummary (is_plan_summary s)"
| "to_value s K_observedGeneration = Some (SObservedGeneration (st_observed_generation (ds_core s)))"
| "to_value s K_acknowledgedGeneration = Some (SAcknowledgedGeneration (st_acknowledged_generation (ds_core s)))"
| "to_value s K_pass = some_field SPass (st_pass (ds_core s))"
| "to_value s K_lastReconcileRequestHandled = some_field SLastReconcileRequestHandled (ds_last_reconcile_request_handled s)"
| "to_value s K_failureCount = Some (SFailureCount (is_failure_count s))"
| "to_value s K_lastError = some_field SLastError (st_last_error (ds_core s))"
| "to_value s K_driftDetails = Some (SDriftDetails (is_drift_details s))"
| "to_value s K_driftFingerprint = some_field SDriftFingerprint (is_drift_fingerprint s)"
| "to_value s K_driftTotal = Some (SDriftTotal (is_drift_total s))"
| "to_value s K_observedSpecDigest = some_field SObservedSpecDigest (is_observed_spec_digest s)"
| "to_value s K_pendingPlanHash = some_field SPendingPlanHash (is_pending_plan_hash s)"
| "to_value s K_approvedPlanHash = some_field SApprovedPlanHash (is_approved_plan_hash s)"
| "to_value s K_policyEvaluation = some_field SPolicyEvaluation (is_policy_evaluation s)"
| "to_value s K_consecutiveDriftCycles = Some (SConsecutiveDriftCycles (is_consecutive_drift_cycles s))"
| "to_value s K_stuckResources = Some (SStuckResources (is_stuck_resources s))"
| "to_value s K_phaseEnteredAt = some_field SPhaseEnteredAt (is_phase_entered_at s)"
| "to_value s K_generationLagSince = some_field SGenerationLagSince (st_generation_lag_since (ds_core s))"
| "to_value s K_consecutiveCompileFailures = Some (SConsecutiveCompileFailures (is_consecutive_compile_failures s))"
| "to_value s K_applyCursorCount = some_field SApplyCursorCount (is_apply_cursor_count s)"
| "to_value s K_applyCursorAdvancedAt = some_field SApplyCursorAdvancedAt (is_apply_cursor_advanced_at s)"
| "to_value s K_verifiedBlockedSince = some_field SVerifiedBlockedSince (is_verified_blocked_since s)"
| "to_value s K_autoSuspended = Some (SAutoSuspended (is_auto_suspended s))"
| "to_value s K_lastEscalatedAt = some_field SLastEscalatedAt (is_last_escalated_at s)"
| "to_value s K_lastEscalationReason = some_field SLastEscalationReason (is_last_escalation_reason s)"
| "to_value s K_rateLimitedUntil = some_field SRateLimitedUntil (is_rate_limited_until s)"

definition scoped_status_patch :: "itr_status \<Rightarrow> status_key list \<Rightarrow> status_field list" where
  "scoped_status_patch status field_names = List.map_filter (to_value status) field_names"

section \<open>Phases\<close>

definition phase_changed :: "infrastructure_template \<Rightarrow> phase \<Rightarrow> bool" where
  "phase_changed template ph \<longleftrightarrow> st_phase (ds_core (snapshot template)) \<noteq> Some ph"

text \<open>The pass a phase write enters: the stored one is read after the phase was set.\<close>

definition entered_pass :: "infrastructure_template \<Rightarrow> phase \<Rightarrow> string option \<Rightarrow> int \<Rightarrow> time \<Rightarrow> pass_phase" where
  "entered_pass template ph error live now =
     observe live now
       (entering ph (generation_of (driver_of template)) error
         (Some (stored_pass ((ds_core (snapshot template))\<lparr>st_phase := Some ph\<rparr>) now)) now)"

definition update_phase ::
    "(time \<Rightarrow> string) \<Rightarrow> string \<Rightarrow> bool \<Rightarrow> infrastructure_template \<Rightarrow> driver_template option \<Rightarrow> string option
     \<Rightarrow> phase \<Rightarrow> time \<Rightarrow> status_field list" where
  "update_phase rfc me honor template fresh digest ph now =
     (let live = live_generation (driver_of template) fresh;
          pass = entered_pass template ph None live now;
          observed = observed_generation pass (st_observed_generation (ds_core (snapshot template)));
          conditions = project rfc (conditions_for_phase ph None (fresh_state (driver_of template)) now) pass observed live now
      in [SPhase (Some ph), SObservedGeneration observed, SAcknowledgedGeneration (generation_of (driver_of template)),
          SPass (Some (to_status me pass)), SGenerationLagSince (lag_since pass), SObservedSpecDigest digest,
          SConditions conditions]
         @ (if phase_changed template ph then [SPhaseEnteredAt (Some now)] else [])
         @ (case unhandled_request honor (driver_of template) of
              Some v \<Rightarrow> [SLastReconcileRequestHandled (Some v)] | None \<Rightarrow> [])
         @ (if ph \<noteq> phase.Failed then [SLastError None, SFailureCount 0] else []))"

definition update_phase_with_error ::
    "(time \<Rightarrow> string) \<Rightarrow> string \<Rightarrow> infrastructure_template \<Rightarrow> driver_template option \<Rightarrow> string option
     \<Rightarrow> phase \<Rightarrow> string \<Rightarrow> time \<Rightarrow> status_field list" where
  "update_phase_with_error rfc me template fresh digest ph error_msg now =
     (let live = live_generation (driver_of template) fresh;
          pass = entered_pass template ph (Some error_msg) live now;
          observed = observed_generation pass (st_observed_generation (ds_core (snapshot template)));
          conditions = project rfc (conditions_for_phase ph (Some error_msg) (fresh_state (driver_of template)) now) pass observed live now
      in [SPhase (Some ph), SObservedGeneration observed, SAcknowledgedGeneration (generation_of (driver_of template)),
          SPass (Some (to_status me pass)), SGenerationLagSince (lag_since pass), SObservedSpecDigest digest,
          SConditions conditions, SLastError (Some error_msg), SFailureCount (sat_add (is_failure_count (snapshot template)) 1)]
         @ (if phase_changed template ph then [SPhaseEnteredAt (Some now)] else []))"

section \<open>Plan and apply\<close>

definition DRIFT_STATUS_CAP :: nat where
  "DRIFT_STATUS_CAP = 50"

definition PLAN_STATUS_FIELDS :: "status_key list" where
  "PLAN_STATUS_FIELDS = [K_resources, K_planSummary, K_lastPlannedAt, K_driftDetails, K_policyEvaluation]"

definition build_plan_status_patch ::
    "itr_status \<Rightarrow> resource_summary option \<Rightarrow> string option \<Rightarrow> drift_detail list \<Rightarrow> policy_evaluation option \<Rightarrow> time
     \<Rightarrow> status_field list" where
  "build_plan_status_patch prev_status resources plan_summary drift_details policy_evaluation now =
     scoped_status_patch
       (prev_status\<lparr>is_resources := resources, is_plan_summary := plan_summary, is_last_planned_at := Some now,
          is_drift_total := of_nat (length drift_details), is_drift_details := take DRIFT_STATUS_CAP drift_details,
          is_policy_evaluation := policy_evaluation\<rparr>)
       PLAN_STATUS_FIELDS"

definition APPLY_STATUS_FIELDS :: "status_key list" where
  "APPLY_STATUS_FIELDS = [K_outputs, K_lastAppliedAt, K_lastAppliedRevision, K_observedHeadRevision,
     K_pendingPlanHash, K_approvedPlanHash, K_conditions]"

definition build_apply_status :: "itr_status \<Rightarrow> json option \<Rightarrow> string option \<Rightarrow> time \<Rightarrow> itr_status" where
  "build_apply_status status outputs revision now =
     (let status = status\<lparr>is_outputs := outputs, is_last_applied_at := Some now\<rparr>;
          (status, source_fresh) = (case revision of
              Some sha \<Rightarrow> (status\<lparr>is_last_applied_revision := Some sha, ds_observed_head_revision := Some sha\<rparr>,
                source_fresh_state.Fresh)
            | None \<Rightarrow> (status, NotApplicable));
          status = status\<lparr>is_pending_plan_hash := None, is_approved_plan_hash := None\<rparr>
      in status\<lparr>ds_core := (ds_core status)\<lparr>st_conditions := conditions_for_phase phase.Ready None source_fresh now\<rparr>\<rparr>)"

definition update_apply_status ::
    "(time \<Rightarrow> string) \<Rightarrow> infrastructure_template \<Rightarrow> driver_template option \<Rightarrow> json option \<Rightarrow> string option \<Rightarrow> time
     \<Rightarrow> status_field list" where
  "update_apply_status rfc template fresh outputs revision now =
     (let status = build_apply_status (snapshot template) outputs revision now;
          live = live_generation (driver_of template) fresh;
          pass = observe live now (stored_pass (ds_core status) now);
          conditions = project rfc (st_conditions (ds_core status)) pass
            (observed_generation pass (st_observed_generation (ds_core status))) live now
      in scoped_status_patch (status\<lparr>ds_core := (ds_core status)\<lparr>st_conditions := conditions\<rparr>\<rparr>) APPLY_STATUS_FIELDS)"

section \<open>Revisions and clocks\<close>

text \<open>An empty patch stands for a writer that sends none.\<close>

definition update_compiled_revision :: "infrastructure_template \<Rightarrow> string option \<Rightarrow> time \<Rightarrow> status_field list" where
  "update_compiled_revision template revision now =
     (case revision of
        None \<Rightarrow> []
      | Some sha \<Rightarrow>
          if ds_compiled_revision (snapshot template) = Some sha then []
          else [SCompiledRevision (Some sha), SCompiledAt (Some now)])"

datatype observation_outcome = Observed string | Unobserved

text \<open>Both throttles compare with thirty seconds.\<close>

definition too_recent :: "time option \<Rightarrow> time \<Rightarrow> bool" where
  "too_recent prev now = (case prev of Some p \<Rightarrow> now - p < 30 * 10 ^ 9 | None \<Rightarrow> False)"

definition build_freshness_patch ::
    "string option \<Rightarrow> time option \<Rightarrow> observation_outcome \<Rightarrow> time \<Rightarrow> status_field list" where
  "build_freshness_patch prev_head prev_check outcome now =
     (case outcome of
        Observed head \<Rightarrow>
          if prev_head = Some head \<and> too_recent prev_check now then []
          else [SObservedHeadRevision (Some head), SLastFreshnessCheckAt (Some now)]
      | Unobserved \<Rightarrow> if too_recent prev_check now then [] else [SLastFreshnessCheckAt (Some now)])"

definition update_freshness_status :: "infrastructure_template \<Rightarrow> observation_outcome \<Rightarrow> time \<Rightarrow> status_field list" where
  "update_freshness_status template outcome now =
     build_freshness_patch (ds_observed_head_revision (snapshot template)) (is_last_freshness_check_at (snapshot template)) outcome now"

definition update_drift_check_timestamp :: "infrastructure_template \<Rightarrow> time \<Rightarrow> status_field list" where
  "update_drift_check_timestamp template now =
     (if too_recent (is_last_drift_check_at (snapshot template)) now then [] else [SLastDriftCheckAt (Some now)])"

definition update_pending_plan_hash :: "string \<Rightarrow> status_field list" where
  "update_pending_plan_hash plan_hash = [SPendingPlanHash (Some plan_hash), SApprovedPlanHash None]"

section \<open>Settling\<close>

definition SETTLING_STATUS_FIELDS :: "status_key list" where
  "SETTLING_STATUS_FIELDS = [K_consecutiveDriftCycles, K_stuckResources, K_driftDetails, K_conditions, K_lastDriftCheckAt]"

definition settled_message :: "string option \<Rightarrow> freshness option \<Rightarrow> string" where
  "settled_message compiled_rev freshness =
     (case compiled_rev of
        None \<Rightarrow> ''Drift check found no changes '' @ em_dash @ '' desired state matches actual state.''
      | Some sha \<Rightarrow> ''Drift check found no changes against compiled revision '' @ sha @
          (case freshness of
             Some freshness.Fresh \<Rightarrow> '' (HEAD: '' @ sha @ '').''
           | Some freshness.Unknown \<Rightarrow> '' (HEAD: unverified).''
           | Some (Stale _ head) \<Rightarrow> '' (HEAD: '' @ head @ '' '' @ em_dash @ '' STALE; recompile pending).''
           | None \<Rightarrow> ''.''))"

definition settled_verdict :: "settling_outcome \<Rightarrow> string option \<Rightarrow> freshness option \<Rightarrow> string \<times> string \<times> string" where
  "settled_verdict outcome compiled_rev freshness =
     (case outcome of
        settling_outcome.Settled \<Rightarrow> (''True'', ''Settled'', settled_message compiled_rev freshness)
      | settling_outcome.Progressing cycles \<Rightarrow>
          (''False'', ''Reconciling'', ''Drift detected; reconciling (cycle '' @ show_nat (unat cycles) @ '').'')
      | StuckByFingerprint cycles fp _ \<Rightarrow>
          (''False'', ''StuckByFingerprint'', ''Drift fingerprint '' @ fp @ '' unchanged across '' @ show_nat (unat cycles)
             @ '' cycle(s) '' @ em_dash @ '' system is not converging.'')
      | StuckByCount cycles _ \<Rightarrow>
          (''False'', ''StuckByCount'', ''Exceeded max consecutive drift cycles ('' @ show_nat (unat cycles)
             @ '') without settling.''))"

fun stuck_addresses :: "settling_outcome \<Rightarrow> string list" where
  "stuck_addresses (StuckByFingerprint _ _ addrs) = addrs"
| "stuck_addresses (StuckByCount _ addrs) = addrs"
| "stuck_addresses _ = []"

definition settled_condition :: "condition list \<Rightarrow> string \<times> string \<times> string \<Rightarrow> time \<Rightarrow> condition" where
  "settled_condition previous verdict now =
     (case verdict of (status, reason, message) \<Rightarrow>
        \<lparr>c_type = ''Settled'', c_status = status,
         c_last_transition_time =
           (case find (\<lambda>c. c_type c = ''Settled'') previous of
              Some p \<Rightarrow> if c_status p = status \<and> c_reason p = reason \<and> c_message p = message
                then c_last_transition_time p else now
            | None \<Rightarrow> now),
         c_reason = reason, c_message = message, c_observed_generation = None\<rparr>)"

definition with_drift :: "(string \<Rightarrow> u64) \<Rightarrow> settling_outcome \<Rightarrow> drift_detail list \<Rightarrow> itr_status \<Rightarrow> itr_status" where
  "with_drift S outcome drift_details status =
     (if drift_details \<noteq> [] then
        status\<lparr>is_drift_fingerprint := Some (fingerprint S drift_details), is_drift_total := of_nat (length drift_details),
          is_drift_details := take DRIFT_STATUS_CAP drift_details\<rparr>
      else if outcome = settling_outcome.Settled then
        status\<lparr>is_drift_details := [], is_drift_fingerprint := None, is_drift_total := 0\<rparr>
      else status)"

definition settling_status_needs_patch :: "itr_status \<Rightarrow> itr_status \<Rightarrow> bool" where
  "settling_status_needs_patch prev new \<longleftrightarrow>
     is_drift_details prev \<noteq> is_drift_details new
     \<or> is_consecutive_drift_cycles prev \<noteq> is_consecutive_drift_cycles new
     \<or> is_stuck_resources prev \<noteq> is_stuck_resources new
     \<or> (let p = st_conditions (ds_core prev); n = st_conditions (ds_core new)
        in length p \<noteq> length n
           \<or> list_ex (\<lambda>(p, n). c_type p \<noteq> c_type n \<or> c_status p \<noteq> c_status n \<or> c_reason p \<noteq> c_reason n
               \<or> c_message p \<noteq> c_message n \<or> c_last_transition_time p \<noteq> c_last_transition_time n) (zip p n))"

definition settling_conditions ::
    "(time \<Rightarrow> string) \<Rightarrow> itr_status \<Rightarrow> settling_outcome \<Rightarrow> freshness option \<Rightarrow> int \<Rightarrow> time \<Rightarrow> condition list" where
  "settling_conditions rfc prev_status outcome freshness live now =
     (let previous = st_conditions (ds_core prev_status);
          verdict = settled_verdict outcome (ds_compiled_revision prev_status) freshness;
          conditions = filter (\<lambda>c. c_type c \<noteq> ''Settled'') previous @ [settled_condition previous verdict now];
          pass = pass_phase.Settled (acknowledged (ds_core prev_status));
          observed = observed_generation pass (st_observed_generation (ds_core prev_status))
      in merge_condition_transitions previous (project rfc conditions pass observed live now))"

definition build_settling_status ::
    "(string \<Rightarrow> u64) \<Rightarrow> (time \<Rightarrow> string) \<Rightarrow> itr_status \<Rightarrow> settling_outcome \<Rightarrow> drift_detail list \<Rightarrow> freshness option \<Rightarrow> int \<Rightarrow> time
     \<Rightarrow> itr_status" where
  "build_settling_status S rfc prev_status outcome drift_details freshness live now =
     (let status = prev_status\<lparr>is_consecutive_drift_cycles := cycle_count outcome, is_stuck_resources := stuck_addresses outcome\<rparr>;
          status = with_drift S outcome drift_details status
      in status\<lparr>ds_core := (ds_core status)\<lparr>st_conditions := settling_conditions rfc prev_status outcome freshness live now\<rparr>\<rparr>)"

definition build_settling_status_patch ::
    "(string \<Rightarrow> u64) \<Rightarrow> (time \<Rightarrow> string) \<Rightarrow> itr_status \<Rightarrow> settling_outcome \<Rightarrow> drift_detail list \<Rightarrow> freshness option \<Rightarrow> int \<Rightarrow> time
     \<Rightarrow> status_field list" where
  "build_settling_status_patch S rfc prev_status outcome drift_details freshness live now =
     (let status = build_settling_status S rfc prev_status outcome drift_details freshness live now
      in if \<not> settling_status_needs_patch prev_status status then []
         else scoped_status_patch (status\<lparr>is_last_drift_check_at := Some now\<rparr>) SETTLING_STATUS_FIELDS)"

definition update_settling_status ::
    "(string \<Rightarrow> u64) \<Rightarrow> (time \<Rightarrow> string) \<Rightarrow> infrastructure_template \<Rightarrow> driver_template option \<Rightarrow> settling_outcome \<Rightarrow> drift_detail list
     \<Rightarrow> freshness option \<Rightarrow> time \<Rightarrow> status_field list" where
  "update_settling_status S rfc template fresh outcome drift_details freshness now =
     build_settling_status_patch S rfc (snapshot template) outcome drift_details freshness
       (live_generation (driver_of template) fresh) now"

section \<open>Every writer stays within its keys\<close>

fun key_of :: "status_field \<Rightarrow> status_key" where
  "key_of (SPhase _) = K_phase"
| "key_of (SConditions _) = K_conditions"
| "key_of (SLastAppliedRevision _) = K_lastAppliedRevision"
| "key_of (SCompiledRevision _) = K_compiledRevision"
| "key_of (SCompiledAt _) = K_compiledAt"
| "key_of (SObservedHeadRevision _) = K_observedHeadRevision"
| "key_of (SLastFreshnessCheckAt _) = K_lastFreshnessCheckAt"
| "key_of (SLastPlannedAt _) = K_lastPlannedAt"
| "key_of (SLastAppliedAt _) = K_lastAppliedAt"
| "key_of (SLastDriftCheckAt _) = K_lastDriftCheckAt"
| "key_of (SResources _) = K_resources"
| "key_of (SOutputs _) = K_outputs"
| "key_of (SPlanSummary _) = K_planSummary"
| "key_of (SObservedGeneration _) = K_observedGeneration"
| "key_of (SAcknowledgedGeneration _) = K_acknowledgedGeneration"
| "key_of (SPass _) = K_pass"
| "key_of (SLastReconcileRequestHandled _) = K_lastReconcileRequestHandled"
| "key_of (SFailureCount _) = K_failureCount"
| "key_of (SLastError _) = K_lastError"
| "key_of (SDriftDetails _) = K_driftDetails"
| "key_of (SDriftFingerprint _) = K_driftFingerprint"
| "key_of (SDriftTotal _) = K_driftTotal"
| "key_of (SObservedSpecDigest _) = K_observedSpecDigest"
| "key_of (SPendingPlanHash _) = K_pendingPlanHash"
| "key_of (SApprovedPlanHash _) = K_approvedPlanHash"
| "key_of (SPolicyEvaluation _) = K_policyEvaluation"
| "key_of (SConsecutiveDriftCycles _) = K_consecutiveDriftCycles"
| "key_of (SStuckResources _) = K_stuckResources"
| "key_of (SPhaseEnteredAt _) = K_phaseEnteredAt"
| "key_of (SGenerationLagSince _) = K_generationLagSince"
| "key_of (SConsecutiveCompileFailures _) = K_consecutiveCompileFailures"
| "key_of (SApplyCursorCount _) = K_applyCursorCount"
| "key_of (SApplyCursorAdvancedAt _) = K_applyCursorAdvancedAt"
| "key_of (SVerifiedBlockedSince _) = K_verifiedBlockedSince"
| "key_of (SAutoSuspended _) = K_autoSuspended"
| "key_of (SLastEscalatedAt _) = K_lastEscalatedAt"
| "key_of (SLastEscalationReason _) = K_lastEscalationReason"
| "key_of (SRateLimitedUntil _) = K_rateLimitedUntil"

lemma some_field_iff [simp]: "some_field f x = Some y \<longleftrightarrow> x \<noteq> None \<and> y = f x" "some_field f x = None \<longleftrightarrow> x = None"
  by (auto simp: some_field_def)

lemma to_value_key: "to_value s k = Some f \<Longrightarrow> key_of f = k"
  by (cases k) (auto split: if_splits)

lemma apply_field_other: "key_of f \<noteq> k \<Longrightarrow> to_value (apply_field f s) k = to_value s k"
  by (cases f; cases k) simp_all

lemma patch_status_simps [simp]:
  "patch_status [] s = s"
  "patch_status (f # fs) s = patch_status fs (apply_field f s)"
  "patch_status (fs @ gs) s = patch_status gs (patch_status fs s)"
  by (simp_all add: patch_status_def)

lemma patch_status_other:
  "\<forall>f \<in> set p. key_of f \<noteq> k \<Longrightarrow> to_value (patch_status p s) k = to_value s k"
  by (induction p arbitrary: s) (simp_all add: apply_field_other)

lemma scoped_patch_keys: "f \<in> set (scoped_status_patch s ks) \<Longrightarrow> key_of f \<in> set ks"
  by (auto simp: scoped_status_patch_def map_filter_def to_value_key)

text \<open>The contract of a writer: whatever it sends stays within the keys it owns. A client may rely on
  every other key of the stored status.\<close>

locale scoped_writer =
  fixes sent :: "status_field list \<Rightarrow> bool" and owned :: "status_key list"
  assumes sent_keys: "sent p \<Longrightarrow> f \<in> set p \<Longrightarrow> key_of f \<in> set owned"
begin

lemma frame: "sent p \<Longrightarrow> k \<notin> set owned \<Longrightarrow> to_value (patch_status p s) k = to_value s k"
  by (rule patch_status_other) (use sent_keys in blast)

lemma frame_all: "(\<And>p. p \<in> set ps \<Longrightarrow> sent p) \<Longrightarrow> k \<notin> set owned \<Longrightarrow> to_value (fold patch_status ps s) k = to_value s k"
  by (induction ps arbitrary: s) (simp_all add: frame)

end

datatype status_writer =
    Phase_Writer | Error_Writer | Plan_Writer | Apply_Writer | Compiled_Writer | Freshness_Writer
  | Drift_Clock_Writer | Pending_Hash_Writer | Settling_Writer

definition phase_keys :: "status_key list" where
  "phase_keys = [K_phase, K_observedGeneration, K_acknowledgedGeneration, K_pass, K_generationLagSince, K_observedSpecDigest,
     K_conditions, K_phaseEnteredAt, K_lastError, K_failureCount]"

text \<open>The keys each writer is documented to own.\<close>

fun owned_keys :: "status_writer \<Rightarrow> status_key list" where
  "owned_keys Phase_Writer = K_lastReconcileRequestHandled # phase_keys"
| "owned_keys Error_Writer = phase_keys"
| "owned_keys Plan_Writer = [K_resources, K_planSummary, K_lastPlannedAt, K_driftDetails, K_policyEvaluation]"
| "owned_keys Apply_Writer = [K_outputs, K_lastAppliedAt, K_lastAppliedRevision, K_observedHeadRevision, K_pendingPlanHash,
     K_approvedPlanHash, K_conditions]"
| "owned_keys Compiled_Writer = [K_compiledRevision, K_compiledAt]"
| "owned_keys Freshness_Writer = [K_observedHeadRevision, K_lastFreshnessCheckAt]"
| "owned_keys Drift_Clock_Writer = [K_lastDriftCheckAt]"
| "owned_keys Pending_Hash_Writer = [K_pendingPlanHash, K_approvedPlanHash]"
| "owned_keys Settling_Writer = [K_consecutiveDriftCycles, K_stuckResources, K_driftDetails, K_conditions, K_lastDriftCheckAt]"

text \<open>A writer sends a patch: from any snapshot, at any time, with any arguments.\<close>

inductive sends :: "status_writer \<Rightarrow> status_field list \<Rightarrow> bool" where
  "sends Phase_Writer (update_phase rfc me honor template fresh digest ph now)"
| "sends Error_Writer (update_phase_with_error rfc me template fresh digest ph msg now)"
| "sends Plan_Writer (build_plan_status_patch (snapshot template) resources summary drifts evaluation now)"
| "sends Apply_Writer (update_apply_status rfc template fresh outputs revision now)"
| "sends Compiled_Writer (update_compiled_revision template revision now)"
| "sends Freshness_Writer (update_freshness_status template observation now)"
| "sends Drift_Clock_Writer (update_drift_check_timestamp template now)"
| "sends Pending_Hash_Writer (update_pending_plan_hash plan_hash)"
| "sends Settling_Writer (update_settling_status S rfc template fresh outcome drifts freshness now)"

text \<open>The server after any number of such writes.\<close>

inductive status_history :: "itr_status \<Rightarrow> itr_status \<Rightarrow> bool" for initial where
  start: "status_history initial initial"
| written: "status_history initial s \<Longrightarrow> sends w p \<Longrightarrow> status_history initial (patch_status p s)"

lemma sends_keys: "sends w p \<Longrightarrow> f \<in> set p \<Longrightarrow> key_of f \<in> set (owned_keys w)"
proof (induction rule: sends.induct)
  case (9 S rfc template fresh outcome drifts freshness now)
  then show ?case
    by (auto simp: update_settling_status_def build_settling_status_patch_def SETTLING_STATUS_FIELDS_def Let_def
        dest!: scoped_patch_keys split: if_splits)
qed (auto simp: PLAN_STATUS_FIELDS_def APPLY_STATUS_FIELDS_def update_phase_def update_phase_with_error_def build_plan_status_patch_def update_apply_status_def
    update_compiled_revision_def update_freshness_status_def build_freshness_patch_def update_drift_check_timestamp_def
    update_pending_plan_hash_def phase_keys_def Let_def
    dest!: scoped_patch_keys split: if_splits option.splits observation_outcome.splits)

interpretation writer: scoped_writer "sends w" "owned_keys w" for w
  by unfold_locales (rule sends_keys)

lemma no_writer_of_the_fingerprint: "K_driftFingerprint \<notin> set (owned_keys w)" "K_driftTotal \<notin> set (owned_keys w)"
  by (cases w; simp add: phase_keys_def)+


definition one_template :: infrastructure_template where
  "one_template = \<lparr>it_name = ''app'', it_namespace = Some ''prod'', it_generation = Some 2, it_deleted = False,
     it_suspend = False, it_request = None, it_git_ref = Some ''main'', it_auto_approve = False, it_refresh_interval = ''5m'',
     it_retry_policy = None, it_settling_policy = None, it_approved_plan_hash = None, it_status = None\<rparr>"


section \<open>What a phase write claims\<close>

lemma patch_update_phase:
  fixes rfc me honor template fresh digest ph now stored
  defines "live \<equiv> live_generation (driver_of template) fresh"
  defines "pass \<equiv> entered_pass template ph None live now"
  defines "observed \<equiv> observed_generation pass (st_observed_generation (ds_core (snapshot template)))"
  defines "s' \<equiv> patch_status (update_phase rfc me honor template fresh digest ph now) stored"
  shows "st_phase (ds_core s') = Some ph" "st_observed_generation (ds_core s') = observed"
    "st_acknowledged_generation (ds_core s') = generation_of (driver_of template)" "st_pass (ds_core s') = Some (to_status me pass)"
    "st_conditions (ds_core s') = project rfc (conditions_for_phase ph None (fresh_state (driver_of template)) now) pass observed live now"
    "st_last_error (ds_core s') = (if ph \<noteq> phase.Failed then None else st_last_error (ds_core stored))"
    "is_failure_count s' = (if ph \<noteq> phase.Failed then 0 else is_failure_count stored)"
    "is_phase_entered_at s' = (if phase_changed template ph then Some now else is_phase_entered_at stored)"
  by (simp_all add: s'_def update_phase_def live_def pass_def observed_def Let_def split: option.split)

lemma project_phase_good:
  assumes "c \<in> set (project rfc (conditions_for_phase ph err fresh now) pass observed live now)"
    and "claims_good c" and "c_status c = ''True''"
  shows "ph = phase.Ready \<and> live \<le> observed \<and> c_observed_generation c = Some live \<and> permits_ready fresh"
proof -
  note good = project_good [OF assms]
  have "c_type c \<noteq> ''Stalled''" using assms(2) by (auto simp: claims_good_def)
  with assms(1) obtain b where b: "b \<in> set (conditions_for_phase ph err fresh now)"
      "c = project_condition rfc pass observed live b"
    by (auto simp: project_def Let_def split: prod.splits)
  have "c_type b \<in> set (map c_type (conditions_for_phase ph err fresh now))" using b(1) by simp
  then have "c_type b \<noteq> ''Settled''" by (auto simp: conditions_for_phase_types)
  with b(2) assms(2) have "c_type c = ''Ready''" by (simp add: claims_good_def)
  with project_ready [OF assms(1) _ assms(3)] obtain a where
    "a \<in> set (conditions_for_phase ph err fresh now)" "c_type a = ''Ready''" "c_status a = ''True''" by blast
  with conditions_for_phase_ready good show ?thesis by blast
qed

text \<open>A phase write is honest and complete. Once it is merged into whatever the server stores,
  the phase, the acknowledged generation and the pass are the ones written; a Ready or Settled
  condition is True only in phase Ready, for a caught-up generation and a source that is not
  behind; the published generation invariant holds; and leaving Failed clears the error and the
  failure count.\<close>

lemma phase_write_sound:
  fixes rfc me honor template fresh digest ph now stored later
  defines "live \<equiv> live_generation (driver_of template) fresh"
  defines "s' \<equiv> patch_status (update_phase rfc me honor template fresh digest ph now) stored"
  shows "st_phase (ds_core s') = Some ph
    \<and> st_acknowledged_generation (ds_core s') = generation_of (driver_of template)
    \<and> map_option (\<lambda>p. from_status p later) (st_pass (ds_core s')) = Some (entered_pass template ph None live now)
    \<and> \<not> violates_generation_invariant (st_conditions (ds_core s')) (st_observed_generation (ds_core s')) live
    \<and> (\<forall>c \<in> set (st_conditions (ds_core s')). claims_good c \<and> c_status c = ''True'' \<longrightarrow>
         ph = phase.Ready \<and> live \<le> st_observed_generation (ds_core s') \<and> permits_ready (fresh_state (driver_of template)))
    \<and> (ph \<noteq> phase.Failed \<longrightarrow> st_last_error (ds_core s') = None \<and> is_failure_count s' = 0)"
proof -
  note eqs = patch_update_phase [where rfc = rfc and me = me and honor = honor and template = template and fresh = fresh
      and digest = digest and ph = ph and now = now and stored = stored, folded s'_def live_def]
  have good: "ph = phase.Ready \<and> live \<le> st_observed_generation (ds_core s') \<and> c_observed_generation c = Some live
      \<and> permits_ready (fresh_state (driver_of template))"
    if "c \<in> set (st_conditions (ds_core s'))" "claims_good c" "c_status c = ''True''" for c
    using that unfolding eqs(2,5) by (rule project_phase_good)
  then have "\<not> violates_generation_invariant (st_conditions (ds_core s')) (st_observed_generation (ds_core s')) live"
    unfolding violates_generation_invariant_def list_ex_iff by fastforce
  with good show ?thesis using eqs(1,3,4,6,7) by (auto simp: pass_status_decode)
qed

section \<open>What an apply write stores\<close>

lemma build_apply_status_fields [simp]:
  "is_pending_plan_hash (build_apply_status s outputs revision now) = None"
  "is_approved_plan_hash (build_apply_status s outputs revision now) = None"
  "is_last_applied_at (build_apply_status s outputs revision now) = Some now"
  "is_outputs (build_apply_status s outputs revision now) = outputs"
  "is_last_applied_revision (build_apply_status s outputs revision now) =
     (case revision of Some r \<Rightarrow> Some r | None \<Rightarrow> is_last_applied_revision s)"
  by (simp_all add: build_apply_status_def Let_def split: option.split)

text \<open>Clearing the two plan hashes in memory leaves their keys out of the patch, so the stored
  ones survive every apply. Likewise an output that is gone from the plan stays stored.\<close>

lemma apply_write_effect:
  fixes rfc template fresh outputs revision now stored
  defines "s' \<equiv> patch_status (update_apply_status rfc template fresh outputs revision now) stored"
  shows "is_pending_plan_hash s' = is_pending_plan_hash stored" "is_approved_plan_hash s' = is_approved_plan_hash stored"
    "is_last_applied_at s' = Some now"
    "revision = Some r \<Longrightarrow> is_last_applied_revision s' = Some r"
  by (simp_all add: s'_def update_apply_status_def APPLY_STATUS_FIELDS_def scoped_status_patch_def some_field_def
      Let_def split: option.split)

end
