(* ===== verification/Template_Handlers.thy ===== *)
theory Template_Handlers
  imports Template_Status
begin

text \<open>
  The phase handlers of a template that watch and correct what is applied
  (\<open>pangea-operator/src/controller/template_controller.rs\<close>): the source-freshness gate, the
  Ready phase with its drift check and settling, the Drifted phase and the Failed phase.

  A handler returns the effects it has, in order, and its result; an error ends it with the effects
  so far. What it asks the outside world is in the record \<open>env\<close>: one reading of the clock and of the
  live object per run, the listing of the git remote, whether each write succeeds, and the answers
  of the workspace, the runner and the drift scheduler. The metrics are effects as well; log lines
  are not modelled.
\<close>

section \<open>Effects\<close>

datatype event_type = Normal | Warning

datatype effect =
    Patch "status_field list"
  | Event event_type string string
  | Inc string "string list"
  | SetGauge string int
  | SetDetailGauge string string int
  | RemoveDetailGauge string string
  | CleanWorkspace
  | BeginPass phase
  | EndPass
  | FinishSettledPass

datatype handler_error = Write_Failed | Credentials_Failed | Workspace_Failed | Config_Failed | Plan_Failed | Bad_Interval | Lock_Failed | Apply_Failed

type_synonym 'a handled = "effect list \<times> (handler_error, 'a) result"

definition return :: "'a \<Rightarrow> 'a handled" where
  "return x = ([], Inr x)"

definition fail :: "handler_error \<Rightarrow> 'a handled" where
  "fail e = ([], Inl e)"

definition emit :: "effect list \<Rightarrow> 'a handled \<Rightarrow> 'a handled" where
  "emit fx k = (fx @ fst k, snd k)"

definition and_then :: "'a handled \<Rightarrow> ('a \<Rightarrow> 'b handled) \<Rightarrow> 'b handled" where
  "and_then m f = (case snd m of Inl e \<Rightarrow> (fst m, Inl e) | Inr x \<Rightarrow> emit (fst m) (f x))"

definition require :: "bool \<Rightarrow> handler_error \<Rightarrow> 'a handled \<Rightarrow> 'a handled" where
  "require b e k = (if b then k else fail e)"

text \<open>A writer that has nothing to send makes no call, so it cannot fail.\<close>

definition write_status :: "bool \<Rightarrow> status_field list \<Rightarrow> 'a handled \<Rightarrow> 'a handled" where
  "write_status ok p k = (if p = [] then k else if ok then emit [Patch p] k else fail Write_Failed)"

record env =
  en_rfc :: "time \<Rightarrow> string"
  en_me :: string
  en_honor :: bool
  en_S :: "string \<Rightarrow> u64"
  en_digest :: "string option"
  en_live :: "driver_template option"
  en_now :: time
  en_ok :: "status_writer \<Rightarrow> bool"
  en_credentials_ok :: bool
  en_workspace_ok :: bool
  en_listing :: "advertised_ref list option"
  en_probe_text :: "probe_error \<Rightarrow> string"

definition to_phase :: "env \<Rightarrow> infrastructure_template \<Rightarrow> phase \<Rightarrow> 'a handled \<Rightarrow> 'a handled" where
  "to_phase env template ph k =
     write_status (en_ok env Phase_Writer)
       (update_phase (en_rfc env) (en_me env) (en_honor env) template (en_live env) (en_digest env) ph (en_now env)) k"

definition to_failed :: "env \<Rightarrow> infrastructure_template \<Rightarrow> string \<Rightarrow> 'a handled \<Rightarrow> 'a handled" where
  "to_failed env template msg k =
     write_status (en_ok env Error_Writer)
       (update_phase_with_error (en_rfc env) (en_me env) template (en_live env) (en_digest env) phase.Failed msg (en_now env)) k"

section \<open>The source-freshness gate\<close>

datatype freshness_gate = Proceed "freshness option" | Bounce reconcile_action

definition observe_source_freshness :: "env \<Rightarrow> infrastructure_template \<Rightarrow> freshness handled" where
  "observe_source_freshness env template =
     (case it_git_ref template of
        None \<Rightarrow> return freshness.Unknown
      | Some git_ref \<Rightarrow>
          require (en_credentials_ok env) Credentials_Failed
            (case observe_head (en_listing env) git_ref of
               Inr head \<Rightarrow>
                 write_status (en_ok env Freshness_Writer) (update_freshness_status template (Observed head) (en_now env))
                   (return (evaluate_source_freshness (ds_compiled_revision (snapshot template)) head))
             | Inl e \<Rightarrow>
                 emit [Inc ''source_freshness_check_failures_total'' []]
                   (write_status (en_ok env Freshness_Writer) (update_freshness_status template Unobserved (en_now env))
                     (emit [Event Warning ''SourceUnobservable''
                         (''Source git HEAD could not be observed (ls-remote failed: '' @ en_probe_text env e @ '') '' @ em_dash
                            @ '' HEAD unverified; reconciling against the last-observed revision'')]
                       (return freshness.Unknown)))))"

definition source_freshness_gate :: "env \<Rightarrow> infrastructure_template \<Rightarrow> freshness_gate handled" where
  "source_freshness_gate env template =
     (if it_git_ref template = None then return (Proceed None)
      else and_then (observe_source_freshness env template) (\<lambda>f.
        (case f of
           Stale compiled head \<Rightarrow>
             emit [Event Warning ''SourceStale''
                 (''Source HEAD '' @ head @ '' is ahead of compiled revision ''
                    @ (case compiled of Some c \<Rightarrow> c | None \<Rightarrow> ''(none recorded)'') @ '' '' @ em_dash @ '' recompiling'')]
               (to_phase env template phase.Compiling (return (Bounce (Requeue SHORT_REQUEUE_INTERVAL))))
         | _ \<Rightarrow> return (Proceed (Some f)))))"

section \<open>Drifted\<close>

definition drift_approved :: "itr_status option \<Rightarrow> bool" where
  "drift_approved status =
     (case status of
        Some s \<Rightarrow>
          (case (is_pending_plan_hash s, is_approved_plan_hash s) of
             (Some pending, Some approved) \<Rightarrow> pending = approved
           | _ \<Rightarrow> False)
      | None \<Rightarrow> False)"

definition correct_drift :: "env \<Rightarrow> infrastructure_template \<Rightarrow> string \<Rightarrow> string \<Rightarrow> reconcile_action handled" where
  "correct_drift env template reason message =
     require (en_workspace_ok env) Workspace_Failed
       (and_then (source_freshness_gate env template) (\<lambda>g.
          (case g of
             Bounce action \<Rightarrow> return action
           | Proceed _ \<Rightarrow>
               emit [Event Normal reason message]
                 (to_phase env template phase.Planning (return (Requeue SHORT_REQUEUE_INTERVAL))))))"

definition handle_drifted :: "env \<Rightarrow> infrastructure_template \<Rightarrow> reconcile_action handled" where
  "handle_drifted env template =
     emit [Inc ''drift_detected_total'' []]
       (if it_auto_approve template then correct_drift env template ''DriftCorrection'' ''Auto-correcting infrastructure drift''
        else if drift_approved (it_status template)
        then correct_drift env template ''DriftApproved'' ''Drift correction approved by user''
        else return (Requeue DEFAULT_REQUEUE_INTERVAL))"

section \<open>Failed\<close>

definition default_max_retries :: u32 where
  "default_max_retries = 3"

definition retry_count :: "infrastructure_template \<Rightarrow> u32" where
  "retry_count template = (case it_status template of Some s \<Rightarrow> is_failure_count s | None \<Rightarrow> 0)"

definition retries_exhausted :: "infrastructure_template \<Rightarrow> bool" where
  "retries_exhausted template \<longleftrightarrow>
     (case it_retry_policy template of Some p \<Rightarrow> rp_max_retries p | None \<Rightarrow> default_max_retries) \<le> retry_count template"

definition EXHAUSTED_RETRY_INTERVAL :: std_duration where
  "EXHAUSTED_RETRY_INTERVAL = from_secs 3600"

datatype failed_retry_decision = ExponentialBackoff std_duration | SlowCadenceAfterExhaustion std_duration

fun requeue_after :: "failed_retry_decision \<Rightarrow> std_duration" where
  "requeue_after (ExponentialBackoff d) = d" | "requeue_after (SlowCadenceAfterExhaustion d) = d"

fun retry_event_reason :: "failed_retry_decision \<Rightarrow> string" where
  "retry_event_reason (ExponentialBackoff _) = ''Retry''"
| "retry_event_reason (SlowCadenceAfterExhaustion _) = ''RetryAfterExhaustion''"

fun retry_event_type :: "failed_retry_decision \<Rightarrow> event_type" where
  "retry_event_type (ExponentialBackoff _) = Normal"
| "retry_event_type (SlowCadenceAfterExhaustion _) = Warning"

definition decide_retry :: "bool \<Rightarrow> u32 \<Rightarrow> u32 \<Rightarrow> failed_retry_decision" where
  "decide_retry exhausted failure_count backoff_seconds =
     (if exhausted then SlowCadenceAfterExhaustion EXHAUSTED_RETRY_INTERVAL
      else ExponentialBackoff (exponential_backoff failure_count backoff_seconds 600))"

definition REFUSAL_HOLD_RECHECK :: std_duration where
  "REFUSAL_HOLD_RECHECK = DEFAULT_REQUEUE_INTERVAL"

definition retry_decision :: "infrastructure_template \<Rightarrow> failed_retry_decision" where
  "retry_decision template =
     decide_retry (retries_exhausted template) (retry_count template)
       (case it_retry_policy template of Some p \<Rightarrow> rp_backoff_seconds p | None \<Rightarrow> 30)"

text \<open>\<open>held\<close> is the reason of a held admission refusal, and \<open>reuse_render\<close> the setting of that name.\<close>

definition handle_failed :: "env \<Rightarrow> string option \<Rightarrow> bool \<Rightarrow> bool \<Rightarrow> infrastructure_template \<Rightarrow> reconcile_action handled" where
  "handle_failed env held reuse_render clean_ok template =
     (if held \<noteq> None then return (Requeue REFUSAL_HOLD_RECHECK)
      else
        (let decision = retry_decision template in
         require (en_workspace_ok env \<and> clean_ok) Workspace_Failed
           (emit [CleanWorkspace]
             (write_status (en_ok env Compiled_Writer)
                (if reuse_render \<and> it_git_ref template = None then [SCompiledRevision None] else [])
                (to_phase env template phase.Pending
                  (emit [Event (retry_event_type decision) (retry_event_reason decision)
                      (''Retrying after failure (attempt '' @ show_nat (unat (retry_count template)) @ '')'')]
                    (return (Requeue (requeue_after decision)))))))))"

section \<open>Ready: the drift check\<close>

definition prior_fingerprint :: "(string \<Rightarrow> u64) \<Rightarrow> itr_status option \<Rightarrow> string option" where
  "prior_fingerprint S status =
     (case status of
        None \<Rightarrow> None
      | Some s \<Rightarrow>
          (case is_drift_fingerprint s of
             Some fp \<Rightarrow> Some fp
           | None \<Rightarrow> if is_drift_details s \<noteq> [] then Some (fingerprint S (is_drift_details s)) else None))"

definition policy_of :: "infrastructure_template \<Rightarrow> settling_policy" where
  "policy_of template = (case it_settling_policy template of Some p \<Rightarrow> p | None \<Rightarrow> default_settling)"

definition outcome_of :: "(string \<Rightarrow> u64) \<Rightarrow> infrastructure_template \<Rightarrow> drift_detail list \<Rightarrow> settling_outcome" where
  "outcome_of S template drifts =
     evaluate_settling S (policy_of template) (is_consecutive_drift_cycles (snapshot template))
       (prior_fingerprint S (it_status template)) drifts"

fun stuck_summary :: "settling_outcome \<Rightarrow> u32 \<times> string list" where
  "stuck_summary (StuckByFingerprint cycles _ addrs) = (cycles, addrs)"
| "stuck_summary (StuckByCount cycles addrs) = (cycles, addrs)"
| "stuck_summary (settling_outcome.Progressing cycles) = (cycles, [])"
| "stuck_summary settling_outcome.Settled = (0, [])"

definition gauge_actions :: "string list" where
  "gauge_actions = [''create'', ''update'', ''delete'', ''replace'']"

definition gauge_risks :: "string list" where
  "gauge_risks = [''none'', ''low'', ''medium'', ''high'']"

definition gauge_bucket :: "drift_detail \<Rightarrow> string \<times> string" where
  "gauge_bucket d =
     (if dd_action d \<in> set gauge_actions then dd_action d else ''update'',
      if dd_risk d \<in> set gauge_risks then dd_risk d else ''low'')"

definition update_drift_detail_gauges :: "bool \<Rightarrow> drift_detail list \<Rightarrow> effect list" where
  "update_drift_detail_gauges sparse drifts =
     concat (map (\<lambda>a. map (\<lambda>r.
       (let v = length (filter (\<lambda>d. gauge_bucket d = (a, r)) drifts)
        in if sparse \<and> v = 0 then RemoveDetailGauge a r else SetDetailGauge a r (int v))) gauge_risks) gauge_actions)"

fun stuck_label :: "settling_outcome \<Rightarrow> string" where
  "stuck_label (StuckByFingerprint _ _ _) = ''StuckByFingerprint''"
| "stuck_label (StuckByCount _ _) = ''StuckByCount''"
| "stuck_label _ = ''Unknown''"

fun stuck_reason :: "settling_outcome \<Rightarrow> string" where
  "stuck_reason (StuckByFingerprint _ _ _) = ''identical drift fingerprint across cycles''"
| "stuck_reason (StuckByCount _ _) = ''exceeded max consecutive drift cycles''"
| "stuck_reason _ = ''stuck''"

definition settle_action ::
    "env \<Rightarrow> std_duration \<Rightarrow> infrastructure_template \<Rightarrow> settling_outcome \<Rightarrow> settling_action \<Rightarrow> reconcile_action handled" where
  "settle_action env interval template outcome action =
     (let cycles = show_nat (unat (fst (stuck_summary outcome)));
          addrs = join_with '', '' (snd (stuck_summary outcome))
      in (case action of
            AcceptSettled \<Rightarrow> return (Requeue interval)
          | KeepTrying \<Rightarrow>
              emit [Inc ''drift_detected_total'' []]
                (to_phase env template phase.Drifted
                  (emit [Event Warning ''DriftDetected'' ''Infrastructure drift detected'']
                    (return (Requeue SHORT_REQUEUE_INTERVAL))))
          | AlertButContinue \<Rightarrow>
              emit [Inc ''settling_failures_total'' [stuck_label outcome], Inc ''drift_detected_total'' [],
                  Event Warning ''SettlingAlert''
                    (''State has not settled after '' @ cycles @ '' cycle(s). Stuck resources: '' @ addrs
                       @ ''. Continuing to retry.'')]
                (to_phase env template phase.Drifted (return (Requeue SHORT_REQUEUE_INTERVAL)))
          | EscalateToFailed \<Rightarrow>
              (let msg = ''STATE-SETTLING FAILED '' @ em_dash @ '' '' @ stuck_reason outcome @ '' after '' @ cycles
                     @ '' cycle(s). Stuck resources: '' @ addrs @ ''. Manual investigation required (provider quota, ''
                     @ ''broken provider config, conflicting external automation, or upstream API not converging).''
               in emit [Inc ''settling_failures_total'' [stuck_label outcome]]
                    (to_failed env template msg
                      (emit [Event Warning ''SettlingFailed'' msg] (return (Requeue ERROR_REQUEUE_INTERVAL)))))))"

definition settle :: "env \<Rightarrow> bool \<Rightarrow> std_duration \<Rightarrow> infrastructure_template \<Rightarrow> freshness option \<Rightarrow> drift_detail list \<Rightarrow> reconcile_action handled" where
  "settle env sparse interval template freshness drifts =
     (let outcome = outcome_of (en_S env) template drifts;
          action = action_for outcome (policy_of template)
      in write_status (en_ok env Settling_Writer)
           (update_settling_status (en_S env) (en_rfc env) template (en_live env) outcome drifts freshness (en_now env))
           (emit ([SetGauge ''consecutive_drift_cycles'' (uint (cycle_count outcome)),
                   SetGauge ''stuck_resources'' (int (length (snd (stuck_summary outcome)))),
                   SetGauge ''settled'' (if outcome = settling_outcome.Settled then 1 else 0)]
                  @ update_drift_detail_gauges sparse drifts)
             (settle_action env interval template outcome action)))"

text \<open>What else a drift check asks: whether a compiled configuration is there, the drift lane of the
  template with the time to its next slot, whether the admission queues the check, and the plan
  with its changes.\<close>

record drift_answers =
  da_config :: "(handler_error, bool) result"
  da_lane :: bool
  da_wait :: std_duration
  da_queued :: bool
  da_plan :: "(bool \<times> drift_detail list) option"
  da_sparse :: bool

definition FALLBACK_REQUEUE :: std_duration where
  "FALLBACK_REQUEUE = from_secs 300"

text \<open>\<open>chrono::Duration::from_std\<close> fails beyond the largest number of milliseconds of an \<open>i64\<close>.\<close>

definition interval_chrono :: "std_duration \<Rightarrow> duration" where
  "interval_chrono interval = (if interval < 2 ^ 63 then int interval * 10 ^ 6 else 5 * 60 * 10 ^ 9)"

text \<open>The wait of a throttled check, if it is throttled.\<close>

definition throttled :: "env \<Rightarrow> drift_answers \<Rightarrow> std_duration \<Rightarrow> infrastructure_template \<Rightarrow> std_duration option" where
  "throttled env answers interval template =
     (let request_pending = reconcile_request_pending (en_honor env) (driver_of template) in
      if da_lane answers \<and> \<not> request_pending then
        (if da_wait answers \<noteq> 0 then Some (min (da_wait answers) interval) else None)
      else (case is_last_drift_check_at (snapshot template) of
              Some last_check \<Rightarrow>
                if \<not> request_pending \<and> en_now env - last_check < interval_chrono interval then Some interval else None
            | None \<Rightarrow> None))"

definition run_drift_check :: "env \<Rightarrow> drift_answers \<Rightarrow> std_duration \<Rightarrow> infrastructure_template \<Rightarrow> freshness option \<Rightarrow> reconcile_action handled" where
  "run_drift_check env answers interval template freshness =
     emit [BeginPass phase.Planning]
       (case da_plan answers of
          None \<Rightarrow> emit [EndPass] (fail Plan_Failed)
        | Some (has_changes, details) \<Rightarrow>
            emit [EndPass, FinishSettledPass]
              (write_status (en_ok env Drift_Clock_Writer) (update_drift_check_timestamp template (en_now env))
                (settle env (da_sparse answers) interval template freshness (if has_changes then details else []))))"

definition handle_ready :: "env \<Rightarrow> drift_answers \<Rightarrow> infrastructure_template \<Rightarrow> reconcile_action handled outcome" where
  "handle_ready env answers template =
     (if \<not> en_credentials_ok env then Returns (fail Credentials_Failed)
      else (case parse_duration (it_refresh_interval template) of
        Panic \<Rightarrow> Panic
      | Returns d \<Rightarrow>
          (let interval = (case d of Some d \<Rightarrow> d | None \<Rightarrow> DEFAULT_REQUEUE_INTERVAL) in
           Returns (require (en_workspace_ok env) Workspace_Failed
             (and_then (source_freshness_gate env template) (\<lambda>g.
                (case g of
                   Bounce action \<Rightarrow> return action
                 | Proceed freshness \<Rightarrow>
                     (case da_config answers of
                        Inl e \<Rightarrow> fail e
                      | Inr False \<Rightarrow> to_phase env template phase.Compiling (return (Requeue SHORT_REQUEUE_INTERVAL))
                      | Inr True \<Rightarrow>
                          (case throttled env answers interval template of
                             Some wait \<Rightarrow> return (Requeue wait)
                           | None \<Rightarrow>
                               if da_queued answers then return (Requeue (min FALLBACK_REQUEUE interval))
                               else run_drift_check env answers interval template freshness)))))))))"

section \<open>A stale compile is never checked for drift\<close>

lemma handled_simps [simp]:
  "fst (return x) = []" "snd (return x) = Inr x" "fst (fail e) = []" "snd (fail e) = Inl e"
  "fst (emit fx k) = fx @ fst k" "snd (emit fx k) = snd k"
  by (simp_all add: return_def fail_def emit_def)

lemma fst_and_then: "fst (and_then m f) = fst m @ (case snd m of Inl e \<Rightarrow> [] | Inr x \<Rightarrow> fst (f x))"
  by (simp add: and_then_def split: sum.split)

lemma snd_and_then: "snd (and_then m f) = (case snd m of Inl e \<Rightarrow> Inl e | Inr x \<Rightarrow> snd (f x))"
  by (simp add: and_then_def split: sum.split)

lemma fst_write_status: "fst (write_status ok p k) = (if p = [] then fst k else if ok then Patch p # fst k else [])"
  by (simp add: write_status_def)

lemma snd_write_status: "snd (write_status ok p k) = (if p \<noteq> [] \<and> \<not> ok then Inl Write_Failed else snd k)"
  by (simp add: write_status_def)

lemmas handled_eqs = fst_and_then snd_and_then fst_write_status snd_write_status require_def

definition is_begin :: "effect \<Rightarrow> bool" where
  "is_begin e = (case e of BeginPass _ \<Rightarrow> True | _ \<Rightarrow> False)"

lemma gate_begins_nothing: "e \<in> set (fst (source_freshness_gate env template)) \<Longrightarrow> \<not> is_begin e"
  by (auto simp: source_freshness_gate_def observe_source_freshness_def to_phase_def is_begin_def handled_eqs
      split: if_splits option.splits sum.splits freshness.splits)

lemma gate_proceeds_fresh:
  assumes "snd (source_freshness_gate env template) = Inr (Proceed f)"
    and "it_git_ref template = Some git_ref" and "observe_head (en_listing env) git_ref = Inr head"
  shows "ds_compiled_revision (snapshot template) = Some head"
  using assms
  by (auto simp: source_freshness_gate_def observe_source_freshness_def to_phase_def evaluate_source_freshness_def handled_eqs
      split: if_splits sum.splits)

lemma gate_bounces_stale:
  assumes "it_git_ref template = Some git_ref" and "observe_head (en_listing env) git_ref = Inr head"
    and "ds_compiled_revision (snapshot template) \<noteq> Some head" and "en_credentials_ok env"
    and "en_ok env Freshness_Writer" and "en_ok env Phase_Writer"
  shows "snd (source_freshness_gate env template) = Inr (Bounce (Requeue SHORT_REQUEUE_INTERVAL))
    \<and> (\<exists>fx. fst (source_freshness_gate env template) = fx @ [Patch (update_phase (en_rfc env) (en_me env) (en_honor env) template
        (en_live env) (en_digest env) phase.Compiling (en_now env))])"
  using assms
  by (auto simp: source_freshness_gate_def observe_source_freshness_def to_phase_def evaluate_source_freshness_def handled_eqs
      update_phase_def Let_def)


definition test_env :: env where
  "test_env = \<lparr>en_rfc = \<lambda>_. [], en_me = ''pod-1'', en_honor = False, en_S = \<lambda>_. 0, en_digest = None, en_live = None,
     en_now = 0, en_ok = \<lambda>_. True, en_credentials_ok = True, en_workspace_ok = True,
     en_listing = Some [\<lparr>ar_name = ''refs/heads/main'', ar_oid = Some ''abc'', ar_peeled = None\<rparr>], en_probe_text = \<lambda>_. []\<rparr>"

definition test_answers :: drift_answers where
  "test_answers = \<lparr>da_config = Inr True, da_lane = False, da_wait = 0, da_queued = False, da_plan = Some (False, []), da_sparse = False\<rparr>"

lemma test_interval: "parse_duration (it_refresh_interval one_template) = Returns (Some 300000)"
proof -
  have "show_nat 5 = ''5''" by code_simp
  with parse_seconds [of 5 "''m''" 60] show ?thesis by (simp add: one_template_def seconds_per_def)
qed

lemma test_source:
  "it_git_ref one_template = Some ''main''" "observe_head (en_listing test_env) ''main'' = Inr ''abc''"
  "ds_compiled_revision (snapshot one_template) \<noteq> Some ''abc''"
  by (simp_all add: test_env_def observe_head_def select_ref_def ref_candidates_def ref_target_def one_template_def snapshot_def
      itr_default_def driver_status.defs itr_status.defs status_default_def)


section \<open>Settling\<close>

lemma settling_patch_cycles:
  assumes "is_consecutive_drift_cycles stored = is_consecutive_drift_cycles (snapshot template)"
  shows "is_consecutive_drift_cycles (patch_status (update_settling_status S rfc template fresh out drifts f now) stored) = cycle_count out"
proof -
  let ?new = "build_settling_status S rfc (snapshot template) out drifts f (live_generation (driver_of template) fresh) now"
  have new: "is_consecutive_drift_cycles ?new = cycle_count out"
    by (simp add: build_settling_status_def with_drift_def Let_def)
  show ?thesis
  proof (cases "settling_status_needs_patch (snapshot template) ?new")
    case True
    then show ?thesis using new
      by (simp add: update_settling_status_def build_settling_status_patch_def Let_def scoped_status_patch_def
          SETTLING_STATUS_FIELDS_def map_filter_simps some_field_def)
  next
    case False
    then have "is_consecutive_drift_cycles (snapshot template) = cycle_count out"
      using new by (auto simp: settling_status_needs_patch_def)
    with False assms show ?thesis
      by (simp add: update_settling_status_def build_settling_status_patch_def Let_def)
  qed
qed

lemma unat_sat_suc: "unat (sat_add (n :: u32) 1) = min (unat n + 1) (2 ^ 32 - 1)"
  using unat_sat_add [of n 1] by simp

lemma sat_count:
  fixes n :: "nat \<Rightarrow> u32"
  assumes "\<And>i. n (Suc i) = sat_add (n i) 1"
  shows "unat (n i) = min (unat (n 0) + i) (2 ^ 32 - 1)"
proof (induction i)
  case 0
  have "unat (n 0) < 2 ^ 32" using unsigned_less [where 'a = nat and w = "n 0"] by simp
  then show ?case by linarith
next
  case (Suc i)
  then show ?case unfolding assms unat_sat_suc by linarith
qed

lemma sat_count_reaches:
  fixes n :: "nat \<Rightarrow> u32" and m :: u32
  assumes "\<And>i. n (Suc i) = sat_add (n i) 1"
  shows "unat m \<le> unat (n (Suc (max 1 (unat m) - 1)))" and "unat (n (Suc i)) \<le> unat (n 0) + i + 1"
proof -
  have "unat m < 2 ^ 32" using unsigned_less [where 'a = nat and w = m] by simp
  then show "unat m \<le> unat (n (Suc (max 1 (unat m) - 1)))"
    using sat_count [of n "Suc (max 1 (unat m) - 1)", OF assms] by linarith
  show "unat (n (Suc i)) \<le> unat (n 0) + i + 1" using sat_count [of n "Suc i", OF assms] by linarith
qed


primrec loop_status :: "nat \<Rightarrow> itr_status" where
  "loop_status 0 = itr_default"
| "loop_status (Suc i) = patch_status (update_settling_status (\<lambda>_. 0) (\<lambda>_. []) (one_template\<lparr>it_status := Some (loop_status i)\<rparr>)
     None (outcome_of (\<lambda>_. 0) (one_template\<lparr>it_status := Some (loop_status i)\<rparr>) [vpc_delete]) [vpc_delete] None 0) (loop_status i)"


text \<open>What the next check compares with: the fingerprint of the first fifty changes, since the
  stored fingerprint is never set.\<close>

lemma prior_after_settling:
  assumes "drifts \<noteq> []" and "is_drift_fingerprint stored = None"
    and "is_drift_details stored = is_drift_details (snapshot template)"
  shows "prior_fingerprint S (Some (patch_status (update_settling_status S rfc template fresh out drifts f now) stored))
    = Some (fingerprint S (take DRIFT_STATUS_CAP drifts))"
proof -
  let ?new = "build_settling_status S rfc (snapshot template) out drifts f (live_generation (driver_of template) fresh) now"
  let ?s = "patch_status (update_settling_status S rfc template fresh out drifts f now) stored"
  have new: "is_drift_details ?new = take DRIFT_STATUS_CAP drifts"
    using assms(1) by (simp add: build_settling_status_def with_drift_def Let_def)
  have "sends Settling_Writer (update_settling_status S rfc template fresh out drifts f now)" by (rule sends.intros)
  from writer.frame [OF this no_writer_of_the_fingerprint(1), of stored] assms(2)
  have fp: "is_drift_fingerprint ?s = None" by (simp add: some_field_def split: if_splits)
  have "is_drift_details ?s = take DRIFT_STATUS_CAP drifts"
  proof (cases "settling_status_needs_patch (snapshot template) ?new")
    case True
    then show ?thesis using new
      by (simp add: update_settling_status_def build_settling_status_patch_def Let_def scoped_status_patch_def
          SETTLING_STATUS_FIELDS_def map_filter_simps some_field_def)
  next
    case False
    then have "is_drift_details (snapshot template) = take DRIFT_STATUS_CAP drifts"
      using new by (auto simp: settling_status_needs_patch_def)
    with False assms(3) show ?thesis by (simp add: update_settling_status_def build_settling_status_patch_def Let_def)
  qed
  with fp assms(1) show ?thesis by (simp add: prior_fingerprint_def DRIFT_STATUS_CAP_def)
qed

text \<open>Unchanged drift is recognised at the second check. When a check with at most fifty
  changes at distinct addresses has stored its settling status and the next check finds the same
  changes, in any order and with any annotations, the outcome is \<open>StuckByFingerprint\<close>. For more
  than fifty changes the comparison is with the fingerprint of the first fifty only.\<close>

lemma repeated_drift_detected:
  assumes "drifts \<noteq> []" and "is_drift_fingerprint stored = None"
    and "is_drift_details stored = is_drift_details (snapshot template)"
    and "it_status later = Some (patch_status (update_settling_status S rfc template fresh out drifts f now) stored)"
  shows "prior_fingerprint S (it_status later) = Some (fingerprint S (take 50 drifts))
    \<and> (length drifts \<le> 50 \<and> distinct (map dd_address drifts) \<and> mset (map drift_entry again) = mset (map drift_entry drifts) \<longrightarrow>
         (\<exists>cycles addrs. outcome_of S later again = StuckByFingerprint cycles (fingerprint S drifts) addrs))"
proof -
  have prior: "prior_fingerprint S (it_status later) = Some (fingerprint S (take 50 drifts))"
    using prior_after_settling [OF assms(1-3)] by (simp add: assms(4) DRIFT_STATUS_CAP_def)
  moreover have "\<exists>cycles addrs. outcome_of S later again = StuckByFingerprint cycles (fingerprint S drifts) addrs"
    if again: "length drifts \<le> 50" "distinct (map dd_address drifts)" "mset (map drift_entry again) = mset (map drift_entry drifts)"
  proof -
    have "fingerprint S again = fingerprint S drifts" using fingerprint_cong [OF again(3) [symmetric] again(2)] by simp
    moreover have "again \<noteq> []" using again(3) assms(1) by auto
    ultimately show ?thesis using prior again(1) by (simp add: outcome_of_def evaluate_settling_def Let_def)
  qed
  ultimately show ?thesis by blast
qed

section \<open>An approval outlives the apply it was given for\<close>

lemma sends_keeps_hashes:
  assumes "sends w p" and "w \<noteq> Pending_Hash_Writer"
  shows "is_pending_plan_hash (patch_status p s) = is_pending_plan_hash s \<and> is_approved_plan_hash (patch_status p s) = is_approved_plan_hash s"
proof (cases "w = Apply_Writer")
  case True
  with assms(1) show ?thesis by (auto elim!: sends.cases simp: apply_write_effect)
next
  case False
  with assms(2) have "K_pendingPlanHash \<notin> set (owned_keys w)" "K_approvedPlanHash \<notin> set (owned_keys w)"
    by (cases w; simp add: phase_keys_def PLAN_STATUS_FIELDS_def SETTLING_STATUS_FIELDS_def)+
  with writer.frame [OF assms(1), of _ s] show ?thesis by (force simp: some_field_def split: if_splits)
qed

inductive writes_without :: "status_writer \<Rightarrow> itr_status \<Rightarrow> itr_status \<Rightarrow> bool" for excluded initial where
  none: "writes_without excluded initial initial"
| more: "writes_without excluded initial s \<Longrightarrow> sends w p \<Longrightarrow> w \<noteq> excluded \<Longrightarrow> writes_without excluded initial (patch_status p s)"

lemma hashes_survive:
  "writes_without Pending_Hash_Writer initial s \<Longrightarrow>
   is_pending_plan_hash s = is_pending_plan_hash initial \<and> is_approved_plan_hash s = is_approved_plan_hash initial"
  by (induction rule: writes_without.induct) (simp_all add: sends_keeps_hashes)


definition approved_status :: itr_status where
  "approved_status = itr_default\<lparr>is_pending_plan_hash := Some ''h'', is_approved_plan_hash := Some ''h''\<rparr>"


section \<open>The retry ramp\<close>

text \<open>What the server stores once the effects of a handler have happened.\<close>

definition server_after :: "effect list \<Rightarrow> itr_status \<Rightarrow> itr_status" where
  "server_after fx s = fold (\<lambda>e s. case e of Patch p \<Rightarrow> patch_status p s | _ \<Rightarrow> s) fx s"

lemma server_after_simps [simp]:
  "server_after [] s = s"
  "server_after (e # fx) s = server_after fx (case e of Patch p \<Rightarrow> patch_status p s | _ \<Rightarrow> s)"
  "server_after (fx @ gx) s = server_after gx (server_after fx s)"
  by (simp_all add: server_after_def)

lemma update_phase_sends [simp]: "update_phase rfc me honor template fresh digest ph now \<noteq> []"
  by (simp add: update_phase_def Let_def)

lemma sends_keeps_no_failures:
  assumes "sends w p" and "w \<noteq> Error_Writer" and "is_failure_count s = 0"
  shows "is_failure_count (patch_status p s) = 0"
proof (cases "w = Phase_Writer")
  case True
  with assms(1,3) show ?thesis by (auto elim!: sends.cases simp: patch_update_phase(7))
next
  case False
  with assms(2) have "K_failureCount \<notin> set (owned_keys w)"
    by (cases w; simp add: PLAN_STATUS_FIELDS_def APPLY_STATUS_FIELDS_def SETTLING_STATUS_FIELDS_def)
  with writer.frame [OF assms(1), of K_failureCount s] assms(3) show ?thesis by simp
qed

lemma no_failures_kept: "writes_without Error_Writer initial s \<Longrightarrow> is_failure_count initial = 0 \<Longrightarrow> is_failure_count s = 0"
  by (induction rule: writes_without.induct) (simp_all add: sends_keeps_no_failures)

lemma handle_failed_restarts:
  assumes "handle_failed env None reuse clean template = (fx, Inr a)"
  shows "st_phase (ds_core (server_after fx s)) = Some phase.Pending" "is_failure_count (server_after fx s) = 0"
    "a = Requeue (requeue_after (retry_decision template))"
  using assms
  by (auto simp: handle_failed_def Let_def require_def to_phase_def write_status_def emit_def return_def fail_def patch_update_phase
      split: if_splits)

text \<open>One turn of the retry loop: the Failed handler runs through, other writers write whatever they
  write, and the pipeline fails again with a write that starts from the stored failure count.\<close>

inductive retry_turn :: "itr_status \<Rightarrow> itr_status \<Rightarrow> bool" where
  "handle_failed env None reuse clean template = (fx, Inr a) \<Longrightarrow> it_status template = Some s \<Longrightarrow>
   writes_without Error_Writer (server_after fx s) s' \<Longrightarrow> is_failure_count (snapshot failing) = is_failure_count s' \<Longrightarrow>
   retry_turn s (patch_status (update_phase_with_error rfc me failing fresh digest ph msg now) s')"


definition failing_template :: infrastructure_template where
  "failing_template = one_template\<lparr>it_retry_policy := Some \<lparr>rp_max_retries = 5, rp_backoff_seconds = 30\<rparr>, it_status := Some itr_default\<rparr>"

definition failed_again :: itr_status where
  "failed_again = patch_status (update_phase_with_error (\<lambda>_. []) ''pod-1'' failing_template None None phase.Failed ''boom'' 0)
     (server_after (fst (handle_failed test_env None False True failing_template)) itr_default)"


end
