(* ===== verification/Policy_Cascade.thy ===== *)
theory Policy_Cascade
  imports Settling
begin

text \<open>
  The policy cascade (\<open>pangea-operator/src/controller/policy_cascade.rs\<close>, with the types of
  \<open>crd/architecture_gem.rs\<close> and \<open>workspace_drift_reaction_to_policy_decision\<close> of
  \<open>controller/template/status.rs\<close>): four levels, from the gem to the resource, each of which may
  declare a field of the policy, resolved to one policy and the level each field came from.

  An approval routing is only passed on, so its type is a parameter.
\<close>

section \<open>Data\<close>

datatype drift_reaction = ReactAutoApply | ReactRequireApproval | ReactRefuse | ReactAlert

text \<open>The cascade has a settling policy of its own, whose third exhaustion action is to retry.\<close>

datatype gem_exhaustion_action = ExhaustFail | ExhaustAlert | ExhaustRetry

record gem_settling_policy =
  gs_max_consecutive_drift_cycles :: u32
  gs_on_exhaustion :: gem_exhaustion_action

datatype cascade_level = LDefault | LGem | LWorkspace | LTemplate | LResource

text \<open>The gem declares no reconcile interval and the workspace no destroy protection; the template
  and the resource declare any field.\<close>

record 'r gem_policy =
  gp_drift_reaction :: "drift_reaction option"
  gp_destroy_protection :: "bool option"
  gp_settling_policy :: "gem_settling_policy option"
  gp_approval_routing :: "'r option"

record 'r workspace_policy =
  wp_drift_reaction :: "drift_reaction option"
  wp_reconcile_interval :: "string option"
  wp_settling_policy :: "gem_settling_policy option"
  wp_approval_routing :: "'r option"

record 'r template_policy =
  tp_drift_reaction :: "drift_reaction option"
  tp_destroy_protection :: "bool option"
  tp_reconcile_interval :: "string option"
  tp_settling_policy :: "gem_settling_policy option"
  tp_approval_routing :: "'r option"

type_synonym 'r resource_policy = "'r template_policy"

record 'r cascade_inputs =
  ci_gem :: "'r gem_policy option"
  ci_workspace :: "'r workspace_policy option"
  ci_template :: "'r template_policy option"
  ci_resource :: "'r resource_policy option"

record 'r resolved_policy =
  rv_drift_reaction :: drift_reaction
  rv_destroy_protection :: bool
  rv_reconcile_interval :: string
  rv_settling_policy :: gem_settling_policy
  rv_approval_routing :: "'r option"

record policy_provenance =
  pv_drift_reaction :: cascade_level
  pv_destroy_protection :: cascade_level
  pv_reconcile_interval :: cascade_level
  pv_settling_policy :: cascade_level
  pv_approval_routing :: cascade_level

section \<open>Resolution\<close>

definition innermost :: "'a option \<Rightarrow> 'a option \<Rightarrow> 'a option \<Rightarrow> 'a option \<Rightarrow> 'a option \<times> cascade_level" where
  "innermost gem workspace template resource =
     (case resource of
        Some v \<Rightarrow> (Some v, LResource)
      | None \<Rightarrow>
          (case template of
             Some v \<Rightarrow> (Some v, LTemplate)
           | None \<Rightarrow>
               (case workspace of
                  Some v \<Rightarrow> (Some v, LWorkspace)
                | None \<Rightarrow> (case gem of Some v \<Rightarrow> (Some v, LGem) | None \<Rightarrow> (None, LDefault)))))"

definition reaction_chain :: "'r cascade_inputs \<Rightarrow> (drift_reaction option \<times> cascade_level) list" where
  "reaction_chain inputs =
     [(Option.bind (ci_gem inputs) gp_drift_reaction, LGem),
      (Option.bind (ci_workspace inputs) wp_drift_reaction, LWorkspace),
      (Option.bind (ci_template inputs) tp_drift_reaction, LTemplate),
      (Option.bind (ci_resource inputs) tp_drift_reaction, LResource)]"

fun last_soft ::
    "(drift_reaction option \<times> cascade_level) list \<Rightarrow> (drift_reaction \<times> cascade_level) option
     \<Rightarrow> (drift_reaction \<times> cascade_level) option" where
  "last_soft [] acc = acc"
| "last_soft ((v, level) # rest) acc =
     last_soft rest
       (case v of
          Some ReactAutoApply \<Rightarrow> Some (ReactAutoApply, level)
        | Some ReactAlert \<Rightarrow> Some (ReactAlert, level)
        | _ \<Rightarrow> acc)"

definition resolve_drift_reaction :: "'r cascade_inputs \<Rightarrow> drift_reaction \<times> cascade_level" where
  "resolve_drift_reaction inputs =
     (let chain = reaction_chain inputs in
      case List.find (\<lambda>(v, _). v = Some ReactRefuse) chain of
        Some (_, level) \<Rightarrow> (ReactRefuse, level)
      | None \<Rightarrow>
          (case List.find (\<lambda>(v, _). v = Some ReactRequireApproval) chain of
             Some (_, level) \<Rightarrow> (ReactRequireApproval, level)
           | None \<Rightarrow> (case last_soft chain None of Some r \<Rightarrow> r | None \<Rightarrow> (ReactRequireApproval, LDefault))))"

definition default_settling_policy :: gem_settling_policy where
  "default_settling_policy = \<lparr>gs_max_consecutive_drift_cycles = 4, gs_on_exhaustion = ExhaustFail\<rparr>"

definition resolve_with_provenance :: "'r cascade_inputs \<Rightarrow> 'r resolved_policy \<times> policy_provenance" where
  "resolve_with_provenance inputs =
     (let (drift_reaction, drift_level) = resolve_drift_reaction inputs;
          (destroy_protection, dp_level) =
            innermost (Option.bind (ci_gem inputs) gp_destroy_protection) None
              (Option.bind (ci_template inputs) tp_destroy_protection) (Option.bind (ci_resource inputs) tp_destroy_protection);
          (reconcile_interval, ri_level) =
            innermost None (Option.bind (ci_workspace inputs) wp_reconcile_interval)
              (Option.bind (ci_template inputs) tp_reconcile_interval) (Option.bind (ci_resource inputs) tp_reconcile_interval);
          (settling, sp_level) =
            innermost (Option.bind (ci_gem inputs) gp_settling_policy) (Option.bind (ci_workspace inputs) wp_settling_policy)
              (Option.bind (ci_template inputs) tp_settling_policy) (Option.bind (ci_resource inputs) tp_settling_policy);
          (routing, ar_level) =
            innermost (Option.bind (ci_gem inputs) gp_approval_routing) (Option.bind (ci_workspace inputs) wp_approval_routing)
              (Option.bind (ci_template inputs) tp_approval_routing) (Option.bind (ci_resource inputs) tp_approval_routing)
      in (\<lparr>rv_drift_reaction = drift_reaction,
           rv_destroy_protection = (case destroy_protection of Some b \<Rightarrow> b | None \<Rightarrow> False),
           rv_reconcile_interval = (case reconcile_interval of Some i \<Rightarrow> i | None \<Rightarrow> ''5m''),
           rv_settling_policy = (case settling of Some p \<Rightarrow> p | None \<Rightarrow> default_settling_policy),
           rv_approval_routing = routing\<rparr>,
          \<lparr>pv_drift_reaction = drift_level, pv_destroy_protection = dp_level, pv_reconcile_interval = ri_level,
           pv_settling_policy = sp_level, pv_approval_routing = ar_level\<rparr>))"

definition resolve :: "'r cascade_inputs \<Rightarrow> 'r resolved_policy" where
  "resolve inputs = fst (resolve_with_provenance inputs)"

section \<open>Planned actions\<close>

datatype planned_action = PCreate | PUpdate | PReplace | PDelete | POther

definition classify_action :: "string \<Rightarrow> planned_action" where
  "classify_action action =
     (if action = ''create'' then PCreate else if action = ''update'' then PUpdate else if action = ''replace'' then PReplace
      else if action = ''delete'' \<or> action = ''destroy'' then PDelete else POther)"

fun is_destructive :: "planned_action \<Rightarrow> bool" where
  "is_destructive PReplace = True" | "is_destructive PDelete = True" | "is_destructive POther = True"
| "is_destructive _ = False"

definition default_reaction_for :: "planned_action \<Rightarrow> drift_reaction" where
  "default_reaction_for action = (if is_destructive action then ReactRequireApproval else ReactAutoApply)"

fun workspace_drift_reaction_to_policy_decision :: "drift_reaction \<Rightarrow> policy_decision option" where
  "workspace_drift_reaction_to_policy_decision ReactAutoApply = Some AutoApply"
| "workspace_drift_reaction_to_policy_decision ReactRequireApproval = Some RequireApproval"
| "workspace_drift_reaction_to_policy_decision ReactRefuse = Some Refuse"
| "workspace_drift_reaction_to_policy_decision ReactAlert = Some AutoApply"

section \<open>What a cascade promises\<close>

text \<open>What one level says about the reaction.\<close>

definition declares :: "'r cascade_inputs \<Rightarrow> cascade_level \<Rightarrow> drift_reaction \<Rightarrow> bool" where
  "declares inputs level r \<longleftrightarrow> (Some r, level) \<in> set (reaction_chain inputs)"

lemma find_declared:
  "(case List.find (\<lambda>(v, _). v = Some r) chain of Some (_, level) \<Rightarrow> (Some r, level) \<in> set chain | None \<Rightarrow> \<forall>l. (Some r, l) \<notin> set chain)"
  by (induction chain) (auto split: option.splits)

lemma last_soft_declared:
  "last_soft chain acc = Some (r, level) \<Longrightarrow> acc = Some (r, level) \<or> ((Some r, level) \<in> set chain \<and> (r = ReactAutoApply \<or> r = ReactAlert))"
  by (induction chain acc rule: last_soft.induct) (auto split: option.splits drift_reaction.splits)

lemma last_soft_None:
  "last_soft chain acc = None \<Longrightarrow> acc = None \<and> (\<forall>l. (Some ReactAutoApply, l) \<notin> set chain \<and> (Some ReactAlert, l) \<notin> set chain)"
  by (induction chain acc rule: last_soft.induct) (auto split: option.splits drift_reaction.splits)

lemma resolve_cases:
  obtains (refuse) level where "resolve_drift_reaction inputs = (ReactRefuse, level)" "declares inputs level ReactRefuse"
  | (approval) level where "resolve_drift_reaction inputs = (ReactRequireApproval, level)"
      "declares inputs level ReactRequireApproval" "\<forall>l. \<not> declares inputs l ReactRefuse"
  | (soft) r level where "resolve_drift_reaction inputs = (r, level)" "declares inputs level r"
      "r = ReactAutoApply \<or> r = ReactAlert" "\<forall>l. \<not> declares inputs l ReactRefuse" "\<forall>l. \<not> declares inputs l ReactRequireApproval"
  | (default) "resolve_drift_reaction inputs = (ReactRequireApproval, LDefault)" "\<forall>l r. \<not> declares inputs l r"
proof -
  let ?c = "reaction_chain inputs"
  note f = find_declared [of ReactRefuse ?c] and a = find_declared [of ReactRequireApproval ?c]
  show ?thesis
  proof (cases "List.find (\<lambda>(v, _). v = Some ReactRefuse) ?c")
    case (Some x)
    then show ?thesis using refuse f by (cases x) (auto simp: resolve_drift_reaction_def Let_def declares_def)
  next
    case no_refuse: None
    show ?thesis
    proof (cases "List.find (\<lambda>(v, _). v = Some ReactRequireApproval) ?c")
      case (Some x)
      then show ?thesis using approval no_refuse f a by (cases x) (auto simp: resolve_drift_reaction_def Let_def declares_def)
    next
      case no_approval: None
      show ?thesis
      proof (cases "last_soft ?c None")
        case (Some x)
        obtain r level where "x = (r, level)" by (cases x)
        with Some show ?thesis using soft [of r level] no_refuse no_approval f a last_soft_declared [of ?c None r level]
          by (auto simp: resolve_drift_reaction_def Let_def declares_def)
      next
        case None
        have "\<not> declares inputs l r" for l r
          using no_refuse no_approval f a last_soft_None [OF None] by (cases r) (simp_all add: declares_def)
        with None show ?thesis using default no_refuse no_approval by (simp add: resolve_drift_reaction_def Let_def)
      qed
    qed
  qed
qed

text \<open>No level of the cascade can weaken what another demands. If any level refuses, the
  resolved reaction is to refuse; if any demands approval, the reaction is to refuse or to demand
  approval; a reaction weaker than that was declared by some level, and where nothing is declared
  the reaction is to demand approval. The recorded provenance is a level that declared the resolved
  reaction, or the default if none declared any.\<close>

lemma cascade_cannot_be_weakened:
  fixes inputs :: "'r cascade_inputs"
  defines "r \<equiv> rv_drift_reaction (fst (resolve_with_provenance inputs))"
  defines "level \<equiv> pv_drift_reaction (snd (resolve_with_provenance inputs))"
  shows "(r = ReactRefuse \<longleftrightarrow> (\<exists>l. declares inputs l ReactRefuse))
    \<and> ((\<exists>l. declares inputs l ReactRequireApproval) \<longrightarrow> r = ReactRefuse \<or> r = ReactRequireApproval)
    \<and> (if level = LDefault then r = ReactRequireApproval \<and> (\<forall>l q. \<not> declares inputs l q) else declares inputs level r)"
proof -
  have eq: "resolve_drift_reaction inputs = (r, level)"
    by (simp add: r_def level_def resolve_with_provenance_def Let_def split: prod.splits)
  have not_default: "l \<noteq> LDefault" if "declares inputs l q" for l q
    using that by (auto simp: declares_def reaction_chain_def)
  show ?thesis
    by (cases rule: resolve_cases [of inputs]) (use eq not_default in auto)
qed

text \<open>Every other field is the innermost declaration.\<close>

lemma innermost_declared:
  "innermost gem workspace template resource = (v, level) \<Longrightarrow>
   v = (case level of LGem \<Rightarrow> gem | LWorkspace \<Rightarrow> workspace | LTemplate \<Rightarrow> template | LResource \<Rightarrow> resource | LDefault \<Rightarrow> None)
   \<and> (v = None \<longleftrightarrow> level = LDefault) \<and> (resource \<noteq> None \<longrightarrow> level = LResource)"
  by (auto simp: innermost_def split: option.splits)

text \<open>By default only a create or an update is applied.\<close>

lemma default_reaction_safe: "default_reaction_for (classify_action a) = ReactAutoApply \<longleftrightarrow> a = ''create'' \<or> a = ''update''"
  by (simp add: default_reaction_for_def classify_action_def)

end
