(* ===== verification/Planning.thy ===== *)
theory Planning
  imports Template_Handlers Policy_Cascade
begin

text \<open>
  The Planning phase and its approval gate
  (\<open>pangea-operator/src/controller/template_controller.rs\<close>): what a plan is hashed to, when an
  approval counts, when an automatic apply is held back, and the handler that decides between
  Ready, Failed, Applying and waiting.

  The environment is as in the other handlers; what the handler asks besides (the runner's plan,
  the plan bundle, the parent catalog, the state backend) is in \<open>plan_answers\<close>. The parser and the
  printer of \<open>serde_json\<close> are the parameters \<open>J\<close> and \<open>P\<close>, the hasher is \<open>S\<close> as before. The summary and
  the changes of a plan document or of a cycle artifact are taken as the runner reports them.
\<close>

section \<open>Hashing a plan and a state\<close>

definition content_hash :: "(string \<Rightarrow> u64) \<Rightarrow> string \<Rightarrow> u64" where
  "content_hash S input = S (hash_str input)"

text \<open>The eight bytes of a word, least significant first.\<close>

definition le_bytes :: "u64 \<Rightarrow> string" where
  "le_bytes w = map (\<lambda>i. char_of (unat w div 256 ^ i mod 256)) [0..<8]"

text \<open>Hashing a byte vector writes its length first.\<close>

definition hash_vec :: "string \<Rightarrow> string" where
  "hash_vec bs = le_bytes (of_nat (length bs)) @ bs"

function (sequential) sort_json_keys :: "json \<Rightarrow> json" where
  "sort_json_keys (JObj kvs) = JObj (bm_of_list (map (\<lambda>(k, v). (k, sort_json_keys v)) kvs))"
| "sort_json_keys (JArr items) = JArr (map sort_json_keys items)"
| "sort_json_keys scalar = scalar"
  by pat_completeness auto
termination
  by (relation "measure size") (auto dest: size_pair_in_list size_elem_in_list simp: less_Suc_eq)

definition canonicalize_state_bytes :: "(string \<Rightarrow> json option) \<Rightarrow> (json \<Rightarrow> string) \<Rightarrow> string \<Rightarrow> string" where
  "canonicalize_state_bytes J P bytes = (case J bytes of Some value \<Rightarrow> P (sort_json_keys value) | None \<Rightarrow> bytes)"

definition state_part :: "(string \<Rightarrow> json option) \<Rightarrow> (json \<Rightarrow> string) \<Rightarrow> string option \<Rightarrow> string" where
  "state_part J P state_bytes =
     (case state_bytes of
        Some bytes \<Rightarrow> char_of (1 :: nat) # hash_vec (canonicalize_state_bytes J P bytes)
      | None \<Rightarrow> [char_of (0 :: nat)])"

text \<open>What the approval hash is a hash of.\<close>

definition approval_bytes ::
    "(string \<Rightarrow> u64) \<Rightarrow> (string \<Rightarrow> json option) \<Rightarrow> (json \<Rightarrow> string) \<Rightarrow> string \<Rightarrow> string option \<Rightarrow> string" where
  "approval_bytes S J P plan_text state_bytes = le_bytes (content_hash S plan_text) @ state_part J P state_bytes"

definition plan_approval_hash ::
    "(string \<Rightarrow> u64) \<Rightarrow> (string \<Rightarrow> json option) \<Rightarrow> (json \<Rightarrow> string) \<Rightarrow> string \<Rightarrow> string option \<Rightarrow> string" where
  "plan_approval_hash S J P plan_text state_bytes = hex16 (S (approval_bytes S J P plan_text state_bytes))"

definition plan_content_fingerprint :: "(string \<Rightarrow> u64) \<Rightarrow> string \<Rightarrow> string" where
  "plan_content_fingerprint S plan_text = hex16 (S (le_bytes (content_hash S plan_text)))"

definition state_fingerprint ::
    "(string \<Rightarrow> u64) \<Rightarrow> (string \<Rightarrow> json option) \<Rightarrow> (json \<Rightarrow> string) \<Rightarrow> string option \<Rightarrow> string" where
  "state_fingerprint S J P state_bytes = hex16 (S (state_part J P state_bytes))"

datatype plan_delta = NeverApproved | Unchanged | EnvironmentMoved | PlanChanged

definition classify_plan_delta :: "string option \<Rightarrow> string option \<Rightarrow> string \<Rightarrow> string \<Rightarrow> plan_delta" where
  "classify_plan_delta approved_plan_fp approved_state_fp current_plan_fp current_state_fp =
     (case approved_plan_fp of
        None \<Rightarrow> NeverApproved
      | Some approved_plan \<Rightarrow>
          if approved_plan \<noteq> current_plan_fp then PlanChanged
          else if approved_state_fp = Some current_state_fp then Unchanged else EnvironmentMoved)"

definition newline :: string where
  "newline = [char_of (10 :: nat)]"

definition fingerprint_line :: "drift_detail \<Rightarrow> string" where
  "fingerprint_line d = dd_address d @ ''|'' @ dd_action d @ ''|'' @ join_with '','' (sort (dd_attributes d))"

definition canonical_drift_fingerprint :: "drift_detail list \<Rightarrow> string" where
  "canonical_drift_fingerprint drifts = join_with newline (sort (map fingerprint_line drifts))"

section \<open>The state a plan was made against\<close>

datatype current_state = Absent | Present string | Unreadable

fun is_present :: "current_state \<Rightarrow> bool" where
  "is_present (Present _) = True" | "is_present _ = False"

datatype approval_hash_input = Hashable "string option" | RefuseUnreadable

fun resolve_approval_hash_input :: "current_state \<Rightarrow> approval_hash_input" where
  "resolve_approval_hash_input Absent = Hashable None"
| "resolve_approval_hash_input (Present bytes) = Hashable (Some bytes)"
| "resolve_approval_hash_input Unreadable = RefuseUnreadable"

datatype state_read = ReadFailed | NoRow | Row "string option"

text \<open>\<open>backend\<close> is the answer of the state backend, if one is wired, and \<open>disk\<close> the state on disk.\<close>

definition current_state_fingerprint :: "bool \<Rightarrow> state_read option \<Rightarrow> string option \<Rightarrow> current_state" where
  "current_state_fingerprint is_magma_backed backend disk =
     (if is_magma_backed then
        (case backend of
           None \<Rightarrow> Unreadable
         | Some (Row (Some bytes)) \<Rightarrow> Present bytes
         | Some (Row None) \<Rightarrow> Absent
         | Some NoRow \<Rightarrow> Absent
         | Some ReadFailed \<Rightarrow> Unreadable)
      else (case disk of Some bytes \<Rightarrow> Present bytes | None \<Rightarrow> Absent))"

definition state_continuity_breach :: "bool \<Rightarrow> bool \<Rightarrow> bool \<Rightarrow> bool" where
  "state_continuity_breach is_durable_state_backend previously_applied state_present_now \<longleftrightarrow>
     \<not> is_durable_state_backend \<and> previously_applied \<and> \<not> state_present_now"

datatype auto_apply_gate = GateProceed | BlockedByStateContinuityBreach

definition evaluate_auto_apply_gate :: "bool \<Rightarrow> bool \<Rightarrow> bool \<Rightarrow> auto_apply_gate" where
  "evaluate_auto_apply_gate is_durable_state_backend previously_applied state_present_now =
     (if state_continuity_breach is_durable_state_backend previously_applied state_present_now
      then BlockedByStateContinuityBreach else GateProceed)"

section \<open>The approval gate\<close>

definition is_plan_approved :: "itr_status option \<Rightarrow> string option \<Rightarrow> string \<Rightarrow> bool" where
  "is_plan_approved status spec_approved plan_hash \<longleftrightarrow>
     Option.bind status is_approved_plan_hash = Some plan_hash \<or> spec_approved = Some plan_hash"

datatype approval_gate_reason = ByPolicy u32 | AutoApplyStateContinuityBreach

fun waiting_message :: "approval_gate_reason \<Rightarrow> string" where
  "waiting_message (ByPolicy n) = ''Changes detected ('' @ show_nat (unat n) @ '' require approval).''"
| "waiting_message AutoApplyStateContinuityBreach =
     ''AutoApply BLOCKED: this template has a prior successful apply, but local Terraform/OpenTofu state is now missing ''
     @ ''(state-continuity breach '' @ em_dash @ '' see docs/postmortems/2026-07-12-camelot-eks-state-wipe-duplicate-vpc.md). ''
     @ ''Refusing to auto-apply a plan that would recreate every resource from scratch; verify real cloud state before approving.''"

definition quote :: string where
  "quote = [char_of (34 :: nat)]"

definition pending_message :: "infrastructure_template \<Rightarrow> approval_gate_reason \<Rightarrow> string \<Rightarrow> string" where
  "pending_message template reason plan_hash =
     waiting_message reason @ '' Approve via GitOps: commit spec.approvedPlanHash: '' @ quote @ plan_hash @ quote
     @ '' to this CR'' @ apostrophe @ ''s manifest. Or via direct kubectl (where imperative cluster mutations are permitted): kubectl patch infra ''
     @ it_name template @ '' -n '' @ namespace_of (driver_of template)
     @ '' --type merge --subresource status -p '' @ apostrophe @ ''{'' @ quote @ ''status'' @ quote @ '':{'' @ quote @ ''approvedPlanHash''
     @ quote @ '':'' @ quote @ plan_hash @ quote @ ''}}'' @ apostrophe"

text \<open>The receipt of a cycle is an effect with the result it records and the phase it reports.\<close>

datatype cycle_result = NoChanges | AppliedSuccess "string list" | AppliedFailure string | PolicyGated policy_decision

datatype planning_effect = Basic effect | IncBy string int | RecordCycle cycle_result phase "drift_detail list"

type_synonym 'a planned = "planning_effect list \<times> (handler_error, 'a) result"

definition basic :: "'a handled \<Rightarrow> 'a planned" where
  "basic h = (map Basic (fst h), snd h)"

text \<open>One step after another; an error ends the sequence with the effects so far.\<close>

definition chain :: "'e list \<times> ('x, 'a) result \<Rightarrow> ('a \<Rightarrow> 'e list \<times> ('x, 'b) result) \<Rightarrow> 'e list \<times> ('x, 'b) result" where
  "chain m f = (case snd m of Inl e \<Rightarrow> (fst m, Inl e) | Inr x \<Rightarrow> (fst m @ fst (f x), snd (f x)))"

definition record_cycle :: "bool \<Rightarrow> cycle_result \<Rightarrow> phase \<Rightarrow> drift_detail list \<Rightarrow> unit planned" where
  "record_cycle ok result ph drifts = (if ok then ([RecordCycle result ph drifts], Inr ()) else ([], Inl Write_Failed))"

definition go_phase :: "env \<Rightarrow> infrastructure_template \<Rightarrow> phase \<Rightarrow> unit planned" where
  "go_phase env template ph = basic (to_phase env template ph (return ()))"

definition go_failed :: "env \<Rightarrow> infrastructure_template \<Rightarrow> string \<Rightarrow> unit planned" where
  "go_failed env template msg = basic (to_failed env template msg (return ()))"

definition note_event :: "event_type \<Rightarrow> string \<Rightarrow> string \<Rightarrow> unit planned" where
  "note_event ty reason msg = ([Basic (Event ty reason msg)], Inr ())"

definition done_with :: "std_duration \<Rightarrow> reconcile_action planned" where
  "done_with d = ([], Inr (Requeue d))"

definition route_through_approval_gate ::
    "env \<Rightarrow> (string \<Rightarrow> json option) \<Rightarrow> (json \<Rightarrow> string) \<Rightarrow> bool \<Rightarrow> infrastructure_template \<Rightarrow> policy_outcome \<Rightarrow> approval_gate_reason
     \<Rightarrow> current_state \<Rightarrow> reconcile_action planned" where
  "route_through_approval_gate env J P receipt_ok template outcome reason state =
     (case resolve_approval_hash_input state of
        RefuseUnreadable \<Rightarrow>
          chain (note_event Warning ''StateUnreadable''
              (''Could not read current infrastructure state while evaluating the plan-approval gate; holding at Planning rather ''
               @ ''than risk comparing against a stale approval hash. Will retry automatically.''))
            (\<lambda>_. done_with DEFAULT_REQUEUE_INTERVAL)
      | Hashable state_bytes \<Rightarrow>
          (let plan_hash = plan_approval_hash (en_S env) J P (canonical_drift_fingerprint (po_annotated_drifts outcome)) state_bytes in
           if is_plan_approved (it_status template) (it_approved_plan_hash template) plan_hash then
             chain (go_phase env template phase.Applying) (\<lambda>_.
             chain (note_event Normal ''PlanApproved'' ''Plan approved by user'') (\<lambda>_.
             done_with SHORT_REQUEUE_INTERVAL))
           else
             chain (basic (write_status (en_ok env Pending_Hash_Writer) (update_pending_plan_hash plan_hash) (return ()))) (\<lambda>_.
             chain (record_cycle receipt_ok (PolicyGated RequireApproval)
                 (case st_phase (ds_core (snapshot template)) of Some ph \<Rightarrow> ph | None \<Rightarrow> phase.Pending) (po_annotated_drifts outcome)) (\<lambda>_.
             chain (note_event Normal ''PlanPending'' (pending_message template reason plan_hash)) (\<lambda>_.
             done_with DEFAULT_REQUEUE_INTERVAL)))))"

section \<open>The Planning phase\<close>

record plan_summary =
  ps_counts :: resource_summary
  ps_text :: string

type_synonym analysis = "plan_summary \<times> drift_detail list"

record plan_result =
  pr_success :: bool
  pr_has_changes :: bool
  pr_raw_stderr :: string
  pr_raw_show_json :: string
  pr_artifact :: "analysis option"

record plan_answers =
  pa_config :: "(handler_error, bool) result"
  pa_plan :: "plan_result option"
  pa_parse :: "string \<Rightarrow> analysis option"
  pa_bundle :: "analysis option"
  pa_judgement :: "string option"
  pa_rules :: "policy_rule list"
  pa_default :: "policy_decision option"
  pa_catalog :: "drift_reaction option"
  pa_regex :: "string \<Rightarrow> (string \<Rightarrow> bool) option"
  pa_durable :: bool
  pa_backend :: "state_read option"
  pa_disk :: "string option"
  pa_receipt_ok :: bool
  pa_sparse :: bool

definition analyse :: "plan_answers \<Rightarrow> plan_result \<Rightarrow> plan_summary option \<times> drift_detail list" where
  "analyse a r =
     (if pr_raw_show_json r \<noteq> [] then
        (case pa_parse a (pr_raw_show_json r) of Some (s, ds) \<Rightarrow> (Some s, ds) | None \<Rightarrow> (None, []))
      else (case pr_artifact r of
              Some (s, ds) \<Rightarrow> (Some s, ds)
            | None \<Rightarrow> (case pa_bundle a of Some (s, ds) \<Rightarrow> (Some s, ds) | None \<Rightarrow> (None, []))))"

text \<open>Only the addresses of a plan that could be analysed are judged.\<close>

definition refused_at_admission :: "plan_answers \<Rightarrow> plan_result \<Rightarrow> string option" where
  "refused_at_admission a r = (if fst (analyse a r) = None then None else pa_judgement a)"

definition effective_default :: "plan_answers \<Rightarrow> policy_decision option" where
  "effective_default a =
     (case pa_default a of
        Some d \<Rightarrow> Some d
      | None \<Rightarrow> Option.bind (pa_catalog a) workspace_drift_reaction_to_policy_decision)"

definition plan_outcome :: "plan_answers \<Rightarrow> plan_result \<Rightarrow> policy_outcome" where
  "plan_outcome a r = Policy.evaluate (pa_regex a) (pa_rules a) (effective_default a) (snd (analyse a r))"

definition decide_plan :: "env \<Rightarrow> (string \<Rightarrow> json option) \<Rightarrow> (json \<Rightarrow> string) \<Rightarrow> plan_answers \<Rightarrow> infrastructure_template \<Rightarrow> policy_outcome
     \<Rightarrow> reconcile_action planned" where
  "decide_plan env J P a template outcome =
     (let fp = current_state_fingerprint (pa_durable a) (pa_backend a) (pa_disk a) in
      case po_aggregate outcome of
        Refuse \<Rightarrow>
          (let msg = ''Plan refused by policy: '' @ show_nat (unat (pe_refuse_count (po_evaluation outcome)))
                 @ '' refused change(s). Refused addresses: '' @ join_with '', '' (pe_refused_addresses (po_evaluation outcome)) in
           chain (go_failed env template msg) (\<lambda>_.
           chain (record_cycle (pa_receipt_ok a) (PolicyGated Refuse) phase.Failed (po_annotated_drifts outcome)) (\<lambda>_.
           chain (note_event Warning ''PolicyRefused'' msg) (\<lambda>_.
           done_with DEFAULT_REQUEUE_INTERVAL))))
      | AutoApply \<Rightarrow>
          (case evaluate_auto_apply_gate (pa_durable a) (is_last_applied_at (snapshot template) \<noteq> None) (is_present fp) of
             BlockedByStateContinuityBreach \<Rightarrow>
               route_through_approval_gate env J P (pa_receipt_ok a) template outcome AutoApplyStateContinuityBreach fp
           | GateProceed \<Rightarrow>
               chain (go_phase env template phase.Applying) (\<lambda>_.
               chain (note_event Normal ''PlanApproved'' ''Changes detected and auto-applied per policy'') (\<lambda>_.
               done_with SHORT_REQUEUE_INTERVAL)))
      | RequireApproval \<Rightarrow>
          route_through_approval_gate env J P (pa_receipt_ok a) template outcome
            (ByPolicy (pe_require_approval_count (po_evaluation outcome))) fp)"

definition plan_metrics :: "plan_answers \<Rightarrow> policy_outcome \<Rightarrow> planning_effect list" where
  "plan_metrics a outcome =
     [IncBy ''autoApply'' (uint (pe_auto_apply_count (po_evaluation outcome))),
      IncBy ''requireApproval'' (uint (pe_require_approval_count (po_evaluation outcome))),
      IncBy ''refuse'' (uint (pe_refuse_count (po_evaluation outcome)))]
     @ map Basic (update_drift_detail_gauges (pa_sparse a) (po_annotated_drifts outcome))"

definition judge_plan :: "env \<Rightarrow> (string \<Rightarrow> json option) \<Rightarrow> (json \<Rightarrow> string) \<Rightarrow> plan_answers \<Rightarrow> infrastructure_template \<Rightarrow> freshness \<Rightarrow> plan_result
     \<Rightarrow> reconcile_action planned" where
  "judge_plan env J P a template freshness r =
     (if \<not> pr_success r then
        (let msg = ''plan failed: '' @ pr_raw_stderr r in
         chain (go_failed env template msg) (\<lambda>_. chain (note_event Warning ''PlanFailed'' msg) (\<lambda>_. done_with ERROR_REQUEUE_INTERVAL)))
      else case refused_at_admission a r of
        Some msg \<Rightarrow>
          chain (go_failed env template msg) (\<lambda>_. chain (note_event Warning ''FatTemplateRefused'' msg) (\<lambda>_. done_with ERROR_REQUEUE_INTERVAL))
      | None \<Rightarrow>
          if ready_drift_decision freshness (pr_has_changes r) = RecompileStale then
            chain (note_event Warning ''SourceStale''
                (''Plan computed against a compile the source has since moved past '' @ em_dash
                 @ '' recompiling before trusting its no-changes/drift verdict'')) (\<lambda>_.
            chain (go_phase env template phase.Compiling) (\<lambda>_. done_with SHORT_REQUEUE_INTERVAL))
          else
            (let (summary, _) = analyse a r;
                 outcome = plan_outcome a r;
                 stored_evaluation = (if is_configured (pa_rules a) (effective_default a) then Some (po_evaluation outcome) else None)
             in chain (basic (write_status (en_ok env Plan_Writer)
                    (build_plan_status_patch (snapshot template) (map_option ps_counts summary) (map_option ps_text summary)
                      (po_annotated_drifts outcome) stored_evaluation (en_now env)) (return ()))) (\<lambda>_.
                chain (plan_metrics a outcome, Inr ()) (\<lambda>_.
                if \<not> pr_has_changes r then
                  chain (go_phase env template phase.Ready) (\<lambda>_.
                  chain (record_cycle (pa_receipt_ok a) NoChanges phase.Ready []) (\<lambda>_.
                  done_with DEFAULT_REQUEUE_INTERVAL))
                else decide_plan env J P a template outcome))))"

text \<open>The pass guard is dropped when the handler returns, with or without an error.\<close>

definition ending_pass :: "'a planned \<Rightarrow> 'a planned" where
  "ending_pass m = (fst m @ [Basic EndPass], snd m)"

definition handle_planning :: "env \<Rightarrow> (string \<Rightarrow> json option) \<Rightarrow> (json \<Rightarrow> string) \<Rightarrow> plan_answers \<Rightarrow> infrastructure_template
     \<Rightarrow> reconcile_action planned" where
  "handle_planning env J P a template =
     (if \<not> en_credentials_ok env then ([], Inl Credentials_Failed)
      else if \<not> en_workspace_ok env then ([], Inl Workspace_Failed)
      else case pa_config a of
        Inl e \<Rightarrow> ([], Inl e)
      | Inr False \<Rightarrow> chain (go_phase env template phase.Compiling) (\<lambda>_. done_with SHORT_REQUEUE_INTERVAL)
      | Inr True \<Rightarrow>
          chain (basic (observe_source_freshness env template)) (\<lambda>freshness.
          chain ([Basic (BeginPass phase.Planning)], Inr ()) (\<lambda>_.
          ending_pass (case pa_plan a of
             None \<Rightarrow> ([], Inl Plan_Failed)
           | Some r \<Rightarrow> judge_plan env J P a template freshness r))))"

section \<open>What may be applied\<close>

definition phases_of :: "planning_effect list \<Rightarrow> phase set" where
  "phases_of fx = {ph. \<exists>p. Basic (Patch p) \<in> set fx \<and> SPhase (Some ph) \<in> set p}"

lemma phases_of_simps [simp]:
  "phases_of [] = {}" "phases_of (xs @ ys) = phases_of xs \<union> phases_of ys"
  by (auto simp: phases_of_def)

lemma phases_of_chain:
  "phases_of (fst (chain m f)) = phases_of (fst m) \<union> (case snd m of Inl e \<Rightarrow> {} | Inr x \<Rightarrow> phases_of (fst (f x)))"
  by (simp add: chain_def split: sum.split)

lemma phase_in_update_phase: "SPhase (Some q) \<in> set (update_phase rfc me honor template fresh digest ph now) \<longleftrightarrow> q = ph"
  by (auto simp: update_phase_def Let_def split: if_splits option.splits)

lemma phases_of_go_phase: "phases_of (fst (go_phase env template ph)) \<subseteq> {ph}"
  by (auto simp: phases_of_def go_phase_def basic_def to_phase_def fst_write_status phase_in_update_phase split: if_splits)

lemma phases_of_go_failed: "phases_of (fst (go_failed env template msg)) \<subseteq> {phase.Failed}"
  by (auto simp: phases_of_def go_failed_def basic_def to_failed_def fst_write_status update_phase_with_error_def Let_def
      split: if_splits)

lemma phases_of_frame:
  assumes "\<And>f. f \<in> set p \<Longrightarrow> key_of f \<noteq> K_phase" and "phases_of (map Basic (fst k)) = {}"
  shows "phases_of (fst (basic (write_status ok p k))) = {}"
proof -
  have "SPhase x \<notin> set p" for x using assms(1) [of "SPhase x"] by auto
  with assms(2) show ?thesis by (auto simp: phases_of_def basic_def fst_write_status)
qed

lemma phases_of_quiet:
  "phases_of (fst (note_event ty reason msg)) = {}" "phases_of (fst (record_cycle ok res ph ds)) = {}"
  "phases_of (fst (done_with d)) = {}" "phases_of (plan_metrics a out) = {}"
  "phases_of (fst (basic (write_status ok (update_pending_plan_hash h) (return ())))) = {}"
  by (auto simp: phases_of_def note_event_def record_cycle_def done_with_def plan_metrics_def update_drift_detail_gauges_def Let_def
      basic_def fst_write_status update_pending_plan_hash_def split: if_splits)

lemma phases_of_plan_writer:
  "phases_of (fst (basic (write_status ok (build_plan_status_patch prev res txt ds ev now) (return ())))) = {}"
proof (rule phases_of_frame)
  show "key_of f \<noteq> K_phase" if "f \<in> set (build_plan_status_patch prev res txt ds ev now)" for f
    using that by (auto simp: build_plan_status_patch_def PLAN_STATUS_FIELDS_def dest!: scoped_patch_keys)
qed simp

lemma phases_of_observation: "phases_of (fst (basic (observe_source_freshness env template))) = {}"
  by (auto simp: phases_of_def basic_def observe_source_freshness_def handled_eqs update_freshness_status_def build_freshness_patch_def
      split: if_splits option.splits sum.splits observation_outcome.splits)

lemma phases_of_begin [simp]:
  "phases_of [Basic (BeginPass ph)] = {}" "phases_of (fst (ending_pass m)) = phases_of (fst m)" "snd (basic h) = snd h"
  by (auto simp: phases_of_def basic_def ending_pass_def)

lemmas phases_of_eqs = phases_of_chain phases_of_quiet phases_of_plan_writer phases_of_observation

lemma observed_stale:
  assumes "snd (observe_source_freshness env template) = Inr f" and "ready_drift_decision f b \<noteq> RecompileStale"
    and "it_git_ref template = Some git_ref" and "observe_head (en_listing env) git_ref = Inr head"
  shows "ds_compiled_revision (snapshot template) = Some head"
  using assms
  by (auto simp: observe_source_freshness_def handled_eqs evaluate_source_freshness_def split: if_splits)

definition may_apply :: "env \<Rightarrow> (string \<Rightarrow> json option) \<Rightarrow> (json \<Rightarrow> string) \<Rightarrow> plan_answers \<Rightarrow> infrastructure_template \<Rightarrow> policy_outcome \<Rightarrow> bool" where
  "may_apply env J P a template outcome \<longleftrightarrow>
     (let state = current_state_fingerprint (pa_durable a) (pa_backend a) (pa_disk a);
          approved = (\<exists>bytes. resolve_approval_hash_input state = Hashable bytes
            \<and> is_plan_approved (it_status template) (it_approved_plan_hash template)
                (plan_approval_hash (en_S env) J P (canonical_drift_fingerprint (po_annotated_drifts outcome)) bytes))
      in (case po_aggregate outcome of
            Refuse \<Rightarrow> False
          | RequireApproval \<Rightarrow> approved
          | AutoApply \<Rightarrow> \<not> state_continuity_breach (pa_durable a) (is_last_applied_at (snapshot template) \<noteq> None) (is_present state) \<or> approved))"

lemma applying_gate:
  assumes "phase.Applying \<in> phases_of (fst (route_through_approval_gate env J P ok template outcome reason state))"
  shows "\<exists>bytes. resolve_approval_hash_input state = Hashable bytes
    \<and> is_plan_approved (it_status template) (it_approved_plan_hash template)
        (plan_approval_hash (en_S env) J P (canonical_drift_fingerprint (po_annotated_drifts outcome)) bytes)"
  using assms
  by (auto simp: route_through_approval_gate_def phases_of_eqs Let_def split: approval_hash_input.splits if_splits sum.splits)

lemma applying_decision:
  assumes "phase.Applying \<in> phases_of (fst (decide_plan env J P a template outcome))"
  shows "may_apply env J P a template outcome"
proof (cases "po_aggregate outcome")
  case Refuse
  with assms show ?thesis using phases_of_go_failed [of env template]
    by (auto simp: decide_plan_def phases_of_eqs Let_def split: sum.splits)
next
  case AutoApply
  with assms applying_gate show ?thesis
    by (auto simp: decide_plan_def evaluate_auto_apply_gate_def may_apply_def Let_def split: if_splits)
next
  case RequireApproval
  with assms applying_gate show ?thesis by (auto simp: decide_plan_def may_apply_def Let_def)
qed

lemma applying_judgement:
  assumes "phase.Applying \<in> phases_of (fst (judge_plan env J P a template f r))"
  shows "pr_success r \<and> pr_has_changes r \<and> refused_at_admission a r = None \<and> ready_drift_decision f True \<noteq> RecompileStale
    \<and> may_apply env J P a template (plan_outcome a r)"
  using assms phases_of_go_failed [of env template] phases_of_go_phase [of env template phase.Compiling]
    phases_of_go_phase [of env template phase.Ready] applying_decision
  by (auto simp: judge_plan_def phases_of_eqs Let_def split: if_splits option.splits sum.splits prod.splits)

text \<open>C1: Nothing is applied without leave. The Planning phase moves a template on to Applying only
  if the plan succeeded, has changes and was not refused at admission; if the compile is not known
  to be stale; if the policy refuses none of the changes; and if, unless every change may go
  automatically and no recorded apply has lost its state, an approval was given for exactly the
  hash of this plan and the state read for it. An unreadable state is never approved.\<close>

theorem apply_only_with_leave:
  assumes "phase.Applying \<in> phases_of (fst (handle_planning env J P a template))"
  shows "\<exists>r. pa_plan a = Some r \<and> pr_success r \<and> pr_has_changes r \<and> refused_at_admission a r = None
    \<and> (\<forall>git_ref head. it_git_ref template = Some git_ref \<and> observe_head (en_listing env) git_ref = Inr head \<longrightarrow>
         ds_compiled_revision (snapshot template) = Some head)
    \<and> may_apply env J P a template (plan_outcome a r)"
proof -
  from assms phases_of_go_phase [of env template phase.Compiling] obtain f r where
    "snd (observe_source_freshness env template) = Inr f" "pa_plan a = Some r"
    "phase.Applying \<in> phases_of (fst (judge_plan env J P a template f r))"
    by (auto simp: handle_planning_def phases_of_eqs split: if_splits sum.splits bool.splits option.splits)
  with applying_judgement [OF this(3)] observed_stale [OF this(1)] show ?thesis by blast
qed

definition bare_template :: infrastructure_template where
  "bare_template = one_template\<lparr>it_git_ref := None\<rparr>"

definition some_plan :: plan_result where
  "some_plan = \<lparr>pr_success = True, pr_has_changes = True, pr_raw_stderr = [], pr_raw_show_json = ''{}'', pr_artifact = None\<rparr>"

text \<open>A plan whose document does not parse, with a rule that refuses everything.\<close>

definition opaque_answers :: plan_answers where
  "opaque_answers = \<lparr>pa_config = Inr True, pa_plan = Some some_plan, pa_parse = \<lambda>_. None, pa_bundle = None, pa_judgement = None,
     pa_rules = [\<lparr>pr_name = ''none'', pr_match = \<lparr>pm_resource_types = [], pm_address_patterns = [], pm_actions = [], pm_risk_levels = [],
       pm_attributes = []\<rparr>, pr_decision = Refuse\<rparr>],
     pa_default = None, pa_catalog = None, pa_regex = \<lambda>_. None, pa_durable = True, pa_backend = Some (Row (Some ''{}'')), pa_disk = None,
     pa_receipt_ok = True, pa_sparse = False\<rparr>"

lemma opaque_outcome: "plan_outcome opaque_answers some_plan = Policy.evaluate (\<lambda>_. None) (pa_rules opaque_answers) None []"
  by (simp add: plan_outcome_def analyse_def some_plan_def opaque_answers_def effective_default_def)

lemma opaque_aggregate: "po_aggregate (plan_outcome opaque_answers some_plan) = AutoApply"
  unfolding opaque_outcome by (simp add: Policy.evaluate_def Let_def aggregate_of_def)

lemma go_phase_applies: "en_ok env Phase_Writer \<Longrightarrow> go_phase env template ph = ([Basic (Patch (update_phase (en_rfc env) (en_me env)
    (en_honor env) template (en_live env) (en_digest env) ph (en_now env)))], Inr ())"
  by (simp add: go_phase_def basic_def to_phase_def write_status_def emit_def return_def)

text \<open>The policy sees no change of a plan that cannot be analysed, so no rule of it can match: under
  the default the plan is applied.\<close>

lemma opaque_plan_applies: "phase.Applying \<in> phases_of (fst (handle_planning test_env J P opaque_answers bare_template))"
proof -
  have "phase.Applying \<in> phases_of (fst (decide_plan test_env J P opaque_answers bare_template (plan_outcome opaque_answers some_plan)))"
    unfolding decide_plan_def opaque_aggregate
    by (simp add: Let_def evaluate_auto_apply_gate_def state_continuity_breach_def opaque_answers_def phases_of_eqs test_env_def
        go_phase_applies) (simp add: phases_of_def phase_in_update_phase)
  moreover have "snd (observe_source_freshness test_env bare_template) = Inr freshness.Unknown"
    by (simp add: observe_source_freshness_def bare_template_def)
  moreover have "en_credentials_ok test_env" "en_workspace_ok test_env" "en_ok test_env w" for w by (simp_all add: test_env_def)
  moreover have "pa_config opaque_answers = Inr True" "pa_plan opaque_answers = Some some_plan" "pr_success some_plan" "pr_has_changes some_plan"
    "refused_at_admission opaque_answers some_plan = None"
    by (simp_all add: opaque_answers_def some_plan_def refused_at_admission_def)
  ultimately show ?thesis
    by (simp add: handle_planning_def judge_plan_def phases_of_eqs snd_write_status Let_def split: prod.split)
qed

theorem apply_only_with_leave_witness:
  "\<exists>r. pa_plan opaque_answers = Some r \<and> pr_success r \<and> po_aggregate (plan_outcome opaque_answers r) \<noteq> Refuse"
proof -
  from apply_only_with_leave [OF opaque_plan_applies [of "\<lambda>_. None" "\<lambda>_. []"]] obtain r where
    "pa_plan opaque_answers = Some r" "pr_success r"
    "may_apply test_env (\<lambda>_. None) (\<lambda>_. []) opaque_answers bare_template (plan_outcome opaque_answers r)" by blast
  then show ?thesis by (auto simp: may_apply_def Let_def split: policy_decision.splits)
qed

section \<open>What an approval binds\<close>

lemma digits_unique:
  fixes x y b :: nat
  assumes "\<And>i. i < n \<Longrightarrow> x div b ^ i mod b = y div b ^ i mod b" and "x < b ^ n" and "y < b ^ n" and "0 < b"
  shows "x = y"
  using assms
proof (induction n arbitrary: x y)
  case (Suc n)
  have "x div b = y div b"
  proof (rule Suc.IH)
    show "x div b div b ^ i mod b = y div b div b ^ i mod b" if "i < n" for i
      using Suc.prems(1) [of "Suc i"] that by (simp add: div_mult2_eq [symmetric])
    show "x div b < b ^ n" "y div b < b ^ n"
      using Suc.prems(2-4) by (simp_all add: div_less_iff_less_mult mult.commute)
  qed (rule Suc.prems)
  moreover have "x mod b = y mod b" using Suc.prems(1) [of 0] by simp
  ultimately show ?case by (metis div_mult_mod_eq)
qed simp

lemma word_digits_unique:
  fixes v w :: u64
  assumes "\<And>i. i < n \<Longrightarrow> unat v div b ^ i mod b = unat w div b ^ i mod b" and "b ^ n = 2 ^ 64"
  shows "v = w"
proof -
  have "0 < b" using assms(2) by (cases "b = 0"; cases n) auto
  moreover have "unat v < b ^ n" "unat w < b ^ n" unfolding assms(2)
    using unsigned_less [where 'a = nat and w = v] unsigned_less [where 'a = nat and w = w] by simp_all
  ultimately have "unat v = unat w" using digits_unique [of n "unat v" b "unat w"] assms(1) by blast
  then show ?thesis by (rule unsigned_word_eqI)
qed

lemma le_bytes_inj: "le_bytes v = le_bytes w \<Longrightarrow> v = w"
proof (rule word_digits_unique [of 8 _ 256])
  show "unat v div 256 ^ i mod 256 = unat w div 256 ^ i mod 256" if eq: "le_bytes v = le_bytes w" and i: "i < 8" for i
  proof -
    have "le_bytes v ! i = le_bytes w ! i" using eq by simp
    with i have "char_of (unat v div 256 ^ i mod 256) = char_of (unat w div 256 ^ i mod 256)" by (simp add: le_bytes_def)
    then show ?thesis by (metis of_char_of mod_mod_trivial)
  qed
qed simp

lemma hex_digit_inj: "m < 16 \<Longrightarrow> n < 16 \<Longrightarrow> hex_digit m = hex_digit n \<Longrightarrow> m = n"
proof -
  assume mn: "m < 16" "n < 16" and eq: "hex_digit m = hex_digit n"
  have val: "of_char (hex_digit k) = (if k < 10 then 48 + k else 87 + k)" if "k < 16" for k :: nat
    using that by (simp add: hex_digit_def of_char_of)
  from eq have "(of_char (hex_digit m) :: nat) = of_char (hex_digit n)" by simp
  with mn show "m = n" by (simp add: val split: if_splits)
qed

lemma hex16_inj: "hex16 v = hex16 w \<Longrightarrow> v = w"
proof (rule word_digits_unique [of 16 _ 16])
  show "unat v div 16 ^ i mod 16 = unat w div 16 ^ i mod 16" if eq: "hex16 v = hex16 w" and i: "i < 16" for i
  proof (rule hex_digit_inj)
    have "hex16 v ! (15 - i) = hex16 w ! (15 - i)" using eq by simp
    moreover have "15 - [0..<16] ! (15 - i) = i" using i by (subst nth_upt) simp_all
    ultimately show "hex_digit (unat v div 16 ^ i mod 16) = hex_digit (unat w div 16 ^ i mod 16)" using i by (simp add: hex16_def)
  qed simp_all
qed simp

lemma length_le_bytes [simp]: "length (le_bytes w) = 8"
  by (simp add: le_bytes_def)

lemma state_part_inj:
  "state_part J P x = state_part J P y \<longleftrightarrow> map_option (canonicalize_state_bytes J P) x = map_option (canonicalize_state_bytes J P) y"
proof -
  have "char_of (1 :: nat) \<noteq> (char_of (0 :: nat) :: char)" by (simp add: char_of_eq_iff)
  then show ?thesis
    by (cases x; cases y) (auto simp: state_part_def hash_vec_def append_eq_append_conv)
qed

lemma sort_mset_eq: "mset xs = mset ys \<Longrightarrow> sort xs = sort ys"
  by (metis mset_sort properties_for_sort sorted_sort)



end
