(* ===== verification/Plan_Analysis.thy ===== *)
theory Plan_Analysis
  imports Planning
begin

text \<open>
  Reading a plan (\<open>pangea-operator/src/executor/plan.rs\<close>, \<open>executor/cycle_artifact.rs\<close>,
  \<open>executor/plan_change.rs\<close> and the gates on an action set in \<open>controller/template_controller.rs\<close>):
  the change types of a plan document, its summary and its changes, the same from a cycle artifact
  and from the planned changes of an executor, and the destroy-protection, escalation and
  duplicate-create gates that read them.

  A plan document is the record \<open>serde\<close> deserialises it to; deserialisation itself is a parameter
  of the clients. A limit of \<open>usize::MAX\<close> is the whole list.
\<close>

section \<open>Plan documents\<close>

text \<open>\<open>str::contains\<close>.\<close>

fun str_contains :: "string \<Rightarrow> string \<Rightarrow> bool" where
  "str_contains [] p \<longleftrightarrow> p = []"
| "str_contains (c # cs) p \<longleftrightarrow> starts_with (c # cs) p \<or> str_contains cs p"

record plan_change_doc =
  ch_actions :: "string list"
  ch_before :: "json option"
  ch_after :: "json option"

record resource_change =
  rc_address :: string
  rc_resource_type :: string
  rc_name :: string
  rc_provider_name :: string
  rc_change :: plan_change_doc

record plan_doc =
  pd_format_version :: string
  pd_terraform_version :: string
  pd_resource_changes :: "resource_change list"

datatype change_type = CtCreate | CtUpdate | CtDelete | CtReplace | CtNoOp

definition ct_from_actions :: "string list \<Rightarrow> change_type" where
  "ct_from_actions actions =
     (if ''create'' \<in> set actions \<and> ''delete'' \<in> set actions then CtReplace
      else if ''create'' \<in> set actions then CtCreate
      else if ''delete'' \<in> set actions then CtDelete
      else if ''update'' \<in> set actions then CtUpdate
      else CtNoOp)"

fun ct_as_str :: "change_type \<Rightarrow> string" where
  "ct_as_str CtCreate = ''create''"
| "ct_as_str CtUpdate = ''update''"
| "ct_as_str CtDelete = ''delete''"
| "ct_as_str CtReplace = ''replace''"
| "ct_as_str CtNoOp = ''noop''"

abbreviation change_type_of :: "resource_change \<Rightarrow> change_type" where
  "change_type_of rc \<equiv> ct_from_actions (ch_actions (rc_change rc))"

record plan_totals =
  pt_added :: u32
  pt_changed :: u32
  pt_destroyed :: u32
  pt_total :: u32
  pt_has_changes :: bool
  pt_changes_by_type :: "(string, u32) btmap"

fun summary_step :: "resource_change \<Rightarrow> plan_totals \<Rightarrow> plan_totals" where
  "summary_step rc acc =
     (let acc = (case change_type_of rc of
            CtCreate \<Rightarrow> acc\<lparr>pt_added := pt_added acc + 1\<rparr>
          | CtUpdate \<Rightarrow> acc\<lparr>pt_changed := pt_changed acc + 1\<rparr>
          | CtDelete \<Rightarrow> acc\<lparr>pt_destroyed := pt_destroyed acc + 1\<rparr>
          | CtReplace \<Rightarrow> acc\<lparr>pt_added := pt_added acc + 1, pt_destroyed := pt_destroyed acc + 1\<rparr>
          | CtNoOp \<Rightarrow> acc)
      in acc\<lparr>pt_changes_by_type := bm_entry (rc_resource_type rc) 0 (\<lambda>n. n + 1) (pt_changes_by_type acc)\<rparr>)"

definition summary :: "plan_doc \<Rightarrow> plan_totals" where
  "summary plan =
     (let acc = fold summary_step (pd_resource_changes plan)
            \<lparr>pt_added = 0, pt_changed = 0, pt_destroyed = 0, pt_total = 0, pt_has_changes = False, pt_changes_by_type = []\<rparr>
      in acc\<lparr>pt_total := of_nat (length (pd_resource_changes plan)),
           pt_has_changes := (0 < pt_added acc \<or> 0 < pt_changed acc \<or> 0 < pt_destroyed acc)\<rparr>)"

definition summary_format :: "plan_totals \<Rightarrow> string" where
  "summary_format acc =
     (if \<not> pt_has_changes acc then ''No changes''
      else ''+'' @ show_nat (unat (pt_added acc)) @ '' ~'' @ show_nat (unat (pt_changed acc)) @ '' -'' @ show_nat (unat (pt_destroyed acc)))"

definition resources_to_create :: "plan_doc \<Rightarrow> resource_change list" where
  "resources_to_create plan = filter (\<lambda>rc. change_type_of rc = CtCreate \<or> change_type_of rc = CtReplace) (pd_resource_changes plan)"

definition resources_to_destroy :: "plan_doc \<Rightarrow> resource_change list" where
  "resources_to_destroy plan = filter (\<lambda>rc. change_type_of rc = CtDelete \<or> change_type_of rc = CtReplace) (pd_resource_changes plan)"

definition resources_to_update :: "plan_doc \<Rightarrow> resource_change list" where
  "resources_to_update plan = filter (\<lambda>rc. change_type_of rc = CtUpdate) (pd_resource_changes plan)"

text \<open>Values are compared as \<open>serde_json\<close> compares them, with objects up to the order of their keys.\<close>

definition json_eq :: "json \<Rightarrow> json \<Rightarrow> bool" where
  "json_eq v w \<longleftrightarrow> sort_json_keys v = sort_json_keys w"

definition changed_attributes :: "plan_change_doc \<Rightarrow> string list" where
  "changed_attributes ch =
     (case (Option.bind (ch_before ch) as_object, Option.bind (ch_after ch) as_object) of
        (Some b, Some a) \<Rightarrow>
          bs_of_list
            (map fst (filter (\<lambda>(k, v_after). \<not> json_eq (case map_of b k of Some v \<Rightarrow> v | None \<Rightarrow> JNull) v_after) a)
             @ filter (\<lambda>k. map_of a k = None) (map fst b))
      | _ \<Rightarrow> [])"

definition is_stateful :: "string \<Rightarrow> bool" where
  "is_stateful ty \<longleftrightarrow> list_ex (str_contains ty) [''dns_record'', ''zone'', ''database'', ''rds'', ''vpc'', ''tunnel'']"

definition risk_level_of :: "change_type \<Rightarrow> string \<Rightarrow> nat \<Rightarrow> string" where
  "risk_level_of action resource_type attr_count =
     (case action of
        CtDelete \<Rightarrow> if is_stateful resource_type then ''high'' else ''medium''
      | CtReplace \<Rightarrow> if is_stateful resource_type then ''high'' else ''medium''
      | CtUpdate \<Rightarrow> if 3 < attr_count then ''medium'' else ''low''
      | CtCreate \<Rightarrow> ''low''
      | CtNoOp \<Rightarrow> ''none'')"

definition drift_of_change :: "resource_change \<Rightarrow> drift_detail option" where
  "drift_of_change rc =
     (if change_type_of rc = CtNoOp then None
      else (let attrs = changed_attributes (rc_change rc) in
            Some \<lparr>dd_address = rc_address rc, dd_action = ct_as_str (change_type_of rc),
                  dd_risk = risk_level_of (change_type_of rc) (rc_resource_type rc) (length attrs),
                  dd_attributes = attrs, dd_policy_decision = None, dd_matched_policy = None\<rparr>))"

definition all_drift_details :: "plan_doc \<Rightarrow> drift_detail list" where
  "all_drift_details plan = List.map_filter drift_of_change (pd_resource_changes plan)"

definition drift_details :: "plan_doc \<Rightarrow> nat \<Rightarrow> drift_detail list" where
  "drift_details plan limit = take limit (all_drift_details plan)"

text \<open>What the Planning phase takes from a document it could parse.\<close>

definition analysis_of_plan :: "plan_doc \<Rightarrow> analysis" where
  "analysis_of_plan plan =
     (let acc = summary plan in
      (\<lparr>ps_counts = \<lparr>rs_total = pt_total acc, rs_added = pt_added acc, rs_changed = pt_changed acc, rs_destroyed = pt_destroyed acc\<rparr>,
        ps_text = summary_format acc\<rparr>,
       all_drift_details plan))"

section \<open>Cycle artifacts\<close>

datatype cycle_action = CaNoOp | CaCreate | CaUpdate | CaDelete | CaReplace | CaOther string

definition ca_parse :: "string \<Rightarrow> cycle_action" where
  "ca_parse raw =
     (if raw = ''no_op'' \<or> raw = ''no-op'' \<or> raw = ''noop'' then CaNoOp
      else if raw = ''create'' then CaCreate
      else if raw = ''update'' then CaUpdate
      else if raw = ''delete'' then CaDelete
      else if raw = ''replace'' then CaReplace
      else CaOther raw)"

datatype severity = Cosmetic | Functional | Breaking

fun action_to_severity :: "cycle_action \<Rightarrow> severity" where
  "action_to_severity CaNoOp = Cosmetic"
| "action_to_severity CaCreate = Functional"
| "action_to_severity CaUpdate = Functional"
| "action_to_severity CaDelete = Breaking"
| "action_to_severity CaReplace = Breaking"
| "action_to_severity (CaOther _) = Functional"

fun plan_action_to_terraform_str :: "cycle_action \<Rightarrow> string" where
  "plan_action_to_terraform_str CaNoOp = ''no-op''"
| "plan_action_to_terraform_str CaCreate = ''create''"
| "plan_action_to_terraform_str CaUpdate = ''update''"
| "plan_action_to_terraform_str CaDelete = ''delete''"
| "plan_action_to_terraform_str CaReplace = ''replace''"
| "plan_action_to_terraform_str (CaOther s) = s"

fun severity_to_risk :: "severity \<Rightarrow> string" where
  "severity_to_risk Cosmetic = ''safe''"
| "severity_to_risk Functional = ''modify''"
| "severity_to_risk Breaking = ''destroy''"

record typed_change =
  tc_address :: string
  tc_action :: cycle_action
  tc_severity :: severity

record severity_rollup =
  sr_cosmetic :: u32
  sr_functional :: u32
  sr_breaking :: u32

fun rollup_step :: "typed_change \<Rightarrow> severity_rollup \<Rightarrow> severity_rollup" where
  "rollup_step c r =
     (case tc_severity c of
        Cosmetic \<Rightarrow> r\<lparr>sr_cosmetic := sat_add (sr_cosmetic r) 1\<rparr>
      | Functional \<Rightarrow> r\<lparr>sr_functional := sat_add (sr_functional r) 1\<rparr>
      | Breaking \<Rightarrow> r\<lparr>sr_breaking := sat_add (sr_breaking r) 1\<rparr>)"

definition severity_from_changes :: "typed_change list \<Rightarrow> severity_rollup" where
  "severity_from_changes chs = fold rollup_step chs \<lparr>sr_cosmetic = 0, sr_functional = 0, sr_breaking = 0\<rparr>"

record action_distribution =
  ad_no_op :: u32
  ad_create :: u32
  ad_update :: u32
  ad_delete :: u32
  ad_replace :: u32
  ad_other :: u32

fun distribution_step :: "typed_change \<Rightarrow> action_distribution \<Rightarrow> action_distribution" where
  "distribution_step c d =
     (case tc_action c of
        CaNoOp \<Rightarrow> d\<lparr>ad_no_op := sat_add (ad_no_op d) 1\<rparr>
      | CaCreate \<Rightarrow> d\<lparr>ad_create := sat_add (ad_create d) 1\<rparr>
      | CaUpdate \<Rightarrow> d\<lparr>ad_update := sat_add (ad_update d) 1\<rparr>
      | CaDelete \<Rightarrow> d\<lparr>ad_delete := sat_add (ad_delete d) 1\<rparr>
      | CaReplace \<Rightarrow> d\<lparr>ad_replace := sat_add (ad_replace d) 1\<rparr>
      | CaOther _ \<Rightarrow> d\<lparr>ad_other := sat_add (ad_other d) 1\<rparr>)"

definition action_distribution_from :: "typed_change list \<Rightarrow> action_distribution" where
  "action_distribution_from chs =
     fold distribution_step chs \<lparr>ad_no_op = 0, ad_create = 0, ad_update = 0, ad_delete = 0, ad_replace = 0, ad_other = 0\<rparr>"

record cycle_artifact =
  cy_distribution :: action_distribution
  cy_changes :: "typed_change list"
  cy_severities :: "severity_rollup option"

text \<open>Added, changed, destroyed and total.\<close>

definition summary_counts :: "cycle_artifact \<Rightarrow> u32 \<times> u32 \<times> u32 \<times> u32" where
  "summary_counts art =
     (let d = cy_distribution art in
      (ad_create d, sat_add (ad_update d) (ad_replace d), ad_delete d,
       sat_add (sat_add (sat_add (sat_add (sat_add (ad_no_op d) (ad_create d)) (ad_update d)) (ad_delete d)) (ad_replace d)) (ad_other d)))"

definition artifact_drift_details :: "cycle_artifact \<Rightarrow> drift_detail list" where
  "artifact_drift_details art =
     map (\<lambda>c. \<lparr>dd_address = tc_address c, dd_action = plan_action_to_terraform_str (tc_action c),
               dd_risk = severity_to_risk (tc_severity c), dd_attributes = [], dd_policy_decision = None, dd_matched_policy = None\<rparr>)
       (filter (\<lambda>c. tc_action c \<noteq> CaNoOp) (cy_changes art))"

definition action_set_to_plan_action :: "string list \<Rightarrow> cycle_action" where
  "action_set_to_plan_action actions =
     (case actions of
        [] \<Rightarrow> CaNoOp
      | [a] \<Rightarrow> ca_parse a
      | _ \<Rightarrow> (let set = bs_of_list actions in
              if length set = 2 \<and> ''delete'' \<in> List.set set \<and> ''create'' \<in> List.set set then CaReplace
              else CaOther (join_with ''+'' actions)))"

definition typed_change_of :: "json \<Rightarrow> typed_change option" where
  "typed_change_of rc =
     (case get_str rc ''address'' of
        None \<Rightarrow> None
      | Some address \<Rightarrow>
          (case Option.bind (Option.bind (jget rc ''change'') (\<lambda>v. jget v ''actions'')) as_array of
             None \<Rightarrow> None
           | Some actions \<Rightarrow>
               (let action = action_set_to_plan_action (List.map_filter as_str actions)
                in Some \<lparr>tc_address = address, tc_action = action, tc_severity = action_to_severity action\<rparr>)))"

definition artifact_of_changes :: "typed_change list \<Rightarrow> cycle_artifact" where
  "artifact_of_changes chs =
     \<lparr>cy_distribution = action_distribution_from chs, cy_changes = chs,
      cy_severities = (if chs = [] then None else Some (severity_from_changes chs))\<rparr>"

definition from_tofu_plan_show_json :: "(string \<Rightarrow> json option) \<Rightarrow> string \<Rightarrow> cycle_artifact option" where
  "from_tofu_plan_show_json J stdout =
     map_option (\<lambda>chs. artifact_of_changes (List.map_filter typed_change_of chs))
       (Option.bind (J stdout) (\<lambda>v. get_array v ''resource_changes''))"

definition plan_summary_and_drifts_from_artifact :: "cycle_artifact \<Rightarrow> plan_totals \<times> drift_detail list" where
  "plan_summary_and_drifts_from_artifact art =
     (let (added, changed, destroyed, total) = summary_counts art in
      (\<lparr>pt_added = added, pt_changed = changed, pt_destroyed = destroyed, pt_total = total,
        pt_has_changes = (0 < added \<or> 0 < changed \<or> 0 < destroyed), pt_changes_by_type = []\<rparr>,
       artifact_drift_details art))"

section \<open>Planned changes\<close>

datatype exec_action = XNoOp | XCreate | XRead | XUpdate | XReplace | XDelete

datatype resource_kind_class = Managed | Data | Output | Local

record derived_import_id =
  di_id :: string
  di_exact :: bool

record planned_change =
  pc_address :: string
  pc_action :: exec_action
  pc_after :: "json option"
  pc_kind :: resource_kind_class
  pc_import_id :: "derived_import_id option"

fun exec_action_str :: "exec_action \<Rightarrow> string" where
  "exec_action_str XNoOp = ''noop''"
| "exec_action_str XCreate = ''create''"
| "exec_action_str XRead = ''read''"
| "exec_action_str XUpdate = ''update''"
| "exec_action_str XReplace = ''replace''"
| "exec_action_str XDelete = ''delete''"

definition drift_details_from_planned_changes :: "planned_change list \<Rightarrow> drift_detail list" where
  "drift_details_from_planned_changes chs =
     map (\<lambda>c. \<lparr>dd_address = pc_address c, dd_action = exec_action_str (pc_action c), dd_risk = [], dd_attributes = [],
               dd_policy_decision = None, dd_matched_policy = None\<rparr>) chs"

section \<open>Gates on an action set\<close>

definition destroys_resource :: "string \<Rightarrow> bool" where
  "destroys_resource action \<longleftrightarrow> action = ''delete'' \<or> action = ''replace''"

definition find_unapproved_destructive_escalation :: "drift_detail list \<Rightarrow> drift_detail list \<Rightarrow> drift_detail option" where
  "find_unapproved_destructive_escalation approved fresh =
     List.find (\<lambda>f.
       destroys_resource (dd_action f) \<and>
       \<not> (case List.find (\<lambda>a. dd_address a = dd_address f) approved of
             Some a \<Rightarrow> destroys_resource (dd_action a)
           | None \<Rightarrow> False)) fresh"

definition find_unimported_create :: "string list \<Rightarrow> drift_detail list \<Rightarrow> drift_detail option" where
  "find_unimported_create failed_imports fresh =
     List.find (\<lambda>d. dd_action d = ''create'' \<and> dd_address d \<in> set failed_imports) fresh"

datatype destroy_protection_gate = ProtectionProceed | BlockedByProtectedDestruction string string

definition evaluate_destroy_protection_gate :: "bool \<Rightarrow> drift_detail list \<Rightarrow> destroy_protection_gate" where
  "evaluate_destroy_protection_gate destroy_protection actions =
     (if \<not> destroy_protection then ProtectionProceed
      else (case List.find (\<lambda>d. destroys_resource (dd_action d)) actions of
              Some d \<Rightarrow> BlockedByProtectedDestruction (dd_address d) (dd_action d)
            | None \<Rightarrow> ProtectionProceed))"


section \<open>No destruction goes unseen\<close>

lemma drift_of_change_eq:
  "drift_of_change rc = Some d \<Longrightarrow> dd_address d = rc_address rc \<and> dd_action d = ct_as_str (change_type_of rc) \<and> change_type_of rc \<noteq> CtNoOp"
  by (auto simp: drift_of_change_def Let_def split: if_splits)

lemma destroys_change_type: "destroys_resource (ct_as_str (ct_from_actions actions)) \<longleftrightarrow> ''delete'' \<in> set actions"
  by (simp add: destroys_resource_def ct_from_actions_def)

lemma creates_change_type: "ct_as_str (ct_from_actions actions) = ''create'' \<longleftrightarrow> ''create'' \<in> set actions \<and> ''delete'' \<notin> set actions"
  by (simp add: ct_from_actions_def)

lemma destroying_change:
  assumes "rc \<in> set (pd_resource_changes plan)" and "''delete'' \<in> set (ch_actions (rc_change rc))"
  shows "\<exists>d \<in> set (all_drift_details plan). dd_address d = rc_address rc \<and> destroys_resource (dd_action d)"
proof -
  from assms(2) have "change_type_of rc \<noteq> CtNoOp" by (simp add: ct_from_actions_def)
  then obtain d where d: "drift_of_change rc = Some d" by (auto simp: drift_of_change_def Let_def)
  with assms drift_of_change_eq [OF d] destroys_change_type show ?thesis
    by (auto simp: all_drift_details_def map_filter_def intro!: bexI [of _ d] image_eqI [of _ _ rc])
qed

lemma destroying_drift:
  assumes "d \<in> set (all_drift_details plan)"
  shows "\<exists>rc \<in> set (pd_resource_changes plan). dd_address d = rc_address rc
    \<and> (destroys_resource (dd_action d) \<longleftrightarrow> ''delete'' \<in> set (ch_actions (rc_change rc)))"
  using assms drift_of_change_eq destroys_change_type
  by (auto simp: all_drift_details_def map_filter_def)

lemma gate_proceeds: "evaluate_destroy_protection_gate True ds = ProtectionProceed \<longleftrightarrow> \<not> (\<exists>d \<in> set ds. destroys_resource (dd_action d))"
  by (auto simp: evaluate_destroy_protection_gate_def find_None_iff find_Some_iff split: option.split)

lemma gate_blocks:
  "evaluate_destroy_protection_gate p ds = BlockedByProtectedDestruction a x \<Longrightarrow>
     p \<and> destroys_resource x \<and> (\<exists>d \<in> set ds. dd_address d = a \<and> dd_action d = x)"
  by (auto simp: evaluate_destroy_protection_gate_def find_Some_iff split: if_splits option.splits)

lemma gate_same_actions:
  assumes "map (\<lambda>d. (dd_address d, dd_action d)) ds = map (\<lambda>d. (dd_address d, dd_action d)) es"
  shows "evaluate_destroy_protection_gate p ds = evaluate_destroy_protection_gate p es"
  using assms
proof (induction ds arbitrary: es)
  case (Cons d ds)
  then obtain e es' where "es = e # es'" by (cases es) auto
  with Cons show ?case by (auto simp: evaluate_destroy_protection_gate_def)
qed (simp add: evaluate_destroy_protection_gate_def)

lemma annotated_actions:
  "map (\<lambda>d. (dd_address d, dd_action d)) (po_annotated_drifts (Policy.evaluate R rules dflt ds)) = map (\<lambda>d. (dd_address d, dd_action d)) ds"
  by (simp add: Policy.evaluate_def Let_def evaluate_loop_eq annotate_def split: prod.split)

lemma planned_destruction:
  "(\<exists>d \<in> set (drift_details_from_planned_changes chs). destroys_resource (dd_action d))
   \<longleftrightarrow> (\<exists>c \<in> set chs. pc_action c = XDelete \<or> pc_action c = XReplace)"
proof -
  have "destroys_resource (exec_action_str x) \<longleftrightarrow> x = XDelete \<or> x = XReplace" for x
    by (cases x) (simp_all add: destroys_resource_def)
  then show ?thesis by (auto simp: drift_details_from_planned_changes_def)
qed


definition delete_plan :: plan_doc where
  "delete_plan = \<lparr>pd_format_version = ''1.2'', pd_terraform_version = ''1.6.0'',
     pd_resource_changes = [\<lparr>rc_address = ''aws_vpc.main'', rc_resource_type = ''aws_vpc'', rc_name = ''main'', rc_provider_name = ''aws'',
       rc_change = \<lparr>ch_actions = [''delete'', ''create''], ch_before = None, ch_after = None\<rparr>\<rparr>]\<rparr>"


text \<open>The summary of a document agrees with its changes as long as the counters do not wrap.\<close>

lemma summary_fold:
  fixes acc :: plan_totals
  defines "n \<equiv> \<lambda>P rcs. of_nat (length (filter (\<lambda>rc. P (change_type_of rc)) rcs))"
  shows "pt_added (fold summary_step rcs acc) = pt_added acc + n (\<lambda>x. x = CtCreate \<or> x = CtReplace) rcs
    \<and> pt_changed (fold summary_step rcs acc) = pt_changed acc + n (\<lambda>x. x = CtUpdate) rcs
    \<and> pt_destroyed (fold summary_step rcs acc) = pt_destroyed acc + n (\<lambda>x. x = CtDelete \<or> x = CtReplace) rcs"
  unfolding n_def
proof (induction rcs arbitrary: acc)
  case (Cons rc rcs)
  then show ?case by (cases "change_type_of rc") (simp_all add: Let_def)
qed simp

lemma summary_counts_changes:
  "pt_added (summary plan) = of_nat (length (resources_to_create plan))"
  "pt_changed (summary plan) = of_nat (length (resources_to_update plan))"
  "pt_destroyed (summary plan) = of_nat (length (resources_to_destroy plan))"
  using summary_fold [of "pd_resource_changes plan"]
  by (simp_all add: summary_def Let_def resources_to_create_def resources_to_update_def resources_to_destroy_def)

lemma of_nat_word_pos: "n < 2 ^ 32 \<Longrightarrow> (0 :: u32) < of_nat n \<longleftrightarrow> n \<noteq> 0"
  by (simp add: word_less_nat_alt unat_of_nat)

lemma summary_has_changes:
  assumes "length (pd_resource_changes plan) < 2 ^ 32"
  shows "pt_has_changes (summary plan) \<longleftrightarrow> all_drift_details plan \<noteq> []"
proof -
  let ?rcs = "pd_resource_changes plan"
  have small: "length (filter P ?rcs) < 2 ^ 32" for P using length_filter_le [of P ?rcs] assms by linarith
  have "pt_has_changes (summary plan) \<longleftrightarrow> 0 < pt_added (summary plan) \<or> 0 < pt_changed (summary plan) \<or> 0 < pt_destroyed (summary plan)"
    by (simp add: summary_def Let_def)
  also have "\<dots> \<longleftrightarrow> (\<exists>rc \<in> set ?rcs. change_type_of rc \<noteq> CtNoOp)"
  proof -
    have "ty \<noteq> CtNoOp \<longleftrightarrow> (ty = CtCreate \<or> ty = CtReplace) \<or> ty = CtUpdate \<or> (ty = CtDelete \<or> ty = CtReplace)" for ty
      by (cases ty) simp_all
    then show ?thesis
      unfolding summary_counts_changes resources_to_create_def resources_to_update_def resources_to_destroy_def
        of_nat_word_pos [OF small] length_0_conv filter_empty_conv
      by blast
  qed
  also have "\<dots> \<longleftrightarrow> all_drift_details plan \<noteq> []"
    by (auto simp: all_drift_details_def map_filter_def filter_empty_conv drift_of_change_def Let_def)
  finally show ?thesis .
qed

text \<open>A cycle artifact counts a replacement as a change and not as a destruction.\<close>

lemma artifact_replacement_not_destroyed:
  "summary_counts (artifact_of_changes [\<lparr>tc_address = a, tc_action = CaReplace, tc_severity = Breaking\<rparr>]) = (0, 1, 0, 1)"
  by (simp add: summary_counts_def artifact_of_changes_def action_distribution_from_def sat_add_def Let_def)

end
