(* ===== verification/Anomaly.thy ===== *)
theory Anomaly
  imports Plan_Analysis Leaf_Names
begin

text \<open>
  What an apply failure is (\<open>pangea-operator/src/controller/anomaly.rs\<close>, the diagnostics parser and
  the resolution policy of \<open>controller/conflict.rs\<close>, \<open>select_driving_anomaly\<close> of
  \<open>controller/template_controller.rs\<close> and \<open>text_util.rs\<close>): the closed taxonomy, the classifier over
  the text of a failure, the blocks of a diagnostic text, and which of several anomalies drives
  the reaction.
\<close>

section \<open>Texts\<close>

text \<open>\<open>truncate_utf8_safe\<close>: a text of at most \<open>max_chars\<close> characters is left alone.\<close>

definition truncate_utf8_safe :: "string \<Rightarrow> nat \<Rightarrow> string \<Rightarrow> string" where
  "truncate_utf8_safe s max_chars sfx = (if take_chars max_chars s = s then s else take_chars max_chars s @ sfx)"

text \<open>An ellipsis is its three bytes in UTF-8.\<close>

definition ellipsis :: string where
  "ellipsis = map char_of [226 :: nat, 128, 166]"

definition truncate_for_status :: "string \<Rightarrow> string" where
  "truncate_for_status s = truncate_utf8_safe s 256 ellipsis"

definition lowercase :: "string \<Rightarrow> string" where
  "lowercase s = map to_ascii_lowercase s"

abbreviation mentions :: "string \<Rightarrow> string list \<Rightarrow> bool" where
  "mentions text ps \<equiv> list_ex (str_contains text) ps"

section \<open>The taxonomy\<close>

datatype remediation_mode = Absolute | Decaying | Hold

fun mode_as_str :: "remediation_mode \<Rightarrow> string" where
  "mode_as_str Absolute = ''Absolute''"
| "mode_as_str Decaying = ''Decaying''"
| "mode_as_str Hold = ''Hold''"

datatype apply_anomaly =
    ProviderUnavailable string
  | ObjectExistsUntracked string string
  | RateLimited
  | TransientNetwork
  | StalePlan
  | EmptyWorkspace
  | PermissionDenied
  | Unclassified string

fun anomaly_mode :: "apply_anomaly \<Rightarrow> remediation_mode" where
  "anomaly_mode (ProviderUnavailable _) = Hold"
| "anomaly_mode (ObjectExistsUntracked _ _) = Hold"
| "anomaly_mode StalePlan = Absolute"
| "anomaly_mode EmptyWorkspace = Absolute"
| "anomaly_mode RateLimited = Decaying"
| "anomaly_mode TransientNetwork = Decaying"
| "anomaly_mode PermissionDenied = Hold"
| "anomaly_mode (Unclassified _) = Hold"

fun kind_str :: "apply_anomaly \<Rightarrow> string" where
  "kind_str (ProviderUnavailable _) = ''ProviderUnavailable''"
| "kind_str (ObjectExistsUntracked _ _) = ''ObjectExistsUntracked''"
| "kind_str RateLimited = ''RateLimited''"
| "kind_str TransientNetwork = ''TransientNetwork''"
| "kind_str StalePlan = ''StalePlan''"
| "kind_str EmptyWorkspace = ''EmptyWorkspace''"
| "kind_str PermissionDenied = ''PermissionDenied''"
| "kind_str (Unclassified _) = ''Unclassified''"

definition anomaly_event_reason :: "apply_anomaly \<Rightarrow> string" where
  "anomaly_event_reason a = ''Anomaly'' @ kind_str a"

definition provider_from_address :: "string \<Rightarrow> string option" where
  "provider_from_address address =
     (let ty = hd (split_at CHR ''.'' address); first = hd (split_at CHR ''_'' ty)
      in if first = [] then None else Some first)"

definition provider_from_locate_reason :: "string \<Rightarrow> string option" where
  "provider_from_locate_reason reason =
     (case split_once (char_of (34 :: nat)) reason of
        None \<Rightarrow> None
      | Some (_, rest) \<Rightarrow>
          (case split_once (char_of (34 :: nat)) rest of
             None \<Rightarrow> None
           | Some (name, _) \<Rightarrow> if name = [] then None else Some name))"

definition or_else :: "'a option \<Rightarrow> 'a option \<Rightarrow> 'a option" where
  "or_else x y = (case x of Some _ \<Rightarrow> x | None \<Rightarrow> y)"

definition classify_failure :: "string \<Rightarrow> string \<Rightarrow> string \<Rightarrow> apply_anomaly" where
  "classify_failure reason address action =
     (let r = lowercase reason in
      if mentions r [''locate provider'', ''no .terraform/providers'', ''run `init` first'', ''provider binary for''] then
        ProviderUnavailable
          (case or_else (provider_from_address address) (provider_from_locate_reason reason) of
             Some p \<Rightarrow> p | None \<Rightarrow> ''unknown'')
      else if mentions r [''no configuration files'', ''apply requires configuration to be present''] then EmptyWorkspace
      else if mentions r [''saved plan is stale'', ''plan is stale''] then StalePlan
      else if (str_contains r ''secondary'' \<and> mentions r [''rate limit'', ''rate-limit'', ''ratelimit'', ''429'', ''403''])
          \<or> mentions r [''rate limit'', ''rate-limit'', ''ratelimit'', ''429'', ''too many requests'', ''throttl''] then RateLimited
      else if mentions r [''403'', ''accessdenied'', ''access denied'', ''permission denied'', ''forbidden'', ''not an admin'',
          ''must have admin'', ''insufficient scope'', ''insufficient scopes''] then PermissionDenied
      else if mentions r [''already exists'', ''already been'', ''already been taken'', ''name_already_in_use'', ''name already'',
          ''already protected'', ''protection already exists'', ''422'', ''409''] then ObjectExistsUntracked address action
      else if mentions r [''dial'', ''timeout'', ''timed out'', ''connection refused'', ''connection reset'', ''spawn provider'',
          ''no such host'', ''i/o timeout'', ''temporary failure'', ''eof''] then TransientNetwork
      else Unclassified reason)"

fun rank :: "apply_anomaly \<Rightarrow> nat" where
  "rank StalePlan = 0"
| "rank EmptyWorkspace = 1"
| "rank (ProviderUnavailable _) = 2"
| "rank (ObjectExistsUntracked _ _) = 3"
| "rank RateLimited = 4"
| "rank TransientNetwork = 5"
| "rank PermissionDenied = 6"
| "rank (Unclassified _) = 7"

text \<open>\<open>min_by_key\<close> keeps the first of several least elements.\<close>

definition select_driving_anomaly :: "apply_anomaly list \<Rightarrow> apply_anomaly" where
  "select_driving_anomaly anomalies =
     (case anomalies of
        [] \<Rightarrow> Unclassified ''apply failed with no classifiable failure record''
      | a # as \<Rightarrow> fold (\<lambda>x best. if rank x < rank best then x else best) as a)"

definition suggested_import_hint :: "string \<Rightarrow> string" where
  "suggested_import_hint address =
     (let ty = hd (split_at CHR ''.'' address) in
      if ty = ''cloudflare_dns_record'' \<or> ty = ''cloudflare_record'' then ''{{ zone_id }}/<record_id>'' else ''<natural-id>'')"

definition is_self_healable_apply_error :: "string \<Rightarrow> bool" where
  "is_self_healable_apply_error stderr = str_contains stderr ''Saved plan is stale''"

section \<open>Diagnostics\<close>

text \<open>\<open>str::lines\<close>: a carriage return before a line feed is dropped, an empty last line too.\<close>

definition strip_cr :: "string \<Rightarrow> string" where
  "strip_cr l = (if l \<noteq> [] \<and> last l = CHR 0x0D then butlast l else l)"

definition str_lines :: "string \<Rightarrow> string list" where
  "str_lines text =
     (let parts = split_at CHR 0x0A text
      in map strip_cr (butlast parts) @ (if last parts = [] then [] else [last parts]))"

text \<open>The vertical bar and the two caps of a diagnostic frame.\<close>

definition frame_chars :: "string list" where
  "frame_chars = [map char_of [226 :: nat, 148, 130], map char_of [226 :: nat, 149, 183], map char_of [226 :: nat, 149, 181]]"

fun strip_one :: "string list \<Rightarrow> string \<Rightarrow> string" where
  "strip_one [] l = l"
| "strip_one (p # ps) l = (case strip_prefix l p of Some r \<Rightarrow> r | None \<Rightarrow> strip_one ps l)"

definition trim_start :: "string \<Rightarrow> string" where
  "trim_start l = dropWhile is_space l"

definition strip_diag_frame :: "string \<Rightarrow> string" where
  "strip_diag_frame line = trim_start (strip_one frame_chars (trim_start line))"

text \<open>\<open>trim_start_matches\<close> removes every leading occurrence.\<close>

function trim_start_matches :: "string \<Rightarrow> string \<Rightarrow> string" where
  "trim_start_matches p l = (if p \<noteq> [] \<and> starts_with l p then trim_start_matches p (drop (length p) l) else l)"
  by pat_completeness auto
termination
  by (relation "measure (\<lambda>(_, l). length l)") (auto simp: starts_with_iff)

declare trim_start_matches.simps [simp del]

definition with_address :: "string \<Rightarrow> string" where
  "with_address line = str_trim (trim_end_matches (\<lambda>c. c = CHR '','') (trim_start_matches ''with '' line))"

fun error_blocks_loop :: "string list \<Rightarrow> bool \<Rightarrow> string \<Rightarrow> (string \<times> string) list" where
  "error_blocks_loop [] in_error current = []"
| "error_blocks_loop (raw # rest) in_error current =
     (let line = strip_diag_frame raw in
      if starts_with line ''Error:'' then error_blocks_loop rest True line
      else if in_error \<and> starts_with line ''with '' then
        (let addr = with_address line
         in (if addr \<noteq> [] then [(addr, current)] else []) @ error_blocks_loop rest False [])
      else if in_error then error_blocks_loop rest in_error (current @ '' '' @ line)
      else error_blocks_loop rest in_error current)"

definition apply_error_blocks :: "string \<Rightarrow> (string \<times> string) list" where
  "apply_error_blocks output = error_blocks_loop (str_lines output) False []"

datatype conflict_kind = AlreadyExists | AlreadyProtected | OtherConflict

definition classify_kind :: "string \<Rightarrow> conflict_kind" where
  "classify_kind error_text =
     (let txt = lowercase error_text in
      if mentions txt [''already protected'', ''protection already exists''] then AlreadyProtected
      else if mentions txt [''already exists'', ''name already'', ''already been taken'', ''must be unique''] then AlreadyExists
      else OtherConflict)"

fun conflicts_loop :: "string list \<Rightarrow> bool \<Rightarrow> string \<Rightarrow> (string \<times> conflict_kind) list" where
  "conflicts_loop [] in_error current = []"
| "conflicts_loop (raw # rest) in_error current =
     (let line = strip_diag_frame raw in
      if starts_with line ''Error:'' then conflicts_loop rest True line
      else if in_error \<and> starts_with line ''with '' then
        (let addr = with_address line
         in (if addr \<noteq> [] then [(addr, classify_kind current)] else []) @ conflicts_loop rest False [])
      else if in_error then conflicts_loop rest in_error (current @ '' '' @ line)
      else conflicts_loop rest in_error current)"

definition classify_apply_conflicts :: "string \<Rightarrow> (string \<times> conflict_kind) list" where
  "classify_apply_conflicts output = conflicts_loop (str_lines output) False []"

section \<open>The resolution policy\<close>

datatype conflict_resolution = ResolveImport | ResolveSkip | ResolveFail

record conflict_rule =
  cr_resource_types :: "string list"
  cr_kinds :: "conflict_kind list"
  cr_resolution :: conflict_resolution

record conflict_policy =
  cp_enabled :: "bool option"
  cp_rules :: "conflict_rule list"
  cp_default_resolution :: "conflict_resolution option"
  cp_max_rounds :: "u32 option"

definition bundled_default :: conflict_policy where
  "bundled_default =
     \<lparr>cp_enabled = None,
      cp_rules = [\<lparr>cr_resource_types = [], cr_kinds = [AlreadyExists, AlreadyProtected], cr_resolution = ResolveImport\<rparr>],
      cp_default_resolution = Some ResolveFail, cp_max_rounds = Some 3\<rparr>"

definition resolution_for :: "conflict_policy \<Rightarrow> string \<Rightarrow> conflict_kind \<Rightarrow> conflict_resolution" where
  "resolution_for policy resource_type ck =
     (case List.find (\<lambda>r. (cr_resource_types r = [] \<or> resource_type \<in> set (cr_resource_types r))
              \<and> (cr_kinds r = [] \<or> ck \<in> set (cr_kinds r))) (cp_rules policy) of
        Some r \<Rightarrow> cr_resolution r
      | None \<Rightarrow> (case cp_default_resolution policy of Some r \<Rightarrow> r | None \<Rightarrow> ResolveFail))"

definition conflict_rounds :: "conflict_policy \<Rightarrow> nat" where
  "conflict_rounds policy = unat (min 10 (max 1 (case cp_max_rounds policy of Some n \<Rightarrow> n | None \<Rightarrow> 3)))"

section \<open>Facts\<close>

text \<open>The two scans of a diagnostic text find the same resources, and the conflict of each is the
  class of its block.\<close>

lemma conflicts_loop_eq:
  "conflicts_loop ls in_error current = map (\<lambda>(a, txt). (a, classify_kind txt)) (error_blocks_loop ls in_error current)"
  by (induction ls arbitrary: in_error current) (simp_all add: Let_def)

lemma conflicts_are_classified_blocks:
  "classify_apply_conflicts output = map (\<lambda>(a, txt). (a, classify_kind txt)) (apply_error_blocks output)"
  by (simp add: classify_apply_conflicts_def apply_error_blocks_def conflicts_loop_eq)

lemma fold_best:
  fixes as :: "apply_anomaly list" and best :: apply_anomaly
  defines "d \<equiv> fold (\<lambda>x best. if rank x < rank best then x else best) as best"
  shows "d \<in> set (best # as) \<and> (\<forall>x \<in> set (best # as). rank d \<le> rank x)"
  unfolding d_def
proof (induction as arbitrary: best)
  case (Cons a as)
  let ?b = "if rank a < rank best then a else best"
  let ?d = "fold (\<lambda>x best. if rank x < rank best then x else best) as ?b"
  have b: "rank ?b \<le> rank a" "rank ?b \<le> rank best" "?b \<in> {a, best}" by simp_all
  from Cons [of ?b] have d: "?d \<in> set (?b # as)" "\<And>x. x \<in> set (?b # as) \<Longrightarrow> rank ?d \<le> rank x" by blast+
  from d(1) b(3) have "?d \<in> set (best # a # as)" by auto
  moreover have "rank ?d \<le> rank x" if "x \<in> set (best # a # as)" for x
    using that d(2) [of ?b] d(2) [of x] b(1,2) by auto
  ultimately show ?case by simp
qed simp

lemma driving_anomaly_least:
  assumes "as \<noteq> []"
  shows "select_driving_anomaly as \<in> set as" "x \<in> set as \<Longrightarrow> rank (select_driving_anomaly as) \<le> rank x"
proof -
  obtain a bs where as: "as = a # bs" using assms by (cases as) auto
  note best = fold_best [of bs a]
  from best show "select_driving_anomaly as \<in> set as" by (simp add: select_driving_anomaly_def as)
  show "rank (select_driving_anomaly as) \<le> rank x" if "x \<in> set as"
    using best that unfolding as select_driving_anomaly_def list.case by blast
qed

text \<open>An anomaly that heals within a reconcile is never masked; but one that is held is: a missing
  provider or an untracked object hides a rate limit or a network fault beside it.\<close>

lemma absolute_never_masked:
  assumes "x \<in> set as" and "anomaly_mode x = Absolute"
  shows "anomaly_mode (select_driving_anomaly as) = Absolute"
proof -
  have "rank x \<le> 1" using assms(2) by (cases x) simp_all
  moreover have "rank (select_driving_anomaly as) \<le> rank x" using assms(1) by (intro driving_anomaly_least) auto
  ultimately have "rank (select_driving_anomaly as) \<le> 1" by linarith
  then show ?thesis by (cases "select_driving_anomaly as") simp_all
qed

lemma hold_masks_decaying: "select_driving_anomaly [RateLimited, ProviderUnavailable p] = ProviderUnavailable p"
  by (simp add: select_driving_anomaly_def)

lemma conflict_rounds_bounds: "1 \<le> conflict_rounds policy" "conflict_rounds policy \<le> 10"
proof -
  let ?n = "case cp_max_rounds policy of Some n \<Rightarrow> n | None \<Rightarrow> 3"
  have "min 10 (max 1 ?n) \<le> 10" "1 \<le> min 10 (max 1 ?n)" by simp_all
  then have "unat (min 10 (max 1 ?n)) \<le> unat (10 :: u32)" "unat (1 :: u32) \<le> unat (min 10 (max 1 ?n))"
    by (simp_all only: word_le_nat_alt)
  then show "1 \<le> conflict_rounds policy" "conflict_rounds policy \<le> 10" by (simp_all add: conflict_rounds_def)
qed

lemma take_chars_idem: "take_chars n (take_chars n s) = take_chars n s"
  by (induction n s rule: take_chars.induct) (auto split: nat.split)

lemma truncate_prefix: "\<exists>r. s = take_chars n s @ r"
  by (induction n s rule: take_chars.induct) (auto split: nat.split)

end
