(* ===== verification/Imports.thy ===== *)
theory Imports
  imports Anomaly
begin

text \<open>
  Adopting resources that exist outside the state (\<open>pangea-operator/src/controller/import.rs\<close> and
  the import pre-pass of \<open>controller/template_controller.rs\<close>): substitution in import-id templates,
  the three layers that resolve a create to an import target, the classification of a failed
  import, and the pre-pass before an apply.

  The printer of \<open>serde_json\<close> is the parameter \<open>P\<close> and its parser \<open>J\<close>. The imports of a pre-pass run
  concurrently; the order in which they complete is an argument.
\<close>

section \<open>Substitution\<close>

text \<open>\<open>out.push(byte as char)\<close>: a byte beyond ASCII becomes the character with that code, two bytes
  in UTF-8.\<close>

definition push_byte :: "char \<Rightarrow> string" where
  "push_byte c =
     (let b = of_char c :: nat in if b < 128 then [c] else [char_of (192 + b div 64), char_of (128 + b mod 64)])"

definition value_text :: "(json \<Rightarrow> string) \<Rightarrow> json \<Rightarrow> string" where
  "value_text P v = (case v of JStr s \<Rightarrow> s | _ \<Rightarrow> trim_matches (\<lambda>c. c = char_of (34 :: nat)) (P v))"

lemma str_find_le: "str_find s p = Some i \<Longrightarrow> i \<le> length s"
proof -
  assume "str_find s p = Some i"
  then have "i \<in> set [0..<length s + 1]"
    unfolding str_find_def by (metis find_Some_iff nth_mem)
  then show ?thesis by auto
qed

function substitute_loop :: "(string \<Rightarrow> (string, string) result) \<Rightarrow> string \<Rightarrow> (string, string) result" where
  "substitute_loop lookup s =
     (case s of
        [] \<Rightarrow> Inr []
      | c # cs \<Rightarrow>
          if starts_with s ''{{'' then
            (case str_find (drop 2 s) ''}}'' of
               None \<Rightarrow> Inr s
             | Some p \<Rightarrow>
                 bind_result (lookup (str_trim (take p (drop 2 s)))) (\<lambda>v.
                 bind_result (substitute_loop lookup (drop (p + 4) s)) (\<lambda>rest. Inr (v @ rest))))
          else bind_result (substitute_loop lookup cs) (\<lambda>rest. Inr (push_byte c @ rest)))"
  by pat_completeness auto
termination
  by (relation "measure (\<lambda>(_, s). length s)") auto

declare substitute_loop.simps [simp del]

text \<open>A leading dot of a name is optional.\<close>

definition plain_name :: "string \<Rightarrow> string" where
  "plain_name inner = str_trim (case strip_prefix inner ''.'' of Some r \<Rightarrow> r | None \<Rightarrow> inner)"

definition lookup_variable :: "(json \<Rightarrow> string) \<Rightarrow> (string, json) btmap \<Rightarrow> string \<Rightarrow> (string, string) result" where
  "lookup_variable P variables inner =
     (let var_name = plain_name inner in
      case bm_get variables var_name of Some v \<Rightarrow> Inr (value_text P v) | None \<Rightarrow> Inl var_name)"

definition substitute_import_id :: "(json \<Rightarrow> string) \<Rightarrow> string \<Rightarrow> (string, json) btmap \<Rightarrow> (string, string) result" where
  "substitute_import_id P template variables = substitute_loop (lookup_variable P variables) template"

definition lookup_planned :: "(json \<Rightarrow> string) \<Rightarrow> json \<Rightarrow> (string, json) btmap \<Rightarrow> string \<Rightarrow> (string, string) result" where
  "lookup_planned P planned_attrs variables inner =
     (let name = plain_name inner;
          v = (case strip_prefix name ''planned.'' of
                 Some attr \<Rightarrow> jget planned_attrs (str_trim attr)
               | None \<Rightarrow> bm_get variables name)
      in (case v of
            None \<Rightarrow> Inl name
          | Some JNull \<Rightarrow> Inl name
          | Some x \<Rightarrow> Inr (value_text P x)))"

definition substitute_with_planned :: "(json \<Rightarrow> string) \<Rightarrow> string \<Rightarrow> json \<Rightarrow> (string, json) btmap \<Rightarrow> (string, string) result" where
  "substitute_with_planned P template planned_attrs variables = substitute_loop (lookup_planned P planned_attrs variables) template"

section \<open>Targets\<close>

record import_target =
  tg_address :: string
  tg_id :: string
  tg_source :: string

datatype import_skip =
    SkipHint string string
  | SkipAuto string string string bool
  | SkipInexact string string

record import_policy =
  ip_auto_on_conflict :: bool
  ip_natural_ids :: "(string, string) btmap"

definition auto_on_conflict_or_default :: "import_policy option \<Rightarrow> bool" where
  "auto_on_conflict_or_default policy = (case policy of Some p \<Rightarrow> ip_auto_on_conflict p | None \<Rightarrow> True)"

definition discovery_from_planned_changes ::
    "planned_change list \<Rightarrow> string list \<times> (string, json) btmap \<times> (string, derived_import_id) btmap" where
  "discovery_from_planned_changes chs =
     fold (\<lambda>c (creates, planned, derived).
         if pc_action c = XCreate \<and> pc_kind c = Managed then
           (creates @ [pc_address c],
            bm_insert (pc_address c) (case pc_after c of Some v \<Rightarrow> v | None \<Rightarrow> JNull) planned,
            (case pc_import_id c of Some d \<Rightarrow> bm_insert (pc_address c) d derived | None \<Rightarrow> derived))
         else (creates, planned, derived))
       chs ([], [], [])"

definition resolve_natural_id :: "string \<Rightarrow> (string, string) btmap \<Rightarrow> string option" where
  "resolve_natural_id address user_natural_ids = bm_get user_natural_ids (hd (split_at CHR ''.'' address))"

fun resolve_hints ::
    "(json \<Rightarrow> string) \<Rightarrow> string list \<Rightarrow> (string, json) btmap \<Rightarrow> (string \<times> string) list
     \<Rightarrow> import_target list \<times> import_skip list" where
  "resolve_hints P creates variables [] = ([], [])"
| "resolve_hints P creates variables ((addr, id_template) # hints) =
     (let (targets, skips) = resolve_hints P creates variables hints in
      if addr \<notin> set creates then (targets, skips)
      else (case substitute_import_id P id_template variables of
              Inr i \<Rightarrow> (\<lparr>tg_address = addr, tg_id = i, tg_source = ''hint''\<rparr> # targets, skips)
            | Inl missing \<Rightarrow> (targets, SkipHint addr missing # skips)))"

definition auto_outcome ::
    "(json \<Rightarrow> string) \<Rightarrow> (string, json) btmap \<Rightarrow> (string, derived_import_id) btmap \<Rightarrow> (string, string) btmap \<Rightarrow> (string, json) btmap
     \<Rightarrow> string \<Rightarrow> (import_skip, string) result option" where
  "auto_outcome P planned derived natural_ids variables addr =
     (case resolve_natural_id addr natural_ids of
        None \<Rightarrow>
          (case bm_get derived addr of
             Some d \<Rightarrow> Some (if di_exact d then Inr (di_id d) else Inl (SkipInexact addr (di_id d)))
           | None \<Rightarrow> None)
      | Some id_template \<Rightarrow>
          (case substitute_with_planned P id_template (case bm_get planned addr of Some v \<Rightarrow> v | None \<Rightarrow> JNull) variables of
             Inr i \<Rightarrow> Some (Inr i)
           | Inl missing \<Rightarrow>
               Some (Inl (SkipAuto addr id_template missing
                 (missing \<in> {''planned.id'', ''planned.arn'', ''planned.self_link''})))))"

fun resolve_auto ::
    "(json \<Rightarrow> string) \<Rightarrow> (string, json) btmap \<Rightarrow> (string, derived_import_id) btmap \<Rightarrow> (string, string) btmap \<Rightarrow> (string, json) btmap
     \<Rightarrow> string list \<Rightarrow> string list \<Rightarrow> import_target list \<times> import_skip list" where
  "resolve_auto P planned derived natural_ids variables covered [] = ([], [])"
| "resolve_auto P planned derived natural_ids variables covered (addr # addrs) =
     (let (targets, skips) = resolve_auto P planned derived natural_ids variables covered addrs in
      if addr \<in> set covered then (targets, skips)
      else (case auto_outcome P planned derived natural_ids variables addr of
              Some (Inr i) \<Rightarrow> (\<lparr>tg_address = addr, tg_id = i, tg_source = ''auto''\<rparr> # targets, skips)
            | Some (Inl skip) \<Rightarrow> (targets, skip # skips)
            | None \<Rightarrow> (targets, skips)))"

definition resolve_import_targets ::
    "(json \<Rightarrow> string) \<Rightarrow> string list \<Rightarrow> (string, json) btmap \<Rightarrow> (string, derived_import_id) btmap \<Rightarrow> (string, string) btmap
     \<Rightarrow> import_policy option \<Rightarrow> (string, json) btmap \<Rightarrow> import_target list \<times> import_skip list" where
  "resolve_import_targets P creates planned derived hints policy variables =
     (let (hinted, hint_skips) = resolve_hints P creates variables hints;
          natural_ids = (case policy of Some p \<Rightarrow> ip_natural_ids p | None \<Rightarrow> []);
          (auto, auto_skips) =
            (if auto_on_conflict_or_default policy
             then resolve_auto P planned derived natural_ids variables (map tg_address hinted) creates else ([], []))
      in (hinted @ auto, hint_skips @ auto_skips))"

definition change_after :: "json \<Rightarrow> json option" where
  "change_after change = Option.bind (jget change ''change'') (\<lambda>v. jget v ''after'')"

definition parse_planned_attrs :: "(string \<Rightarrow> json option) \<Rightarrow> string \<Rightarrow> (string, json) btmap" where
  "parse_planned_attrs J plan_json =
     (case Option.bind (J plan_json) (\<lambda>v. get_array v ''resource_changes'') of
        None \<Rightarrow> []
      | Some chs \<Rightarrow>
          fold (\<lambda>ch out.
              (case (get_str ch ''address'', change_after ch) of
                 (Some address, Some after) \<Rightarrow> bm_insert address after out
               | _ \<Rightarrow> out)) chs [])"

definition extract_create_addresses_from_plan :: "(string \<Rightarrow> json option) \<Rightarrow> string \<Rightarrow> string list" where
  "extract_create_addresses_from_plan J plan_json =
     (case Option.bind (J plan_json) (\<lambda>v. get_array v ''resource_changes'') of
        None \<Rightarrow> []
      | Some chs \<Rightarrow>
          List.map_filter (\<lambda>ch.
              (case Option.bind (Option.bind (jget ch ''change'') (\<lambda>v. jget v ''actions'')) as_array of
                 None \<Rightarrow> None
               | Some actions \<Rightarrow> if list_ex (\<lambda>a. as_str a = Some ''create'') actions then get_str ch ''address'' else None)) chs)"

section \<open>The pre-pass\<close>

datatype import_evidence = EvidenceUnclassified | ProviderReportedAbsent

datatype import_failure = ImportAbsent | ImportAmbiguous

definition classify_import_failure :: "import_evidence \<Rightarrow> string \<Rightarrow> import_failure" where
  "classify_import_failure evidence stderr =
     (case evidence of
        ProviderReportedAbsent \<Rightarrow> ImportAbsent
      | EvidenceUnclassified \<Rightarrow>
          if mentions (lowercase stderr) [''404'', ''not found'', ''does not exist'', ''no resource with id'']
          then ImportAbsent else ImportAmbiguous)"

text \<open>What an executor answers to an import: an error, a failure with its evidence and text, or
  success.\<close>

datatype import_answer = ImportErrored | ImportRejected import_evidence string | ImportAdopted

record import_prepass =
  pp_imported :: "string list"
  pp_failed :: "string list"
  pp_absent :: "string list"

definition empty_prepass :: import_prepass where
  "empty_prepass = \<lparr>pp_imported = [], pp_failed = [], pp_absent = []\<rparr>"

definition attempted :: "import_prepass \<Rightarrow> bool" where
  "attempted p \<longleftrightarrow> pp_imported p \<noteq> [] \<or> pp_failed p \<noteq> []"

definition blocking_failures :: "import_prepass \<Rightarrow> string list" where
  "blocking_failures p = filter (\<lambda>a. a \<notin> set (pp_absent p)) (pp_failed p)"

definition plan_may_be_stale :: "import_prepass \<Rightarrow> bool" where
  "plan_may_be_stale p \<longleftrightarrow> pp_imported p \<noteq> [] \<or> list_ex (\<lambda>a. a \<notin> set (pp_absent p)) (pp_failed p)"

text \<open>The effects of the Applying phase. A plan of the executor is run with or without the cached
  plan file, and \<open>CheckActions\<close> is a reading of the action set about to be applied.\<close>

datatype apply_effect =
    Ctl planning_effect
  | RunImport string string
  | RunPlan
  | CheckActions "drift_detail list"
  | RunApply bool
  | RemovePlanFile
  | TakeLock
  | ReleaseLock

definition event :: "event_type \<Rightarrow> string \<Rightarrow> string \<Rightarrow> apply_effect" where
  "event ty reason msg = Ctl (Basic (Event ty reason msg))"

definition try_import :: "import_answer \<Rightarrow> import_target \<Rightarrow> apply_effect list \<times> (import_failure, unit) result" where
  "try_import answer tg =
     (case answer of
        ImportAdopted \<Rightarrow>
          ([RunImport (tg_address tg) (tg_id tg),
            event Normal ''Imported'' (''Adopted out-of-band '' @ tg_address tg @ '' into state via import id '' @ tg_id tg
              @ '' ('' @ tg_source tg @ '')'')], Inr ())
      | ImportRejected evidence stderr \<Rightarrow>
          ([RunImport (tg_address tg) (tg_id tg),
            event Warning ''ImportFailed'' (''import '' @ tg_address tg @ '' failed: '' @ truncate_for_status stderr)],
           Inl (classify_import_failure evidence stderr))
      | ImportErrored \<Rightarrow> ([RunImport (tg_address tg) (tg_id tg)], Inl ImportAmbiguous))"

text \<open>The fields of the spec that imports and applies read.\<close>

record apply_spec =
  sp_destroy_protection :: bool
  sp_import_hints :: "(string, string) btmap"
  sp_import_policy :: "import_policy option"
  sp_conflict_policy :: "conflict_policy option"
  sp_variables :: "(string, json) btmap"

text \<open>The answers of a pre-pass: whether credentials resolve (twice), the planned changes of the
  executor (an error, none, or a list), the text of a shown plan (empty when it could not be read),
  each import, and the order of completion.\<close>

record prepass_answers =
  pq_creds :: bool
  pq_planned :: "(unit, planned_change list option) result"
  pq_show_json :: string
  pq_creds_again :: bool
  pq_import :: "import_target \<Rightarrow> import_answer"
  pq_completion :: "import_target list \<Rightarrow> import_target list"

definition prepass_discovery ::
    "(string \<Rightarrow> json option) \<Rightarrow> bool \<Rightarrow> prepass_answers \<Rightarrow> drift_detail list
     \<Rightarrow> (string list \<times> (string, json) btmap \<times> (string, derived_import_id) btmap) option" where
  "prepass_discovery J auto_import q prior_drifts =
     (case pq_planned q of
        Inl _ \<Rightarrow> None
      | Inr (Some chs) \<Rightarrow> Some (discovery_from_planned_changes chs)
      | Inr None \<Rightarrow>
          (let from_plan = extract_create_addresses_from_plan J (pq_show_json q);
               creates = (if from_plan \<noteq> [] then from_plan
                          else map dd_address (filter (\<lambda>d. dd_action d = ''create'') prior_drifts));
               planned = (if auto_import then parse_planned_attrs J (pq_show_json q) else [])
           in Some (creates, planned, [])))"

fun skip_effects :: "import_skip \<Rightarrow> apply_effect list" where
  "skip_effects (SkipHint address missing) =
     [event Warning ''ImportHintSkipped''
        (''Import hint for '' @ address @ '' references unset variable {{ .'' @ missing @ '' }}; skipping'')]"
| "skip_effects _ = []"

definition collect_imports :: "(import_target \<times> (import_failure, unit) result) list \<Rightarrow> import_prepass" where
  "collect_imports results =
     \<lparr>pp_imported = map (\<lambda>(tg, _). tg_address tg) (filter (\<lambda>(_, r). is_ok r) results),
      pp_failed = map (\<lambda>(tg, _). tg_address tg) (filter (\<lambda>(_, r). \<not> is_ok r) results),
      pp_absent = map (\<lambda>(tg, _). tg_address tg) (filter (\<lambda>(_, r). r = Inl ImportAbsent) results)\<rparr>"

definition run_import_prepass ::
    "(string \<Rightarrow> json option) \<Rightarrow> (json \<Rightarrow> string) \<Rightarrow> apply_spec \<Rightarrow> prepass_answers \<Rightarrow> drift_detail list
     \<Rightarrow> apply_effect list \<times> import_prepass" where
  "run_import_prepass J P spec q prior_drifts =
     (let auto_import = auto_on_conflict_or_default (sp_import_policy spec) in
      if sp_import_hints spec = [] \<and> \<not> auto_import then ([], empty_prepass)
      else if \<not> pq_creds q then ([], empty_prepass)
      else (case prepass_discovery J auto_import q prior_drifts of
        None \<Rightarrow> ([], empty_prepass)
      | Some (creates, planned, derived) \<Rightarrow>
          if creates = [] then ([], empty_prepass)
          else
            (let (targets, skips) = resolve_import_targets P creates planned derived (sp_import_hints spec) (sp_import_policy spec) (sp_variables spec);
                 skipped = concat (map skip_effects skips)
             in if targets = [] \<or> \<not> pq_creds_again q then (skipped, empty_prepass)
                else
                  (let done = map (\<lambda>tg. (tg, try_import (pq_import q tg) tg)) (pq_completion q targets)
                   in (skipped @ concat (map (\<lambda>(_, fx, _). fx) done), collect_imports (map (\<lambda>(tg, _, r). (tg, r)) done))))))"

section \<open>What is imported\<close>

text \<open>The reference: the target of one address, from the first layer that has an answer.\<close>

definition target_of ::
    "(json \<Rightarrow> string) \<Rightarrow> (string, json) btmap \<Rightarrow> (string, derived_import_id) btmap \<Rightarrow> (string, string) btmap
     \<Rightarrow> import_policy option \<Rightarrow> (string, json) btmap \<Rightarrow> string \<Rightarrow> import_target option" where
  "target_of P planned derived hints policy variables addr =
     (let hinted = Option.bind (bm_get hints addr) (\<lambda>tpl.
            case substitute_import_id P tpl variables of Inr i \<Rightarrow> Some i | Inl _ \<Rightarrow> None);
          natural_ids = (case policy of Some p \<Rightarrow> ip_natural_ids p | None \<Rightarrow> [])
      in (case hinted of
            Some i \<Rightarrow> Some \<lparr>tg_address = addr, tg_id = i, tg_source = ''hint''\<rparr>
          | None \<Rightarrow>
              if auto_on_conflict_or_default policy then
                (case auto_outcome P planned derived natural_ids variables addr of
                   Some (Inr i) \<Rightarrow> Some \<lparr>tg_address = addr, tg_id = i, tg_source = ''auto''\<rparr>
                 | _ \<Rightarrow> None)
              else None))"

definition hint_target :: "(json \<Rightarrow> string) \<Rightarrow> string list \<Rightarrow> (string, json) btmap \<Rightarrow> string \<times> string \<Rightarrow> import_target option" where
  "hint_target P creates variables = (\<lambda>(addr, tpl).
     if addr \<in> set creates then
       (case substitute_import_id P tpl variables of
          Inr i \<Rightarrow> Some \<lparr>tg_address = addr, tg_id = i, tg_source = ''hint''\<rparr> | Inl _ \<Rightarrow> None)
     else None)"

definition auto_target ::
    "(json \<Rightarrow> string) \<Rightarrow> (string, json) btmap \<Rightarrow> (string, derived_import_id) btmap \<Rightarrow> (string, string) btmap \<Rightarrow> (string, json) btmap
     \<Rightarrow> string list \<Rightarrow> string \<Rightarrow> import_target option" where
  "auto_target P planned derived nids variables covered addr =
     (if addr \<in> set covered then None
      else (case auto_outcome P planned derived nids variables addr of
              Some (Inr i) \<Rightarrow> Some \<lparr>tg_address = addr, tg_id = i, tg_source = ''auto''\<rparr> | _ \<Rightarrow> None))"

lemma fst_resolve_hints: "fst (resolve_hints P creates variables hints) = List.map_filter (hint_target P creates variables) hints"
  by (induction hints) (auto simp: hint_target_def map_filter_simps split_beta split: sum.splits)

lemma fst_resolve_auto:
  "fst (resolve_auto P planned derived nids variables covered addrs) =
     List.map_filter (auto_target P planned derived nids variables covered) addrs"
  by (induction addrs) (auto simp: auto_target_def map_filter_simps split_beta split: option.splits sum.splits)

lemma hint_target_address: "hint_target P creates variables h = Some tg \<Longrightarrow> tg_address tg = fst h \<and> fst h \<in> set creates"
  by (auto simp: hint_target_def split_beta split: if_splits sum.splits)

lemma auto_target_address: "auto_target P planned derived nids variables covered a = Some tg \<Longrightarrow> tg_address tg = a \<and> a \<notin> set covered"
  by (auto simp: auto_target_def split: if_splits option.splits sum.splits)

lemma set_map_filter_iff: "y \<in> set (List.map_filter f xs) \<longleftrightarrow> (\<exists>x \<in> set xs. f x = Some y)"
  by (induction xs) (auto simp: map_filter_simps split: option.splits)

lemma distinct_map_filter:
  assumes "distinct (map k xs)" and "\<And>x y. f x = Some y \<Longrightarrow> g y = k x"
  shows "distinct (map g (List.map_filter f xs))"
  using assms(1)
proof (induction xs)
  case (Cons x xs)
  then show ?case
    using assms(2) by (auto simp: map_filter_simps set_map_filter_iff split: option.splits)
qed (simp add: map_filter_simps)

lemma hint_target_Some:
  "hint_target P creates variables (a, tpl) = Some tg \<longleftrightarrow>
     tg_address tg = a \<and> tg_source tg = ''hint'' \<and> a \<in> set creates \<and> substitute_import_id P tpl variables = Inr (tg_id tg)"
  by (cases tg) (auto simp: hint_target_def split: sum.splits)

lemma auto_target_Some:
  "auto_target P planned derived nids variables covered a = Some tg \<longleftrightarrow>
     tg_address tg = a \<and> tg_source tg = ''auto'' \<and> a \<notin> set covered \<and>
     auto_outcome P planned derived nids variables a = Some (Inr (tg_id tg))"
  by (cases tg) (auto simp: auto_target_def split: option.splits sum.splits)

lemma hinted_iff:
  assumes "bm_wf hints"
  shows "tg \<in> set (List.map_filter (hint_target P creates variables) hints) \<longleftrightarrow>
    tg_address tg \<in> set creates \<and> tg_source tg = ''hint'' \<and>
    (\<exists>tpl. bm_get hints (tg_address tg) = Some tpl \<and> substitute_import_id P tpl variables = Inr (tg_id tg))"
  unfolding set_map_filter_iff bm_get_Some_iff [OF assms] by (force simp: hint_target_Some)

lemma auto_iff:
  "tg \<in> set (List.map_filter (auto_target P planned derived nids variables covered) creates) \<longleftrightarrow>
    tg_address tg \<in> set creates \<and> tg_source tg = ''auto'' \<and> tg_address tg \<notin> set covered \<and>
    auto_outcome P planned derived nids variables (tg_address tg) = Some (Inr (tg_id tg))"
  unfolding set_map_filter_iff by (auto simp: auto_target_Some)

lemma covered_iff:
  assumes "bm_wf hints"
  shows "a \<in> tg_address ` set (List.map_filter (hint_target P creates variables) hints) \<longleftrightarrow>
    a \<in> set creates \<and> (\<exists>tpl i. bm_get hints a = Some tpl \<and> substitute_import_id P tpl variables = Inr i)"
proof
  show "a \<in> set creates \<and> (\<exists>tpl i. bm_get hints a = Some tpl \<and> substitute_import_id P tpl variables = Inr i)"
    if "a \<in> tg_address ` set (List.map_filter (hint_target P creates variables) hints)"
    using that by (auto simp: hinted_iff [OF assms])
next
  assume "a \<in> set creates \<and> (\<exists>tpl i. bm_get hints a = Some tpl \<and> substitute_import_id P tpl variables = Inr i)"
  then obtain i where "\<lparr>tg_address = a, tg_id = i, tg_source = ''hint''\<rparr> \<in> set (List.map_filter (hint_target P creates variables) hints)"
    using hinted_iff [OF assms] by auto
  then show "a \<in> tg_address ` set (List.map_filter (hint_target P creates variables) hints)"
    by (force simp: image_iff)
qed

lemma target_of_Some:
  "target_of P planned derived hints policy variables a = Some tg \<longleftrightarrow> tg_address tg = a \<and>
     (if \<exists>tpl i. bm_get hints a = Some tpl \<and> substitute_import_id P tpl variables = Inr i
      then tg_source tg = ''hint'' \<and> (\<exists>tpl. bm_get hints a = Some tpl \<and> substitute_import_id P tpl variables = Inr (tg_id tg))
      else auto_on_conflict_or_default policy \<and> tg_source tg = ''auto'' \<and>
        auto_outcome P planned derived (case policy of Some p \<Rightarrow> ip_natural_ids p | None \<Rightarrow> []) variables a = Some (Inr (tg_id tg)))"
  by (cases tg) (auto simp: target_of_def Let_def split: option.splits sum.splits bind_splits)



end
