(* ===== verification/Applying.thy ===== *)
theory Applying
  imports Imports
begin

text \<open>
  The Applying phase (\<open>handle_applying\<close> of \<open>pangea-operator/src/controller/template_controller.rs\<close>
  and the post-apply loop of \<open>controller/conflict.rs\<close>): the lock on the state, the import pre-pass,
  the gates before an apply, the apply itself with its recovery from a stale plan, the adoption of
  conflicting resources, and the reaction to a failure.

  The answers of the executor, the runner and the database are in \<open>apply_answers\<close>. The printer and the
  parser of \<open>serde_json\<close> are \<open>P\<close> and \<open>J\<close>; \<open>D\<close> is its derived parser of plan documents.
\<close>

type_synonym 'a applied = "apply_effect list \<times> (handler_error, 'a) result"

definition ctl :: "'a planned \<Rightarrow> 'a applied" where
  "ctl m = (map Ctl (fst m), snd m)"

definition perform :: "apply_effect list \<Rightarrow> 'a \<Rightarrow> 'a applied" where
  "perform fx x = (fx, Inr x)"

text \<open>\<open>update_phase_with_error\<close> of any phase.\<close>

definition go_error :: "env \<Rightarrow> infrastructure_template \<Rightarrow> phase \<Rightarrow> string \<Rightarrow> unit applied" where
  "go_error env template ph msg =
     ctl (basic (write_status (en_ok env Error_Writer)
       (update_phase_with_error (en_rfc env) (en_me env) template (en_live env) (en_digest env) ph msg (en_now env)) (return ())))"

section \<open>The lock on the state\<close>

text \<open>What the lock manager answers; there is none in a deployment without a database.\<close>

datatype lock_answer = NoLockManager | LockGranted | LockFailed | LockBroken

datatype lock_dispatch = LockProceed bool | Contended

fun is_lock_contention :: "lock_answer \<Rightarrow> bool" where
  "is_lock_contention LockFailed = True"
| "is_lock_contention _ = False"

definition acquire_mutation_lock :: "lock_answer \<Rightarrow> lock_dispatch applied" where
  "acquire_mutation_lock answer =
     (case answer of
        NoLockManager \<Rightarrow> perform [] (LockProceed False)
      | LockGranted \<Rightarrow> perform [TakeLock] (LockProceed True)
      | _ \<Rightarrow> if is_lock_contention answer then perform [] Contended else ([], Inl Lock_Failed))"

text \<open>The guard releases the lock when it is dropped, on every path.\<close>

definition releasing :: "bool \<Rightarrow> 'a applied \<Rightarrow> 'a applied" where
  "releasing held m = (fst m @ (if held then [ReleaseLock] else []), snd m)"

section \<open>The action set about to be applied\<close>

definition drift_details_from_tofu_show_json :: "(string \<Rightarrow> plan_doc option) \<Rightarrow> string \<Rightarrow> drift_detail list" where
  "drift_details_from_tofu_show_json D raw =
     (if raw = [] then [] else (case D raw of Some plan \<Rightarrow> all_drift_details plan | None \<Rightarrow> []))"

text \<open>The recheck reads the document of a plan, else its artifact, else the bundle in the database.\<close>

definition drift_details_from_plan_result :: "(string \<Rightarrow> plan_doc option) \<Rightarrow> analysis option \<Rightarrow> plan_result \<Rightarrow> drift_detail list" where
  "drift_details_from_plan_result D bundle r =
     (if pr_raw_show_json r \<noteq> [] then drift_details_from_tofu_show_json D (pr_raw_show_json r)
      else (case pr_artifact r of
              Some (_, ds) \<Rightarrow> ds
            | None \<Rightarrow> (case bundle of Some (_, ds) \<Rightarrow> ds | None \<Rightarrow> [])))"

record fresh_answers =
  fr_planned :: "(unit, planned_change list option) result"
  fr_plan :: "bool option"
  fr_planned_again :: "(unit, planned_change list option) result"
  fr_show :: string

definition fresh_action_set_before_bare_apply :: "(string \<Rightarrow> plan_doc option) \<Rightarrow> fresh_answers \<Rightarrow> apply_effect list \<times> drift_detail list" where
  "fresh_action_set_before_bare_apply D q =
     (case fr_planned q of
        Inr (Some chs) \<Rightarrow> ([], drift_details_from_planned_changes chs)
      | _ \<Rightarrow>
          ([RunPlan],
           if fr_plan q \<noteq> Some True then []
           else (case fr_planned_again q of
                   Inr (Some chs) \<Rightarrow> drift_details_from_planned_changes chs
                 | _ \<Rightarrow> drift_details_from_tofu_show_json D (fr_show q))))"

definition protection_tail :: string where
  "protection_tail =
     ''A replace is a delete-then-recreate, so it is blocked under destroy protection (approved or not). ''
     @ ''Set spec.destroyProtection=false first if this destruction is intended, then re-approve. Parking at Failed.''"

text \<open>The refusal of a protected destruction: an event, then the phase.\<close>

definition destroy_blocked :: "env \<Rightarrow> infrastructure_template \<Rightarrow> string \<Rightarrow> unit applied" where
  "destroy_blocked env template msg =
     chain (perform [event Warning ''DestroyBlocked'' msg] ()) (\<lambda>_. go_error env template phase.Failed msg)"

definition recheck_destroy_protection_before_bare_apply ::
    "env \<Rightarrow> (string \<Rightarrow> plan_doc option) \<Rightarrow> apply_spec \<Rightarrow> infrastructure_template \<Rightarrow> fresh_answers \<Rightarrow> reconcile_action option applied" where
  "recheck_destroy_protection_before_bare_apply env D spec template q =
     (if \<not> sp_destroy_protection spec then perform [] None
      else
        (let (fx, fresh) = fresh_action_set_before_bare_apply D q in
         chain (perform (fx @ [CheckActions fresh]) ()) (\<lambda>_.
         case evaluate_destroy_protection_gate True fresh of
           ProtectionProceed \<Rightarrow> perform [] None
         | BlockedByProtectedDestruction address action \<Rightarrow>
             chain (destroy_blocked env template
                 (''Applying refused: destroyProtection is enabled and a freshly recomputed plan '' @ em_dash
                  @ '' about to be applied with no pre-approved cached plan (plan_file=None) '' @ em_dash
                  @ '' contains a destructive '' @ action @ '' action on '' @ address @ ''. '' @ protection_tail)) (\<lambda>_.
             perform [] (Some (Requeue DEFAULT_REQUEUE_INTERVAL))))))"

section \<open>Conflicts after an apply\<close>

record failed_change =
  fc_address :: string
  fc_action :: string
  fc_reason :: string

record tofu_result =
  tr_success :: bool
  tr_stdout :: string
  tr_stderr :: string
  tr_failed_changes :: "failed_change list"

definition effective_policy :: "apply_spec \<Rightarrow> conflict_policy" where
  "effective_policy spec = (case sp_conflict_policy spec of Some p \<Rightarrow> p | None \<Rightarrow> bundled_default)"

definition is_enabled :: "apply_spec \<Rightarrow> conflict_policy \<Rightarrow> bool" where
  "is_enabled spec policy =
     (case cp_enabled policy of Some b \<Rightarrow> b | None \<Rightarrow> auto_on_conflict_or_default (sp_import_policy spec))"

definition conflict_resource_type :: "string \<Rightarrow> string" where
  "conflict_resource_type address = hd (split_at CHR ''.'' address)"

definition config_attrs_from_main_tf :: "(string \<Rightarrow> json option) \<Rightarrow> string \<Rightarrow> (string, json) btmap" where
  "config_attrs_from_main_tf J text =
     (case Option.bind (Option.bind (J text) (\<lambda>v. jget v ''resource'')) as_object of
        None \<Rightarrow> []
      | Some resources \<Rightarrow>
          fold (\<lambda>(rtype, by_label) out.
              (case as_object by_label of
                 None \<Rightarrow> out
               | Some labels \<Rightarrow>
                   fold (\<lambda>(label, block) out.
                       bm_insert (rtype @ ''.'' @ label)
                         (case block of JArr [] \<Rightarrow> JNull | JArr (a # _) \<Rightarrow> a | other \<Rightarrow> other) out) labels out)) resources [])"

definition combined_output :: "tofu_result \<Rightarrow> string" where
  "combined_output result =
     (if tr_stdout result = [] then tr_stderr result
      else if tr_stderr result = [] then tr_stdout result
      else tr_stdout result @ newline @ tr_stderr result)"

record round_answers =
  ra_creds :: bool
  ra_show :: string
  ra_main_tf :: "string option"
  ra_import :: "string \<Rightarrow> string \<Rightarrow> import_answer"
  ra_fresh :: fresh_answers
  ra_apply :: "tofu_result option"

definition gather_attrs :: "(string \<Rightarrow> json option) \<Rightarrow> round_answers \<Rightarrow> apply_effect list \<times> (string, json) btmap" where
  "gather_attrs J q =
     (let plan_json = (if ra_creds q then ra_show q else []);
          from_plan = (if plan_json \<noteq> [] then parse_planned_attrs J plan_json else [])
      in (if ra_creds q then [RunPlan] else [],
          if from_plan \<noteq> [] then from_plan
          else (case ra_main_tf q of Some content \<Rightarrow> config_attrs_from_main_tf J content | None \<Rightarrow> [])))"

definition spec_natural_ids :: "apply_spec \<Rightarrow> (string, string) btmap" where
  "spec_natural_ids spec = (case sp_import_policy spec of Some p \<Rightarrow> ip_natural_ids p | None \<Rightarrow> [])"

text \<open>One conflict of a round: the effects and whether the resource was adopted.\<close>

definition adopt :: "(json \<Rightarrow> string) \<Rightarrow> apply_spec \<Rightarrow> round_answers \<Rightarrow> (string, json) btmap \<Rightarrow> string \<Rightarrow> apply_effect list \<times> bool" where
  "adopt P spec q attrs addr =
     (case resolve_natural_id addr (spec_natural_ids spec) of
        None \<Rightarrow> ([], False)
      | Some id_template \<Rightarrow>
          (case substitute_with_planned P id_template (case bm_get attrs addr of Some v \<Rightarrow> v | None \<Rightarrow> JNull) (sp_variables spec) of
             Inl _ \<Rightarrow> ([], False)
           | Inr import_id \<Rightarrow> ([RunImport addr import_id], ra_import q addr import_id = ImportAdopted)))"

record conflict_outcome =
  co_result :: tofu_result
  co_imported :: "string list"
  co_rounds :: nat
  co_blocked :: bool

definition wanted :: "conflict_policy \<Rightarrow> string list \<Rightarrow> tofu_result \<Rightarrow> string list" where
  "wanted policy tried result =
     map fst (filter (\<lambda>(addr, kind). addr \<notin> set tried \<and> resolution_for policy (conflict_resource_type addr) kind = ResolveImport)
       (classify_apply_conflicts (combined_output result)))"

text \<open>The check between the imports of a round and its apply; whether it blocked.\<close>

definition protect_reapply ::
    "env \<Rightarrow> (string \<Rightarrow> plan_doc option) \<Rightarrow> apply_spec \<Rightarrow> infrastructure_template \<Rightarrow> fresh_answers \<Rightarrow> bool applied" where
  "protect_reapply env D spec template q =
     (if \<not> sp_destroy_protection spec then perform [] False
      else
        (let (fx, fresh) = fresh_action_set_before_bare_apply D q in
         chain (perform (fx @ [CheckActions fresh]) ()) (\<lambda>_.
         case evaluate_destroy_protection_gate True fresh of
           ProtectionProceed \<Rightarrow> perform [] False
         | BlockedByProtectedDestruction address action \<Rightarrow>
             chain (destroy_blocked env template
                 (''Applying refused: destroyProtection is enabled and the post-import re-apply's freshly recomputed plan contains a destructive ''
                  @ action @ '' action on '' @ address @ ''. '' @ protection_tail)) (\<lambda>_.
             perform [] True))))"

text \<open>The loop over the rounds; the first argument is the number of rounds left.\<close>

fun conflict_loop ::
    "nat \<Rightarrow> env \<Rightarrow> (string \<Rightarrow> plan_doc option) \<Rightarrow> (string \<Rightarrow> json option) \<Rightarrow> (json \<Rightarrow> string) \<Rightarrow> apply_spec \<Rightarrow> infrastructure_template
     \<Rightarrow> (nat \<Rightarrow> round_answers) \<Rightarrow> nat \<Rightarrow> string list \<Rightarrow> conflict_outcome \<Rightarrow> conflict_outcome applied" where
  "conflict_loop 0 env D J P spec template answers round tried acc = perform [] acc"
| "conflict_loop (Suc n) env D J P spec template answers round tried acc =
     (let q = answers round;
          want = wanted (effective_policy spec) tried (co_result acc)
      in if want = [] then perform [] acc
         else
           (let (planned, attrs) = gather_attrs J q;
                outcomes = map (\<lambda>addr. (addr, adopt P spec q attrs addr)) want;
                adopted = map fst (filter (\<lambda>(_, _, ok). ok) outcomes);
                acc = acc\<lparr>co_rounds := round + 1, co_imported := co_imported acc @ adopted\<rparr>
            in chain (perform (planned @ concat (map (\<lambda>(_, fx, _). fx) outcomes)) ()) (\<lambda>_.
               if adopted = [] then perform [] acc
               else
                 chain (protect_reapply env D spec template (ra_fresh q)) (\<lambda>blocked.
                 if blocked then perform [] (acc\<lparr>co_blocked := True\<rparr>)
                 else
                   chain (perform [RunApply False] ()) (\<lambda>_.
                   case ra_apply q of
                     None \<Rightarrow> perform [] acc
                   | Some r \<Rightarrow>
                       if tr_success r then perform [] (acc\<lparr>co_result := r\<rparr>)
                       else conflict_loop n env D J P spec template answers (round + 1) (tried @ want) (acc\<lparr>co_result := r\<rparr>))))))"

definition resolve_conflicts_post_apply ::
    "env \<Rightarrow> (string \<Rightarrow> plan_doc option) \<Rightarrow> (string \<Rightarrow> json option) \<Rightarrow> (json \<Rightarrow> string) \<Rightarrow> apply_spec \<Rightarrow> infrastructure_template
     \<Rightarrow> bool \<Rightarrow> (nat \<Rightarrow> round_answers) \<Rightarrow> tofu_result \<Rightarrow> conflict_outcome option applied" where
  "resolve_conflicts_post_apply env D J P spec template creds answers failed_result =
     (let policy = effective_policy spec in
      if \<not> is_enabled spec policy then perform [] None
      else if \<not> creds then ([], Inl Credentials_Failed)
      else
        chain (conflict_loop (conflict_rounds policy) env D J P spec template answers 0 []
            \<lparr>co_result = failed_result, co_imported = [], co_rounds = 0, co_blocked = False\<rparr>) (\<lambda>outcome.
        perform [] (Some outcome)))"

section \<open>The reaction to a failed apply\<close>

definition failure_output :: "tofu_result \<Rightarrow> string" where
  "failure_output result =
     (if tr_stdout result = [] then tr_stderr result
      else if tr_stderr result = [] then tr_stdout result
      else tr_stdout result @ newline @ ''--- stderr ---'' @ newline @ tr_stderr result)"

definition apply_anomalies :: "tofu_result \<Rightarrow> apply_anomaly list" where
  "apply_anomalies result =
     (if tr_failed_changes result \<noteq> [] then
        map (\<lambda>fc. classify_failure (fc_reason fc) (fc_address fc) (fc_action fc)) (tr_failed_changes result)
      else
        (let blocks = apply_error_blocks (failure_output result) in
         if blocks = [] then [classify_failure (failure_output result) [] []]
         else map (\<lambda>(addr, reason). classify_failure reason addr []) blocks))"

definition apostrophe :: string where
  "apostrophe = [CHR 0x27]"

definition mode_tag :: "apply_anomaly \<Rightarrow> string" where
  "mode_tag anomaly = ''[mode='' @ mode_as_str (anomaly_mode anomaly) @ '']''"

text \<open>The answers to the reaction: whether the workspace could be opened to clean it, and whether the
  receipt of the cycle was written.\<close>

definition react_to_apply_anomaly ::
    "env \<Rightarrow> infrastructure_template \<Rightarrow> bool \<Rightarrow> bool \<Rightarrow> drift_detail list \<Rightarrow> apply_anomaly \<Rightarrow> string \<Rightarrow> reconcile_action option applied" where
  "react_to_apply_anomaly env template ws_ok receipt_ok prior_drifts anomaly err_msg =
     (let recover = (\<lambda>reason msg.
            chain (perform (if ws_ok then [Ctl (Basic CleanWorkspace)] else []) ()) (\<lambda>_.
            chain (ctl (go_phase env template phase.Pending)) (\<lambda>_.
            chain (perform [event Normal reason msg] ()) (\<lambda>_.
            perform [] (Some (Requeue SHORT_REQUEUE_INTERVAL))))));
          back_off =
            (let consecutive = sat_add (retry_count template) 1;
                 backoff = exponential_backoff consecutive 30 600
             in chain (go_error env template phase.Applying err_msg) (\<lambda>_.
                chain (perform [RunPlan] ()) (\<lambda>_.
                chain (ctl (record_cycle receipt_ok (AppliedFailure err_msg) phase.Applying prior_drifts)) (\<lambda>_.
                chain (perform [event Normal (anomaly_event_reason anomaly)
                    (''['' @ kind_str anomaly @ '' / '' @ mode_as_str (anomaly_mode anomaly) @ ''] backing off '' @ show_nat (backoff div 1000)
                     @ ''s (attempt '' @ show_nat (unat consecutive) @ '') + retrying ('' @ truncate_for_status err_msg @ '')'')] ()) (\<lambda>_.
                perform [] (Some (Requeue backoff)))))))
      in (case anomaly of
            StalePlan \<Rightarrow> recover ''StalePlanRecovered''
              ''Apply hit stale-plan race; wiped workspace and re-queued from Pending for a fresh plan''
          | EmptyWorkspace \<Rightarrow> recover ''EmptyWorkspaceRecovered''
              ''Apply found empty workspace (likely pod restart mid-self-heal); re-queued from Pending''
          | RateLimited \<Rightarrow> back_off
          | TransientNetwork \<Rightarrow> back_off
          | ObjectExistsUntracked address action \<Rightarrow>
              perform [event Warning ''AnomalyObjectExistsUntrackedHint''
                (''Resource '' @ address @ '' exists out-of-band and auto-adoption could not resolve its cloud-id. Add spec.importHints['' @ quote
                 @ address @ quote @ ''] = '' @ quote @ suggested_import_hint address @ quote
                 @ '' (+ the referenced variables) to adopt it. '' @ mode_tag anomaly)] None
          | ProviderUnavailable provider \<Rightarrow>
              perform [event Warning (anomaly_event_reason anomaly)
                (''Provider plugin '' @ apostrophe @ provider @ apostrophe @ '' not in the baked MAGMA_PROVIDER_DIR mirror. The operator cannot stage a provider at runtime ''
                 @ em_dash @ '' add '' @ apostrophe @ provider @ apostrophe @ '' to flake.nix magmaProviderMirror and rebuild the operator image. '' @ mode_tag anomaly)] None
          | PermissionDenied \<Rightarrow> perform [] None
          | Unclassified _ \<Rightarrow> perform [] None))"

section \<open>The handler\<close>

definition ending_apply :: "'a applied \<Rightarrow> 'a applied" where
  "ending_apply m = (fst m @ [Ctl (Basic EndPass)], snd m)"

datatype publish_status = Published | OutputMissing | BindingErrored

fun result_label :: "publish_status \<Rightarrow> string" where
  "result_label Published = ''published''"
| "result_label OutputMissing = ''output_missing''"
| "result_label BindingErrored = ''errored''"

text \<open>The answers: the runner, whether the compiled configuration is there, the lock, the pre-pass,
  whether a cached plan exists after it, the recheck of the plan with the bundle in the database, the
  two applies with the readings before them, the rounds of conflict resolution, the outputs and what
  became of each output binding.\<close>

record apply_answers =
  aa_runner_ok :: bool
  aa_config :: "(handler_error, bool) result"
  aa_lock :: lock_answer
  aa_prepass :: prepass_answers
  aa_plan_file :: bool
  aa_recheck :: "plan_result option"
  aa_bundle :: "analysis option"
  aa_fresh :: fresh_answers
  aa_apply :: "tofu_result option"
  aa_retry_fresh :: fresh_answers
  aa_retry :: "tofu_result option"
  aa_conflict_creds :: bool
  aa_rounds :: "nat \<Rightarrow> round_answers"
  aa_outputs :: "json option"
  aa_bindings :: "publish_status list"
  aa_clean_ok :: bool
  aa_receipt_ok :: bool

definition requeue_default :: "reconcile_action applied" where
  "requeue_default = perform [] (Requeue DEFAULT_REQUEUE_INTERVAL)"

definition applied_ok :: "env \<Rightarrow> apply_answers \<Rightarrow> infrastructure_template \<Rightarrow> drift_detail list \<Rightarrow> string list \<Rightarrow> reconcile_action applied" where
  "applied_ok env a template prior_drifts imported =
     chain (ctl (basic (write_status (en_ok env Apply_Writer)
         (update_apply_status (en_rfc env) template (en_live env) (aa_outputs a) (ds_compiled_revision (snapshot template)) (en_now env))
         (return ())))) (\<lambda>_.
     chain (perform (map (\<lambda>st. Ctl (Basic (Inc ''output_binding'' [result_label st]))) (aa_bindings a)) ()) (\<lambda>_.
     chain (ctl (go_phase env template phase.Ready)) (\<lambda>_.
     chain (perform [RunPlan] ()) (\<lambda>_.
     chain (ctl (record_cycle (aa_receipt_ok a) (AppliedSuccess imported) phase.Ready prior_drifts)) (\<lambda>_.
     chain (perform [event Normal ''Applied'' ''Infrastructure applied successfully''] ()) (\<lambda>_.
     requeue_default))))))"

definition applied_failed :: "env \<Rightarrow> apply_answers \<Rightarrow> infrastructure_template \<Rightarrow> drift_detail list \<Rightarrow> tofu_result \<Rightarrow> reconcile_action applied" where
  "applied_failed env a template prior_drifts result =
     (let err_msg = ''apply failed: '' @ failure_output result;
          driver = select_driving_anomaly (apply_anomalies result)
      in chain (react_to_apply_anomaly env template (aa_clean_ok a) (aa_receipt_ok a) prior_drifts driver err_msg) (\<lambda>reaction.
         case reaction of
           Some action \<Rightarrow> perform [] action
         | None \<Rightarrow>
             chain (go_error env template phase.Failed err_msg) (\<lambda>_.
             chain (perform [RunPlan] ()) (\<lambda>_.
             chain (ctl (record_cycle (aa_receipt_ok a) (AppliedFailure err_msg) phase.Failed prior_drifts)) (\<lambda>_.
             chain (perform [event Warning (anomaly_event_reason driver)
                 (truncate_utf8_safe (''['' @ kind_str driver @ '' / '' @ mode_as_str (anomaly_mode driver) @ ''] '' @ err_msg) 1000
                   (ellipsis @ ''[truncated, full err in template status]''))] ()) (\<lambda>_.
             requeue_default))))))"

definition after_apply ::
    "env \<Rightarrow> (string \<Rightarrow> plan_doc option) \<Rightarrow> (string \<Rightarrow> json option) \<Rightarrow> (json \<Rightarrow> string) \<Rightarrow> apply_answers \<Rightarrow> apply_spec
     \<Rightarrow> infrastructure_template \<Rightarrow> drift_detail list \<Rightarrow> string list \<Rightarrow> tofu_result \<Rightarrow> reconcile_action applied" where
  "after_apply env D J P a spec template prior_drifts imported result =
     (if tr_success result then applied_ok env a template prior_drifts imported
      else
        chain (resolve_conflicts_post_apply env D J P spec template (aa_conflict_creds a) (aa_rounds a) result) (\<lambda>resolved.
        case resolved of
          None \<Rightarrow> applied_failed env a template prior_drifts result
        | Some outcome \<Rightarrow>
            if co_blocked outcome then requeue_default
            else if tr_success (co_result outcome) then
              chain (perform [event Normal ''ConflictResolved''
                  (''Adopted '' @ show_nat (length (co_imported outcome)) @ '' out-of-band resource(s) via import + re-apply (''
                   @ show_nat (co_rounds outcome) @ '' round(s))'')] ()) (\<lambda>_.
              applied_ok env a template prior_drifts (imported @ co_imported outcome))
            else applied_failed env a template prior_drifts (co_result outcome)))"

text \<open>The first apply and, when it reports a stale cached plan, the second without it.\<close>

definition run_apply ::
    "env \<Rightarrow> (string \<Rightarrow> plan_doc option) \<Rightarrow> (string \<Rightarrow> json option) \<Rightarrow> (json \<Rightarrow> string) \<Rightarrow> apply_answers \<Rightarrow> apply_spec
     \<Rightarrow> infrastructure_template \<Rightarrow> drift_detail list \<Rightarrow> string list \<Rightarrow> bool \<Rightarrow> reconcile_action applied" where
  "run_apply env D J P a spec template prior_drifts imported plan_file =
     chain (perform [RunApply plan_file] ()) (\<lambda>_.
     case aa_apply a of
       None \<Rightarrow> ([], Inl Apply_Failed)
     | Some result \<Rightarrow>
         if \<not> tr_success result \<and> is_self_healable_apply_error (tr_stderr result) then
           chain (perform [event Normal ''StalePlanRecovery'' ''discarding stale plan cache and retrying apply with fresh plan'', RemovePlanFile] ()) (\<lambda>_.
           chain (recheck_destroy_protection_before_bare_apply env D spec template (aa_retry_fresh a)) (\<lambda>blocked.
           case blocked of
             Some action \<Rightarrow> perform [] action
           | None \<Rightarrow>
               chain (perform [RunApply False] ()) (\<lambda>_.
               case aa_retry a of
                 None \<Rightarrow> ([], Inl Apply_Failed)
               | Some result \<Rightarrow> after_apply env D J P a spec template prior_drifts imported result)))
         else after_apply env D J P a spec template prior_drifts imported result)"

text \<open>The recheck after imports: a refusal ends the pass.\<close>

definition recheck_after_imports ::
    "env \<Rightarrow> (string \<Rightarrow> plan_doc option) \<Rightarrow> apply_answers \<Rightarrow> infrastructure_template \<Rightarrow> drift_detail list \<Rightarrow> import_prepass
     \<Rightarrow> reconcile_action option applied" where
  "recheck_after_imports env D a template prior_drifts prepass =
     (if \<not> plan_may_be_stale prepass then perform [] None
      else
        chain (perform [RunPlan] ()) (\<lambda>_.
        case aa_recheck a of
          None \<Rightarrow> ([], Inl Plan_Failed)
        | Some recheck \<Rightarrow>
            if \<not> pr_success recheck then perform [] None
            else
              (let fresh = drift_details_from_plan_result D (aa_bundle a) recheck in
               case find_unimported_create (blocking_failures prepass) fresh of
                 Some dup \<Rightarrow>
                   (let msg = ''Applying refused: import failed for '' @ dd_address dup @ '' and the fresh plan still wants to CREATE it. ''
                          @ ''Applying would duplicate the live resource rather than adopt it. Fix the import hint (or the credentials) ''
                          @ ''and re-reconcile. Parking at Failed.''
                    in chain (go_error env template phase.Failed msg) (\<lambda>_.
                       chain (perform [event Warning ''UnimportedCreateRefused'' msg] ()) (\<lambda>_.
                       perform [] (Some (Requeue DEFAULT_REQUEUE_INTERVAL)))))
               | None \<Rightarrow>
                   (case find_unapproved_destructive_escalation prior_drifts fresh of
                      Some escalation \<Rightarrow>
                        (let msg = ''Applying refused: post-import refresh discovered a new '' @ dd_action escalation @ '' action on ''
                               @ dd_address escalation @ '' that was not in the approved plan. Parking at Failed (the FSM's only legal edge ''
                               @ ''out of Applying besides Ready) so the existing self-heal path recomputes a fresh plan for human review ''
                               @ em_dash @ '' never applying an action nobody approved.''
                         in chain (perform [event Warning ''UnapprovedEscalation'' msg] ()) (\<lambda>_.
                            chain (go_error env template phase.Failed msg) (\<lambda>_.
                            perform [] (Some (Requeue DEFAULT_REQUEUE_INTERVAL)))))
                    | None \<Rightarrow> perform [] None))))"

definition prior_drifts_of :: "infrastructure_template \<Rightarrow> drift_detail list" where
  "prior_drifts_of template = (case it_status template of Some st \<Rightarrow> is_drift_details st | None \<Rightarrow> [])"

text \<open>The part of the handler under the lock.\<close>

definition apply_locked ::
    "env \<Rightarrow> (string \<Rightarrow> plan_doc option) \<Rightarrow> (string \<Rightarrow> json option) \<Rightarrow> (json \<Rightarrow> string) \<Rightarrow> apply_answers \<Rightarrow> apply_spec
     \<Rightarrow> infrastructure_template \<Rightarrow> reconcile_action applied" where
  "apply_locked env D J P a spec template =
     (let prior_drifts = prior_drifts_of template;
          (fx, prepass) = run_import_prepass J P spec (aa_prepass a) prior_drifts;
          plan_file = (aa_plan_file a \<and> pp_imported prepass = [])
      in chain (perform fx ()) (\<lambda>_.
         chain (recheck_after_imports env D a template prior_drifts prepass) (\<lambda>refused.
         case refused of
           Some action \<Rightarrow> perform [] action
         | None \<Rightarrow>
             (case evaluate_destroy_protection_gate (sp_destroy_protection spec) prior_drifts of
                BlockedByProtectedDestruction address action \<Rightarrow>
                  chain (destroy_blocked env template
                      (''Applying refused: destroyProtection is enabled and the plan contains a destructive '' @ action @ '' action on '' @ address
                       @ ''. '' @ protection_tail)) (\<lambda>_.
                  requeue_default)
              | ProtectionProceed \<Rightarrow>
                  chain (if plan_file then perform [] None
                         else recheck_destroy_protection_before_bare_apply env D spec template (aa_fresh a)) (\<lambda>blocked.
                  case blocked of
                    Some action \<Rightarrow> perform [] action
                  | None \<Rightarrow> run_apply env D J P a spec template prior_drifts (pp_imported prepass) plan_file)))))"

definition handle_applying ::
    "env \<Rightarrow> (string \<Rightarrow> plan_doc option) \<Rightarrow> (string \<Rightarrow> json option) \<Rightarrow> (json \<Rightarrow> string) \<Rightarrow> apply_answers \<Rightarrow> apply_spec
     \<Rightarrow> infrastructure_template \<Rightarrow> reconcile_action applied" where
  "handle_applying env D J P a spec template =
     (if \<not> en_credentials_ok env \<or> \<not> aa_runner_ok a then ([], Inl Credentials_Failed)
      else if \<not> en_workspace_ok env then ([], Inl Workspace_Failed)
      else
        chain (perform [Ctl (Basic (BeginPass phase.Applying))] ()) (\<lambda>_.
        ending_apply (case aa_config a of
          Inl e \<Rightarrow> ([], Inl e)
        | Inr False \<Rightarrow>
            chain (ctl (go_phase env template phase.Compiling)) (\<lambda>_. perform [] (Requeue SHORT_REQUEUE_INTERVAL))
        | Inr True \<Rightarrow>
            chain (acquire_mutation_lock (aa_lock a)) (\<lambda>dispatch.
            case dispatch of
              Contended \<Rightarrow> perform [] (Requeue SHORT_REQUEUE_INTERVAL)
            | LockProceed held \<Rightarrow> releasing held (apply_locked env D J P a spec template)))))"

end
