(* ===== verification/Apply_Traces.thy ===== *)
theory Apply_Traces
  imports Applying
begin

text \<open>
  What the Applying phase may do, as properties of the trace of its effects.
\<close>

section \<open>Traces of effects\<close>

text \<open>A monitor reads a trace from left to right: \<open>adv\<close> is its next state, \<open>ok\<close> what it permits.\<close>

primrec accepts :: "('s \<Rightarrow> 'e \<Rightarrow> 's) \<Rightarrow> ('s \<Rightarrow> 'e \<Rightarrow> bool) \<Rightarrow> 's \<Rightarrow> 'e list \<Rightarrow> bool" where
  "accepts adv ok s [] = True"
| "accepts adv ok s (e # fx) = (ok s e \<and> accepts adv ok (adv s e) fx)"

lemma accepts_append: "accepts adv ok s (fx @ gx) \<longleftrightarrow> accepts adv ok s fx \<and> accepts adv ok (foldl adv s fx) gx"
  by (induction fx arbitrary: s) auto

lemma accepts_quiet: "(\<And>s e. e \<in> set fx \<Longrightarrow> ok s e) \<Longrightarrow> accepts adv ok s fx"
  by (induction fx arbitrary: s) auto

lemma accepts_at: "accepts adv ok s (pre @ e # post) \<Longrightarrow> ok (foldl adv s pre) e"
  by (simp add: accepts_append)

lemma fst_chain: "fst (chain m f) = fst m @ (case snd m of Inl e \<Rightarrow> [] | Inr x \<Rightarrow> fst (f x))"
  by (simp add: chain_def split: sum.split)

lemma snd_chain: "snd (chain m f) = (case snd m of Inl e \<Rightarrow> Inl e | Inr x \<Rightarrow> snd (f x))"
  by (simp add: chain_def split: sum.split)

lemma in_chain: "e \<in> set (fst (chain m f)) \<longleftrightarrow> e \<in> set (fst m) \<or> (\<exists>x. snd m = Inr x \<and> e \<in> set (fst (f x)))"
  by (auto simp: fst_chain split: sum.splits)

lemma chain_perform: "chain (perform fx x) f = (fx @ fst (f x), snd (f x))"
  by (simp add: chain_def perform_def)

lemma perform_simps [simp]: "fst (perform fx x) = fx" "snd (perform fx x) = Inr x"
  by (simp_all add: perform_def)

lemma ctl_simps [simp]: "fst (ctl m) = map Ctl (fst m)" "snd (ctl m) = snd m"
  by (simp_all add: ctl_def)

definition free_of :: "('e \<Rightarrow> bool) \<Rightarrow> 'e list \<Rightarrow> bool" where
  "free_of bad fx = list_all (\<lambda>e. \<not> bad e) fx"

lemma free_of_simps [simp]:
  "free_of bad []" "free_of bad (fx @ gx) \<longleftrightarrow> free_of bad fx \<and> free_of bad gx"
  "free_of bad (e # fx) \<longleftrightarrow> \<not> bad e \<and> free_of bad fx"
  "free_of bad (map f xs) \<longleftrightarrow> (\<forall>x \<in> set xs. \<not> bad (f x))" "free_of bad (concat fxs) \<longleftrightarrow> (\<forall>fx \<in> set fxs. free_of bad fx)"
  by (auto simp: free_of_def list_all_iff)

lemma free_ofD: "free_of bad fx \<Longrightarrow> e \<in> set fx \<Longrightarrow> \<not> bad e"
  by (simp add: free_of_def list_all_iff)

lemma free_chain: "free_of bad (fst m) \<Longrightarrow> (\<And>x. snd m = Inr x \<Longrightarrow> free_of bad (fst (f x))) \<Longrightarrow> free_of bad (fst (chain m f))"
  by (simp add: fst_chain split: sum.split)

text \<open>A class of effects that the steps around an apply never have: everything they do is a status
  write, an event or a metric, a plan, an import, or a reading of the action set, of which the lemmas
  say which readings.\<close>

locale effect_class =
  fixes bad :: "apply_effect \<Rightarrow> bool"
  assumes not_ctl: "\<not> bad (Ctl x)" and not_plan: "\<not> bad RunPlan" and not_import: "\<not> bad (RunImport addr i)"
begin

lemmas harmless = not_ctl not_plan not_import

lemma free_event: "\<not> bad (event ty r m)"
  by (simp add: event_def harmless)

lemma free_go_error: "free_of bad (fst (go_error env template ph msg))"
  by (simp add: go_error_def harmless)

lemma free_destroy_blocked: "free_of bad (fst (destroy_blocked env template msg))"
  by (simp add: destroy_blocked_def chain_perform free_go_error free_event)

lemma free_fresh: "free_of bad (fst (fresh_action_set_before_bare_apply D q))"
  by (simp add: fresh_action_set_before_bare_apply_def harmless split: sum.split option.split)

lemma free_recheck:
  "\<not> bad (CheckActions (snd (fresh_action_set_before_bare_apply D q))) \<Longrightarrow>
     free_of bad (fst (recheck_destroy_protection_before_bare_apply env D spec template q))"
  by (simp add: recheck_destroy_protection_before_bare_apply_def chain_perform split_beta free_chain free_fresh
      free_destroy_blocked harmless split: destroy_protection_gate.split)

lemma free_protect:
  "\<not> bad (CheckActions (snd (fresh_action_set_before_bare_apply D q))) \<Longrightarrow>
     free_of bad (fst (protect_reapply env D spec template q))"
  by (simp add: protect_reapply_def chain_perform split_beta free_chain free_fresh free_destroy_blocked harmless
      split: destroy_protection_gate.split)

lemma free_react: "free_of bad (fst (react_to_apply_anomaly env template ws r ds an msg))"
  by (simp add: react_to_apply_anomaly_def Let_def chain_perform free_chain free_go_error free_event harmless
      split: apply_anomaly.split)

lemma free_ok: "free_of bad (fst (applied_ok env a template ds imported))"
  by (auto simp: applied_ok_def requeue_default_def chain_perform free_event harmless intro!: free_chain)

lemma free_failed: "free_of bad (fst (applied_failed env a template ds r))"
  by (auto simp: applied_failed_def Let_def requeue_default_def chain_perform free_event free_go_error free_react harmless
      intro!: free_chain split: option.split)

lemma free_recheck_imports: "free_of bad (fst (recheck_after_imports env D a template ds prepass))"
  by (auto simp: recheck_after_imports_def Let_def chain_perform free_event free_go_error harmless
      intro!: free_chain split: option.split)

lemma free_try_import: "free_of bad (fst (try_import answer tg))"
  by (simp add: try_import_def free_event harmless split: import_answer.split)

lemma free_skip: "free_of bad (skip_effects sk)"
  by (cases sk) (simp_all add: free_event)

lemma free_prepass: "free_of bad (fst (run_import_prepass J P spec q ds))"
  using free_try_import free_skip
  by (auto simp: run_import_prepass_def Let_def split_beta split: option.split)

lemma free_adopt: "free_of bad (fst (adopt P spec q attrs addr))"
  by (simp add: adopt_def harmless split: option.split sum.split)

lemma free_gather: "free_of bad (fst (gather_attrs J q))"
  by (simp add: gather_attrs_def Let_def harmless)

lemmas free_steps =
  free_event free_go_error free_destroy_blocked free_recheck free_protect free_ok free_failed free_recheck_imports
  free_prepass free_adopt free_gather harmless

end

text \<open>The answers from which the action set is read.\<close>

definition readings :: "apply_answers \<Rightarrow> fresh_answers set" where
  "readings a = {aa_fresh a, aa_retry_fresh a} \<union> range (\<lambda>k. ra_fresh (aa_rounds a k))"

lemma in_readings: "aa_fresh a \<in> readings a" "aa_retry_fresh a \<in> readings a" "ra_fresh (aa_rounds a k) \<in> readings a"
  by (simp_all add: readings_def)

text \<open>A class that an apply does not belong to either is absent from all that happens under the lock.\<close>

locale outer_class = effect_class +
  assumes not_apply: "\<not> bad (RunApply b)" and not_remove: "\<not> bad RemovePlanFile"
begin

lemma free_conflict_loop:
  assumes "\<And>k. \<not> bad (CheckActions (snd (fresh_action_set_before_bare_apply D (ra_fresh (answers k)))))"
  shows "free_of bad (fst (conflict_loop n env D J P spec template answers k tried acc))"
proof (induction n arbitrary: k tried acc)
  case (Suc n)
  show ?case
    by (auto simp: Let_def split_beta Suc.IH free_steps assms not_apply intro!: free_chain split: option.splits)
qed simp

lemma free_after_apply:
  assumes "\<And>q. q \<in> readings a \<Longrightarrow> \<not> bad (CheckActions (snd (fresh_action_set_before_bare_apply D q)))"
  shows "free_of bad (fst (after_apply env D J P a spec template ds imported r))"
  by (auto simp: after_apply_def resolve_conflicts_post_apply_def Let_def requeue_default_def free_conflict_loop free_steps
      assms in_readings
      intro!: free_chain split: option.splits)

lemma free_run_apply:
  assumes "\<And>q. q \<in> readings a \<Longrightarrow> \<not> bad (CheckActions (snd (fresh_action_set_before_bare_apply D q)))"
  shows "free_of bad (fst (run_apply env D J P a spec template ds imported plan_file))"
  by (auto simp: run_apply_def free_after_apply free_steps assms in_readings not_apply not_remove intro!: free_chain split: option.splits)

lemma free_apply_locked:
  assumes "\<And>q. q \<in> readings a \<Longrightarrow> \<not> bad (CheckActions (snd (fresh_action_set_before_bare_apply D q)))"
  shows "free_of bad (fst (apply_locked env D J P a spec template))"
  by (auto simp: apply_locked_def Let_def split_beta requeue_default_def free_run_apply free_steps assms in_readings
      intro!: free_chain split: option.splits destroy_protection_gate.splits)

end

definition is_apply :: "apply_effect \<Rightarrow> bool" where
  "is_apply e = (case e of RunApply _ \<Rightarrow> True | _ \<Rightarrow> False)"

definition lock_effect :: "apply_effect \<Rightarrow> bool" where
  "lock_effect e = (case e of TakeLock \<Rightarrow> True | ReleaseLock \<Rightarrow> True | _ \<Rightarrow> False)"

interpretation apply_class: effect_class is_apply
  by unfold_locales (simp_all add: is_apply_def)

interpretation lock_class: outer_class lock_effect
  by unfold_locales (simp_all add: lock_effect_def)

lemma not_check [simp]: "\<not> is_apply (CheckActions ds)" "\<not> lock_effect (CheckActions ds)"
  by (simp_all add: is_apply_def lock_effect_def)

lemmas no_apply_steps = apply_class.free_steps

section \<open>Destroy protection\<close>

definition clean_check :: "apply_effect \<Rightarrow> bool" where
  "clean_check e = (case e of CheckActions ds \<Rightarrow> \<not> (\<exists>d \<in> set ds. destroys_resource (dd_action d)) | _ \<Rightarrow> False)"

abbreviation bare_checked :: "bool \<Rightarrow> apply_effect list \<Rightarrow> bool" where
  "bare_checked \<equiv> accepts (\<lambda>_. clean_check) (\<lambda>clean e. e = RunApply False \<longrightarrow> clean)"

lemma event_not_apply [simp]: "event ty r m \<noteq> RunApply b"
  by (simp add: event_def)

lemma bare_checked_no_apply: "free_of is_apply fx \<Longrightarrow> bare_checked s fx"
  by (rule accepts_quiet) (auto dest: free_ofD simp: is_apply_def)

lemma bare_checked_chain:
  "bare_checked s (fst (chain m f)) \<longleftrightarrow>
     bare_checked s (fst m) \<and> (\<forall>x. snd m = Inr x \<longrightarrow> bare_checked (foldl (\<lambda>_. clean_check) s (fst m)) (fst (f x)))"
  by (auto simp: fst_chain accepts_append split: sum.splits)

lemma recheck_clean:
  assumes "sp_destroy_protection spec"
    and "snd (recheck_destroy_protection_before_bare_apply env D spec template q) = Inr None"
  shows "foldl (\<lambda>_. clean_check) s (fst (recheck_destroy_protection_before_bare_apply env D spec template q))"
  using assms
  by (auto simp: recheck_destroy_protection_before_bare_apply_def chain_perform split_beta snd_chain clean_check_def
      split: destroy_protection_gate.splits sum.splits dest: iffD1 [OF gate_proceeds])

lemma protect_clean:
  assumes "sp_destroy_protection spec" and "snd (protect_reapply env D spec template q) = Inr False"
  shows "foldl (\<lambda>_. clean_check) s (fst (protect_reapply env D spec template q))"
  using assms
  by (auto simp: protect_reapply_def chain_perform split_beta snd_chain clean_check_def
      split: destroy_protection_gate.splits sum.splits dest: iffD1 [OF gate_proceeds])

lemma conflict_loop_checked:
  assumes "sp_destroy_protection spec"
  shows "bare_checked s (fst (conflict_loop n env D J P spec template answers k tried acc))"
proof (induction n arbitrary: s k tried acc)
  case (Suc n)
  show ?case
    by (auto simp: Let_def split_beta bare_checked_chain Suc.IH protect_clean [OF assms] accepts_append no_apply_steps
        intro!: bare_checked_no_apply split: option.splits)
qed simp

lemma after_apply_checked:
  assumes "sp_destroy_protection spec"
  shows "bare_checked s (fst (after_apply env D J P a spec template ds imported r))"
  by (auto simp: after_apply_def resolve_conflicts_post_apply_def Let_def bare_checked_chain conflict_loop_checked [OF assms]
      requeue_default_def no_apply_steps intro!: bare_checked_no_apply split: option.splits)

lemma run_apply_checked:
  assumes "sp_destroy_protection spec" and "plan_file \<or> s"
  shows "bare_checked s (fst (run_apply env D J P a spec template ds imported plan_file))"
  using assms(2)
  by (auto simp: run_apply_def chain_perform bare_checked_chain after_apply_checked [OF assms(1)] no_apply_steps event_def
      recheck_clean [OF assms(1)] intro!: bare_checked_no_apply split: option.splits)

lemma apply_locked_checked:
  assumes "sp_destroy_protection spec"
  shows "bare_checked s (fst (apply_locked env D J P a spec template))"
  by (auto simp: apply_locked_def Let_def split_beta bare_checked_chain requeue_default_def chain_perform
      run_apply_checked [OF assms] recheck_clean [OF assms] accepts_append no_apply_steps
      intro!: bare_checked_no_apply split: option.splits destroy_protection_gate.splits)

text \<open>An apply of the cached plan.\<close>

definition cached_apply :: "apply_effect \<Rightarrow> bool" where
  "cached_apply e \<longleftrightarrow> e = RunApply True"

lemma cached_apply_simps [simp]: "cached_apply (RunApply b) = b" "\<not> cached_apply RemovePlanFile" "\<not> cached_apply (CheckActions ds)"
  by (simp_all add: cached_apply_def)

interpretation cached_class: effect_class cached_apply
  by unfold_locales (simp_all add: cached_apply_def)

lemma conflict_loop_uncached: "free_of cached_apply (fst (conflict_loop n env D J P spec template answers k tried acc))"
proof (induction n arbitrary: k tried acc)
  case (Suc n)
  show ?case
    by (auto simp: Let_def split_beta Suc.IH cached_class.free_steps intro!: free_chain split: option.splits)
qed simp

lemma after_apply_uncached: "free_of cached_apply (fst (after_apply env D J P a spec template ds imported r))"
  by (auto simp: after_apply_def resolve_conflicts_post_apply_def Let_def requeue_default_def conflict_loop_uncached
      cached_class.free_steps intro!: free_chain split: option.splits)

lemma run_apply_uncached: "\<not> plan_file \<Longrightarrow> free_of cached_apply (fst (run_apply env D J P a spec template ds imported plan_file))"
  by (auto simp: run_apply_def after_apply_uncached cached_class.free_steps intro!: free_chain split: option.splits)

lemma apply_locked_uncached:
  assumes "\<not> (aa_plan_file a \<and> pp_imported (snd (run_import_prepass J P spec (aa_prepass a) (prior_drifts_of template))) = []
      \<and> evaluate_destroy_protection_gate (sp_destroy_protection spec) (prior_drifts_of template) = ProtectionProceed)"
  shows "free_of cached_apply (fst (apply_locked env D J P a spec template))"
  using assms
  by (auto simp: apply_locked_def Let_def split_beta requeue_default_def run_apply_uncached cached_class.free_steps
      intro!: free_chain split: option.splits destroy_protection_gate.splits)

text \<open>A reading of the action set that is not what the executor answered.\<close>

definition stray :: "(string \<Rightarrow> plan_doc option) \<Rightarrow> apply_answers \<Rightarrow> apply_effect \<Rightarrow> bool" where
  "stray D a e = (case e of CheckActions ds \<Rightarrow> ds \<notin> (\<lambda>q. snd (fresh_action_set_before_bare_apply D q)) ` readings a | _ \<Rightarrow> False)"

interpretation stray_class: outer_class "stray D a" for D a
  by unfold_locales (simp_all add: stray_def)

lemma apply_locked_reads: "free_of (stray D a) (fst (apply_locked env D J P a spec template))"
  by (rule stray_class.free_apply_locked) (simp add: stray_def)

lemma handle_applying_trace:
  "fst (handle_applying env D J P a spec template) =
     (if en_credentials_ok env \<and> aa_runner_ok a \<and> en_workspace_ok env then
        Ctl (Basic (BeginPass phase.Applying)) #
        (case aa_config a of
           Inl e \<Rightarrow> []
         | Inr False \<Rightarrow> map Ctl (fst (go_phase env template phase.Compiling))
         | Inr True \<Rightarrow>
             (case aa_lock a of
                NoLockManager \<Rightarrow> fst (apply_locked env D J P a spec template)
              | LockGranted \<Rightarrow> TakeLock # fst (apply_locked env D J P a spec template) @ [ReleaseLock]
              | _ \<Rightarrow> [])) @ [Ctl (Basic EndPass)]
      else [])"
  by (auto simp: handle_applying_def ending_apply_def chain_perform acquire_mutation_lock_def fst_chain releasing_def
      split: sum.split bool.split lock_answer.split lock_dispatch.split)

lemma in_handle_applying:
  assumes "e \<in> set (fst (handle_applying env D J P a spec template))" and "\<And>x. e \<noteq> Ctl x" and "\<not> lock_effect e"
  shows "e \<in> set (fst (apply_locked env D J P a spec template))"
  using assms unfolding handle_applying_trace
  by (auto simp: lock_effect_def split: if_splits sum.splits bool.splits lock_answer.splits)

subsection \<open>A sample pass\<close>

text \<open>A protected template with an import hint for a resource the plan creates; the import errors, the
  new plan is clean, and the executor reports one update.\<close>

definition sample_reading :: fresh_answers where
  "sample_reading = \<lparr>fr_planned = Inr (Some [\<lparr>pc_address = ''a.b'', pc_action = XUpdate, pc_after = None, pc_kind = Managed, pc_import_id = None\<rparr>]),
     fr_plan = Some True, fr_planned_again = Inr None, fr_show = []\<rparr>"

definition sample_done :: tofu_result where
  "sample_done = \<lparr>tr_success = True, tr_stdout = [], tr_stderr = [], tr_failed_changes = []\<rparr>"

definition sample_prepass :: prepass_answers where
  "sample_prepass = \<lparr>pq_creds = True,
     pq_planned = Inr (Some [\<lparr>pc_address = ''a.b'', pc_action = XCreate, pc_after = None, pc_kind = Managed, pc_import_id = None\<rparr>]),
     pq_show_json = [], pq_creds_again = True, pq_import = (\<lambda>_. ImportErrored), pq_completion = (\<lambda>tgs. tgs)\<rparr>"

definition sample_answers :: apply_answers where
  "sample_answers = \<lparr>aa_runner_ok = True, aa_config = Inr True, aa_lock = LockGranted, aa_prepass = sample_prepass,
     aa_plan_file = False,
     aa_recheck = Some \<lparr>pr_success = True, pr_has_changes = False, pr_raw_stderr = [], pr_raw_show_json = [], pr_artifact = None\<rparr>,
     aa_bundle = None, aa_fresh = sample_reading, aa_apply = Some sample_done, aa_retry_fresh = sample_reading, aa_retry = None,
     aa_conflict_creds = True, aa_rounds = (\<lambda>_. \<lparr>ra_creds = False, ra_show = [], ra_main_tf = None, ra_import = (\<lambda>_ _. ImportErrored),
       ra_fresh = sample_reading, ra_apply = None\<rparr>),
     aa_outputs = None, aa_bindings = [], aa_clean_ok = True, aa_receipt_ok = True\<rparr>"

definition sample_spec :: apply_spec where
  "sample_spec = \<lparr>sp_destroy_protection = True, sp_import_hints = [(''a.b'', ''x'')], sp_import_policy = None, sp_conflict_policy = None,
     sp_variables = []\<rparr>"

abbreviation sample_pass :: "reconcile_action applied" where
  "sample_pass \<equiv> handle_applying test_env (\<lambda>_. None) (\<lambda>_. None) (\<lambda>_. []) sample_answers sample_spec bare_template"

definition sample_rest :: "reconcile_action applied" where
  "sample_rest = applied_ok test_env sample_answers bare_template [] []"

lemma sample_drifts: "prior_drifts_of bare_template = []"
  by code_simp

lemma sample_import:
  "run_import_prepass (\<lambda>_. None) (\<lambda>_. []) sample_spec sample_prepass [] =
     ([RunImport ''a.b'' ''x''], \<lparr>pp_imported = [], pp_failed = [''a.b''], pp_absent = []\<rparr>)"
  by code_simp

lemma sample_fields:
  "aa_prepass sample_answers = sample_prepass" "\<not> aa_plan_file sample_answers" "aa_bundle sample_answers = None"
  "aa_fresh sample_answers = sample_reading" "aa_apply sample_answers = Some sample_done" "sp_destroy_protection sample_spec"
  "aa_recheck sample_answers =
     Some \<lparr>pr_success = True, pr_has_changes = False, pr_raw_stderr = [], pr_raw_show_json = [], pr_artifact = None\<rparr>"
  "tr_success sample_done"
  by (simp_all add: sample_answers_def sample_spec_def sample_done_def)

lemma sample_gate:
  "evaluate_destroy_protection_gate True (snd (fresh_action_set_before_bare_apply (\<lambda>_. None) sample_reading)) = ProtectionProceed"
  "fst (fresh_action_set_before_bare_apply (\<lambda>_. None) sample_reading) = []"
  by code_simp+

lemma sample_trace:
  "fst sample_pass =
     [Ctl (Basic (BeginPass phase.Applying)), TakeLock, RunImport ''a.b'' ''x'', RunPlan,
      CheckActions (snd (fresh_action_set_before_bare_apply (\<lambda>_. None) sample_reading))] @ RunApply False # fst sample_rest
      @ [ReleaseLock, Ctl (Basic EndPass)]"
proof -
  have "recheck_after_imports test_env (\<lambda>_. None) sample_answers bare_template [] \<lparr>pp_imported = [], pp_failed = [''a.b''], pp_absent = []\<rparr>
      = perform [RunPlan] None"
    by (simp add: recheck_after_imports_def plan_may_be_stale_def sample_fields chain_perform drift_details_from_plan_result_def
        find_unimported_create_def find_unapproved_destructive_escalation_def) (simp add: perform_def)
  moreover have "recheck_destroy_protection_before_bare_apply test_env (\<lambda>_. None) sample_spec bare_template sample_reading
      = perform [CheckActions (snd (fresh_action_set_before_bare_apply (\<lambda>_. None) sample_reading))] None"
    by (simp add: recheck_destroy_protection_before_bare_apply_def sample_fields sample_gate split_beta chain_perform)
      (simp add: perform_def)
  moreover have "evaluate_destroy_protection_gate True [] = ProtectionProceed"
    by (simp add: evaluate_destroy_protection_gate_def)
  ultimately have "fst (apply_locked test_env (\<lambda>_. None) (\<lambda>_. None) (\<lambda>_. []) sample_answers sample_spec bare_template) =
      [RunImport ''a.b'' ''x'', RunPlan, CheckActions (snd (fresh_action_set_before_bare_apply (\<lambda>_. None) sample_reading))]
        @ RunApply False # fst sample_rest"
    by (simp add: apply_locked_def Let_def sample_drifts sample_import sample_fields chain_perform run_apply_def after_apply_def sample_rest_def)
  then show ?thesis
    unfolding handle_applying_trace by (simp add: sample_answers_def test_env_def)
qed

text \<open>C4: Under \<open>destroyProtection\<close> no pass of the Applying phase destroys anything it could see.
  Every apply without a cached plan, the retry after a stale plan and each re-apply of the conflict loop
  included, follows at once on a reading of the executor's action set that holds no delete and no
  replace; an apply of the cached plan happens only when the changes recorded at planning hold
  none and nothing was imported since.\<close>

theorem apply_respects_protection:
  assumes "sp_destroy_protection spec" and "fx = fst (handle_applying env D J P a spec template)"
  shows "(\<forall>pre post. fx = pre @ RunApply False # post \<longrightarrow>
      (\<exists>pre' q. q \<in> readings a \<and> pre = pre' @ [CheckActions (snd (fresh_action_set_before_bare_apply D q))] \<and>
         \<not> (\<exists>d \<in> set (snd (fresh_action_set_before_bare_apply D q)). destroys_resource (dd_action d))))
    \<and> (RunApply True \<in> set fx \<longrightarrow>
      \<not> (\<exists>d \<in> set (prior_drifts_of template). destroys_resource (dd_action d)) \<and>
      pp_imported (snd (run_import_prepass J P spec (aa_prepass a) (prior_drifts_of template))) = [])"
proof (intro conjI allI impI)
  have checked: "bare_checked False fx"
    unfolding assms(2) handle_applying_trace
    by (auto simp: accepts_append apply_locked_checked [OF assms(1)] clean_check_def intro!: bare_checked_no_apply
        split: sum.split bool.split lock_answer.split simp: is_apply_def)
  fix pre post
  assume "fx = pre @ RunApply False # post"
  with checked have "foldl (\<lambda>_. clean_check) False pre" using accepts_at by fastforce
  then obtain pre' ds where pre: "pre = pre' @ [CheckActions ds]" and clean: "\<not> (\<exists>d \<in> set ds. destroys_resource (dd_action d))"
    by (cases pre rule: rev_cases) (auto simp: clean_check_def split: apply_effect.splits)
  from pre \<open>fx = pre @ RunApply False # post\<close> have "CheckActions ds \<in> set (fst (handle_applying env D J P a spec template))"
    using assms(2) by simp
  then have "CheckActions ds \<in> set (fst (apply_locked env D J P a spec template))"
    by (rule in_handle_applying) simp_all
  then have "\<not> stray D a (CheckActions ds)" by (rule free_ofD [OF apply_locked_reads])
  with pre clean show "\<exists>pre' q. q \<in> readings a \<and> pre = pre' @ [CheckActions (snd (fresh_action_set_before_bare_apply D q))] \<and>
      \<not> (\<exists>d \<in> set (snd (fresh_action_set_before_bare_apply D q)). destroys_resource (dd_action d))"
    by (auto simp: stray_def)
next
  assume "RunApply True \<in> set fx"
  then have "RunApply True \<in> set (fst (apply_locked env D J P a spec template))"
    unfolding assms(2) by (rule in_handle_applying) (simp_all add: lock_effect_def)
  then have "\<not> free_of cached_apply (fst (apply_locked env D J P a spec template))"
    by (auto dest: free_ofD)
  then show "\<not> (\<exists>d \<in> set (prior_drifts_of template). destroys_resource (dd_action d))"
    and "pp_imported (snd (run_import_prepass J P spec (aa_prepass a) (prior_drifts_of template))) = []"
    using apply_locked_uncached assms(1) gate_proceeds by metis+
qed

theorem apply_respects_protection_witness:
  "\<exists>pre' q post. q \<in> readings sample_answers
     \<and> fst sample_pass = pre' @ [CheckActions (snd (fresh_action_set_before_bare_apply (\<lambda>_. None) q))] @ RunApply False # post
     \<and> \<not> (\<exists>d \<in> set (snd (fresh_action_set_before_bare_apply (\<lambda>_. None) q)). destroys_resource (dd_action d))"
proof -
  have "sp_destroy_protection sample_spec" by (simp add: sample_spec_def)
  from apply_respects_protection [OF this refl, THEN conjunct1, rule_format, OF sample_trace]
  show ?thesis unfolding sample_trace by (metis append_assoc)
qed

section \<open>The lock\<close>

fun mutation :: "apply_effect \<Rightarrow> bool" where
  "mutation (RunApply _) = True"
| "mutation (RunImport _ _) = True"
| "mutation _ = False"

fun lock_step :: "bool \<Rightarrow> apply_effect \<Rightarrow> bool" where
  "lock_step held TakeLock = True"
| "lock_step held ReleaseLock = False"
| "lock_step held _ = held"

abbreviation under_lock :: "bool \<Rightarrow> apply_effect list \<Rightarrow> bool" where
  "under_lock \<equiv> accepts lock_step (\<lambda>held e. mutation e \<longrightarrow> held)"

lemma lock_kept: "free_of lock_effect fx \<Longrightarrow> foldl lock_step held fx = held"
proof (induction fx arbitrary: held)
  case (Cons e fx)
  then show ?case by (cases e) (auto simp: lock_effect_def)
qed simp

lemma under_lock_held: "free_of lock_effect fx \<Longrightarrow> under_lock True fx"
proof (induction fx)
  case (Cons e fx)
  then show ?case by (cases e) (auto simp: lock_effect_def)
qed simp

lemma lock_quiet: "under_lock held (map Ctl xs)" "foldl lock_step held (map Ctl xs) = held"
  by (induction xs) simp_all



section \<open>After imports\<close>

lemma find_unimported_create_None:
  "find_unimported_create failed fresh = None \<longleftrightarrow> \<not> (\<exists>d \<in> set fresh. dd_action d = ''create'' \<and> dd_address d \<in> set failed)"
  by (auto simp: find_unimported_create_def find_None_iff)

lemma escalation_None:
  assumes "find_unapproved_destructive_escalation approved fresh = None" and "d \<in> set fresh" and "destroys_resource (dd_action d)"
  shows "\<exists>x \<in> set approved. dd_address x = dd_address d \<and> destroys_resource (dd_action x)"
proof -
  from assms have "case List.find (\<lambda>x. dd_address x = dd_address d) approved of Some x \<Rightarrow> destroys_resource (dd_action x) | None \<Rightarrow> False"
    by (auto simp: find_unapproved_destructive_escalation_def find_None_iff)
  then obtain x where "List.find (\<lambda>x. dd_address x = dd_address d) approved = Some x" and "destroys_resource (dd_action x)"
    by (auto split: option.splits)
  then show ?thesis by (metis (mono_tags, lifting) find_Some_iff nth_mem)
qed

lemma recheck_passes:
  assumes "snd (recheck_after_imports env D a template approved prepass) = Inr None"
    and "plan_may_be_stale prepass"
  shows "\<exists>r. aa_recheck a = Some r \<and> (pr_success r \<longrightarrow>
    find_unimported_create (blocking_failures prepass) (drift_details_from_plan_result D (aa_bundle a) r) = None \<and>
    find_unapproved_destructive_escalation approved (drift_details_from_plan_result D (aa_bundle a) r) = None)"
  using assms
  by (auto simp: recheck_after_imports_def Let_def chain_perform snd_chain split: option.splits if_splits sum.splits)

lemma apply_locked_applies:
  assumes "e \<in> set (fst (apply_locked env D J P a spec template))" and "is_apply e"
  shows "snd (recheck_after_imports env D a template (prior_drifts_of template)
    (snd (run_import_prepass J P spec (aa_prepass a) (prior_drifts_of template)))) = Inr None"
proof (rule ccontr)
  assume blocked: "\<not> ?thesis"
  have "free_of is_apply (fst (apply_locked env D J P a spec template))"
    using blocked by (auto simp: apply_locked_def Let_def split_beta no_apply_steps intro!: free_chain split: option.splits)
  with assms show False by (blast dest: free_ofD)
qed

text \<open>C10: When imports may have outdated the approved plan, nothing is applied before the plan was made
  anew, and when that plan succeeded nothing is applied if it creates a resource whose
  import failed for a reason other than its absence, or if it deletes or replaces a resource
  that the approved changes did not.\<close>

theorem apply_after_imports_reviewed:
  assumes "RunApply b \<in> set (fst (handle_applying env D J P a spec template))"
    and "prepass = snd (run_import_prepass J P spec (aa_prepass a) (prior_drifts_of template))"
    and "plan_may_be_stale prepass"
  shows "\<exists>r. aa_recheck a = Some r \<and> (pr_success r \<longrightarrow>
    \<not> (\<exists>d \<in> set (drift_details_from_plan_result D (aa_bundle a) r).
        dd_action d = ''create'' \<and> dd_address d \<in> set (pp_failed prepass) - set (pp_absent prepass)) \<and>
    (\<forall>d \<in> set (drift_details_from_plan_result D (aa_bundle a) r). destroys_resource (dd_action d) \<longrightarrow>
        (\<exists>x \<in> set (prior_drifts_of template). dd_address x = dd_address d \<and> destroys_resource (dd_action x))))"
proof -
  from assms(1) have "RunApply b \<in> set (fst (apply_locked env D J P a spec template))"
    by (rule in_handle_applying) (simp_all add: lock_effect_def)
  then have "snd (recheck_after_imports env D a template (prior_drifts_of template) prepass) = Inr None"
    unfolding assms(2) by (rule apply_locked_applies) (simp add: is_apply_def)
  from recheck_passes [OF this assms(3)] show ?thesis
    using escalation_None by (fastforce simp: find_unimported_create_None blocking_failures_def)
qed

theorem apply_after_imports_reviewed_witness:
  "RunApply False \<in> set (fst sample_pass) \<and> (\<exists>r. aa_recheck sample_answers = Some r)"
proof -
  have run: "RunApply False \<in> set (fst sample_pass)" by (simp add: sample_trace)
  have "snd (run_import_prepass (\<lambda>_. None) (\<lambda>_. []) sample_spec (aa_prepass sample_answers) (prior_drifts_of bare_template)) =
      \<lparr>pp_imported = [], pp_failed = [''a.b''], pp_absent = []\<rparr>"
    by (simp add: sample_answers_def sample_drifts sample_import)
  from apply_after_imports_reviewed [OF run this [symmetric]] run show ?thesis by (auto simp: plan_may_be_stale_def)
qed

section \<open>Attempts\<close>

abbreviation attempts :: "apply_effect list \<Rightarrow> nat" where
  "attempts fx \<equiv> length (filter is_apply fx)"

lemma attempts_free: "free_of is_apply fx \<Longrightarrow> attempts fx = 0"
  by (simp add: free_of_def list_all_iff filter_empty_conv)

lemma attempts_chain:
  assumes "attempts (fst m) \<le> i" and "\<And>x. snd m = Inr x \<Longrightarrow> attempts (fst (f x)) \<le> j"
  shows "attempts (fst (chain m f)) \<le> i + j"
  using assms by (auto simp: fst_chain split: sum.split intro: add_mono)

lemma attempts_after_free: "free_of is_apply (fst m) \<Longrightarrow> (\<And>x. snd m = Inr x \<Longrightarrow> attempts (fst (f x)) \<le> j) \<Longrightarrow> attempts (fst (chain m f)) \<le> j"
  using attempts_chain [of m 0 f j] by (simp add: attempts_free)

lemma attempts_conflict_loop: "attempts (fst (conflict_loop n env D J P spec template answers k tried acc)) \<le> n"
proof (induction n arbitrary: k tried acc)
  case (Suc n)
  have one: "attempts (fst (chain (perform [RunApply False] ()) f)) \<le> Suc n" if "attempts (fst (f ())) \<le> n" for f :: "unit \<Rightarrow> 'z applied"
    using attempts_chain [of "perform [RunApply False] ()" 1 f n] that by (simp add: is_apply_def)
  show ?case
    using Suc.IH
    by (auto simp: Let_def split_beta no_apply_steps attempts_free intro!: attempts_after_free one split: option.split)
qed simp

lemma attempts_after_apply:
  "attempts (fst (after_apply env D J P a spec template ds imported r)) \<le> conflict_rounds (effective_policy spec)"
proof -
  let ?n = "conflict_rounds (effective_policy spec)"
  have "attempts (fst (resolve_conflicts_post_apply env D J P spec template creds answers r)) \<le> ?n" for creds answers
    using attempts_chain [of "conflict_loop ?n env D J P spec template answers 0 [] x" ?n "\<lambda>out. perform [] (Some out)" 0 for x]
    by (simp add: resolve_conflicts_post_apply_def Let_def attempts_conflict_loop)
  then have resolved: "attempts (fst (chain (resolve_conflicts_post_apply env D J P spec template creds answers r) f)) \<le> ?n"
    if "\<And>x. free_of is_apply (fst (f x))" for creds answers and f :: "conflict_outcome option \<Rightarrow> reconcile_action applied"
    using attempts_chain [of "resolve_conflicts_post_apply env D J P spec template creds answers r" ?n f 0] that
    by (simp add: attempts_free)
  show ?thesis
    unfolding after_apply_def
    by (auto simp: attempts_free no_apply_steps requeue_default_def intro!: resolved free_chain split: option.split)
qed

lemma attempts_run_apply:
  "attempts (fst (run_apply env D J P a spec template ds imported plan_file)) \<le> 2 + conflict_rounds (effective_policy spec)"
proof -
  let ?n = "conflict_rounds (effective_policy spec)"
  have one: "attempts (fst (chain (perform [RunApply b] ()) f)) \<le> Suc m" if "attempts (fst (f ())) \<le> m" for b m and f :: "unit \<Rightarrow> reconcile_action applied"
    using attempts_chain [of "perform [RunApply b] ()" 1 f m] that by (simp add: is_apply_def)
  have after: "attempts (fst (after_apply env D J P a spec template ds imported r)) \<le> Suc ?n" for r
    using attempts_after_apply [of env D J P a spec template ds imported r] by simp
  have quiet: "\<not> is_apply RemovePlanFile" by (simp add: is_apply_def)
  show ?thesis
    unfolding run_apply_def add_2_eq_Suc
    by (rule one, auto simp: after no_apply_steps quiet attempts_after_apply intro!: attempts_after_free one split: option.split)
qed

lemma attempts_apply_locked:
  "attempts (fst (apply_locked env D J P a spec template)) \<le> 2 + conflict_rounds (effective_policy spec)"
  unfolding apply_locked_def
  by (auto simp: Let_def split_beta no_apply_steps attempts_free requeue_default_def attempts_run_apply [unfolded add_2_eq_Suc]
      intro!: attempts_after_free free_chain split: option.split destroy_protection_gate.split)

text \<open>A pass of the Applying phase applies at most twice and then once per round of conflict
  resolution, so at most twelve times whatever the executor answers and whatever limit the policy
  declares.\<close>

lemma apply_attempts_bounded:
  "length (filter is_apply (fst (handle_applying env D J P a spec template))) \<le> 2 + conflict_rounds (effective_policy spec)
   \<and> conflict_rounds (effective_policy spec) \<le> 10"
proof -
  have quiet: "\<not> is_apply (Ctl x)" "\<not> is_apply TakeLock" "\<not> is_apply ReleaseLock" for x
    by (simp_all add: is_apply_def)
  show ?thesis
    unfolding handle_applying_trace using attempts_apply_locked [of env D J P a spec template] conflict_rounds_bounds(2)
    by (auto simp: quiet filter_map comp_def split: sum.split bool.split lock_answer.split)
qed

section \<open>Phases written\<close>

definition phase_writes :: "apply_effect list \<Rightarrow> phase set" where
  "phase_writes fx = {ph. \<exists>p. Ctl (Basic (Patch p)) \<in> set fx \<and> SPhase (Some ph) \<in> set p}"

text \<open>A write of a phase outside a set.\<close>

definition off_phase :: "phase set \<Rightarrow> apply_effect \<Rightarrow> bool" where
  "off_phase A e \<longleftrightarrow> (\<exists>p ph. e = Ctl (Basic (Patch p)) \<and> SPhase (Some ph) \<in> set p \<and> ph \<notin> A)"

lemma phase_writes_within: "free_of (off_phase A) fx \<longleftrightarrow> phase_writes fx \<subseteq> A"
  by (auto simp: free_of_def list_all_iff phase_writes_def off_phase_def)

lemma off_phase_simps [simp]:
  "\<not> off_phase A (event ty r m)" "\<not> off_phase A RunPlan" "\<not> off_phase A (CheckActions ds)" "\<not> off_phase A (RunApply b)"
  "\<not> off_phase A (RunImport addr i)" "\<not> off_phase A RemovePlanFile" "\<not> off_phase A (Ctl (Basic CleanWorkspace))"
  "\<not> off_phase A (Ctl (Basic (Inc n l)))" "\<not> off_phase A (Ctl (RecordCycle res ph ds))"
  by (auto simp: off_phase_def event_def)

lemma within_go_error: "ph \<in> A \<Longrightarrow> free_of (off_phase A) (fst (go_error env template ph msg))"
  by (auto simp: off_phase_def go_error_def basic_def fst_write_status update_phase_with_error_def Let_def
      split: if_splits)

lemma within_go_phase: "ph \<in> A \<Longrightarrow> \<forall>x \<in> set (fst (go_phase env template ph)). \<not> off_phase A (Ctl x)"
  using phases_of_go_phase [of env template ph] by (auto simp: off_phase_def phases_of_def)

lemma within_apply_writer:
  "\<forall>x \<in> set (fst (basic (write_status ok (update_apply_status rfc template fresh outputs revision now) (return ())))). \<not> off_phase A (Ctl x)"
proof -
  have "key_of f \<noteq> K_phase" if "f \<in> set (update_apply_status rfc template fresh outputs revision now)" for f
    using that by (auto simp: update_apply_status_def APPLY_STATUS_FIELDS_def Let_def dest!: scoped_patch_keys)
  then have "phases_of (fst (basic (write_status ok (update_apply_status rfc template fresh outputs revision now) (return ())))) = {}"
    by (rule phases_of_frame) simp_all
  then show ?thesis by (auto simp: off_phase_def phases_of_def)
qed

lemma within_record: "\<forall>x \<in> set (fst (record_cycle ok res ph ds)). \<not> off_phase A (Ctl x)"
  by (simp add: record_cycle_def)

lemma within_blocked: "phase.Failed \<in> A \<Longrightarrow> free_of (off_phase A) (fst (destroy_blocked env template msg))"
  by (simp add: destroy_blocked_def chain_perform within_go_error)

lemma within_fresh: "free_of (off_phase A) (fst (fresh_action_set_before_bare_apply D q))"
  by (simp add: fresh_action_set_before_bare_apply_def split: sum.split option.split)

lemma within_recheck: "phase.Failed \<in> A \<Longrightarrow> free_of (off_phase A) (fst (recheck_destroy_protection_before_bare_apply env D spec template q))"
  by (simp add: recheck_destroy_protection_before_bare_apply_def chain_perform split_beta free_chain within_fresh within_blocked
      split: destroy_protection_gate.split)

lemma within_protect: "phase.Failed \<in> A \<Longrightarrow> free_of (off_phase A) (fst (protect_reapply env D spec template q))"
  by (simp add: protect_reapply_def chain_perform split_beta free_chain within_fresh within_blocked split: destroy_protection_gate.split)

lemma within_react:
  "phase.Pending \<in> A \<Longrightarrow> phase.Applying \<in> A \<Longrightarrow> free_of (off_phase A) (fst (react_to_apply_anomaly env template ws r ds an msg))"
  by (simp add: react_to_apply_anomaly_def Let_def chain_perform free_chain within_go_error within_go_phase within_record
      split: apply_anomaly.split)

lemma within_ok: "phase.Ready \<in> A \<Longrightarrow> free_of (off_phase A) (fst (applied_ok env a template ds imported))"
  by (auto simp: applied_ok_def requeue_default_def chain_perform within_go_phase within_apply_writer within_record intro!: free_chain)

lemma within_failed:
  "{phase.Pending, phase.Applying, phase.Failed} \<subseteq> A \<Longrightarrow> free_of (off_phase A) (fst (applied_failed env a template ds r))"
  by (auto simp: applied_failed_def Let_def requeue_default_def chain_perform within_go_error within_react within_record
      intro!: free_chain split: option.split)

lemma within_recheck_imports: "phase.Failed \<in> A \<Longrightarrow> free_of (off_phase A) (fst (recheck_after_imports env D a template ds prepass))"
  by (auto simp: recheck_after_imports_def Let_def chain_perform within_go_error intro!: free_chain split: option.split)

lemma within_prepass: "free_of (off_phase A) (fst (run_import_prepass J P spec q ds))"
proof -
  have "free_of (off_phase A) (skip_effects sk)" for sk by (cases sk) simp_all
  moreover have "free_of (off_phase A) (fst (try_import answer tg))" for answer tg
    by (simp add: try_import_def split: import_answer.split)
  ultimately show ?thesis by (auto simp: run_import_prepass_def Let_def split_beta split: option.split)
qed

lemma within_conflict_loop:
  "phase.Failed \<in> A \<Longrightarrow> free_of (off_phase A) (fst (conflict_loop n env D J P spec template answers k tried acc))"
proof (induction n arbitrary: k tried acc)
  case (Suc n)
  have "free_of (off_phase A) (fst (adopt P spec q attrs addr))" for q attrs addr
    by (simp add: adopt_def split: option.split sum.split)
  moreover have "free_of (off_phase A) (fst (gather_attrs J q))" for q
    by (simp add: gather_attrs_def Let_def)
  ultimately show ?case
    using Suc.prems
    by (auto simp: Let_def split_beta Suc.IH within_protect intro!: free_chain split: option.splits)
qed simp

text \<open>The phases of an unsuccessful pass.\<close>

abbreviation setbacks :: "phase set" where
  "setbacks \<equiv> {phase.Pending, phase.Applying, phase.Failed, phase.Compiling}"

text \<open>Some apply of the pass succeeded.\<close>

definition applied :: "apply_answers \<Rightarrow> bool" where
  "applied a \<longleftrightarrow> (\<exists>r. tr_success r \<and> (aa_apply a = Some r \<or> aa_retry a = Some r \<or> (\<exists>k. ra_apply (aa_rounds a k) = Some r)))"

lemma conflict_loop_success:
  "snd (conflict_loop n env D J P spec template answers k tried acc) = Inr out \<Longrightarrow> tr_success (co_result out) \<Longrightarrow>
     tr_success (co_result acc) \<or> (\<exists>k r. ra_apply (answers k) = Some r \<and> tr_success r)"
proof (induction n arbitrary: k tried acc)
  case (Suc n)
  from Suc.prems show ?case
    by (auto simp: Let_def split_beta chain_perform snd_chain split: if_splits option.splits sum.splits dest!: Suc.IH)
qed simp

definition outcomes_of :: "apply_answers \<Rightarrow> phase set" where
  "outcomes_of a = setbacks \<union> (if applied a then {phase.Ready} else {})"

lemma in_outcomes [simp]:
  "phase.Pending \<in> outcomes_of a" "phase.Applying \<in> outcomes_of a" "phase.Failed \<in> outcomes_of a" "phase.Compiling \<in> outcomes_of a"
  "phase.Ready \<in> outcomes_of a \<longleftrightarrow> applied a"
  by (simp_all add: outcomes_of_def)

lemma within_resolve:
  "free_of (off_phase (outcomes_of a)) (fst (resolve_conflicts_post_apply env D J P spec template creds answers r))"
  by (simp add: resolve_conflicts_post_apply_def Let_def free_chain within_conflict_loop)

lemma resolve_success:
  assumes "snd (resolve_conflicts_post_apply env D J P spec template creds (aa_rounds a) r) = Inr (Some out)"
    and "tr_success (co_result out)" and "\<not> tr_success r"
  shows "applied a"
  using assms
  by (auto simp: resolve_conflicts_post_apply_def Let_def snd_chain applied_def split: if_splits sum.splits dest!: conflict_loop_success)

lemma within_after_apply:
  assumes "tr_success r \<Longrightarrow> applied a"
  shows "free_of (off_phase (outcomes_of a)) (fst (after_apply env D J P a spec template ds imported r))"
  using assms
  by (auto simp: after_apply_def requeue_default_def within_resolve within_ok within_failed chain_perform
      intro!: free_chain within_ok split: option.split) (erule (2) resolve_success)

lemma within_run_apply: "free_of (off_phase (outcomes_of a)) (fst (run_apply env D J P a spec template ds imported plan_file))"
proof -
  have "free_of (off_phase (outcomes_of a)) (fst (after_apply env D J P a spec template ds imported r))"
    if "aa_apply a = Some r \<or> aa_retry a = Some r" for r
    using that by (intro within_after_apply) (auto simp: applied_def)
  then show ?thesis
    unfolding run_apply_def by (auto simp: within_recheck intro!: free_chain split: option.split)
qed

lemma within_apply_locked: "free_of (off_phase (outcomes_of a)) (fst (apply_locked env D J P a spec template))"
  unfolding apply_locked_def
  by (auto simp: Let_def split_beta requeue_default_def within_recheck within_recheck_imports within_prepass within_blocked within_run_apply
      intro!: free_chain split: option.split destroy_protection_gate.split)

lemma applying_writes: "phase_writes (fst (handle_applying env D J P a spec template)) \<subseteq> outcomes_of a"
proof -
  have quiet: "\<not> off_phase A (Ctl (Basic (BeginPass ph)))" "\<not> off_phase A (Ctl (Basic EndPass))"
    "\<not> off_phase A TakeLock" "\<not> off_phase A ReleaseLock" for A ph
    by (auto simp: off_phase_def)
  have "free_of (off_phase (outcomes_of a)) (fst (handle_applying env D J P a spec template))"
    unfolding handle_applying_trace using within_go_phase [of phase.Compiling "outcomes_of a" env template]
    by (simp add: quiet within_apply_locked split: sum.split bool.split lock_answer.split)
  then show ?thesis by (simp only: phase_writes_within)
qed

lemma outcomes_legal: "outcomes_of a \<subseteq> {q. edge_is_legal phase.Applying q}"
  by (auto simp: outcomes_of_def edge_is_legal_def table_defs)

text \<open>The Applying phase reaches Ready only by an apply that succeeded, and every phase it writes is an
  edge of the lifecycle table.\<close>

lemma ready_only_after_apply:
  "(phase.Ready \<in> phase_writes (fst (handle_applying env D J P a spec template)) \<longrightarrow> applied a)
   \<and> phase_writes (fst (handle_applying env D J P a spec template)) \<subseteq> {q. edge_is_legal phase.Applying q}"
  using applying_writes [of env D J P a spec template] outcomes_legal by auto

lemma sample_ready: "phase.Ready \<in> phase_writes (fst sample_rest)"
proof -
  let ?p = "update_phase (en_rfc test_env) (en_me test_env) (en_honor test_env) bare_template (en_live test_env) (en_digest test_env)
    phase.Ready (en_now test_env)"
  have ok: "en_ok test_env w" for w by (simp add: test_env_def)
  have "Ctl (Basic (Patch ?p)) \<in> set (fst sample_rest)"
    unfolding sample_rest_def applied_ok_def go_phase_applies [OF ok]
    by (simp add: in_chain ok basic_def snd_write_status return_def del: set_map)
  moreover have "SPhase (Some phase.Ready) \<in> set ?p" by (simp add: phase_in_update_phase)
  ultimately show ?thesis unfolding phase_writes_def by blast
qed

section \<open>What the gates do not see\<close>

text \<open>Without protection the retry after a stale plan applies whatever the executor plans at that moment:
  nothing is planned, read or approved between the two applies.\<close>

lemma stale_retry_unreviewed:
  assumes "\<not> sp_destroy_protection spec" and "aa_apply a = Some r" and "\<not> tr_success r"
    and "is_self_healable_apply_error (tr_stderr r)"
  shows "\<exists>rest. fst (run_apply env D J P a spec template ds imported True) =
    [RunApply True, event Normal ''StalePlanRecovery'' ''discarding stale plan cache and retrying apply with fresh plan'', RemovePlanFile,
     RunApply False] @ rest"
  using assms by (simp add: run_apply_def chain_perform recheck_destroy_protection_before_bare_apply_def split: option.split)

text \<open>The changes recorded at planning are capped, so the gate on a cached plan does not see a destruction
  behind the cap.\<close>

lemma capped_gate_blind:
  fixes up del :: drift_detail
  assumes "dd_action up = ''update''" and "dd_action del = ''delete''"
  defines "ds \<equiv> replicate DRIFT_STATUS_CAP up @ [del]"
  shows "evaluate_destroy_protection_gate True ds \<noteq> ProtectionProceed
    \<and> evaluate_destroy_protection_gate True (take DRIFT_STATUS_CAP ds) = ProtectionProceed"
  using assms(1,2) unfolding ds_def
  by (simp add: gate_proceeds destroys_resource_def)

text \<open>A rate-limited or interrupted apply is retried after a delay that doubles with each failure in a row,
  from a minute up to ten.\<close>

lemma decaying_delay:
  assumes "anomaly_mode anomaly = Decaying"
    and "snd (react_to_apply_anomaly env template ws receipt ds anomaly msg) = Inr (Some (Requeue d))"
  shows "d = min (30 * 2 ^ unat (sat_add (retry_count template) 1)) 600 * 1000"
proof -
  have "d = exponential_backoff (sat_add (retry_count template) 1) 30 600"
    using assms by (cases anomaly) (auto simp: react_to_apply_anomaly_def Let_def snd_chain split: sum.splits)
  then show ?thesis by (simp add: exponential_backoff_exact)
qed

end
