(* ===== verification/Escalation.thy ===== *)
theory Escalation
  imports Template_Handlers
begin

text \<open>
  The escalation ladder and its handlers, and the tracker of recurring errors
  (\<open>pangea-operator/src/controller/escalation.rs\<close>, \<open>escalation_handlers.rs\<close>, \<open>anomaly_tracker.rs\<close>).

  A handler computes the status keys to merge and an event; whether the cached clone could be dropped
  is an answer of the outside. BLAKE3 is the parameter \<open>H\<close>, from bytes to hexadecimal digits. The
  map of the tracker is an ordered association list; its counter wraps at the width of \<open>u32\<close>.
\<close>

section \<open>The ladder\<close>

datatype escalation_action = Retry | RefreshSource | ReloadGems | RecycleWorkers | PauseAndAlert

fun action_label :: "escalation_action \<Rightarrow> string" where
  "action_label Retry = ''retry''"
| "action_label RefreshSource = ''refresh_source''"
| "action_label ReloadGems = ''reload_gems''"
| "action_label RecycleWorkers = ''recycle_workers''"
| "action_label PauseAndAlert = ''pause_and_alert''"

fun action_depth :: "escalation_action \<Rightarrow> nat" where
  "action_depth Retry = 0"
| "action_depth RefreshSource = 1"
| "action_depth ReloadGems = 2"
| "action_depth RecycleWorkers = 3"
| "action_depth PauseAndAlert = 4"

record escalation_rung =
  er_min_duration_unready :: std_duration
  er_action :: escalation_action

definition from_rungs :: "escalation_rung list \<Rightarrow> escalation_rung list" where
  "from_rungs rungs = sort_key er_min_duration_unready rungs"

definition pangea_default_ladder :: "escalation_rung list" where
  "pangea_default_ladder = from_rungs
     [\<lparr>er_min_duration_unready = from_secs 0, er_action = Retry\<rparr>,
      \<lparr>er_min_duration_unready = from_secs 300, er_action = RefreshSource\<rparr>,
      \<lparr>er_min_duration_unready = from_secs 900, er_action = ReloadGems\<rparr>,
      \<lparr>er_min_duration_unready = from_secs 1800, er_action = RecycleWorkers\<rparr>,
      \<lparr>er_min_duration_unready = from_secs 3600, er_action = PauseAndAlert\<rparr>]"

definition pick :: "escalation_rung list \<Rightarrow> std_duration \<Rightarrow> escalation_action" where
  "pick rungs duration_unready =
     (case find (\<lambda>r. er_min_duration_unready r \<le> duration_unready) (rev rungs) of
        Some r \<Rightarrow> er_action r
      | None \<Rightarrow> Retry)"

section \<open>The handlers\<close>

record escalation_context =
  ec_template :: infrastructure_template
  ec_action :: escalation_action
  ec_duration_unready :: std_duration
  ec_consecutive_failures :: u32
  ec_last_error :: string
  ec_error_signature :: string

record escalation_outcome =
  eo_status_patch :: "status_field list"
  eo_event_reason :: string
  eo_event_message :: string

definition as_secs :: "std_duration \<Rightarrow> nat" where
  "as_secs d = d div 1000"

definition unready_secs :: "escalation_context \<Rightarrow> string" where
  "unready_secs ctx = show_nat (as_secs (ec_duration_unready ctx))"

definition execute_retry :: "escalation_context \<Rightarrow> escalation_outcome" where
  "execute_retry ctx =
     \<lparr>eo_status_patch = [], eo_event_reason = ''EscalationLadderRetry'',
      eo_event_message = ''Recovery ladder: Retry (depth 0, after '' @ unready_secs ctx
        @ ''s unready). Normal retry semantics apply.''\<rparr>"

definition quotation_mark :: string where
  "quotation_mark = [char_of (34 :: nat)]"

definition clear_command :: string where
  "clear_command =
     ''kubectl patch -n <ns> it/<name> --type=merge -p '' @ apostrophe @ ''{'' @ quotation_mark @ ''status'' @ quotation_mark
     @ '':{'' @ quotation_mark @ ''autoSuspended'' @ quotation_mark @ '':false}}'' @ apostrophe @ '' --subresource status.''"

definition execute_pause_and_alert :: "escalation_context \<Rightarrow> escalation_outcome" where
  "execute_pause_and_alert ctx =
     \<lparr>eo_status_patch = [SAutoSuspended True], eo_event_reason = ''EscalationLadderPause'',
      eo_event_message = ''Auto-suspended after '' @ unready_secs ctx @ ''s unready (consecutive failures: ''
        @ show_nat (unat (ec_consecutive_failures ctx)) @ ''). Recovery ladder reached PauseAndAlert (depth 4). Last error signature: ''
        @ ec_error_signature ctx @ ''. Clear with: '' @ clear_command\<rparr>"

text \<open>Dropping the clone succeeds or fails with a text.\<close>

definition execute_refresh_source :: "(string, unit) result \<Rightarrow> escalation_context \<Rightarrow> (string, escalation_outcome) result" where
  "execute_refresh_source invalidated ctx =
     (case invalidated of
        Inr _ \<Rightarrow> Inr \<lparr>eo_status_patch = [], eo_event_reason = ''EscalationLadderRefreshSource'',
          eo_event_message = ''Recovery ladder: RefreshSource (depth 1, after '' @ unready_secs ctx
            @ ''s unready). Workspace clone invalidated; next reconcile will re-pull source.''\<rparr>
      | Inl e \<Rightarrow> Inl (''RefreshSource invalidation failed for ''
          @ (case it_namespace (ec_template ctx) of Some n \<Rightarrow> n | None \<Rightarrow> [])
          @ ''/'' @ it_name (ec_template ctx) @ '': '' @ e))"

definition execute_reload_gems :: "escalation_context \<Rightarrow> escalation_outcome" where
  "execute_reload_gems ctx =
     \<lparr>eo_status_patch = [], eo_event_reason = ''EscalationLadderReloadGems'',
      eo_event_message = ''Recovery ladder: ReloadGems (depth 2, after '' @ unready_secs ctx
        @ ''s unready). Gem-cache invalidation deferred to slice-5; this event records the recommendation.''\<rparr>"

definition execute_recycle_workers :: "escalation_context \<Rightarrow> escalation_outcome" where
  "execute_recycle_workers ctx =
     \<lparr>eo_status_patch = [], eo_event_reason = ''EscalationLadderRecycleWorkers'',
      eo_event_message = ''Recovery ladder: RecycleWorkers (depth 3, after '' @ unready_secs ctx
        @ ''s unready). Pool-worker recycle deferred to slice-5; this event records the recommendation.''\<rparr>"

fun handler_for :: "(string, unit) result \<Rightarrow> escalation_action \<Rightarrow> escalation_context \<Rightarrow> (string, escalation_outcome) result" where
  "handler_for invalidated Retry ctx = Inr (execute_retry ctx)"
| "handler_for invalidated RefreshSource ctx = execute_refresh_source invalidated ctx"
| "handler_for invalidated ReloadGems ctx = Inr (execute_reload_gems ctx)"
| "handler_for invalidated RecycleWorkers ctx = Inr (execute_recycle_workers ctx)"
| "handler_for invalidated PauseAndAlert ctx = Inr (execute_pause_and_alert ctx)"

section \<open>Recurring errors\<close>

record recurrence =
  re_signature :: string
  re_count :: u32
  re_age :: std_duration

type_synonym recurrence_tracker = "string \<times> string \<rightharpoonup> u32 \<times> time"

text \<open>The clock is monotonic; an age is the whole milliseconds since the first observation.\<close>

definition age_of :: "time \<Rightarrow> time \<Rightarrow> std_duration" where
  "age_of first now = nat ((now - first) div 10 ^ 6)"

definition observe_recurrence :: "recurrence_tracker \<Rightarrow> time \<Rightarrow> string \<Rightarrow> string \<Rightarrow> recurrence \<times> recurrence_tracker" where
  "observe_recurrence tracker now key signature =
     (let (n, first) = (case tracker (key, signature) of Some entry \<Rightarrow> entry | None \<Rightarrow> (0, now))
      in (\<lparr>re_signature = signature, re_count = n + 1, re_age = age_of first now\<rparr>,
          tracker((key, signature) \<mapsto> (n + 1, first))))"

definition peek_recurrence :: "recurrence_tracker \<Rightarrow> time \<Rightarrow> string \<Rightarrow> string \<Rightarrow> recurrence option" where
  "peek_recurrence tracker now key signature =
     map_option (\<lambda>(n, first). \<lparr>re_signature = signature, re_count = n, re_age = age_of first now\<rparr>) (tracker (key, signature))"

definition is_base32 :: "char \<Rightarrow> bool" where
  "is_base32 c \<longleftrightarrow> CHR ''a'' \<le> c \<and> c \<le> CHR ''z'' \<or> CHR ''0'' \<le> c \<and> c \<le> CHR ''9''"

definition is_hex :: "char \<Rightarrow> bool" where
  "is_hex c \<longleftrightarrow> CHR ''0'' \<le> c \<and> c \<le> CHR ''9'' \<or> CHR ''a'' \<le> c \<and> c \<le> CHR ''f'' \<or> CHR ''A'' \<le> c \<and> c \<le> CHR ''F''"

text \<open>Skips at most \<open>n\<close> bytes of a kind.\<close>

fun skip_up_to :: "nat \<Rightarrow> (char \<Rightarrow> bool) \<Rightarrow> string \<Rightarrow> string" where
  "skip_up_to (Suc n) p (c # cs) = (if p c then skip_up_to n p cs else c # cs)"
| "skip_up_to _ _ cs = cs"

definition path_end :: "char \<Rightarrow> bool" where
  "path_end c \<longleftrightarrow> c = CHR ''/'' \<or> c = CHR '' '' \<or> c = CHR 0x0A"

text \<open>A byte pushed as a \<open>char\<close> is encoded again: beyond ASCII it takes two bytes.\<close>

definition push_byte :: "char \<Rightarrow> string" where
  "push_byte c =
     (let b = of_char c :: nat in if b < 128 then [c] else [char_of (192 + b div 64), char_of (128 + b mod 64)])"

lemma length_skip_up_to: "length (skip_up_to n p cs) \<le> length cs"
  by (induction n p cs rule: skip_up_to.induct) auto

lemma length_dropWhile_drop: "length (dropWhile p (drop n cs)) \<le> length cs - n"
  using length_dropWhile_le [of p "drop n cs"] by simp

function (sequential) strip_variable_parts :: "string \<Rightarrow> string" where
  "strip_variable_parts [] = []"
| "strip_variable_parts (c # cs) =
     (if starts_with (c # cs) ''/nix/store/''
      then ''/nix/store/<HASH>'' @ strip_variable_parts (skip_up_to 32 is_base32 (drop 11 (c # cs)))
      else if starts_with (c # cs) ''/var/pangea/workspaces/''
      then ''/var/pangea/workspaces/<NAME>'' @ strip_variable_parts (dropWhile (\<lambda>x. \<not> path_end x) (drop 23 (c # cs)))
      else if starts_with (c # cs) ''/var/pangea/gems/''
      then ''/var/pangea/gems/<GEM>'' @ strip_variable_parts (dropWhile (\<lambda>x. \<not> path_end x) (drop 17 (c # cs)))
      else if starts_with (c # cs) ''0x''
      then ''0x<HEX>'' @ strip_variable_parts (dropWhile is_hex (drop 2 (c # cs)))
      else push_byte c @ strip_variable_parts cs)"
  by pat_completeness auto
termination
  apply (relation "measure length")
      apply simp
     apply (simp, rule le_less_trans [OF length_skip_up_to], simp)
    apply (simp, rule le_less_trans [OF length_dropWhile_drop], simp)+
  apply simp
  done

definition error_signature :: "(string \<Rightarrow> string) \<Rightarrow> string \<Rightarrow> string" where
  "error_signature H err_msg = take 12 (H (strip_variable_parts err_msg))"

record anomaly_summary =
  as_signature :: string
  as_recurrence_count :: u32
  as_recurrence_age_s :: nat
  as_recommended_action :: string
  as_recommended_depth :: nat
  as_typed_detector :: "string option"

definition compose_summary :: "recurrence \<Rightarrow> string \<Rightarrow> nat \<Rightarrow> string option \<Rightarrow> anomaly_summary" where
  "compose_summary r label depth detector =
     \<lparr>as_signature = re_signature r, as_recurrence_count = re_count r, as_recurrence_age_s = as_secs (re_age r),
      as_recommended_action = label, as_recommended_depth = depth, as_typed_detector = detector\<rparr>"

section \<open>The deepest rung reached\<close>

lemma find_rev_sorted:
  assumes "sorted (map f xs)" "find (\<lambda>x. f x \<le> d) (rev xs) = Some r"
  shows "r \<in> set xs \<and> f r \<le> d \<and> (\<forall>x \<in> set xs. f x \<le> d \<longrightarrow> f x \<le> f r)"
  using assms
proof (induction xs rule: rev_induct)
  case (snoc y ys)
  show ?case
  proof (cases "f y \<le> d")
    case True
    then show ?thesis using snoc.prems by (auto simp: sorted_append)
  next
    case False
    then show ?thesis using snoc by (auto simp: sorted_append)
  qed
qed simp

lemma pick_deepest:
  "(\<exists>r \<in> set rungs. er_min_duration_unready r \<le> d \<and> pick (from_rungs rungs) d = er_action r
      \<and> (\<forall>r' \<in> set rungs. er_min_duration_unready r' \<le> d \<longrightarrow> er_min_duration_unready r' \<le> er_min_duration_unready r))
   \<or> (\<forall>r \<in> set rungs. d < er_min_duration_unready r) \<and> pick (from_rungs rungs) d = Retry"
proof (cases "find (\<lambda>r. er_min_duration_unready r \<le> d) (rev (from_rungs rungs))")
  case None
  then have "\<forall>r \<in> set rungs. d < er_min_duration_unready r" by (auto simp: find_None_iff from_rungs_def not_le)
  with None show ?thesis by (simp add: pick_def)
next
  case (Some r)
  have "sorted (map er_min_duration_unready (from_rungs rungs))" by (simp add: from_rungs_def)
  from find_rev_sorted [OF this Some] have "r \<in> set rungs \<and> er_min_duration_unready r \<le> d
      \<and> (\<forall>r' \<in> set rungs. er_min_duration_unready r' \<le> d \<longrightarrow> er_min_duration_unready r' \<le> er_min_duration_unready r)"
    by (simp add: from_rungs_def)
  moreover have "pick (from_rungs rungs) d = er_action r" by (simp add: pick_def Some)
  ultimately show ?thesis by blast
qed

lemma default_ladder:
  "pick pangea_default_ladder d =
     (if 3600000 \<le> d then PauseAndAlert else if 1800000 \<le> d then RecycleWorkers
      else if 900000 \<le> d then ReloadGems else if 300000 \<le> d then RefreshSource else Retry)"
  by (simp add: pangea_default_ladder_def from_rungs_def pick_def from_secs_def sort_key_def insort_key.simps)

lemma default_ladder_deepens: "d \<le> d' \<Longrightarrow> action_depth (pick pangea_default_ladder d) \<le> action_depth (pick pangea_default_ladder d')"
  by (simp add: default_ladder)

text \<open>Only the last rung touches the status, and only the second can fail.\<close>

lemma handler_effects:
  "handler_for invalidated action ctx = Inr out \<Longrightarrow> eo_status_patch out = (if action = PauseAndAlert then [SAutoSuspended True] else [])"
  "handler_for invalidated action ctx = Inl e \<Longrightarrow> action = RefreshSource \<and> invalidated \<noteq> Inr ()"
  by (cases action;
      auto simp: execute_retry_def execute_refresh_source_def execute_reload_gems_def execute_recycle_workers_def
        execute_pause_and_alert_def split: sum.splits)+

section \<open>Recurrence counts\<close>

fun observe_all :: "recurrence_tracker \<Rightarrow> (time \<times> string \<times> string) list \<Rightarrow> recurrence_tracker" where
  "observe_all tracker [] = tracker"
| "observe_all tracker ((now, key, signature) # obs) = observe_all (snd (observe_recurrence tracker now key signature)) obs"

lemma observe_recurrence_count:
  "map_option fst (snd (observe_recurrence tracker now key signature) k) =
     (if k = (key, signature) then Some ((case tracker k of Some (n, _) \<Rightarrow> n | None \<Rightarrow> 0) + 1) else map_option fst (tracker k))"
  by (auto simp: observe_recurrence_def Let_def split: option.splits prod.splits)

lemma observe_all_count:
  "(case observe_all tracker obs k of Some (n, _) \<Rightarrow> n | None \<Rightarrow> 0)
     = (case tracker k of Some (n, _) \<Rightarrow> n | None \<Rightarrow> 0) + of_nat (length (filter (\<lambda>(_, key, signature). (key, signature) = k) obs))"
proof (induction tracker obs rule: observe_all.induct)
  case (2 tracker now key signature obs)
  have "(case snd (observe_recurrence tracker now key signature) k of Some (n, _) \<Rightarrow> n | None \<Rightarrow> 0)
      = (case tracker k of Some (n, _) \<Rightarrow> n | None \<Rightarrow> 0) + (if k = (key, signature) then 1 else 0)"
    by (auto simp: observe_recurrence_def Let_def split: option.splits prod.splits)
  with 2 show ?case by (auto split: prod.splits)
qed simp

section \<open>What a signature forgets\<close>

lemma skip_up_to_all: "list_all p xs \<Longrightarrow> length xs = n \<Longrightarrow> skip_up_to n p (xs @ ys) = ys"
proof (induction xs arbitrary: n)
  case Nil
  then show ?case by (cases ys) auto
next
  case (Cons x xs)
  then show ?case by (cases n) auto
qed

lemma strip_nix_path:
  assumes "list_all is_base32 h" "length h = 32"
  shows "strip_variable_parts (''/nix/store/'' @ h @ rest) = ''/nix/store/<HASH>'' @ strip_variable_parts rest"
  using skip_up_to_all [OF assms, of rest] by (simp add: starts_with_def)

lemma strip_workspace_path:
  assumes "list_all (\<lambda>c. \<not> path_end c) name" "path_end c"
  shows "strip_variable_parts (''/var/pangea/workspaces/'' @ name @ c # rest)
      = ''/var/pangea/workspaces/<NAME>'' @ strip_variable_parts (c # rest)"
    "strip_variable_parts (''/var/pangea/gems/'' @ name @ c # rest)
      = ''/var/pangea/gems/<GEM>'' @ strip_variable_parts (c # rest)"
proof -
  have "dropWhile (\<lambda>c. \<not> path_end c) (name @ c # rest) = c # rest"
    using assms by (subst dropWhile_append2) (auto simp: list_all_iff)
  then show "strip_variable_parts (''/var/pangea/workspaces/'' @ name @ c # rest)
        = ''/var/pangea/workspaces/<NAME>'' @ strip_variable_parts (c # rest)"
      "strip_variable_parts (''/var/pangea/gems/'' @ name @ c # rest)
        = ''/var/pangea/gems/<GEM>'' @ strip_variable_parts (c # rest)"
    by (simp_all add: starts_with_def)
qed

text \<open>Beside paths and addresses nothing is forgotten: an ASCII text without a slash and without
  \<open>0x\<close> is its own canonical form, so line numbers, timestamps and UUIDs stay in the signature.\<close>

lemma strip_plain:
  "list_all (\<lambda>c. of_char c < (128 :: nat) \<and> c \<noteq> CHR ''/'' \<and> c \<noteq> CHR ''x'') s \<Longrightarrow> strip_variable_parts s = s"
proof (induction s)
  case (Cons c cs)
  have "\<not> starts_with (c # cs) ''0x''"
    using Cons.prems by (cases cs) (auto simp: starts_with_def)
  then show ?case using Cons by (auto simp: starts_with_def push_byte_def)
qed simp

lemma line_numbers_stay: "strip_variable_parts ''line 42: error'' \<noteq> strip_variable_parts ''line 43: error''"
  using strip_plain [of "''line 42: error''"] strip_plain [of "''line 43: error''"]
  by (simp del: strip_variable_parts.simps)

end
