(* ===== verification/Reactive.thy ===== *)
theory Reactive
  imports Planning Escalation
begin

text \<open>
  Reactive policies (\<open>pangea-operator/src/controller/reactive.rs\<close>, \<open>routing.rs\<close>,
  \<open>controller/template/reactive_policy.rs\<close> and the policy types of \<open>crd/architecture_gem.rs\<close>): what
  the operator does about a template that keeps failing, sits in a phase too long or stays
  unverified. The stage runs after a reconcile on the object it is given, decides one escalation,
  patches the status with what changed, and may push a stuck phase to Failed.

  \<open>K\<close> stands for \<open>CascadePolicy::resolve\<close> of the crate \<open>shigoto_types\<close>; \<open>cascade_law\<close> is its
  documented behaviour. Log lines are not modelled.
\<close>

section \<open>Policies\<close>

datatype reactive_action = Alert | Suspend | Page

record approval_routing =
  ar_ntfy_topic :: "string option"
  ar_slack_channel :: "string option"
  ar_github_issue_template :: "string option"

record failure_escalation =
  fe_max_consecutive_failures :: u32
  fe_on_exhaustion :: reactive_action
  fe_routing :: "approval_routing option"

record phase_timeout_policy =
  pt_compiling :: string
  pt_planning :: string
  pt_applying :: string
  pt_on_timeout :: reactive_action
  pt_routing :: "approval_routing option"

record verified_blocked_policy =
  vb_timeout :: string
  vb_on_blocked :: reactive_action
  vb_routing :: "approval_routing option"

record reactive_policy =
  rp_failure_escalation :: "failure_escalation option"
  rp_phase_timeout :: "phase_timeout_policy option"
  rp_verified_blocked :: "verified_blocked_policy option"

definition no_reactive_policy :: reactive_policy where
  "no_reactive_policy = \<lparr>rp_failure_escalation = None, rp_phase_timeout = None, rp_verified_blocked = None\<rparr>"

definition merge_reactive :: "reactive_policy \<Rightarrow> reactive_policy \<Rightarrow> reactive_policy" where
  "merge_reactive self layer =
     \<lparr>rp_failure_escalation = (case rp_failure_escalation layer of Some f \<Rightarrow> Some f | None \<Rightarrow> rp_failure_escalation self),
      rp_phase_timeout = (case rp_phase_timeout layer of Some p \<Rightarrow> Some p | None \<Rightarrow> rp_phase_timeout self),
      rp_verified_blocked = (case rp_verified_blocked layer of Some v \<Rightarrow> Some v | None \<Rightarrow> rp_verified_blocked self)\<rparr>"

type_synonym 'p cascade_resolve = "('p \<Rightarrow> 'p \<Rightarrow> 'p) \<Rightarrow> 'p option list \<Rightarrow> 'p \<Rightarrow> 'p"

text \<open>The layers are applied in order over the default; the rightmost that sets a field wins.\<close>

definition cascade_law :: "'p cascade_resolve \<Rightarrow> bool" where
  "cascade_law K \<longleftrightarrow> (\<forall>merge layers d. K merge layers d = foldl merge d (List.map_filter id layers))"

record effective_reactive_policy =
  ef_failure :: failure_escalation
  ef_phase_timeout :: phase_timeout_policy
  ef_verified_blocked :: verified_blocked_policy

definition default_effective :: effective_reactive_policy where
  "default_effective =
     \<lparr>ef_failure = \<lparr>fe_max_consecutive_failures = 5, fe_on_exhaustion = Alert, fe_routing = None\<rparr>,
      ef_phase_timeout = \<lparr>pt_compiling = ''5m'', pt_planning = ''10m'', pt_applying = ''30m'', pt_on_timeout = Alert, pt_routing = None\<rparr>,
      ef_verified_blocked = \<lparr>vb_timeout = ''10m'', vb_on_blocked = Alert, vb_routing = None\<rparr>\<rparr>"

definition resolve_effective :: "reactive_policy cascade_resolve \<Rightarrow> reactive_policy option \<Rightarrow> reactive_policy option \<Rightarrow> effective_reactive_policy" where
  "resolve_effective K template_policy workspace_policy =
     (let merged = K merge_reactive [workspace_policy, template_policy] no_reactive_policy
      in \<lparr>ef_failure = (case rp_failure_escalation merged of Some f \<Rightarrow> f | None \<Rightarrow> ef_failure default_effective),
          ef_phase_timeout = (case rp_phase_timeout merged of Some p \<Rightarrow> p | None \<Rightarrow> ef_phase_timeout default_effective),
          ef_verified_blocked = (case rp_verified_blocked merged of Some v \<Rightarrow> v | None \<Rightarrow> ef_verified_blocked default_effective)\<rparr>)"

section \<open>The triggers\<close>

record trigger_record =
  tg_action :: reactive_action
  tg_reason :: string
  tg_message :: string
  tg_routing :: "approval_routing option"

datatype escalation = Healthy | Triggered trigger_record

fun action_rank :: "reactive_action \<Rightarrow> nat" where
  "action_rank Suspend = 3" | "action_rank Page = 2" | "action_rank Alert = 1"

text \<open>\<open>max_by_key\<close> returns the last of several maximal elements.\<close>

fun worst_of :: "trigger_record \<Rightarrow> trigger_record list \<Rightarrow> trigger_record" where
  "worst_of best [] = best"
| "worst_of best (x # xs) = worst_of (if action_rank (tg_action best) \<le> action_rank (tg_action x) then x else best) xs"

fun pick_worst :: "trigger_record list \<Rightarrow> escalation" where
  "pick_worst [] = Healthy"
| "pick_worst (x # xs) = Triggered (worst_of x xs)"

text \<open>The parser of this module; a product wraps at the width of \<open>u64\<close>.\<close>

definition parse_threshold :: "string \<Rightarrow> std_duration option" where
  "parse_threshold s =
     (let trimmed = str_trim s;
          try = (\<lambda>suffix factor. Option.bind (strip_suffix trimmed suffix) (\<lambda>num.
             map_option (\<lambda>n. from_secs (n * factor)) (parse_u64 num)))
      in (case try ''s'' 1 of
            Some d \<Rightarrow> Some d
          | None \<Rightarrow> (case try ''m'' 60 of Some d \<Rightarrow> Some d | None \<Rightarrow> try ''h'' 3600)))"

text \<open>\<open>chrono::Duration::from_std\<close>, in nanoseconds.\<close>

definition chrono_threshold :: "string \<Rightarrow> duration option" where
  "chrono_threshold s =
     Option.bind (parse_threshold s) (\<lambda>d. if d < 2 ^ 63 then Some (int d * 10 ^ 6) else None)"

definition check_failure :: "itr_status \<Rightarrow> failure_escalation \<Rightarrow> trigger_record option" where
  "check_failure status policy =
     (if is_failure_count status < fe_max_consecutive_failures policy then None
      else Some \<lparr>tg_action = fe_on_exhaustion policy, tg_reason = ''FailureEscalation'',
        tg_message = show_nat (unat (is_failure_count status)) @ '' consecutive failed reconciles (threshold: ''
          @ show_nat (unat (fe_max_consecutive_failures policy)) @ ''); last error: ''
          @ (case st_last_error (ds_core status) of Some e \<Rightarrow> e | None \<Rightarrow> ''(none)''),
        tg_routing = fe_routing policy\<rparr>)"

definition liveness_witness :: "itr_status \<Rightarrow> phase \<Rightarrow> time \<Rightarrow> time \<times> string" where
  "liveness_witness status ph entered =
     (case is_apply_cursor_advanced_at status of
        Some advanced \<Rightarrow> if ph = phase.Applying \<and> entered < advanced then (advanced, ''applyCursorAdvancedAt'') else (entered, ''phaseEnteredAt'')
      | None \<Rightarrow> (entered, ''phaseEnteredAt''))"

fun timeout_of :: "phase_timeout_policy \<Rightarrow> phase \<Rightarrow> string option" where
  "timeout_of policy phase.Compiling = Some (pt_compiling policy)"
| "timeout_of policy phase.Planning = Some (pt_planning policy)"
| "timeout_of policy phase.Applying = Some (pt_applying policy)"
| "timeout_of policy _ = None"

definition seconds_of :: "duration \<Rightarrow> string" where
  "seconds_of d = show_int (d div 10 ^ 9)"

definition timeout_message :: "itr_status \<Rightarrow> phase \<Rightarrow> time \<Rightarrow> string \<Rightarrow> time \<Rightarrow> string \<Rightarrow> time \<Rightarrow> string" where
  "timeout_message status ph since witness entered threshold_str now =
     ''no progress in phase '' @ show_phase ph @ '' for '' @ seconds_of (now - since) @ ''s measured from ''
     @ witness @ '' (threshold: '' @ threshold_str @ ''; phase entered '' @ seconds_of (now - entered) @ ''s ago, appliedCount: ''
     @ (case is_apply_cursor_count status of Some c \<Rightarrow> show_nat (unat c) | None \<Rightarrow> ''(none)'') @ '')''"

definition check_phase_timeout :: "itr_status \<Rightarrow> phase_timeout_policy \<Rightarrow> time \<Rightarrow> trigger_record option" where
  "check_phase_timeout status policy now =
     Option.bind (st_phase (ds_core status)) (\<lambda>ph.
     Option.bind (is_phase_entered_at status) (\<lambda>entered.
     Option.bind (timeout_of policy ph) (\<lambda>threshold_str.
     Option.bind (chrono_threshold threshold_str) (\<lambda>threshold.
       (let since = fst (liveness_witness status ph entered) in
        if now - since < threshold then None
        else Some \<lparr>tg_action = pt_on_timeout policy, tg_reason = ''PhaseTimeout:'' @ show_phase ph,
          tg_message = timeout_message status ph since (snd (liveness_witness status ph entered)) entered threshold_str now,
          tg_routing = pt_routing policy\<rparr>)))))"

definition track_apply_progress :: "u64 option \<Rightarrow> time option \<Rightarrow> u64 option \<Rightarrow> time \<Rightarrow> u64 option \<times> time option" where
  "track_apply_progress prev_count prev_advanced_at observed now =
     (case observed of
        None \<Rightarrow> (prev_count, prev_advanced_at)
      | Some n \<Rightarrow> if prev_count \<noteq> Some n then (Some n, Some now)
                   else (Some n, case prev_advanced_at of Some a \<Rightarrow> Some a | None \<Rightarrow> Some now))"

definition check_verified_blocked :: "itr_status \<Rightarrow> verified_blocked_policy \<Rightarrow> time \<Rightarrow> trigger_record option" where
  "check_verified_blocked status policy now =
     Option.bind (is_verified_blocked_since status) (\<lambda>blocked_since.
     Option.bind (chrono_threshold (vb_timeout policy)) (\<lambda>threshold.
       (if now - blocked_since < threshold then None
        else Some \<lparr>tg_action = vb_on_blocked policy, tg_reason = ''VerifiedBlocked'',
          tg_message = ''Verified=False for '' @ seconds_of (now - blocked_since) @ ''s (threshold: '' @ vb_timeout policy @ '')'',
          tg_routing = vb_routing policy\<rparr>)))"

definition track_verified_blocked :: "itr_status \<Rightarrow> time \<Rightarrow> time option" where
  "track_verified_blocked status now =
     (if list_ex (\<lambda>c. c_type c = ''Verified'' \<and> c_status c = ''False'') (st_conditions (ds_core status))
      then (case is_verified_blocked_since status of Some at \<Rightarrow> Some at | None \<Rightarrow> Some now)
      else None)"

definition triggers_of :: "itr_status \<Rightarrow> effective_reactive_policy \<Rightarrow> time \<Rightarrow> trigger_record list" where
  "triggers_of status policy now =
     List.map_filter id [check_failure status (ef_failure policy), check_phase_timeout status (ef_phase_timeout policy) now,
       check_verified_blocked status (ef_verified_blocked policy) now]"

definition evaluate_reactive :: "itr_status option \<Rightarrow> effective_reactive_policy \<Rightarrow> time \<Rightarrow> escalation" where
  "evaluate_reactive status policy now =
     (case status of None \<Rightarrow> Healthy | Some s \<Rightarrow> pick_worst (triggers_of s policy now))"

section \<open>Delivery\<close>

fun action_name :: "reactive_action \<Rightarrow> string" where
  "action_name Alert = ''Alert''" | "action_name Suspend = ''Suspend''" | "action_name Page = ''Page''"

fun ntfy_priority :: "reactive_action \<Rightarrow> string" where
  "ntfy_priority Alert = ''default''" | "ntfy_priority Suspend = ''high''" | "ntfy_priority Page = ''urgent''"

fun ntfy_tags :: "reactive_action \<Rightarrow> string" where
  "ntfy_tags Alert = ''warning''" | "ntfy_tags Suspend = ''no_entry,warning''" | "ntfy_tags Page = ''rotating_light,red_circle''"

definition ntfy_url :: "string \<Rightarrow> string \<Rightarrow> string" where
  "ntfy_url base topic = trim_end_matches (\<lambda>c. c = CHR ''/'') base @ ''/'' @ topic"

datatype reactive_effect = Do effect | PostNtfy string string string string string

text \<open>Slack and GitHub are declared but not delivered; a failed delivery changes nothing.\<close>

definition deliver :: "string \<Rightarrow> reactive_action \<Rightarrow> string \<Rightarrow> string \<Rightarrow> approval_routing option \<Rightarrow> reactive_effect list" where
  "deliver base action title body routing =
     (case Option.bind routing ar_ntfy_topic of
        Some topic \<Rightarrow> [PostNtfy (ntfy_url base topic) (ntfy_priority action) (ntfy_tags action) title body]
      | None \<Rightarrow> [])"

section \<open>The stage\<close>

datatype frontier_answer = NoArtifactStore | FrontierUnreadable | Frontier "u64 option"

definition sample_apply_frontier :: "itr_status option \<Rightarrow> frontier_answer \<Rightarrow> u64 option" where
  "sample_apply_frontier status answer =
     (if Option.bind status (\<lambda>s. st_phase (ds_core s)) \<noteq> Some phase.Applying then None
      else (case answer of Frontier n \<Rightarrow> n | _ \<Rightarrow> None))"

definition is_awaiting_plan_approval :: "infrastructure_template \<Rightarrow> phase \<Rightarrow> bool" where
  "is_awaiting_plan_approval template current_phase =
     (if current_phase \<noteq> phase.Planning then False
      else (case Option.bind (it_status template) is_pending_plan_hash of
              None \<Rightarrow> False
            | Some pending_hash \<Rightarrow> \<not> is_plan_approved (it_status template) (it_approved_plan_hash template) pending_hash))"

definition next_auto_suspended :: "escalation \<Rightarrow> bool \<Rightarrow> bool \<Rightarrow> bool" where
  "next_auto_suspended escalation suspend_now prior = (if escalation = Healthy then False else suspend_now \<or> prior)"

definition phase_is_force_resettable :: "phase \<Rightarrow> bool" where
  "phase_is_force_resettable ph \<longleftrightarrow> ph \<in> {phase.Compiling, phase.Initializing, phase.Planning, phase.Applying}"

record reactive_answers =
  rx_workspace_policy :: "reactive_policy option"
  rx_frontier :: frontier_answer
  rx_patch_ok :: bool
  rx_queued :: bool
  rx_force_ok :: bool
  rx_ntfy_base :: string

definition with_healthy :: "condition list \<Rightarrow> bool \<Rightarrow> string \<Rightarrow> string \<Rightarrow> time \<Rightarrow> condition list" where
  "with_healthy conditions ok reason message now =
     (let status = (if ok then ''True'' else ''False'');
          transition = (case find (\<lambda>c. c_type c = ''Healthy'') conditions of
              Some p \<Rightarrow> if c_status p = status \<and> c_reason p = reason \<and> c_message p = message then c_last_transition_time p else now
            | None \<Rightarrow> now)
      in filter (\<lambda>c. c_type c \<noteq> ''Healthy'') conditions
         @ [\<lparr>c_type = ''Healthy'', c_status = status, c_last_transition_time = transition, c_reason = reason,
             c_message = message, c_observed_generation = None\<rparr>])"

definition same_observably :: "condition list \<Rightarrow> condition list \<Rightarrow> bool" where
  "same_observably prev new \<longleftrightarrow>
     length prev = length new
     \<and> list_all (\<lambda>(p, n). c_type p = c_type n \<and> c_status p = c_status n \<and> c_reason p = c_reason n
         \<and> c_message p = c_message n \<and> c_last_transition_time p = c_last_transition_time n) (zip prev new)"

definition reactive_policy_status_unchanged :: "itr_status \<Rightarrow> itr_status \<Rightarrow> bool" where
  "reactive_policy_status_unchanged prior new \<longleftrightarrow>
     same_observably (st_conditions (ds_core prior)) (st_conditions (ds_core new))
     \<and> is_verified_blocked_since prior = is_verified_blocked_since new
     \<and> is_auto_suspended prior = is_auto_suspended new
     \<and> is_last_escalated_at prior = is_last_escalated_at new
     \<and> is_last_escalation_reason prior = is_last_escalation_reason new
     \<and> is_apply_cursor_count prior = is_apply_cursor_count new
     \<and> is_apply_cursor_advanced_at prior = is_apply_cursor_advanced_at new"

text \<open>The status the stage judges: the snapshot with the clocks of this run.\<close>

definition clocked :: "reactive_answers \<Rightarrow> time \<Rightarrow> itr_status option \<Rightarrow> itr_status option" where
  "clocked q now status =
     map_option (\<lambda>s.
       (let (n, at) = track_apply_progress (is_apply_cursor_count s) (is_apply_cursor_advanced_at s)
              (sample_apply_frontier status (rx_frontier q)) now
        in s\<lparr>is_verified_blocked_since := track_verified_blocked s now, is_apply_cursor_count := n,
             is_apply_cursor_advanced_at := at\<rparr>)) status"

definition escalation_of :: "reactive_policy cascade_resolve \<Rightarrow> reactive_answers \<Rightarrow> reactive_policy option \<Rightarrow> time \<Rightarrow> itr_status option \<Rightarrow> escalation" where
  "escalation_of K q template_policy now status =
     evaluate_reactive (clocked q now status) (resolve_effective K template_policy (rx_workspace_policy q)) now"

text \<open>The status the stage wants to be stored. Without a status the sampled frontier is absent too,
  since no phase is Applying.\<close>

definition escalated_status :: "escalation \<Rightarrow> time \<Rightarrow> itr_status \<Rightarrow> itr_status \<Rightarrow> itr_status" where
  "escalated_status escalation now prior fresh =
     (let conditions = st_conditions (ds_core prior) in
      (case escalation of
         Healthy \<Rightarrow>
           fresh\<lparr>ds_core := (ds_core fresh)\<lparr>st_conditions := with_healthy conditions True ''NoEscalations'' ''no reactive policies have fired'' now\<rparr>,
             is_auto_suspended := False, is_last_escalation_reason := None\<rparr>
       | Triggered tg \<Rightarrow>
           fresh\<lparr>ds_core := (ds_core fresh)\<lparr>st_conditions := with_healthy conditions False (tg_reason tg) (tg_message tg) now\<rparr>,
             is_auto_suspended := next_auto_suspended escalation (tg_action tg = Suspend) (is_auto_suspended prior),
             is_last_escalated_at := Some now, is_last_escalation_reason := Some (tg_reason tg)\<rparr>))"

definition reactive_patch :: "itr_status \<Rightarrow> status_field list" where
  "reactive_patch s =
     [SConditions (st_conditions (ds_core s)), SVerifiedBlockedSince (is_verified_blocked_since s), SAutoSuspended (is_auto_suspended s),
      SLastEscalatedAt (is_last_escalated_at s), SLastEscalationReason (is_last_escalation_reason s),
      SApplyCursorCount (is_apply_cursor_count s), SApplyCursorAdvancedAt (is_apply_cursor_advanced_at s)]"

definition event_text :: "trigger_record \<Rightarrow> string" where
  "event_text tg = ''['' @ action_name (tg_action tg) @ ''] reason='' @ tg_reason tg @ '': '' @ tg_message tg"

text \<open>A new reason is announced once.\<close>

definition announce :: "reactive_answers \<Rightarrow> infrastructure_template \<Rightarrow> escalation \<Rightarrow> reactive_effect list" where
  "announce q template escalation =
     (case escalation of
        Healthy \<Rightarrow> []
      | Triggered tg \<Rightarrow>
          if is_last_escalation_reason (snapshot template) = Some (tg_reason tg) then []
          else Do (Event Warning ''ReactivePolicyTriggered'' (event_text tg))
            # deliver (rx_ntfy_base q) (tg_action tg)
                (''[pangea] '' @ action_name (tg_action tg) @ '': '' @ (case it_namespace template of Some n \<Rightarrow> n | None \<Rightarrow> [])
                   @ ''/'' @ it_name template) (event_text tg) (tg_routing tg))"

definition force_message :: "string \<Rightarrow> string" where
  "force_message reason =
     ''ReactivePolicy: '' @ reason @ '' '' @ em_dash @ '' forcing phase to Failed so handle_failed can recover (workspace clean + reset to Pending). Triggered after phase stuck past timeout threshold.''"

definition forces_reset :: "reactive_answers \<Rightarrow> infrastructure_template \<Rightarrow> escalation \<Rightarrow> bool" where
  "forces_reset q template escalation =
     (case escalation of
        Healthy \<Rightarrow> False
      | Triggered tg \<Rightarrow>
          is_last_escalation_reason (snapshot template) \<noteq> Some (tg_reason tg) \<and> starts_with (tg_reason tg) ''PhaseTimeout:''
          \<and> (case Option.bind (it_status template) (\<lambda>s. st_phase (ds_core s)) of
               None \<Rightarrow> False
             | Some current_phase \<Rightarrow>
                 phase_is_force_resettable current_phase \<and> \<not> rx_queued q \<and> \<not> is_awaiting_plan_approval template current_phase))"

definition force_reset :: "reactive_answers \<Rightarrow> infrastructure_template \<Rightarrow> escalation \<Rightarrow> reactive_effect list" where
  "force_reset q template escalation =
     (case escalation of
        Healthy \<Rightarrow> []
      | Triggered tg \<Rightarrow>
          if forces_reset q template escalation \<and> rx_force_ok q
          then [Do (Patch [SPhase (Some phase.Failed), SLastError (Some (force_message (tg_reason tg))),
                  SFailureCount (sat_add (is_failure_count (snapshot template)) 1)]),
                Do (Event Warning ''PhaseTimeoutForceReset'' (force_message (tg_reason tg)))]
          else [])"

definition apply_reactive_policy ::
    "reactive_policy cascade_resolve \<Rightarrow> reactive_answers \<Rightarrow> reactive_policy option \<Rightarrow> time \<Rightarrow> infrastructure_template \<Rightarrow> reactive_effect list" where
  "apply_reactive_policy K q template_policy now template =
     (let escalation = escalation_of K q template_policy now (it_status template);
          prior = snapshot template;
          fresh = (case clocked q now (it_status template) of Some s \<Rightarrow> s | None \<Rightarrow> itr_default);
          new = escalated_status escalation now prior fresh
      in announce q template escalation
         @ (if reactive_policy_status_unchanged prior new then []
            else if rx_patch_ok q then Do (Patch (reactive_patch new)) # force_reset q template escalation
            else []))"

section \<open>The worst trigger\<close>

lemma worst_of_max:
  "worst_of best xs \<in> set (best # xs) \<and> (\<forall>x \<in> set (best # xs). action_rank (tg_action x) \<le> action_rank (tg_action (worst_of best xs)))"
proof (induction xs arbitrary: best)
  case (Cons x xs)
  show ?case
    using Cons.IH [of x] Cons.IH [of best] by (auto intro: order.trans)
qed simp

lemma pick_worst_max:
  "pick_worst xs = Healthy \<longleftrightarrow> xs = []"
  "pick_worst xs = Triggered tg \<Longrightarrow> tg \<in> set xs"
  "pick_worst xs = Triggered tg \<Longrightarrow> x \<in> set xs \<Longrightarrow> action_rank (tg_action x) \<le> action_rank (tg_action tg)"
  using worst_of_max by (cases xs; auto)+

lemma check_failure_reason: "check_failure status policy = Some tg \<Longrightarrow> tg_reason tg = ''FailureEscalation''"
  by (auto simp: check_failure_def split: if_splits)

lemma check_verified_blocked_reason: "check_verified_blocked status policy now = Some tg \<Longrightarrow> tg_reason tg = ''VerifiedBlocked''"
  by (auto simp: check_verified_blocked_def bind_eq_Some_conv split: if_splits)

text \<open>A trigger named after a phase timeout comes from the check of that phase.\<close>

lemma timeout_trigger:
  assumes "evaluate_reactive (Some s) policy now = Triggered tg" "starts_with (tg_reason tg) ''PhaseTimeout:''"
  shows "check_phase_timeout s (ef_phase_timeout policy) now = Some tg"
proof -
  have "tg \<in> set (triggers_of s policy now)"
    using assms(1) pick_worst_max(2) by (simp add: evaluate_reactive_def)
  then consider "check_failure s (ef_failure policy) = Some tg" | "check_phase_timeout s (ef_phase_timeout policy) now = Some tg"
    | "check_verified_blocked s (ef_verified_blocked policy) now = Some tg"
    by (auto simp: triggers_of_def map_filter_simps split: option.splits)
  then show ?thesis
    using assms(2) by cases (auto dest: check_failure_reason check_verified_blocked_reason simp: starts_with_def)
qed

lemma phase_timeout_since:
  assumes "check_phase_timeout s policy now = Some tg"
  obtains ph entered lim threshold where "st_phase (ds_core s) = Some ph" "is_phase_entered_at s = Some entered"
    "timeout_of policy ph = Some lim" "chrono_threshold lim = Some threshold"
    "fst (liveness_witness s ph entered) + threshold \<le> now"
  using assms
  by (auto simp: check_phase_timeout_def bind_eq_Some_conv Let_def not_less split: prod.splits if_splits)

lemma timeout_phases: "timeout_of policy ph = Some lim \<Longrightarrow> ph \<in> {phase.Compiling, phase.Planning, phase.Applying}"
  by (cases ph) auto

section \<open>Only stuck phases are reset\<close>

lemma reactive_patch_no_phase: "SPhase x \<notin> set (reactive_patch s)"
  by (simp add: reactive_patch_def)

lemma announce_no_patch: "Do (Patch p) \<notin> set (announce q template escalation)"
  by (auto simp: announce_def deliver_def split: escalation.splits option.splits)

lemma phase_write_forced:
  assumes "Do (Patch p) \<in> set (apply_reactive_policy K q template_policy now template)" "SPhase x \<in> set p"
  shows "x = Some phase.Failed \<and> forces_reset q template (escalation_of K q template_policy now (it_status template))"
  using assms announce_no_patch reactive_patch_no_phase
  by (auto simp: apply_reactive_policy_def Let_def force_reset_def split: if_splits escalation.splits)

text \<open>The time a phase was last seen at work, as far as the stage can tell.\<close>

definition last_progress :: "reactive_answers \<Rightarrow> time \<Rightarrow> itr_status \<Rightarrow> time option" where
  "last_progress q now s =
     map_option (\<lambda>entered.
       (case sample_apply_frontier (Some s) (rx_frontier q) of
          Some n \<Rightarrow> if is_apply_cursor_count s \<noteq> Some n then max entered now
                     else (case is_apply_cursor_advanced_at s of Some a \<Rightarrow> max entered a | None \<Rightarrow> max entered now)
        | None \<Rightarrow> (case is_apply_cursor_advanced_at s of
                     Some a \<Rightarrow> if st_phase (ds_core s) = Some phase.Applying then max entered a else entered
                   | None \<Rightarrow> entered))) (is_phase_entered_at s)"

lemma clocked_keeps:
  assumes "clocked q now (Some s) = Some s'"
  shows "st_phase (ds_core s') = st_phase (ds_core s)" "is_phase_entered_at s' = is_phase_entered_at s"
  using assms by (auto simp: clocked_def Let_def split: prod.splits)

lemma clocked_progress:
  assumes "clocked q now (Some s) = Some s'" "st_phase (ds_core s) = Some ph" "is_phase_entered_at s = Some entered"
  shows "last_progress q now s = Some (fst (liveness_witness s' ph entered))"
  using assms
  by (auto simp: clocked_def Let_def last_progress_def liveness_witness_def track_apply_progress_def sample_apply_frontier_def max_def
      split: prod.splits option.splits if_splits frontier_answer.splits)

text \<open>C23: The self-healing reset hits stuck work only. The reactive stage writes a phase only to push a
  template from Compiling, Planning or Applying to Failed, and only if nothing showed progress for
  the threshold of that phase: it was entered that long ago, an apply has not landed a resource since,
  the template is not queued at the admission gate, and it is not waiting for the approval of its plan.\<close>

theorem reset_only_when_stuck:
  assumes "Do (Patch p) \<in> set (apply_reactive_policy K q template_policy now template)" "SPhase x \<in> set p"
  shows "x = Some phase.Failed \<and> \<not> rx_queued q
    \<and> (\<exists>s ph lim threshold at. it_status template = Some s \<and> st_phase (ds_core s) = Some ph
        \<and> ph \<in> {phase.Compiling, phase.Planning, phase.Applying} \<and> \<not> is_awaiting_plan_approval template ph
        \<and> timeout_of (ef_phase_timeout (resolve_effective K template_policy (rx_workspace_policy q))) ph = Some lim
        \<and> chrono_threshold lim = Some threshold \<and> last_progress q now s = Some at \<and> at + threshold \<le> now)"
proof -
  let ?policy = "resolve_effective K template_policy (rx_workspace_policy q)"
  let ?e = "escalation_of K q template_policy now (it_status template)"
  from phase_write_forced [OF assms] have x: "x = Some phase.Failed" and forced: "forces_reset q template ?e" by simp_all
  then obtain tg s ph where e: "?e = Triggered tg" and s: "it_status template = Some s" "st_phase (ds_core s) = Some ph"
    and reason: "starts_with (tg_reason tg) ''PhaseTimeout:''" and free: "\<not> rx_queued q" "\<not> is_awaiting_plan_approval template ph"
    by (auto simp: forces_reset_def bind_eq_Some_conv split: escalation.splits option.splits)
  obtain s' where s': "clocked q now (Some s) = Some s'" by (simp add: clocked_def)
  from e s s' have "evaluate_reactive (Some s') ?policy now = Triggered tg" by (simp add: escalation_of_def)
  from timeout_trigger [OF this reason] obtain ph' entered lim threshold where
    t: "st_phase (ds_core s') = Some ph'" "is_phase_entered_at s' = Some entered"
      "timeout_of (ef_phase_timeout ?policy) ph' = Some lim" "chrono_threshold lim = Some threshold"
      "fst (liveness_witness s' ph' entered) + threshold \<le> now"
    by (rule phase_timeout_since)
  have ph: "ph' = ph" and entered: "is_phase_entered_at s = Some entered" using clocked_keeps [OF s'] t s by auto
  from t(3,4,5) s x free clocked_progress [OF s' s(2) entered] timeout_phases [OF t(3)] show ?thesis
    unfolding ph by blast
qed

definition fold_cascade :: "'p cascade_resolve" where
  "fold_cascade merge layers d = foldl merge d (List.map_filter id layers)"

lemma fold_cascade_law: "cascade_law fold_cascade"
  by (simp add: cascade_law_def fold_cascade_def)

definition quiet_answers :: reactive_answers where
  "quiet_answers = \<lparr>rx_workspace_policy = None, rx_frontier = NoArtifactStore, rx_patch_ok = True, rx_queued = False,
     rx_force_ok = True, rx_ntfy_base = ''https://ntfy.sh''\<rparr>"

definition stuck_status :: itr_status where
  "stuck_status = itr_default\<lparr>ds_core := (ds_core itr_default)\<lparr>st_phase := Some phase.Planning\<rparr>, is_phase_entered_at := Some 0\<rparr>"

definition stuck_template :: infrastructure_template where
  "stuck_template = one_template\<lparr>it_status := Some stuck_status\<rparr>"

definition ten_minutes :: time where
  "ten_minutes = 600 * 10 ^ 9"

lemma ten_minutes_threshold: "chrono_threshold ''10m'' = Some ten_minutes"
  by (simp add: ten_minutes_def chrono_threshold_def parse_threshold_def str_trim_def trim_matches_def is_space_def strip_suffix_def
      parse_u64_def parse_digits_def is_ascii_digit_def from_secs_def)

lemmas stuck_defs = stuck_template_def stuck_status_def one_template_def itr_default_def driver_status.defs itr_status.defs
  status_default_def quiet_answers_def

lemma stuck_times_out:
  obtains tg where "check_phase_timeout stuck_status (ef_phase_timeout default_effective) ten_minutes = Some tg"
    "tg_reason tg = ''PhaseTimeout:Planning''"
  by (simp add: check_phase_timeout_def stuck_defs default_effective_def ten_minutes_threshold liveness_witness_def)

lemma stuck_escalates:
  obtains tg where "escalation_of fold_cascade quiet_answers None ten_minutes (Some stuck_status) = Triggered tg"
    "tg_reason tg = ''PhaseTimeout:Planning''"
proof -
  have clock: "clocked quiet_answers ten_minutes (Some stuck_status) = Some stuck_status"
    by (simp add: clocked_def stuck_defs track_verified_blocked_def track_apply_progress_def sample_apply_frontier_def)
  have policy: "resolve_effective fold_cascade None (rx_workspace_policy quiet_answers) = default_effective"
    by (simp add: resolve_effective_def fold_cascade_def map_filter_simps no_reactive_policy_def quiet_answers_def default_effective_def)
  have "check_failure stuck_status (ef_failure default_effective) = None"
    by (simp add: check_failure_def stuck_defs default_effective_def)
  moreover have "check_verified_blocked stuck_status (ef_verified_blocked default_effective) ten_minutes = None"
    by (simp add: check_verified_blocked_def stuck_defs)
  moreover obtain tg where "check_phase_timeout stuck_status (ef_phase_timeout default_effective) ten_minutes = Some tg"
    and reason: "tg_reason tg = ''PhaseTimeout:Planning''" by (rule stuck_times_out)
  ultimately have "triggers_of stuck_status default_effective ten_minutes = [tg]" by (simp add: triggers_of_def map_filter_simps)
  then have "escalation_of fold_cascade quiet_answers None ten_minutes (Some stuck_status) = Triggered tg"
    by (simp add: escalation_of_def evaluate_reactive_def clock policy)
  then show ?thesis using reason by (rule that)
qed

definition reset_patch :: "status_field list" where
  "reset_patch = [SPhase (Some phase.Failed), SLastError (Some (force_message ''PhaseTimeout:Planning'')), SFailureCount 1]"

lemma stuck_reset: "Do (Patch reset_patch) \<in> set (apply_reactive_policy fold_cascade quiet_answers None ten_minutes stuck_template)"
proof -
  obtain tg where e: "escalation_of fold_cascade quiet_answers None ten_minutes (Some stuck_status) = Triggered tg"
    and reason: "tg_reason tg = ''PhaseTimeout:Planning''" by (rule stuck_escalates)
  have t: "it_status stuck_template = Some stuck_status" "snapshot stuck_template = stuck_status"
    by (simp_all add: stuck_template_def snapshot_def)
  have quiet: "rx_patch_ok quiet_answers" "rx_force_ok quiet_answers" "\<not> rx_queued quiet_answers" by (simp_all add: quiet_answers_def)
  have "sat_add 0 1 = (1 :: u32)" by (simp add: sat_add_def)
  moreover have "is_failure_count stuck_status = 0" "is_last_escalation_reason stuck_status = None"
    "st_phase (ds_core stuck_status) = Some phase.Planning" "is_pending_plan_hash stuck_status = None"
    "is_last_escalated_at stuck_status = None" by (simp_all add: stuck_defs)
  ultimately show ?thesis using e reason t quiet
    by (simp add: apply_reactive_policy_def Let_def force_reset_def forces_reset_def reset_patch_def reactive_policy_status_unchanged_def
        escalated_status_def phase_is_force_resettable_def is_awaiting_plan_approval_def starts_with_def)
qed

theorem reset_only_when_stuck_witness:
  "Do (Patch reset_patch) \<in> set (apply_reactive_policy fold_cascade quiet_answers None ten_minutes stuck_template)
   \<and> \<not> rx_queued quiet_answers \<and> \<not> is_awaiting_plan_approval stuck_template phase.Planning"
  using reset_only_when_stuck [OF stuck_reset, of "Some phase.Failed"] stuck_reset
  by (auto simp: reset_patch_def stuck_template_def stuck_status_def)

end
