(* ===== verification/Compile_Inputs.thy ===== *)
theory Compile_Inputs
  imports Leaf_Dag Template_Handlers
begin

text \<open>
  What a compile is given (\<open>pangea-operator/src/controller/config_cascade.rs\<close>,
  \<open>template_dependency.rs\<close>, \<open>pangea-leaf/src/slice.rs\<close>, \<open>Dialect\<close> of
  \<open>crd/infrastructure_template.rs\<close>, and of \<open>template_controller.rs\<close> the checks of a source and the
  revision of a render): the inherited variables, the outputs of other templates, the slice of a
  leaf, and the revision under which the result is stored.

  A JSON object keeps the order of its keys, as \<open>serde_json\<close> does with \<open>preserve_order\<close>. BLAKE3 with
  its hexadecimal rendering is the parameter \<open>H\<close>.
\<close>

type_synonym variable_map = "(string, json) btmap"

section \<open>Inherited variables\<close>

function (sequential) deep_merge_value :: "json \<Rightarrow> json \<Rightarrow> json" where
  "deep_merge_value (JObj b) (JObj ov) =
     JObj (fold (\<lambda>(k, v) merged. set_key k (case map_of merged k of Some bv \<Rightarrow> deep_merge_value bv v | None \<Rightarrow> v) merged) ov b)"
| "deep_merge_value base over = over"
  by pat_completeness auto
termination
  by (relation "measure (\<lambda>(_, v). size v)") (auto dest: size_pair_in_list simp: less_Suc_eq)

definition layer_entry :: "string \<times> json \<Rightarrow> variable_map \<Rightarrow> variable_map" where
  "layer_entry kv acc = bm_insert (fst kv) (case bm_get acc (fst kv) of Some e \<Rightarrow> deep_merge_value e (snd kv) | None \<Rightarrow> snd kv) acc"

definition resolve_variables :: "variable_map list \<Rightarrow> variable_map" where
  "resolve_variables layers = fold (\<lambda>layer acc. fold layer_entry layer acc) layers []"

section \<open>Outputs of other templates\<close>

record dep_ref =
  dr_template :: string
  dr_output_key :: string
  dr_mock :: "json option"

record dependency_resolution =
  dp_resolved :: variable_map
  dp_mocked :: variable_map
  dp_unresolved_templates :: "string list"

definition all_variables :: "dependency_resolution \<Rightarrow> variable_map" where
  "all_variables r = fold (\<lambda>(k, v) m. bm_insert k v m) (dp_resolved r) (dp_mocked r)"

definition fully_satisfied :: "dependency_resolution \<Rightarrow> bool" where
  "fully_satisfied r \<longleftrightarrow> dp_unresolved_templates r = [] \<and> dp_mocked r = []"

type_synonym upstream_outputs = "(string, variable_map) btmap"

definition resolve_ref :: "upstream_outputs \<Rightarrow> string \<times> dep_ref \<Rightarrow> dependency_resolution \<Rightarrow> dependency_resolution" where
  "resolve_ref upstream vd out =
     (case Option.bind (bm_get upstream (dr_template (snd vd))) (\<lambda>o'. bm_get o' (dr_output_key (snd vd))) of
        Some v \<Rightarrow> out\<lparr>dp_resolved := bm_insert (fst vd) v (dp_resolved out)\<rparr>
      | None \<Rightarrow>
          (case dr_mock (snd vd) of
             Some mock \<Rightarrow> out\<lparr>dp_mocked := bm_insert (fst vd) mock (dp_mocked out)\<rparr>
           | None \<Rightarrow> out\<lparr>dp_unresolved_templates := bs_insert (dr_template (snd vd)) (dp_unresolved_templates out)\<rparr>))"

definition resolve_dependency_vars :: "(string, dep_ref) btmap \<Rightarrow> upstream_outputs \<Rightarrow> dependency_resolution" where
  "resolve_dependency_vars refs upstream =
     fold (resolve_ref upstream) refs \<lparr>dp_resolved = [], dp_mocked = [], dp_unresolved_templates = []\<rparr>"

definition dependency_edges :: "(string, dep_ref) btmap \<Rightarrow> string list" where
  "dependency_edges refs = bs_of_list (map (\<lambda>(_, d). dr_template d) refs)"

record variable_ref =
  vr_name :: string
  vr_namespace :: "string option"
  vr_output_key :: string
  vr_mock_output :: "json option"

text \<open>\<open>fetch\<close> is the answer of the API server: the outputs of the template of a name in a namespace, if
  there is such a template, its status can be read and has outputs.\<close>

definition gather_ref ::
    "(string \<Rightarrow> string \<Rightarrow> variable_map option) \<Rightarrow> string \<Rightarrow> string \<times> variable_ref
     \<Rightarrow> (string, dep_ref) btmap \<times> upstream_outputs \<Rightarrow> (string, dep_ref) btmap \<times> upstream_outputs" where
  "gather_ref fetch own_ns vr acc =
     (let r = snd vr;
          refs = bm_insert (fst vr) \<lparr>dr_template = vr_name r, dr_output_key = vr_output_key r, dr_mock = vr_mock_output r\<rparr> (fst acc)
      in if bm_get (snd acc) (vr_name r) \<noteq> None then (refs, snd acc)
         else (case fetch (case vr_namespace r of Some n \<Rightarrow> n | None \<Rightarrow> own_ns) (vr_name r) of
                 Some outs \<Rightarrow> (refs, bm_insert (vr_name r) outs (snd acc))
               | None \<Rightarrow> (refs, snd acc)))"

definition resolve_template_dependencies ::
    "(string \<Rightarrow> string \<Rightarrow> variable_map option) \<Rightarrow> (string, variable_ref) btmap \<Rightarrow> infrastructure_template \<Rightarrow> dependency_resolution" where
  "resolve_template_dependencies fetch refs template =
     (let (dep_refs, upstream) = fold (gather_ref fetch (case it_namespace template of Some n \<Rightarrow> n | None \<Rightarrow> ''default'')) refs ([], [])
      in resolve_dependency_vars dep_refs upstream)"

section \<open>The slice of a leaf\<close>

record slice_contract =
  sc_collection :: string
  sc_key :: "string option"
  sc_key_field :: "string option"

definition LEAF_COLLECTION_ANNOTATION :: string where
  "LEAF_COLLECTION_ANNOTATION = ''pangea.pleme.io/leaf-collection''"

definition LEAF_KEY_ANNOTATION :: string where
  "LEAF_KEY_ANNOTATION = ''pangea.pleme.io/leaf-key''"

definition LEAF_KEY_FIELD_ANNOTATION :: string where
  "LEAF_KEY_FIELD_ANNOTATION = ''pangea.pleme.io/leaf-key-field''"

definition trimmed_annotation :: "(string, string) btmap \<Rightarrow> string \<Rightarrow> string option" where
  "trimmed_annotation a k =
     (case bm_get a k of Some v \<Rightarrow> if str_trim v = [] then None else Some (str_trim v) | None \<Rightarrow> None)"

definition from_annotations :: "(string, string) btmap \<Rightarrow> slice_contract option" where
  "from_annotations a =
     map_option (\<lambda>collection. \<lparr>sc_collection = collection, sc_key = trimmed_annotation a LEAF_KEY_ANNOTATION,
         sc_key_field = trimmed_annotation a LEAF_KEY_FIELD_ANNOTATION\<rparr>)
       (trimmed_annotation a LEAF_COLLECTION_ANNOTATION)"

datatype slice_error =
    SliceMissing string
  | SliceNotOne string nat
  | NotACollection string
  | KeyMismatch string string

definition entry_key :: "json \<Rightarrow> string option \<Rightarrow> string option \<Rightarrow> string option" where
  "entry_key entry map_key field =
     (case field of Some f \<Rightarrow> Option.bind (jget entry f) as_str | None \<Rightarrow> map_key)"

fun slice_entries :: "json \<Rightarrow> (string option \<times> json) list option" where
  "slice_entries (JArr a) = Some (map (Pair None) a)"
| "slice_entries (JObj kvs) = Some (map (\<lambda>(k, e). (Some k, e)) kvs)"
| "slice_entries _ = None"

definition isolate :: "variable_map \<Rightarrow> variable_map \<Rightarrow> slice_contract \<Rightarrow> (slice_error, variable_map) result" where
  "isolate effective own contract =
     (let c = sc_collection contract in
      (case bm_get own c of
         None \<Rightarrow> Inl (SliceMissing c)
       | Some v \<Rightarrow>
           (case slice_entries v of
              None \<Rightarrow> Inl (NotACollection c)
            | Some entries \<Rightarrow>
                (let found = (case entries of (k, e) # _ \<Rightarrow> entry_key e k (sc_key_field contract) | [] \<Rightarrow> None) in
                 if length entries \<noteq> 1 then Inl (SliceNotOne c (length entries))
                 else (case (sc_key contract, found) of
                         (Some declared, Some f) \<Rightarrow>
                           if declared \<noteq> f then Inl (KeyMismatch declared f) else Inr (bm_insert c v effective)
                       | _ \<Rightarrow> Inr (bm_insert c v effective))))))"

definition isolate_slice :: "(string, string) btmap \<Rightarrow> variable_map \<Rightarrow> variable_map \<Rightarrow> (slice_error, variable_map) result" where
  "isolate_slice annotations own variables =
     (case from_annotations annotations of
        None \<Rightarrow> Inr variables
      | Some contract \<Rightarrow> isolate variables own contract)"

section \<open>Sources and their revisions\<close>

datatype dialect = Auto | Ruby | Lava | Json

datatype resolved_dialect = ResolvedRuby | ResolvedLava | ResolvedJson

fun resolve_dialect :: "dialect \<Rightarrow> string \<Rightarrow> resolved_dialect" where
  "resolve_dialect Ruby body = ResolvedRuby"
| "resolve_dialect Json body = ResolvedJson"
| "resolve_dialect Lava body = ResolvedLava"
| "resolve_dialect Auto body =
     (let head = dropWhile is_space body in
      if starts_with head ''{'' then ResolvedJson
      else if starts_with head ''('' then ResolvedLava
      else ResolvedRuby)"

record config_map_ref =
  cm_name :: string
  cm_key :: string
  cm_namespace :: "string option"

record git_repository =
  gr_url :: string
  gr_ref :: string
  gr_path :: string

text \<open>The fields of a template that compiling reads, beside those of \<open>infrastructure_template\<close>.\<close>

record compile_spec =
  cs_inline :: "string option"
  cs_config_map_ref :: "config_map_ref option"
  cs_git_repository :: "git_repository option"
  cs_template_name :: "string option"
  cs_dialect :: dialect
  cs_annotations :: "(string, string) btmap"
  cs_variables :: variable_map
  cs_variable_refs :: "(string, variable_ref) btmap"

definition names_a_catalogue_architecture :: "compile_spec \<Rightarrow> bool" where
  "names_a_catalogue_architecture spec \<longleftrightarrow> cs_template_name spec \<noteq> None \<and> cs_dialect spec \<in> {Lava, Auto}"

definition source_count :: "compile_spec \<Rightarrow> nat" where
  "source_count spec = length (filter id [cs_inline spec \<noteq> None, cs_config_map_ref spec \<noteq> None, cs_git_repository spec \<noteq> None])"

datatype source_error = NoSource | MultipleSources

definition validate_source :: "compile_spec \<Rightarrow> (source_error, unit) result" where
  "validate_source spec =
     (if source_count spec = 0 \<and> \<not> names_a_catalogue_architecture spec then Inl NoSource
      else if 1 < source_count spec then Inl MultipleSources
      else Inr ())"

definition content_revision :: "(string \<Rightarrow> string) \<Rightarrow> string \<Rightarrow> string" where
  "content_revision H content = ''cm:'' @ take 16 (H content)"

definition LEAF_DIGEST_ANNOTATION :: string where
  "LEAF_DIGEST_ANNOTATION = ''pangea.pleme.io/leaf-digest''"

definition unit_separator :: string where
  "unit_separator = [CHR 0x1F]"

definition render_revision_of :: "(string \<Rightarrow> string) \<Rightarrow> string \<Rightarrow> string option \<Rightarrow> string option \<Rightarrow> string \<Rightarrow> string" where
  "render_revision_of H content template_name leaf_digest build =
     content_revision H (join_with unit_separator
       [content, case template_name of Some n \<Rightarrow> n | None \<Rightarrow> ''~'', case leaf_digest of Some d \<Rightarrow> d | None \<Rightarrow> ''~'', build])"

definition render_revision :: "(string \<Rightarrow> string) \<Rightarrow> string \<Rightarrow> compile_spec \<Rightarrow> string \<Rightarrow> bool \<Rightarrow> string" where
  "render_revision H build spec content reuse_render =
     (if \<not> reuse_render then content_revision H content
      else render_revision_of H content (cs_template_name spec) (bm_get (cs_annotations spec) LEAF_DIGEST_ANNOTATION) build)"

text \<open>The answer of the API server to the read of a ConfigMap: an error, no such object, or its data.\<close>

datatype config_map_answer = CmError | CmGone | CmData "(string, string) btmap"

definition non_git_source_revision ::
    "(string \<Rightarrow> string) \<Rightarrow> string \<Rightarrow> bool \<Rightarrow> config_map_answer \<Rightarrow> compile_spec \<Rightarrow> (unit, string option) result" where
  "non_git_source_revision H build reuse_render cm spec =
     (let revision = (\<lambda>content. Inr (Some (render_revision H build spec content reuse_render))) in
      (case cs_inline spec of
         Some inline \<Rightarrow> revision inline
       | None \<Rightarrow>
           (case cs_config_map_ref spec of
              Some cm_ref \<Rightarrow>
                (case cm of
                   CmError \<Rightarrow> Inl ()
                 | CmGone \<Rightarrow> Inr None
                 | CmData data \<Rightarrow> (case bm_get data (cm_key cm_ref) of Some c \<Rightarrow> revision c | None \<Rightarrow> Inr None))
            | None \<Rightarrow>
                if reuse_render \<and> cs_git_repository spec = None \<and> cs_template_name spec \<noteq> None then revision []
                else Inr None)))"

fun rendered_config_is_current :: "string option \<Rightarrow> string option \<Rightarrow> bool" where
  "rendered_config_is_current (Some stored) (Some current) \<longleftrightarrow> stored = current"
| "rendered_config_is_current _ _ \<longleftrightarrow> False"

definition generation_invalidates_render :: "int \<Rightarrow> int \<Rightarrow> bool" where
  "generation_invalidates_render current_gen observed_gen \<longleftrightarrow> observed_gen < current_gen"

definition material_spec_invalidates_render :: "int \<Rightarrow> int \<Rightarrow> string option \<Rightarrow> string option \<Rightarrow> bool" where
  "material_spec_invalidates_render current_gen observed_gen current_digest observed_digest =
     (if \<not> generation_invalidates_render current_gen observed_gen then False
      else (case (current_digest, observed_digest) of
              (Some cur, Some obs) \<Rightarrow> cur \<noteq> obs
            | _ \<Rightarrow> True))"

datatype pending_route = RouteCompile | ReuseRender

definition pending_route_of :: "bool \<Rightarrow> bool \<Rightarrow> bool \<Rightarrow> bool \<Rightarrow> pending_route" where
  "pending_route_of reuse_render magma_db_backed compiled_at_current_revision render_available =
     (if reuse_render \<and> magma_db_backed \<and> compiled_at_current_revision \<and> render_available then ReuseRender else RouteCompile)"

section \<open>What a merge keeps\<close>

lemma map_of_update_key:
  "map_of (map (\<lambda>(k', v'). (k', if k' = k then v else v')) kvs) k' = (if k' = k then map_option (\<lambda>_. v) (map_of kvs k') else map_of kvs k')"
  by (induction kvs) auto

lemma map_of_set_key: "map_of (set_key k v kvs) k' = (if k' = k then Some v else map_of kvs k')"
proof (cases "k \<in> set (map fst kvs)")
  case True
  then have "map_of kvs k \<noteq> None" by (simp add: map_of_eq_None_iff)
  with True show ?thesis by (auto simp: set_key_def map_of_update_key)
next
  case False
  then have "map_of kvs k = None" by (simp add: map_of_eq_None_iff)
  with False show ?thesis by (auto simp: set_key_def map_add_def split: option.splits)
qed

lemma map_of_merge_fold:
  assumes "distinct (map fst ov)"
  shows "map_of (fold (\<lambda>(k, v) merged. set_key k (case map_of merged k of Some bv \<Rightarrow> f bv v | None \<Rightarrow> v) merged) ov b) k
    = (case map_of ov k of None \<Rightarrow> map_of b k | Some v \<Rightarrow> Some (case map_of b k of Some bv \<Rightarrow> f bv v | None \<Rightarrow> v))"
  using assms
proof (induction ov arbitrary: b)
  case (Cons kv ov)
  obtain k0 v0 where kv: "kv = (k0, v0)" by (cases kv)
  have "map_of ov k0 = None" using Cons.prems kv by (simp add: map_of_eq_None_iff)
  then show ?case using Cons kv by (auto simp: map_of_set_key split: option.splits)
qed simp

lemma deep_merge_lookup:
  assumes "distinct (map fst ov)"
  shows "jget (deep_merge_value (JObj b) (JObj ov)) k
    = (case map_of ov k of None \<Rightarrow> map_of b k
       | Some v \<Rightarrow> Some (case map_of b k of Some bv \<Rightarrow> deep_merge_value bv v | None \<Rightarrow> v))"
  using map_of_merge_fold [OF assms, of deep_merge_value b k] by simp

lemma deep_merge_replaces: "as_object v = None \<Longrightarrow> deep_merge_value base v = v"
  by (cases base; cases v) auto

text \<open>The value of a variable: the values of the layers that set it, merged outermost first.\<close>

fun merge_chain :: "json list \<Rightarrow> json option" where
  "merge_chain [] = None"
| "merge_chain (v # vs) = Some (foldl deep_merge_value v vs)"

lemma merge_chain_snoc: "merge_chain (vs @ [v]) = Some (case merge_chain vs of Some w \<Rightarrow> deep_merge_value w v | None \<Rightarrow> v)"
  by (cases vs) auto

lemma bm_get_layer:
  assumes "bm_wf layer"
  shows "bm_get (fold layer_entry layer acc) k
    = (case bm_get layer k of None \<Rightarrow> bm_get acc k
       | Some v \<Rightarrow> Some (case bm_get acc k of Some e \<Rightarrow> deep_merge_value e v | None \<Rightarrow> v))"
proof -
  have "bm_get (fold layer_entry layer acc) k
    = (case map_of layer k of None \<Rightarrow> bm_get acc k
       | Some v \<Rightarrow> Some (case bm_get acc k of Some e \<Rightarrow> deep_merge_value e v | None \<Rightarrow> v))"
    if "distinct (map fst layer)"
    using that
  proof (induction layer arbitrary: acc)
    case (Cons kv layer)
    obtain k0 v0 where kv: "kv = (k0, v0)" by (cases kv)
    have "map_of layer k0 = None" using Cons.prems kv by (simp add: map_of_eq_None_iff)
    then show ?case using Cons kv by (auto simp: layer_entry_def bm_get_insert split: option.splits)
  qed simp
  then show ?thesis using bm_wf_distinct [OF assms] by (simp add: bm_get_def)
qed

lemma resolve_variables_chain:
  assumes "\<forall>layer \<in> set layers. bm_wf layer"
  shows "bm_get (resolve_variables layers) k = merge_chain (List.map_filter (\<lambda>layer. bm_get layer k) layers)"
  using assms
proof (induction layers rule: rev_induct)
  case Nil
  then show ?case by (simp add: resolve_variables_def map_filter_simps)
next
  case (snoc layer layers)
  have "bm_get (resolve_variables (layers @ [layer])) k = (case bm_get layer k of None \<Rightarrow> bm_get (resolve_variables layers) k
      | Some v \<Rightarrow> Some (case bm_get (resolve_variables layers) k of Some e \<Rightarrow> deep_merge_value e v | None \<Rightarrow> v))"
  proof -
    have "resolve_variables (layers @ [layer]) = fold layer_entry layer (resolve_variables layers)" by (simp add: resolve_variables_def)
    then show ?thesis using snoc.prems bm_get_layer [of layer] by simp
  qed
  moreover have "List.map_filter (\<lambda>layer. bm_get layer k) (layers @ [layer])
      = List.map_filter (\<lambda>layer. bm_get layer k) layers @ (case bm_get layer k of Some v \<Rightarrow> [v] | None \<Rightarrow> [])"
    by (simp add: map_filter_def split: option.splits)
  ultimately show ?case using snoc by (auto simp: merge_chain_snoc split: option.splits)
qed

section \<open>What a reference resolves to\<close>

definition upstream_output :: "upstream_outputs \<Rightarrow> dep_ref \<Rightarrow> json option" where
  "upstream_output upstream d = Option.bind (bm_get upstream (dr_template d)) (\<lambda>o'. bm_get o' (dr_output_key d))"

lemma resolve_ref_step:
  "bm_get (dp_resolved (resolve_ref upstream (y, d) out)) x
     = (if x = y \<and> upstream_output upstream d \<noteq> None then upstream_output upstream d else bm_get (dp_resolved out) x)"
  "bm_get (dp_mocked (resolve_ref upstream (y, d) out)) x
     = (if x = y \<and> upstream_output upstream d = None \<and> dr_mock d \<noteq> None then dr_mock d else bm_get (dp_mocked out) x)"
  "set (dp_unresolved_templates (resolve_ref upstream (y, d) out))
     = set (dp_unresolved_templates out) \<union> (if upstream_output upstream d = None \<and> dr_mock d = None then {dr_template d} else {})"
  by (auto simp: resolve_ref_def upstream_output_def bm_get_insert split: option.splits)

lemma fold_resolve_ref_resolved:
  "distinct (map fst refs) \<Longrightarrow> bm_get (dp_resolved (fold (resolve_ref upstream) refs out)) x
      = (case Option.bind (map_of refs x) (upstream_output upstream) of Some v \<Rightarrow> Some v | None \<Rightarrow> bm_get (dp_resolved out) x)"
proof (induction refs arbitrary: out)
  case (Cons yd refs)
  obtain y d where yd: "yd = (y, d)" by (cases yd)
  have "map_of refs y = None" using Cons.prems yd by (simp add: map_of_eq_None_iff)
  with Cons show ?case by (cases "x = y"; cases "upstream_output upstream d") (simp_all add: yd resolve_ref_step(1) split: option.splits)
qed simp

lemma fold_resolve_ref_mocked:
  "distinct (map fst refs) \<Longrightarrow> bm_get (dp_mocked (fold (resolve_ref upstream) refs out)) x
      = (case map_of refs x of
           Some d \<Rightarrow> (if upstream_output upstream d = None \<and> dr_mock d \<noteq> None then dr_mock d else bm_get (dp_mocked out) x)
         | None \<Rightarrow> bm_get (dp_mocked out) x)"
proof (induction refs arbitrary: out)
  case (Cons yd refs)
  obtain y d where yd: "yd = (y, d)" by (cases yd)
  have "map_of refs y = None" using Cons.prems yd by (simp add: map_of_eq_None_iff)
  with Cons show ?case by (cases "x = y") (simp_all add: yd resolve_ref_step(2) split: option.splits)
qed simp

lemma fold_resolve_ref_unresolved:
  "set (dp_unresolved_templates (fold (resolve_ref upstream) refs out)) = set (dp_unresolved_templates out)
     \<union> dr_template ` {d \<in> snd ` set refs. upstream_output upstream d = None \<and> dr_mock d = None}"
proof (induction refs arbitrary: out)
  case (Cons yd refs)
  obtain y d where yd: "yd = (y, d)" by (cases yd)
  show ?case
    using Cons [of "resolve_ref upstream yd out"] by (auto simp: yd resolve_ref_step(3) split: if_splits)
qed simp

text \<open>A reference takes the real output if there is one, else its mock; a template is waited for
  exactly if one of its outputs is missing and has no mock.\<close>

lemma resolve_dependency_exact:
  assumes "bm_wf refs"
  shows "bm_get (dp_resolved (resolve_dependency_vars refs upstream)) x = Option.bind (bm_get refs x) (upstream_output upstream)"
    and "bm_get (dp_mocked (resolve_dependency_vars refs upstream)) x
      = Option.bind (bm_get refs x) (\<lambda>d. if upstream_output upstream d = None then dr_mock d else None)"
    and "set (dp_unresolved_templates (resolve_dependency_vars refs upstream))
      = dr_template ` {d \<in> snd ` set refs. upstream_output upstream d = None \<and> dr_mock d = None}"
proof -
  have d: "distinct (map fst refs)" using bm_wf_distinct [OF assms] by simp
  show "bm_get (dp_resolved (resolve_dependency_vars refs upstream)) x = Option.bind (bm_get refs x) (upstream_output upstream)"
    using fold_resolve_ref_resolved [OF d] by (simp add: resolve_dependency_vars_def bm_get_def [of refs] split: option.splits)
  show "bm_get (dp_mocked (resolve_dependency_vars refs upstream)) x
      = Option.bind (bm_get refs x) (\<lambda>d. if upstream_output upstream d = None then dr_mock d else None)"
    using fold_resolve_ref_mocked [OF d] by (simp add: resolve_dependency_vars_def bm_get_def [of refs] split: option.splits)
  show "set (dp_unresolved_templates (resolve_dependency_vars refs upstream))
      = dr_template ` {d \<in> snd ` set refs. upstream_output upstream d = None \<and> dr_mock d = None}"
    using fold_resolve_ref_unresolved by (simp add: resolve_dependency_vars_def)
qed

text \<open>The fetched outputs are filed under the name of the template alone: of two references to templates
  of one name in different namespaces, the second reads the outputs of the first.\<close>

definition two_namespaces :: "(string, variable_ref) btmap" where
  "two_namespaces =
     [(''a'', \<lparr>vr_name = ''vpc'', vr_namespace = Some ''blue'', vr_output_key = ''id'', vr_mock_output = None\<rparr>),
      (''b'', \<lparr>vr_name = ''vpc'', vr_namespace = Some ''green'', vr_output_key = ''id'', vr_mock_output = None\<rparr>)]"

lemma namespaces_confused:
  "dp_resolved (resolve_template_dependencies (\<lambda>ns _. Some [(''id'', JStr ns)]) two_namespaces template)
     = [(''a'', JStr ''blue''), (''b'', JStr ''blue'')]"
  by (simp add: two_namespaces_def resolve_template_dependencies_def gather_ref_def resolve_dependency_vars_def resolve_ref_def bm_get_def)

section \<open>A leaf sees its own entry\<close>

lemma isolate_exact:
  assumes "isolate effective own contract = Inr variables"
  shows "\<exists>v k e. bm_get own (sc_collection contract) = Some v \<and> slice_entries v = Some [(k, e)]
      \<and> (\<forall>declared found. sc_key contract = Some declared \<and> entry_key e k (sc_key_field contract) = Some found \<longrightarrow> found = declared)
      \<and> bm_get variables (sc_collection contract) = Some v"
    and "x \<noteq> sc_collection contract \<Longrightarrow> bm_get variables x = bm_get effective x"
proof -
  from assms obtain v entries where v: "bm_get own (sc_collection contract) = Some v" "slice_entries v = Some entries" "length entries = 1"
    by (auto simp: isolate_def Let_def split: option.splits if_splits list.splits)
  then obtain k e where e: "entries = [(k, e)]" by (cases entries) auto
  from assms v e have key: "\<forall>declared found. sc_key contract = Some declared \<and> entry_key e k (sc_key_field contract) = Some found \<longrightarrow> found = declared"
    and variables: "variables = bm_insert (sc_collection contract) v effective"
    by (auto simp: isolate_def Let_def split: option.splits if_splits)
  from v e key variables show "\<exists>v k e. bm_get own (sc_collection contract) = Some v \<and> slice_entries v = Some [(k, e)]
      \<and> (\<forall>declared found. sc_key contract = Some declared \<and> entry_key e k (sc_key_field contract) = Some found \<longrightarrow> found = declared)
      \<and> bm_get variables (sc_collection contract) = Some v"
    by (auto simp: bm_get_insert)
  show "x \<noteq> sc_collection contract \<Longrightarrow> bm_get variables x = bm_get effective x"
    using variables by (simp add: bm_get_insert)
qed

end
