(* ===== verification/Compiling.thy ===== *)
theory Compiling
  imports Applying Reactive Compile_Inputs
begin

text \<open>
  The phases before a plan (\<open>pangea-operator/src/controller/template_controller.rs\<close>): Pending, Compiling
  with the handling of a failed compile, Initializing, and CompileBlocked, and the test whether a
  stored render may be used again.

  The compiler backend, the git client, the artifact store and the reads of other objects are answers
  of the outside. BLAKE3 is \<open>H\<close>, the parser of JSON texts \<open>J\<close>, and the identity of the build is the text
  \<open>build\<close>. Timers of metrics are left out. Durations are whole milliseconds; a remaining wait is rounded
  up to one.
\<close>

section \<open>Effects and errors of a phase\<close>

record compile_request =
  cr_source :: "string option"
  cr_variables :: variable_map
  cr_template_name :: "string option"
  cr_template_path :: "string option"
  cr_rubylib_paths :: "string list"

datatype phase_effect =
    Step apply_effect
  | React reactive_effect
  | CloneRepo string string
  | RunCompiler compile_request
  | PutRenderedConfig json "string option"
  | WriteMainTf string
  | ObserveError string string
  | EmitAnomaly anomaly_summary
  | DropClone
  | RunInit
  | RunDestroy
  | DeleteWorkspace
  | SetFinalizers "string list"

datatype phase_error =
    Handler handler_error
  | Invalid_Source source_error
  | Config_Map_Unreadable
  | Config_Map_Key_Missing
  | Clone_Failed
  | Template_File_Missing
  | Slice_Invalid slice_error
  | Secret_Not_Found
  | Compilation string
  | Render_Not_Json
  | Store_Failed
  | Tofu_Forbidden
  | Namespace_Not_Found
  | Backend_Config_Failed
  | Init_Errored
  | Destroy_Errored
  | Api_Failed
  | Panicked

type_synonym 'a phased = "phase_effect list \<times> (phase_error, 'a) result"

definition lift_applied :: "'a applied \<Rightarrow> 'a phased" where
  "lift_applied m = (map Step (fst m), map_sum Handler id (snd m))"

definition lift_planned :: "'a planned \<Rightarrow> 'a phased" where
  "lift_planned m = lift_applied (ctl m)"

definition lift_handled :: "'a handled \<Rightarrow> 'a phased" where
  "lift_handled m = lift_planned (basic m)"

definition pure :: "'a \<Rightarrow> 'a phased" where
  "pure x = ([], Inr x)"

definition raise :: "phase_error \<Rightarrow> 'a phased" where
  "raise e = ([], Inl e)"

definition acts :: "phase_effect list \<Rightarrow> unit phased" where
  "acts fx = (fx, Inr ())"

definition ensure :: "bool \<Rightarrow> phase_error \<Rightarrow> unit phased" where
  "ensure ok e = (if ok then pure () else raise e)"

definition basic_effect :: "effect \<Rightarrow> phase_effect" where
  "basic_effect e = Step (Ctl (Basic e))"

definition enter_phase :: "env \<Rightarrow> infrastructure_template \<Rightarrow> phase \<Rightarrow> unit phased" where
  "enter_phase env template ph = lift_handled (to_phase env template ph (return ()))"

definition enter_failed :: "env \<Rightarrow> infrastructure_template \<Rightarrow> string \<Rightarrow> unit phased" where
  "enter_failed env template msg = lift_handled (to_failed env template msg (return ()))"

definition tell :: "event_type \<Rightarrow> string \<Rightarrow> string \<Rightarrow> unit phased" where
  "tell ty reason msg = acts [basic_effect (Event ty reason msg)]"

text \<open>A status patch whose failure is only logged.\<close>

definition try_patch :: "bool \<Rightarrow> status_field list \<Rightarrow> unit phased" where
  "try_patch ok p = acts (if ok then [basic_effect (Patch p)] else [])"

section \<open>Reusing a render\<close>

record render_answers =
  ra_reuse_render :: bool
  ra_magma :: bool
  ra_store :: bool
  ra_build :: string
  ra_config_map :: config_map_answer
  ra_config_map_again :: config_map_answer
  ra_rendered :: "(unit, bool) result"
  ra_rendered_revision :: "(unit, string option) result"

definition magma_db_backed :: "render_answers \<Rightarrow> bool" where
  "magma_db_backed q \<longleftrightarrow> ra_magma q \<and> ra_store q"

definition observed_generation_of :: "infrastructure_template \<Rightarrow> int" where
  "observed_generation_of template = acknowledged (ds_core (snapshot template))"

definition current_generation_of :: "infrastructure_template \<Rightarrow> int" where
  "current_generation_of template = (case it_generation template of Some g \<Rightarrow> g | None \<Rightarrow> 0)"

definition compiled_config_available ::
    "(string \<Rightarrow> string) \<Rightarrow> render_answers \<Rightarrow> config_map_answer \<Rightarrow> compile_spec \<Rightarrow> infrastructure_template \<Rightarrow> bool
     \<Rightarrow> (phase_error, bool) result" where
  "compiled_config_available H q cm spec template main_tf_on_disk =
     (if \<not> magma_db_backed q then Inr main_tf_on_disk
      else if generation_invalidates_render (current_generation_of template) (observed_generation_of template) then Inr False
      else (case ra_rendered q of
              Inl _ \<Rightarrow> Inl Store_Failed
            | Inr False \<Rightarrow> Inr False
            | Inr True \<Rightarrow>
                (case ra_rendered_revision q of
                   Inl _ \<Rightarrow> Inl Store_Failed
                 | Inr stored \<Rightarrow>
                     (case non_git_source_revision H (ra_build q) (ra_reuse_render q) cm spec of
                        Inl _ \<Rightarrow> Inl Config_Map_Unreadable
                      | Inr revision \<Rightarrow>
                          Inr (rendered_config_is_current stored
                            (case revision of Some r \<Rightarrow> Some r | None \<Rightarrow> ds_compiled_revision (snapshot template)))))))"

section \<open>Pending\<close>

definition result_of :: "('e, 'a) result \<Rightarrow> ('e \<Rightarrow> phase_error) \<Rightarrow> 'a phased" where
  "result_of r f = ([], map_sum f id r)"

definition handle_pending :: "env \<Rightarrow> (string \<Rightarrow> string) \<Rightarrow> render_answers \<Rightarrow> compile_spec \<Rightarrow> infrastructure_template \<Rightarrow> reconcile_action phased" where
  "handle_pending env H q spec template =
     chain (result_of (validate_source spec) Invalid_Source) (\<lambda>_.
     chain (if ra_reuse_render q \<and> magma_db_backed q
            then result_of (non_git_source_revision H (ra_build q) (ra_reuse_render q) (ra_config_map q) spec) (\<lambda>_. Config_Map_Unreadable)
            else pure None) (\<lambda>current.
     (let compiled_at_current = (current \<noteq> None \<and> current = ds_compiled_revision (snapshot template)) in
      chain (if compiled_at_current then result_of (compiled_config_available H q (ra_config_map_again q) spec template False) id
             else pure False) (\<lambda>render_available.
      chain (enter_phase env template
          (case pending_route_of (ra_reuse_render q) (magma_db_backed q) compiled_at_current render_available of
             ReuseRender \<Rightarrow> phase.Planning
           | RouteCompile \<Rightarrow> phase.Compiling)) (\<lambda>_.
      pure (Requeue SHORT_REQUEUE_INTERVAL))))))"

section \<open>A failed compile\<close>

definition evaluate_compile_failure_escalation :: "u32 \<Rightarrow> u32 \<Rightarrow> u32 \<times> bool" where
  "evaluate_compile_failure_escalation prior limit =
     (let n = sat_add prior 1 in (n, 0 < limit \<and> limit \<le> n))"

definition elapsed_since :: "time \<Rightarrow> time option \<Rightarrow> std_duration" where
  "elapsed_since now at = (case at of Some since \<Rightarrow> nat ((now - since) div 10 ^ 6) | None \<Rightarrow> 0)"

definition duration_unready :: "time \<Rightarrow> infrastructure_template \<Rightarrow> std_duration" where
  "duration_unready now template =
     elapsed_since now (Option.bind (it_status template) (\<lambda>s.
       case is_last_applied_at s of Some at \<Rightarrow> Some at | None \<Rightarrow> is_phase_entered_at s))"

record failure_answers =
  fa_tracker :: recurrence_tracker
  fa_monotonic :: time
  fa_invalidated :: "(string, unit) result"
  fa_patch_ok :: bool

definition compile_limit :: "infrastructure_template \<Rightarrow> u32" where
  "compile_limit template = (case it_settling_policy template of Some p \<Rightarrow> sp_max_consecutive_drift_cycles p | None \<Rightarrow> 5)"

definition escalation_message :: "u32 \<Rightarrow> u32 \<Rightarrow> string \<Rightarrow> escalation_action \<Rightarrow> std_duration \<Rightarrow> string" where
  "escalation_message n limit err_msg action unready =
     ''Compile has failed '' @ show_nat (unat n) @ '' consecutive times (settlingPolicy.maxConsecutiveDriftCycles=''
     @ show_nat (unat limit) @ ''). Last error: '' @ err_msg @ ''. Recovery ladder recommends '' @ apostrophe @ action_label action
     @ apostrophe @ '' (depth '' @ show_nat (action_depth action) @ '', after '' @ show_nat (as_secs unready)
     @ ''s unready). Parked in CompileBlocked: compile retries on backoff and resumes automatically once the source compiles (push a fixing commit, restore the missing gem, etc.).''"

definition handler_error_outcome :: "escalation_action \<Rightarrow> string \<Rightarrow> escalation_outcome" where
  "handler_error_outcome action e =
     \<lparr>eo_status_patch = [], eo_event_reason = ''EscalationLadderHandlerError'',
      eo_event_message = ''Recovery action '' @ apostrophe @ action_label action @ apostrophe @ '' handler failed: '' @ e\<rparr>"

definition blank_line :: string where
  "blank_line = newline @ newline"

definition template_key :: "infrastructure_template \<Rightarrow> string" where
  "template_key template = (case it_namespace template of Some n \<Rightarrow> n | None \<Rightarrow> []) @ ''/'' @ it_name template"

text \<open>What the ladder makes of an escalated failure: the effects of its handler, the patch and the event.\<close>

definition compile_blocked_effects ::
    "env \<Rightarrow> failure_answers \<Rightarrow> infrastructure_template \<Rightarrow> string \<Rightarrow> string \<Rightarrow> u32 \<Rightarrow> u32 \<Rightarrow> phase_effect list" where
  "compile_blocked_effects env q template err_msg signature n limit =
     (let unready = duration_unready (en_now env) template;
          action = pick pangea_default_ladder unready;
          msg = escalation_message n limit err_msg action unready;
          ctx = \<lparr>ec_template = template, ec_action = action, ec_duration_unready = unready, ec_consecutive_failures = n,
                 ec_last_error = err_msg, ec_error_signature = signature\<rparr>;
          out = (case handler_for (fa_invalidated q) action ctx of Inr o' \<Rightarrow> o' | Inl e \<Rightarrow> handler_error_outcome action e)
      in (if action = RefreshSource then [DropClone] else [])
         @ (if fa_patch_ok q
            then [basic_effect (Patch ([SPhase (Some phase.CompileBlocked), SPhaseEnteredAt (Some (en_now env)), SConsecutiveCompileFailures n,
                    SLastError (Some msg)] @ eo_status_patch out))]
            else [])
         @ [basic_effect (Event Warning (eo_event_reason out) (msg @ blank_line @ eo_event_message out))])"

definition handle_compile_failure :: "env \<Rightarrow> (string \<Rightarrow> string) \<Rightarrow> failure_answers \<Rightarrow> infrastructure_template \<Rightarrow> string \<Rightarrow> unit phased" where
  "handle_compile_failure env H q template err_msg =
     (let limit = compile_limit template;
          (n, escalate) = evaluate_compile_failure_escalation (is_consecutive_compile_failures (snapshot template)) limit;
          action = pick pangea_default_ladder (duration_unready (en_now env) template);
          signature = error_signature H err_msg;
          seen = fst (observe_recurrence (fa_tracker q) (fa_monotonic q) (template_key template) signature)
      in chain (acts [ObserveError (template_key template) signature,
             EmitAnomaly (compose_summary seen (action_label action) (action_depth action) None),
             basic_effect (Inc ''compile_failures_total'' []),
             basic_effect (SetGauge ''consecutive_compile_failures'' (uint n))]) (\<lambda>_.
         if escalate then acts (compile_blocked_effects env q template err_msg signature n limit)
         else try_patch (fa_patch_ok q) [SConsecutiveCompileFailures n,
             SLastError (Some (''Compile failed (attempt '' @ show_nat (unat n) @ ''/'' @ show_nat (unat limit) @ ''): '' @ err_msg))]))"

definition reset_compile_failure_counter :: "bool \<Rightarrow> infrastructure_template \<Rightarrow> unit phased" where
  "reset_compile_failure_counter patch_ok template =
     chain (acts [basic_effect (SetGauge ''consecutive_compile_failures'' 0)]) (\<lambda>_.
     if is_consecutive_compile_failures (snapshot template) = 0 then pure ()
     else try_patch patch_ok [SConsecutiveCompileFailures 0])"

section \<open>Compiling\<close>

definition GIT_SOURCE_SENTINEL :: string where
  "GIT_SOURCE_SENTINEL = [CHR 0x00] @ ''PATH'' @ [CHR 0x00]"

definition GIT_RUBYLIB_SEPARATOR :: string where
  "GIT_RUBYLIB_SEPARATOR = [CHR 0x00] @ ''RUBYLIB'' @ [CHR 0x00]"

definition compile_front_end :: "compile_spec \<Rightarrow> string \<Rightarrow> resolved_dialect" where
  "compile_front_end spec content =
     (if starts_with content GIT_SOURCE_SENTINEL then ResolvedRuby else resolve_dialect (cs_dialect spec) content)"

text \<open>\<open>str::split_once\<close> with a text.\<close>

fun split_once_str :: "string \<Rightarrow> string \<Rightarrow> (string \<times> string) option" where
  "split_once_str sep [] = (if sep = [] then Some ([], []) else None)"
| "split_once_str sep (c # cs) =
     (if starts_with (c # cs) sep then Some ([], drop (length sep) (c # cs))
      else map_option (\<lambda>(a, b). (c # a, b)) (split_once_str sep cs))"

definition path_join :: "string \<Rightarrow> string \<Rightarrow> string" where
  "path_join base p = (if starts_with p ''/'' then p else base @ ''/'' @ p)"

text \<open>The secrets are those of the provider credentials, in order: none of that name, no data, or data.\<close>

record compile_answers =
  ca_render :: render_answers
  ca_failure :: failure_answers
  ca_git_credential_ok :: bool
  ca_clone :: "(unit, string) result"
  ca_template_is_file :: bool
  ca_repo_dir :: string
  ca_ns_defaults :: variable_map
  ca_ws_defaults :: variable_map
  ca_fetch :: "string \<Rightarrow> string \<Rightarrow> variable_map option"
  ca_provider_secrets :: "(string, string) btmap option option list"
  ca_secret_variables :: "(string \<times> string) list option"
  ca_compile :: "compile_request \<Rightarrow> (string, string) result"
  ca_put_ok :: bool
  ca_write_ok :: bool
  ca_reset_ok :: bool

text \<open>The body of the template and, for a git source, the commit it is of.\<close>

definition source_body :: "compile_answers \<Rightarrow> compile_spec \<Rightarrow> (string \<times> string option) phased" where
  "source_body q spec =
     (case cs_inline spec of
        Some inline \<Rightarrow> pure (inline, None)
      | None \<Rightarrow>
          (case cs_config_map_ref spec of
             Some cm_ref \<Rightarrow>
               (case ra_config_map (ca_render q) of
                  CmData data \<Rightarrow>
                    (case bm_get data (cm_key cm_ref) of Some c \<Rightarrow> pure (c, None) | None \<Rightarrow> raise Config_Map_Key_Missing)
                | _ \<Rightarrow> raise Config_Map_Unreadable)
           | None \<Rightarrow>
               (case cs_git_repository spec of
                  Some git \<Rightarrow>
                    chain (ensure (ca_git_credential_ok q) (Handler Credentials_Failed)) (\<lambda>_.
                    chain (acts [CloneRepo (gr_url git) (gr_ref git)]) (\<lambda>_.
                    case ca_clone q of
                      Inl _ \<Rightarrow> raise Clone_Failed
                    | Inr head \<Rightarrow>
                        if \<not> ca_template_is_file q then raise Template_File_Missing
                        else pure (GIT_SOURCE_SENTINEL @ path_join (ca_repo_dir q) (gr_path git) @ GIT_RUBYLIB_SEPARATOR
                          @ path_join (ca_repo_dir q) ''lib'', Some head)))
                | None \<Rightarrow> if names_a_catalogue_architecture spec then pure ([], None) else raise (Invalid_Source NoSource))))"

definition add_secret :: "(string, string) btmap option \<Rightarrow> variable_map \<Rightarrow> variable_map" where
  "add_secret data variables =
     (case data of
        None \<Rightarrow> variables
      | Some kvs \<Rightarrow> fold (\<lambda>(k, v) vars. if bm_get vars k = None then bm_insert k (JStr v) vars else vars) kvs variables)"

definition insert_all :: "(string \<times> json) list \<Rightarrow> variable_map \<Rightarrow> variable_map" where
  "insert_all kvs variables = fold (\<lambda>(k, v) vars. bm_insert k v vars) kvs variables"

text \<open>The variables of a compile; no value means that an upstream template is waited for.\<close>

definition compile_variables :: "compile_answers \<Rightarrow> compile_spec \<Rightarrow> infrastructure_template \<Rightarrow> variable_map option phased" where
  "compile_variables q spec template =
     chain (result_of (isolate_slice (cs_annotations spec) (cs_variables spec)
         (resolve_variables [ca_ns_defaults q, ca_ws_defaults q, cs_variables spec])) Slice_Invalid) (\<lambda>variables.
     (let resolution = resolve_template_dependencies (ca_fetch q) (cs_variable_refs spec) template in
      if cs_variable_refs spec \<noteq> [] \<and> dp_unresolved_templates resolution \<noteq> [] then pure None
      else
        (let variables = (if cs_variable_refs spec = [] then variables else insert_all (all_variables resolution) variables) in
         if None \<in> set (ca_provider_secrets q) then raise Secret_Not_Found
         else (case ca_secret_variables q of
                 None \<Rightarrow> raise Secret_Not_Found
               | Some kvs \<Rightarrow>
                   pure (Some (insert_all (map (\<lambda>(k, v). (k, JStr v)) kvs)
                     (fold add_secret (List.map_filter id (ca_provider_secrets q)) variables)))))))"

definition compile_request_of :: "compile_spec \<Rightarrow> string \<Rightarrow> variable_map \<Rightarrow> compile_request" where
  "compile_request_of spec content variables =
     (case strip_prefix content GIT_SOURCE_SENTINEL of
        Some path \<Rightarrow>
          (let (template_path, rubylib) = (case split_once_str GIT_RUBYLIB_SEPARATOR path of
                 Some (tp, rl) \<Rightarrow> (tp, [rl]) | None \<Rightarrow> (path, []))
           in \<lparr>cr_source = None, cr_variables = variables, cr_template_name = cs_template_name spec,
               cr_template_path = Some template_path, cr_rubylib_paths = rubylib\<rparr>)
      | None \<Rightarrow>
          \<lparr>cr_source = Some content, cr_variables = variables, cr_template_name = cs_template_name spec,
           cr_template_path = None, cr_rubylib_paths = []\<rparr>)"

text \<open>The rendered text; no value means that an upstream template is waited for.\<close>

definition render :: "env \<Rightarrow> (string \<Rightarrow> string) \<Rightarrow> compile_answers \<Rightarrow> compile_spec \<Rightarrow> infrastructure_template \<Rightarrow> string \<Rightarrow> string option phased" where
  "render env H q spec template content =
     (if compile_front_end spec content = ResolvedJson then pure (Some content)
      else
        chain (compile_variables q spec template) (\<lambda>vars.
        case vars of
          None \<Rightarrow> pure None
        | Some variables \<Rightarrow>
            (let request = compile_request_of spec content variables in
             chain (acts [RunCompiler request]) (\<lambda>_.
             case ca_compile q request of
               Inr terraform_json \<Rightarrow> pure (Some terraform_json)
             | Inl e \<Rightarrow>
                 chain (handle_compile_failure env H (ca_failure q) template e) (\<lambda>_.
                 raise (Compilation (''Compile failed: '' @ e)))))))"

definition store_render :: "(string \<Rightarrow> json option) \<Rightarrow> compile_answers \<Rightarrow> string \<Rightarrow> string option \<Rightarrow> unit phased" where
  "store_render J q terraform_json revision =
     (if magma_db_backed (ca_render q)
      then (case J terraform_json of
              None \<Rightarrow> raise Render_Not_Json
            | Some v \<Rightarrow>
                chain (acts [PutRenderedConfig v revision]) (\<lambda>_. ensure (ca_put_ok q) Store_Failed))
      else chain (acts [WriteMainTf terraform_json]) (\<lambda>_. ensure (ca_write_ok q) (Handler Workspace_Failed)))"

definition handle_compiling ::
    "env \<Rightarrow> (string \<Rightarrow> string) \<Rightarrow> (string \<Rightarrow> json option) \<Rightarrow> compile_answers \<Rightarrow> compile_spec \<Rightarrow> infrastructure_template \<Rightarrow> reconcile_action phased" where
  "handle_compiling env H J q spec template =
     chain (ensure (en_workspace_ok env) (Handler Workspace_Failed)) (\<lambda>_.
     chain (source_body q spec) (\<lambda>(content, head).
     (let revision = (case head of
            Some sha \<Rightarrow> Some sha
          | None \<Rightarrow> Some (render_revision H (ra_build (ca_render q)) spec content (ra_reuse_render (ca_render q)))) in
      chain (render env H q spec template content) (\<lambda>rendered.
      case rendered of
        None \<Rightarrow> pure (Requeue SHORT_REQUEUE_INTERVAL)
      | Some terraform_json \<Rightarrow>
          chain (store_render J q terraform_json revision) (\<lambda>_.
          chain (reset_compile_failure_counter (ca_reset_ok q) template) (\<lambda>_.
          chain (lift_handled (write_status (en_ok env Compiled_Writer)
              (update_compiled_revision template revision (en_now env)) (return ()))) (\<lambda>_.
          chain (enter_phase env template phase.Initializing) (\<lambda>_.
          chain (tell Normal ''Compiled'' ''Template source resolved and written to workspace'') (\<lambda>_.
          pure (Requeue SHORT_REQUEUE_INTERVAL))))))))))"

section \<open>Initializing\<close>

text \<open>The executor of the template (\<open>executor_for_checked\<close> refuses tofu where it is forbidden), and what
  the namespace, the backend, the provider configuration, the secret files and \<open>init\<close> answer; the
  backend and the provider configuration are absent when the objects do not ask for them.\<close>

record init_answers =
  ia_executor :: "(unit, bool) result"
  ia_namespace_found :: bool
  ia_backend :: "bool option"
  ia_provider_config :: "bool option"
  ia_secret_files :: bool
  ia_init :: "(bool \<times> string) option"

definition handle_initializing :: "env \<Rightarrow> init_answers \<Rightarrow> infrastructure_template \<Rightarrow> reconcile_action phased" where
  "handle_initializing env q template =
     (case ia_executor q of
        Inl _ \<Rightarrow> raise Tofu_Forbidden
      | Inr magma_active \<Rightarrow>
          chain (ensure (en_workspace_ok env) (Handler Workspace_Failed)) (\<lambda>_.
          chain (ensure (ia_namespace_found q) Namespace_Not_Found) (\<lambda>_.
          chain (ensure (magma_active \<or> ia_backend q \<noteq> Some False) Backend_Config_Failed) (\<lambda>_.
          chain (ensure (magma_active \<or> ia_provider_config q \<noteq> Some False) Backend_Config_Failed) (\<lambda>_.
          chain (ensure (magma_active \<or> ia_secret_files q) Secret_Not_Found) (\<lambda>_.
          chain (acts [RunInit]) (\<lambda>_.
          case ia_init q of
            None \<Rightarrow> raise Init_Errored
          | Some (success, stderr) \<Rightarrow>
              chain (if success
                     then chain (enter_phase env template phase.Planning) (\<lambda>_. tell Normal ''Initialized'' ''Backend initialized successfully'')
                     else chain (enter_failed env template (''init failed: '' @ stderr)) (\<lambda>_.
                          tell Warning ''InitFailed'' (''init failed: '' @ stderr))) (\<lambda>_.
              pure (Requeue SHORT_REQUEUE_INTERVAL)))))))))"

section \<open>CompileBlocked\<close>

definition blocked_backoff :: "infrastructure_template \<Rightarrow> std_duration" where
  "blocked_backoff template =
     exponential_backoff (is_consecutive_compile_failures (snapshot template))
       (case it_retry_policy template of Some p \<Rightarrow> rp_backoff_seconds p | None \<Rightarrow> 30) 600"

definition handle_compile_blocked :: "env \<Rightarrow> infrastructure_template \<Rightarrow> reconcile_action phased" where
  "handle_compile_blocked env template =
     (let backoff = blocked_backoff template;
          elapsed = elapsed_since (en_now env) (is_phase_entered_at (snapshot template))
      in if elapsed < backoff then pure (Requeue (backoff - elapsed))
         else
           chain (enter_phase env template phase.Compiling) (\<lambda>_.
           chain (tell Normal ''CompileRetry'' (''Retrying compile after CompileBlocked backoff (failure count ''
               @ show_nat (unat (is_consecutive_compile_failures (snapshot template))) @ '')'')) (\<lambda>_.
           pure (Requeue SHORT_REQUEUE_INTERVAL))))"

end
