(* ===== verification/Deletion.thy ===== *)
theory Deletion
  imports Compiling
begin

text \<open>
  Deleting a template (\<open>deletion_decision\<close>, \<open>destroy_authority\<close> and \<open>namespace_is_terminating\<close> of
  \<open>pangea-operator/src/controller/mod.rs\<close>, \<open>controller/finalizer.rs\<close> with
  \<open>controller/template/finalizer.rs\<close>, and of \<open>template_controller.rs\<close> the deletion branch of
  \<open>reconcile_template\<close> and \<open>handle_destroying\<close>).

  The parser of RFC 3339 texts is the parameter \<open>parse_rfc\<close>. The finalizers of an object are written
  with a merge patch, which replaces the list.
\<close>

section \<open>Finalizers\<close>

definition FINALIZER_NAME :: string where
  "FINALIZER_NAME = ''pangea.pleme.io/cleanup''"

definition has_finalizer :: "string list option \<Rightarrow> bool" where
  "has_finalizer finalizers = (case finalizers of Some fs \<Rightarrow> FINALIZER_NAME \<in> set fs | None \<Rightarrow> False)"

definition add_finalizer :: "bool \<Rightarrow> unit phased" where
  "add_finalizer ok = (if ok then acts [SetFinalizers [FINALIZER_NAME]] else raise Api_Failed)"

definition remove_finalizer :: "bool \<Rightarrow> string list option \<Rightarrow> unit phased" where
  "remove_finalizer ok finalizers =
     (if ok then acts [SetFinalizers (case finalizers of Some fs \<Rightarrow> filter (\<lambda>f. f \<noteq> FINALIZER_NAME) fs | None \<Rightarrow> [])]
      else raise Api_Failed)"

section \<open>May it be destroyed?\<close>

record destroy_authorization =
  au_authorized_by :: string
  au_reason :: string
  au_template :: string
  au_expires_at :: string

datatype destroy_authority = Absent | Granted

definition destroy_authority_of ::
    "(string \<Rightarrow> time option) \<Rightarrow> destroy_authorization option \<Rightarrow> string \<Rightarrow> time \<Rightarrow> destroy_authority" where
  "destroy_authority_of parse_rfc auth template_name now =
     (case auth of
        None \<Rightarrow> destroy_authority.Absent
      | Some a \<Rightarrow>
          if au_template a \<noteq> template_name then destroy_authority.Absent
          else (case parse_rfc (au_expires_at a) of
                  Some expiry \<Rightarrow> if now < expiry then Granted else destroy_authority.Absent
                | None \<Rightarrow> destroy_authority.Absent))"

datatype deletion_decision = Destroy | BlockAndRequeue | OrphanAndRelease

definition deletion_decision_of :: "bool \<Rightarrow> bool \<Rightarrow> destroy_authority \<Rightarrow> deletion_decision" where
  "deletion_decision_of destroy_protection namespace_terminating authority =
     (if authority = destroy_authority.Absent then OrphanAndRelease
      else if \<not> destroy_protection then Destroy
      else if \<not> namespace_terminating then BlockAndRequeue
      else OrphanAndRelease)"

text \<open>The read of a namespace: an error, or whether it has a deletion timestamp and its phase.\<close>

datatype namespace_answer = NsError | NsRead bool "string option"

fun namespace_is_terminating :: "namespace_answer \<Rightarrow> bool" where
  "namespace_is_terminating NsError = False"
| "namespace_is_terminating (NsRead deleting ph) = (deleting \<or> ph = Some ''Terminating'')"

section \<open>Destroying\<close>

record destroy_answers =
  dq_runner_ok :: bool
  dq_runner_name :: string
  dq_lock :: lock_answer
  dq_destroy :: "(bool \<times> string) option"
  dq_delete_ok :: bool
  dq_finalizer_ok :: bool

definition releasing_phase :: "bool \<Rightarrow> 'a phased \<Rightarrow> 'a phased" where
  "releasing_phase held m = (fst m @ (if held then [Step ReleaseLock] else []), snd m)"

definition destroy_locked :: "env \<Rightarrow> destroy_answers \<Rightarrow> string list option \<Rightarrow> infrastructure_template \<Rightarrow> reconcile_action phased" where
  "destroy_locked env q finalizers template =
     chain (acts [RunDestroy]) (\<lambda>_.
     case dq_destroy q of
       None \<Rightarrow> raise Destroy_Errored
     | Some (success, raw_stdout) \<Rightarrow>
         if \<not> success then
           (let err_msg = ''destroy failed (runner='' @ dq_runner_name q @ ''): '' @ raw_stdout in
            chain (enter_failed env template err_msg) (\<lambda>_.
            chain (tell Warning ''DestroyFailed'' err_msg) (\<lambda>_.
            pure (Requeue ERROR_REQUEUE_INTERVAL))))
         else
           chain (tell Normal ''Destroyed'' ''Infrastructure destroyed successfully'') (\<lambda>_.
           chain (acts [DeleteWorkspace]) (\<lambda>_.
           chain (ensure (dq_delete_ok q) (Handler Workspace_Failed)) (\<lambda>_.
           chain (remove_finalizer (dq_finalizer_ok q) finalizers) (\<lambda>_.
           pure Done)))))"

definition handle_destroying ::
    "env \<Rightarrow> destroy_answers \<Rightarrow> bool \<Rightarrow> string list option \<Rightarrow> infrastructure_template \<Rightarrow> reconcile_action phased" where
  "handle_destroying env q destroy_protection finalizers template =
     (if destroy_protection then pure (Requeue DEFAULT_REQUEUE_INTERVAL)
      else
        chain (ensure (en_credentials_ok env \<and> dq_runner_ok q) (Handler Credentials_Failed)) (\<lambda>_.
        chain (ensure (en_workspace_ok env) (Handler Workspace_Failed)) (\<lambda>_.
        chain (lift_applied (acquire_mutation_lock (dq_lock q))) (\<lambda>dispatch.
        case dispatch of
          Contended \<Rightarrow> pure (Requeue SHORT_REQUEUE_INTERVAL)
        | LockProceed held \<Rightarrow> releasing_phase held (destroy_locked env q finalizers template)))))"

section \<open>The deletion branch of a reconcile\<close>

text \<open>The action of \<open>kube\<close> a reconcile returns.\<close>

datatype kube_action = RequeueAfter std_duration | AwaitChange

definition into_action :: "reconcile_action \<Rightarrow> kube_action" where
  "into_action a = (case a of Requeue d \<Rightarrow> RequeueAfter d | Done \<Rightarrow> AwaitChange)"

record deletion_spec =
  dl_destroy_protection :: bool
  dl_authorization :: "destroy_authorization option"
  dl_finalizers :: "string list option"

text \<open>The namespace is read twice; the decision on the first reading is dropped.\<close>

record deletion_answers =
  dn_namespace :: namespace_answer
  dn_finalizer_ok :: bool
  dn_destroy :: destroy_answers

definition orphaned_message :: string where
  "orphaned_message =
     ''Namespace is terminating while destroyProtection=true. The finalizer was released WITHOUT destroying: the infrastructure still exists and is no longer managed by this operator. ''
     @ ''Re-declare the InfrastructureTemplate to adopt it again. Holding the finalizer would have deadlocked namespace termination and blocked all GitOps on this cluster.''"

definition current_phase_of :: "infrastructure_template \<Rightarrow> phase" where
  "current_phase_of template = (case st_phase (ds_core (snapshot template)) of Some ph \<Rightarrow> ph | None \<Rightarrow> phase.Pending)"

definition handle_deletion ::
    "env \<Rightarrow> (string \<Rightarrow> time option) \<Rightarrow> deletion_answers \<Rightarrow> deletion_spec \<Rightarrow> infrastructure_template \<Rightarrow> kube_action phased" where
  "handle_deletion env parse_rfc q spec template =
     (if \<not> has_finalizer (dl_finalizers spec) then pure AwaitChange
      else
        (let authority = destroy_authority_of parse_rfc (dl_authorization spec) (it_name template) (en_now env);
             release = chain (remove_finalizer (dn_finalizer_ok q) (dl_finalizers spec)) (\<lambda>_. pure AwaitChange)
         in if authority = destroy_authority.Absent \<and> \<not> dl_destroy_protection spec then release
            else if dl_destroy_protection spec then
              (if deletion_decision_of True (namespace_is_terminating (dn_namespace q)) authority = OrphanAndRelease
               then chain (tell Warning ''OrphanedByNamespaceDeletion'' orphaned_message) (\<lambda>_. release)
               else chain (tell Warning ''DestroyBlocked''
                      ''Destroy protection is enabled. Set spec.destroyProtection=false to allow deletion.'') (\<lambda>_.
                    pure (RequeueAfter DEFAULT_REQUEUE_INTERVAL)))
            else if current_phase_of template \<noteq> phase.Destroying then
              chain (enter_phase env template phase.Destroying) (\<lambda>_. pure (RequeueAfter SHORT_REQUEUE_INTERVAL))
            else
              chain (handle_destroying env (dn_destroy q) (dl_destroy_protection spec) (dl_finalizers spec) template) (\<lambda>action.
              pure (into_action action))))"

end
