(* ===== verification/Template_Gates.thy ===== *)
theory Template_Gates
  imports Deletion Leaf_Admit
begin

text \<open>
  The gates a reconcile of a template passes (\<open>pangea-operator/src/controller/template/rate_limit.rs\<close>,
  \<open>inputs.rs\<close>, the membership and the migration hold of \<open>leaf.rs\<close>, the classification of work of
  \<open>leaf_gate.rs\<close>, and of \<open>template_controller.rs\<close> the circuit breaker, the digest of the material spec
  and the budget scope).

  \<open>R\<close> stands for \<open>handan::parse_retry_after\<close>, \<open>parse_rfc\<close> for the parser of RFC 3339 texts, \<open>stamp\<close> for their
  rendering with seconds, \<open>P\<close> for the JSON printer and \<open>H\<close> for BLAKE3.
\<close>

section \<open>Rate limits\<close>

definition lower_ascii :: "string \<Rightarrow> string" where
  "lower_ascii s = map (\<lambda>c. if CHR ''A'' \<le> c \<and> c \<le> CHR ''Z'' then char_of (of_char c + (32 :: nat)) else c) s"

text \<open>The places where a text occurs; \<open>match_indices\<close> skips overlaps, which three-digit codes without a
  repeated prefix do not have.\<close>

definition occurs_at :: "string \<Rightarrow> string \<Rightarrow> nat \<Rightarrow> bool" where
  "occurs_at s p i \<longleftrightarrow> i + length p \<le> length s \<and> take (length p) (drop i s) = p"

definition contains :: "string \<Rightarrow> string \<Rightarrow> bool" where
  "contains s p \<longleftrightarrow> list_ex (occurs_at s p) [0..<Suc (length s)]"

definition find_str :: "string \<Rightarrow> string \<Rightarrow> nat option" where
  "find_str s p = find (occurs_at s p) [0..<Suc (length s)]"

definition digit_at :: "string \<Rightarrow> nat \<Rightarrow> bool" where
  "digit_at s i \<longleftrightarrow> i < length s \<and> is_ascii_digit (s ! i)"

definition limited :: "string \<Rightarrow> bool" where
  "limited s \<longleftrightarrow>
     list_ex (\<lambda>code. list_ex (\<lambda>i. occurs_at s code i \<and> \<not> (0 < i \<and> digit_at s (i - 1)) \<and> \<not> digit_at s (i + length code))
       [0..<Suc (length s)]) [''403'', ''429'']
     \<and> (contains s ''rate limit'' \<or> contains s ''retry-after'')"

definition value_after :: "string \<Rightarrow> string \<Rightarrow> string \<Rightarrow> char list \<Rightarrow> string option" where
  "value_after lowered original marker stops =
     map_option (\<lambda>i.
       (let rest = dropWhile (\<lambda>c. c = CHR '':'' \<or> c = CHR ''='' \<or> c = CHR '' '') (drop (i + length marker) original)
        in str_trim (takeWhile (\<lambda>c. c \<notin> set stops) rest))) (find_str lowered marker)"

definition STOPS :: "char list" where
  "STOPS = [CHR '','', CHR '';'', CHR '']'', CHR '')'', CHR 0x0A]"

definition DATE_STOPS :: "char list" where
  "DATE_STOPS = [CHR '';'', CHR '']'', CHR '')'', CHR 0x0A]"

text \<open>The loop of \<open>go_duration\<close>: the seconds so far, the digits being read, whether a unit was seen. The
  sums and products wrap at the width of \<open>u64\<close>.\<close>

fun go_duration_loop :: "u64 \<Rightarrow> string \<Rightarrow> bool \<Rightarrow> string \<Rightarrow> u64 option" where
  "go_duration_loop secs digits seen [] = (if seen \<and> digits = [] then Some secs else None)"
| "go_duration_loop secs digits seen (c # cs) =
     (if is_ascii_digit c then go_duration_loop secs (digits @ [c]) seen cs
      else (case parse_u64 digits of
              None \<Rightarrow> None
            | Some n \<Rightarrow>
                if c = CHR ''h'' then go_duration_loop (secs + n * 3600) [] True cs
                else if c = CHR ''m'' then go_duration_loop (secs + n * 60) [] True cs
                else if c = CHR ''s'' then go_duration_loop (secs + n) [] True cs
                else None))"

definition go_duration :: "string \<Rightarrow> std_duration option" where
  "go_duration raw = map_option from_secs (go_duration_loop 0 [] False raw)"

datatype retry_advice = After std_duration | At u64 | OtherAdvice

text \<open>\<open>chrono\<close> represents the years from -262143 to 262142. \<open>DateTime::from_timestamp\<close> refuses what lies
  outside; the sum of an instant and a duration panics there. \<open>chrono::Duration::from_std\<close> refuses more
  milliseconds than an \<open>i64\<close> holds.\<close>

definition MIN_TIMESTAMP :: int where
  "MIN_TIMESTAMP = - 8334601228800"

definition MAX_TIMESTAMP :: int where
  "MAX_TIMESTAMP = 8210266876799"

definition in_chrono_range :: "time \<Rightarrow> bool" where
  "in_chrono_range at \<longleftrightarrow> MIN_TIMESTAMP * 10 ^ 9 \<le> at \<and> at < (MAX_TIMESTAMP + 1) * 10 ^ 9"

definition from_timestamp :: "int \<Rightarrow> time option" where
  "from_timestamp secs = (if in_chrono_range (secs * 10 ^ 9) then Some (secs * 10 ^ 9) else None)"

definition after_wait :: "time \<Rightarrow> std_duration \<Rightarrow> time option outcome" where
  "after_wait now wait =
     (if 2 ^ 63 \<le> wait then Returns None
      else if in_chrono_range (now + int wait * 10 ^ 6) then Returns (Some (now + int wait * 10 ^ 6))
      else Panic)"

definition orelse :: "'a option \<Rightarrow> 'a option \<Rightarrow> 'a option" where
  "orelse x y = (case x of Some v \<Rightarrow> Some v | None \<Rightarrow> y)"

definition rate_limited_until :: "(string \<Rightarrow> retry_advice option) \<Rightarrow> string \<Rightarrow> time \<Rightarrow> time option outcome" where
  "rate_limited_until R message now =
     (let lowered = lower_ascii message in
      if \<not> limited lowered then Returns None
      else
        (case orelse (Option.bind (value_after lowered message ''retry-after'' STOPS) R)
                (Option.bind (value_after lowered message ''retry-after'' DATE_STOPS) R) of
           Some advice \<Rightarrow>
             (case advice of
                After d \<Rightarrow> after_wait now d
              | At unix_secs \<Rightarrow> Returns (if unat unix_secs < 2 ^ 63 then from_timestamp (uint unix_secs) else None)
              | OtherAdvice \<Rightarrow> Returns None)
         | None \<Rightarrow>
             (case Option.bind (value_after lowered message ''rate reset in'' STOPS) go_duration of
                Some d \<Rightarrow> after_wait now d
              | None \<Rightarrow> Returns (Option.bind (Option.bind (value_after lowered message ''x-ratelimit-reset'' STOPS) parse_i64) from_timestamp))))"

definition wait_for :: "time option \<Rightarrow> time \<Rightarrow> std_duration option" where
  "wait_for until now = Option.bind until (\<lambda>u. if now < u then Some (nat ((u - now) div 10 ^ 6)) else None)"

text \<open>The hold: the wait, or the patch that clears an expired one.\<close>

definition rate_hold :: "bool \<Rightarrow> time \<Rightarrow> infrastructure_template \<Rightarrow> std_duration option phased" where
  "rate_hold patch_ok now template =
     (case is_rate_limited_until (snapshot template) of
        None \<Rightarrow> pure None
      | Some until \<Rightarrow>
          (case wait_for (Some until) now of
             Some wait \<Rightarrow> pure (Some wait)
           | None \<Rightarrow> chain (try_patch patch_ok [SRateLimitedUntil None]) (\<lambda>_. pure None)))"

text \<open>\<open>lines().next()\<close>: the text before the first line feed, without a carriage return before it.\<close>

definition first_of_lines :: "string \<Rightarrow> string" where
  "first_of_lines s =
     (let line = takeWhile (\<lambda>c. c \<noteq> CHR 0x0A) s in
      if length line < length s \<and> line \<noteq> [] \<and> last line = CHR 0x0D then butlast line else line)"

definition record_rate_limit :: "(time \<Rightarrow> string) \<Rightarrow> bool \<Rightarrow> time \<Rightarrow> string \<Rightarrow> unit phased" where
  "record_rate_limit stamp patch_ok until message =
     chain (try_patch patch_ok [SRateLimitedUntil (Some (until - until mod 10 ^ 9))]) (\<lambda>_.
     tell Warning ''RateLimited''
       (truncate_utf8_safe (''until '' @ stamp until @ '': '' @ first_of_lines message) 512 ellipsis))"

section \<open>Fresh inputs\<close>

definition VARIABLES_UPDATED_AT :: string where
  "VARIABLES_UPDATED_AT = ''pangea.pleme.io/variables-updated-at''"

definition INPUTS_STALE :: string where
  "INPUTS_STALE = ''InputsStale''"

definition DEFAULT_STALE_AFTER_SECONDS :: u64 where
  "DEFAULT_STALE_AFTER_SECONDS = 7200"

datatype stale_after = StaleOff | StaleAfter duration

text \<open>\<open>Duration::try_seconds\<close> refuses more than \<open>i64::MAX / 1000\<close> seconds.\<close>

definition stale_after_from_secs :: "u64 \<Rightarrow> stale_after" where
  "stale_after_from_secs secs =
     (if 0 < secs \<and> unat secs \<le> (2 ^ 63 - 1) div 1000 then StaleAfter (uint secs * 10 ^ 9) else StaleOff)"

definition stale_after_parse :: "string option \<Rightarrow> stale_after" where
  "stale_after_parse raw =
     (case map_option str_trim raw of
        None \<Rightarrow> stale_after_from_secs DEFAULT_STALE_AFTER_SECONDS
      | Some s \<Rightarrow>
          if s = [] then stale_after_from_secs DEFAULT_STALE_AFTER_SECONDS
          else if s = ''off'' then StaleOff
          else (case parse_i64 s of
                  Some n \<Rightarrow> if 0 < n then stale_after_from_secs (word_of_int n) else StaleOff
                | None \<Rightarrow> stale_after_from_secs DEFAULT_STALE_AFTER_SECONDS))"

datatype inputs_age = Untracked | Unreadable string | FreshInputs time | StaleInputs time duration

definition inputs_age_of ::
    "(string \<Rightarrow> time option) \<Rightarrow> (string, string) btmap \<Rightarrow> time \<Rightarrow> stale_after \<Rightarrow> inputs_age" where
  "inputs_age_of parse_rfc annotations now after =
     (case after of
        StaleOff \<Rightarrow> Untracked
      | StaleAfter d \<Rightarrow>
          (case bm_get annotations VARIABLES_UPDATED_AT of
             None \<Rightarrow> Untracked
           | Some raw \<Rightarrow>
               (case parse_rfc raw of
                  None \<Rightarrow> Unreadable raw
                | Some updated_at \<Rightarrow> if d < now - updated_at then StaleInputs updated_at d else FreshInputs updated_at)))"

text \<open>The seconds are those of a difference of instants, rounded towards zero.\<close>

definition age_seconds :: "inputs_age \<Rightarrow> time \<Rightarrow> int option" where
  "age_seconds age now =
     (case age of
        FreshInputs at \<Rightarrow> Some (max ((now - at) div 10 ^ 9) 0)
      | StaleInputs at _ \<Rightarrow> Some (max ((now - at) div 10 ^ 9) 0)
      | _ \<Rightarrow> None)"

definition inputs_text :: "(time \<Rightarrow> string) \<Rightarrow> inputs_age \<Rightarrow> (string \<times> string \<times> string) option" where
  "inputs_text stamp age =
     (case age of
        Untracked \<Rightarrow> None
      | Unreadable raw \<Rightarrow>
          Some (''Unknown'', ''UnreadableTimestamp'', ''annotation '' @ VARIABLES_UPDATED_AT @ '' is not RFC 3339: '' @ raw)
      | FreshInputs at \<Rightarrow> Some (''False'', ''VariablesFresh'', ''spec.variables updated at '' @ stamp at)
      | StaleInputs at d \<Rightarrow>
          Some (''True'', ''VariablesNotUpdated'', ''spec.variables not updated since '' @ stamp at @ '', longer than ''
            @ show_int (d div 10 ^ 9) @ ''s; check the job that writes them''))"

definition inputs_condition :: "(time \<Rightarrow> string) \<Rightarrow> inputs_age \<Rightarrow> int option \<Rightarrow> time \<Rightarrow> condition option" where
  "inputs_condition stamp age gen now =
     map_option (\<lambda>(status, reason, message).
       \<lparr>c_type = INPUTS_STALE, c_status = status, c_last_transition_time = now, c_reason = reason,
        c_message = message, c_observed_generation = gen\<rparr>) (inputs_text stamp age)"

definition condition_patch :: "condition list \<Rightarrow> condition option \<Rightarrow> status_field list option" where
  "condition_patch prev next_condition =
     (let merged = merge_condition_transitions prev
            (filter (\<lambda>c. c_type c \<noteq> INPUTS_STALE) prev @ (case next_condition of Some c \<Rightarrow> [c] | None \<Rightarrow> []))
      in if conditions_observably_equal prev merged then None else Some [SConditions merged])"

definition patch_for ::
    "(time \<Rightarrow> string) \<Rightarrow> (string \<Rightarrow> time option) \<Rightarrow> (string, string) btmap \<Rightarrow> infrastructure_template \<Rightarrow> time \<Rightarrow> stale_after
     \<Rightarrow> status_field list option" where
  "patch_for stamp parse_rfc annotations template now after =
     condition_patch (st_conditions (ds_core (snapshot template)))
       (inputs_condition stamp (inputs_age_of parse_rfc annotations now after) (it_generation template) now)"

section \<open>Leaves and their catalog\<close>

definition WORKSPACE_LABEL :: string where
  "WORKSPACE_LABEL = ''pangea.pleme.io/workspace''"

record owner_reference =
  or_kind :: string
  or_name :: string

text \<open>The metadata the gates read, beside that of \<open>infrastructure_template\<close>. The name of an unnamed
  object is the empty text for \<open>name_any\<close>.\<close>

record template_meta =
  tm_labels :: "(string, string) btmap"
  tm_annotations :: "(string, string) btmap"
  tm_owners :: "owner_reference list"

datatype membership = Standalone | Leaf string | Orphan string

definition membership_of :: "template_meta \<Rightarrow> bool \<Rightarrow> membership" where
  "membership_of meta catalog_found =
     (case bm_get (tm_labels meta) WORKSPACE_LABEL of
        None \<Rightarrow> Standalone
      | Some catalog \<Rightarrow>
          if \<not> list_ex (\<lambda>r. or_kind r = ''WorkspaceCatalog'' \<and> or_name r = catalog) (tm_owners meta) then Standalone
          else if catalog_found then Leaf catalog else Orphan catalog)"

definition MIGRATE_FROM_ANNOTATION :: string where
  "MIGRATE_FROM_ANNOTATION = ''pangea.pleme.io/migrate-from''"

definition LEAF_MIGRATION_CONDITION :: string where
  "LEAF_MIGRATION_CONDITION = ''LeafMigration''"

record workspace_catalog =
  wc_name :: string
  wc_annotations :: "(string, string) btmap"
  wc_suspend :: bool
  wc_max_concurrent_leaves :: "u32 option"
  wc_conditions :: "(string \<times> string) list"

definition migrate_from :: "workspace_catalog \<Rightarrow> (string option \<times> string) option" where
  "migrate_from catalog =
     (case map_option str_trim (bm_get (wc_annotations catalog) MIGRATE_FROM_ANNOTATION) of
        None \<Rightarrow> None
      | Some raw \<Rightarrow>
          if raw = [] then None
          else (case split_once CHR ''/'' raw of
                  Some (ns, name) \<Rightarrow> Some (Some ns, name)
                | None \<Rightarrow> Some (None, raw)))"

definition migration_done :: "workspace_catalog \<Rightarrow> bool" where
  "migration_done catalog \<longleftrightarrow> list_ex (\<lambda>(ty, status). ty = LEAF_MIGRATION_CONDITION \<and> status = ''True'') (wc_conditions catalog)"

definition held_for_migration :: "workspace_catalog \<Rightarrow> bool" where
  "held_for_migration catalog \<longleftrightarrow> migrate_from catalog \<noteq> None \<and> \<not> migration_done catalog"

definition LEAF_CATALOG_MISSING :: string where
  "LEAF_CATALOG_MISSING = ''LeafCatalogMissing''"

section \<open>Upstream outputs\<close>

text \<open>\<open>fetch\<close> answers the read of the template of a name in a namespace: its outputs, when it has some.\<close>

definition upstream_state ::
    "(string \<Rightarrow> string \<Rightarrow> variable_map option) \<Rightarrow> string \<Rightarrow> string \<times> variable_ref
     \<Rightarrow> upstream list \<times> string list \<times> string list \<Rightarrow> upstream list \<times> string list \<times> string list" where
  "upstream_state fetch own_ns vr acc =
     (let r = snd vr;
          (upstreams, ready, missing) = acc;
          has_output = (case fetch (case vr_namespace r of Some n \<Rightarrow> n | None \<Rightarrow> own_ns) (vr_name r) of
              Some outs \<Rightarrow> bm_get outs (vr_output_key r) \<noteq> None | None \<Rightarrow> False)
      in (upstreams @ [\<lparr>up_template = vr_name r, up_has_mock = (vr_mock_output r \<noteq> None)\<rparr>],
          if has_output then bs_insert (vr_name r) ready else ready,
          if has_output then missing else bs_insert (vr_name r) missing))"

definition blocked_upstreams ::
    "('d, 'j) dag_ops \<Rightarrow> (string \<Rightarrow> string \<Rightarrow> variable_map option) \<Rightarrow> (string, variable_ref) btmap \<Rightarrow> infrastructure_template \<Rightarrow> bool \<Rightarrow> string list" where
  "blocked_upstreams G fetch refs template applying =
     (if refs = [] then []
      else
        (let (upstreams, ready, missing) = fold (upstream_state fetch (case it_namespace template of Some n \<Rightarrow> n | None \<Rightarrow> [])) refs ([], [], [])
         in blocked_by G (it_name template) upstreams (filter (\<lambda>n. n \<notin> set missing) ready) applying))"

section \<open>Work and its scope\<close>

definition gate_key_of :: "infrastructure_template \<Rightarrow> string" where
  "gate_key_of template = (case it_namespace template of Some n \<Rightarrow> n | None \<Rightarrow> []) @ ''/'' @ it_name template"

text \<open>\<open>P\<close> prints the serialized provider credentials; a credential that cannot be serialized is absent.\<close>

definition credential_of :: "(string \<Rightarrow> string) \<Rightarrow> (json \<Rightarrow> string) \<Rightarrow> json option \<Rightarrow> infrastructure_template \<Rightarrow> string option" where
  "credential_of H P creds template =
     (case creds of
        None \<Rightarrow> None
      | Some v \<Rightarrow>
          if v = JObj [] then None
          else Some (take 16 (H ((case it_namespace template of Some n \<Rightarrow> n | None \<Rightarrow> []) @ ''|'' @ P v))))"

definition work_class_of :: "infrastructure_template \<Rightarrow> phase \<Rightarrow> bool \<Rightarrow> work_class" where
  "work_class_of template ph was_blocked =
     (if ph = phase.Applying then work_class.Apply
      else if st_observed_generation (ds_core (snapshot template)) < current_generation_of template then work_class.Change
      else if was_blocked then work_class.Unblocked
      else if 0 < is_failure_count (snapshot template) then work_class.Retry
      else work_class.Drift)"

definition depth_of :: "(string, variable_ref) btmap \<Rightarrow> u32" where
  "depth_of refs = (if refs = [] then 0 else 1)"

definition workspace_scope :: "template_meta \<Rightarrow> infrastructure_template \<Rightarrow> string" where
  "workspace_scope meta template =
     (case bm_get (tm_labels meta) WORKSPACE_LABEL of
        Some ws \<Rightarrow> ws
      | None \<Rightarrow> (case it_namespace template of Some n \<Rightarrow> n | None \<Rightarrow> ''default'') @ ''/'' @ it_name template)"

definition POLL_REQUEUE :: std_duration where
  "POLL_REQUEUE = 30000"

definition queued_requeue :: "bool \<Rightarrow> std_duration" where
  "queued_requeue park_queued = (if park_queued then FALLBACK_REQUEUE else POLL_REQUEUE)"

section \<open>The circuit breaker and the material spec\<close>

definition auto_suspend_gate_should_clear :: "int \<Rightarrow> int \<Rightarrow> bool" where
  "auto_suspend_gate_should_clear current_gen observed_gen = generation_invalidates_render current_gen observed_gen"

definition auto_suspend_probe_interval :: duration where
  "auto_suspend_probe_interval = 30 * 60 * 10 ^ 9"

definition auto_suspend_probe_due :: "time \<Rightarrow> time option \<Rightarrow> duration \<Rightarrow> bool" where
  "auto_suspend_probe_due now last_escalated_at probe_interval =
     (case last_escalated_at of None \<Rightarrow> True | Some parked_at \<Rightarrow> probe_interval \<le> now - parked_at)"

definition suspended_conditions_already_set :: "condition list \<Rightarrow> condition list \<Rightarrow> bool" where
  "suspended_conditions_already_set prev new = conditions_observably_equal prev new"

text \<open>The spec is its serialized form; \<open>serde_json\<close> always writes an object for it.\<close>

definition material_spec_digest :: "(string \<Rightarrow> string) \<Rightarrow> (json \<Rightarrow> string) \<Rightarrow> json \<Rightarrow> string" where
  "material_spec_digest H P spec =
     H (P (sort_json_keys
       (case spec of JObj kvs \<Rightarrow> JObj (filter (\<lambda>(k, _). k \<noteq> ''approvedPlanHash'') kvs) | v \<Rightarrow> v)))"

end
