(* ===== verification/Reconcile.thy ===== *)
theory Reconcile
  imports Template_Gates Operator_Policy
begin

text \<open>
  One reconcile of a template (\<open>reconcile_template\<close>, \<open>run_post_reconcile_on_fresh\<close> and
  \<open>dispatch_template_phase\<close> of \<open>pangea-operator/src/controller/template_controller.rs\<close>, with
  \<open>template_phase.rs\<close> and \<open>post_reconcile_pipeline.rs\<close>).

  A reconcile reads one snapshot of the object. All its instants are \<open>en_now env\<close>. What the world
  answers to it is the record \<open>reconcile_answers\<close>; the verdict of the leaf gate is an answer too.
  Every call of \<open>update_phase_with_error\<close> runs the reactive stage on the snapshot after its write.
  The lane of the pacer and the metrics of a reconcile are left out.
\<close>

section \<open>Effects\<close>

datatype reconcile_effect =
    Act phase_effect
  | NoteBlocked string
  | TakeBlocked string
  | AskSlot candidate "nat option"
  | FreeSlot
  | Deferred string phase

type_synonym 'a reconciled = "reconcile_effect list \<times> (phase_error, 'a) result"

definition lift_phased :: "'a phased \<Rightarrow> 'a reconciled" where
  "lift_phased m = (map Act (fst m), snd m)"

definition marks :: "reconcile_effect list \<Rightarrow> unit reconciled" where
  "marks fx = (fx, Inr ())"

definition done_with_action :: "'a \<Rightarrow> 'a reconciled" where
  "done_with_action x = ([], Inr x)"

text \<open>A write of \<open>update_phase_with_error\<close> is the one that has an error and acknowledges a generation.\<close>

fun acknowledges :: "status_field \<Rightarrow> bool" where
  "acknowledges (SAcknowledgedGeneration _) = True" | "acknowledges _ = False"

fun names_error :: "status_field \<Rightarrow> bool" where
  "names_error (SLastError (Some _)) = True" | "names_error _ = False"

fun is_error_write :: "phase_effect \<Rightarrow> bool" where
  "is_error_write (Step (Ctl (Basic (Patch p)))) \<longleftrightarrow> list_ex acknowledges p \<and> list_ex names_error p"
| "is_error_write _ \<longleftrightarrow> False"

definition reacting :: "reactive_effect list \<Rightarrow> 'a phased \<Rightarrow> 'a phased" where
  "reacting stage m = (concat (map (\<lambda>e. if is_error_write e then e # map React stage else [e]) (fst m)), snd m)"

section \<open>Dispatch\<close>

datatype gate_verdict = Admitted bool | Queued

record reconcile_spec =
  rs_meta :: template_meta
  rs_json :: json
  rs_credentials :: "json option"
  rs_deletion :: deletion_spec
  rs_compile :: compile_spec
  rs_apply :: apply_spec
  rs_reactive :: "reactive_policy option"

record dispatch_answers =
  dq_fetch :: "string \<Rightarrow> string \<Rightarrow> variable_map option"
  dq_rate_clear_ok :: bool
  dq_max_leaves :: "u32 option"
  dq_per_scope :: nat
  dq_was_blocked :: bool
  dq_verdict :: "candidate \<Rightarrow> nat option \<Rightarrow> gate_verdict"
  dq_restart_ok :: bool
  dq_record_ok :: bool
  dq_park_queued :: bool
  dq_error_text :: "phase_error \<Rightarrow> string"
  dq_pending :: render_answers
  dq_compile :: compile_answers
  dq_init :: init_answers
  dq_plan :: plan_answers
  dq_apply :: apply_answers
  dq_drift :: drift_answers
  dq_held :: "string option"
  dq_reuse_render :: bool
  dq_clean_ok :: bool
  dq_destroying :: destroy_answers

text \<open>What the model takes from outside: BLAKE3, the parser and the printer of JSON, the parser of plan
  documents, the advice of a \<open>Retry-After\<close> header, the graph library, and the texts of instants.\<close>

record ('d, 'j) outside =
  os_hash :: "string \<Rightarrow> string"
  os_json :: "string \<Rightarrow> json option"
  os_print :: "json \<Rightarrow> string"
  os_plan_doc :: "string \<Rightarrow> plan_doc option"
  os_retry_advice :: "string \<Rightarrow> retry_advice option"
  os_graph :: "('d, 'j) dag_ops"
  os_stamp :: "time \<Rightarrow> string"
  os_parse_rfc :: "string \<Rightarrow> time option"
  os_cascade :: "reactive_policy cascade_resolve"

definition lift_ready :: "'a handled outcome \<Rightarrow> 'a phased" where
  "lift_ready m = (case m of Panic \<Rightarrow> raise Panicked | Returns h \<Rightarrow> lift_handled h)"

text \<open>One field of the spec is read by several components: here it has one value.\<close>

definition apply_spec_of :: "reconcile_spec \<Rightarrow> apply_spec" where
  "apply_spec_of spec =
     (rs_apply spec)\<lparr>sp_destroy_protection := dl_destroy_protection (rs_deletion spec), sp_variables := cs_variables (rs_compile spec)\<rparr>"

text \<open>The handler of a phase; \<open>Verifying\<close> and \<open>Verified\<close> have none and go on to \<open>Compiling\<close>.\<close>

definition handle_phase ::
    "('d, 'j) outside \<Rightarrow> env \<Rightarrow> dispatch_answers \<Rightarrow> reconcile_spec \<Rightarrow> infrastructure_template \<Rightarrow> phase \<Rightarrow> reconcile_action phased" where
  "handle_phase os env q spec template ph =
     (case ph of
        phase.Pending \<Rightarrow> handle_pending env (os_hash os) (dq_pending q) (rs_compile spec) template
      | phase.Compiling \<Rightarrow> handle_compiling env (os_hash os) (os_json os) (dq_compile q) (rs_compile spec) template
      | phase.Initializing \<Rightarrow> handle_initializing env (dq_init q) template
      | phase.Planning \<Rightarrow> lift_planned (handle_planning env (os_json os) (os_print os) (dq_plan q) template)
      | phase.Applying \<Rightarrow>
          lift_applied (handle_applying env (os_plan_doc os) (os_json os) (os_print os) (dq_apply q) (apply_spec_of spec) template)
      | phase.Ready \<Rightarrow> lift_ready (handle_ready env (dq_drift q) template)
      | phase.Drifted \<Rightarrow> lift_handled (handle_drifted env template)
      | phase.Failed \<Rightarrow> lift_handled (handle_failed env (dq_held q) (dq_reuse_render q) (dq_clean_ok q) template)
      | phase.Destroying \<Rightarrow>
          handle_destroying env (dq_destroying q) (dl_destroy_protection (rs_deletion spec)) (dl_finalizers (rs_deletion spec)) template
      | phase.CompileBlocked \<Rightarrow> handle_compile_blocked env template
      | _ \<Rightarrow> chain (enter_phase env template phase.Compiling) (\<lambda>_. pure (Requeue SHORT_REQUEUE_INTERVAL)))"

definition expensive :: "phase \<Rightarrow> bool" where
  "expensive ph \<longleftrightarrow> ph \<in> {phase.Compiling, phase.Planning, phase.Applying}"

definition candidate_of ::
    "('d, 'j) outside \<Rightarrow> dispatch_answers \<Rightarrow> reconcile_spec \<Rightarrow> infrastructure_template \<Rightarrow> phase \<Rightarrow> candidate" where
  "candidate_of os q spec template ph =
     \<lparr>cand_name = gate_key_of template, cand_scope = workspace_scope (rs_meta spec) template,
      cand_credential = credential_of (os_hash os) (os_print os) (rs_credentials spec) template,
      cand_class = work_class_of template ph (dq_was_blocked q),
      cand_depth = depth_of (cs_variable_refs (rs_compile spec)), cand_since = 0\<rparr>"

text \<open>An error that names a rate limit becomes a wait.\<close>

definition settle_outcome ::
    "('d, 'j) outside \<Rightarrow> env \<Rightarrow> dispatch_answers \<Rightarrow> (phase_error, reconcile_action) result \<Rightarrow> reconcile_action phased" where
  "settle_outcome os env q outcome =
     (case outcome of
        Inr action \<Rightarrow> pure action
      | Inl e \<Rightarrow>
          if e = Panicked then raise e
          else
            (let message = dq_error_text q e in
             (case rate_limited_until (os_retry_advice os) message (en_now env) of
                Panic \<Rightarrow> raise Panicked
              | Returns (Some until) \<Rightarrow>
                  chain (record_rate_limit (os_stamp os) (dq_record_ok q) until message) (\<lambda>_.
                  pure (Requeue (case wait_for (Some until) (en_now env) of Some w \<Rightarrow> w | None \<Rightarrow> SHORT_REQUEUE_INTERVAL)))
              | Returns None \<Rightarrow> raise e)))"

definition run_admitted ::
    "('d, 'j) outside \<Rightarrow> env \<Rightarrow> dispatch_answers \<Rightarrow> reactive_effect list \<Rightarrow> reconcile_spec \<Rightarrow> infrastructure_template \<Rightarrow> phase
     \<Rightarrow> bool \<Rightarrow> reconcile_action reconciled" where
  "run_admitted os env q stage spec template ph waited =
     chain (lift_phased (if waited then try_patch (dq_restart_ok q) [SPhaseEnteredAt (Some (en_now env))] else pure ())) (\<lambda>_.
     (let m = reacting stage (handle_phase os env q spec template ph) in
      chain (marks (map Act (fst m) @ [FreeSlot])) (\<lambda>_.
      lift_phased (settle_outcome os env q (snd m)))))"

definition dispatch_expensive ::
    "('d, 'j) outside \<Rightarrow> env \<Rightarrow> dispatch_answers \<Rightarrow> reactive_effect list \<Rightarrow> reconcile_spec \<Rightarrow> infrastructure_template \<Rightarrow> phase
     \<Rightarrow> reconcile_action reconciled" where
  "dispatch_expensive os env q stage spec template ph =
     (if blocked_upstreams (os_graph os) (dq_fetch q) (cs_variable_refs (rs_compile spec)) template (ph = phase.Applying) \<noteq> []
      then chain (marks [NoteBlocked (gate_key_of template)]) (\<lambda>_. done_with_action (Requeue SHORT_REQUEUE_INTERVAL))
      else
        chain (lift_phased (rate_hold (dq_rate_clear_ok q) (en_now env) template)) (\<lambda>held.
        case held of
          Some wait \<Rightarrow> done_with_action (Requeue wait)
        | None \<Rightarrow>
            (let leaf_cap = map_option (\<lambda>n. scope_cap (Some n) (dq_per_scope q)) (dq_max_leaves q);
                 cand = candidate_of os q spec template ph
             in chain (marks [TakeBlocked (gate_key_of template), AskSlot cand leaf_cap]) (\<lambda>_.
                case dq_verdict q cand leaf_cap of
                  Admitted waited \<Rightarrow> run_admitted os env q stage spec template ph waited
                | Queued \<Rightarrow>
                    chain (marks [Deferred (cand_scope cand) ph]) (\<lambda>_.
                    done_with_action (Requeue (queued_requeue (dq_park_queued q))))))))"

definition dispatch_template_phase ::
    "('d, 'j) outside \<Rightarrow> env \<Rightarrow> dispatch_answers \<Rightarrow> reactive_effect list \<Rightarrow> reconcile_spec \<Rightarrow> infrastructure_template \<Rightarrow> phase
     \<Rightarrow> reconcile_action reconciled" where
  "dispatch_template_phase os env q stage spec template ph =
     (if expensive ph then dispatch_expensive os env q stage spec template ph
      else lift_phased (reacting stage (handle_phase os env q spec template ph)))"

section \<open>The reconcile\<close>

record reconcile_answers =
  rq_gates :: gate_state
  rq_deletion :: deletion_answers
  rq_add_finalizer_ok :: bool
  rq_catalog :: "(unit, workspace_catalog option) result"
  rq_breaker_ok :: bool
  rq_suspend_ok :: bool
  rq_inputs_ok :: bool
  rq_clean_ok :: bool
  rq_stale_after :: stale_after
  rq_stage :: reactive_answers
  rq_dispatch :: dispatch_answers
  rq_fresh :: "infrastructure_template option"
  rq_fresh_stage :: reactive_answers

definition is_some_and :: "('a \<Rightarrow> bool) \<Rightarrow> 'a option \<Rightarrow> bool" where
  "is_some_and test x = (case x of Some v \<Rightarrow> test v | None \<Rightarrow> False)"

definition parent_of :: "reconcile_answers \<Rightarrow> workspace_catalog option" where
  "parent_of q = (case rq_catalog q of Inr c \<Rightarrow> c | Inl _ \<Rightarrow> None)"

definition orphan_message :: "infrastructure_template \<Rightarrow> string \<Rightarrow> string" where
  "orphan_message template catalog =
     LEAF_CATALOG_MISSING @ '': leaf '' @ it_name template @ '' names WorkspaceCatalog `'' @ catalog @ ''`, which does not exist''"

definition fail_orphan :: "env \<Rightarrow> infrastructure_template \<Rightarrow> string \<Rightarrow> kube_action phased" where
  "fail_orphan env template catalog =
     (let msg = orphan_message template catalog;
          already = is_some_and (\<lambda>s. st_phase (ds_core s) = Some phase.Failed \<and> st_last_error (ds_core s) = Some msg) (it_status template)
      in chain (if already then pure ()
                else chain (enter_failed env template msg) (\<lambda>_. tell Warning LEAF_CATALOG_MISSING msg)) (\<lambda>_.
         pure (RequeueAfter DEFAULT_REQUEUE_INTERVAL)))"

datatype breaker = Closed | SpecChanged | HalfOpen | Open

definition breaker_of :: "env \<Rightarrow> infrastructure_template \<Rightarrow> breaker" where
  "breaker_of env template =
     (if \<not> is_auto_suspended (snapshot template) then Closed
      else if auto_suspend_gate_should_clear (current_generation_of template) (observed_generation_of template) then SpecChanged
      else if auto_suspend_probe_due (en_now env) (is_last_escalated_at (snapshot template)) auto_suspend_probe_interval then HalfOpen
      else Open)"

text \<open>The breaker clears its latch, or the reconcile ends: the value says whether to go on.\<close>

definition pass_breaker :: "env \<Rightarrow> reconcile_answers \<Rightarrow> infrastructure_template \<Rightarrow> bool phased" where
  "pass_breaker env q template =
     (let clear = (\<lambda>reason msg.
        chain (if rq_breaker_ok q then acts [basic_effect (Patch [SAutoSuspended False])] else raise Api_Failed) (\<lambda>_.
        chain (tell Normal reason msg) (\<lambda>_. pure True)))
      in case breaker_of env template of
           Closed \<Rightarrow> pure True
         | SpecChanged \<Rightarrow>
             clear ''AutoSuspendCleared'' ''Spec changed since auto-suspension; clearing autoSuspended and re-reconciling''
         | HalfOpen \<Rightarrow>
             clear ''AutoSuspendProbe'' ''Circuit-breaker HALF-OPEN probe: cleared autoSuspended and re-attempting; the failure path re-arms the breaker if the cause has not cleared''
         | Open \<Rightarrow> pure False)"

definition suspended_write :: "env \<Rightarrow> reconcile_answers \<Rightarrow> infrastructure_template \<Rightarrow> unit phased" where
  "suspended_write env q template =
     (let new = conditions_for_suspended (en_now env) in
      if suspended_conditions_already_set (st_conditions (ds_core (snapshot template))) new then pure ()
      else try_patch (rq_suspend_ok q) [SConditions new])"

definition inputs_write :: "('d, 'j) outside \<Rightarrow> env \<Rightarrow> reconcile_answers \<Rightarrow> reconcile_spec \<Rightarrow> infrastructure_template \<Rightarrow> unit phased" where
  "inputs_write os env q spec template =
     (case patch_for (os_stamp os) (os_parse_rfc os) (tm_annotations (rs_meta spec)) template (en_now env) (rq_stale_after q) of
        Some p \<Rightarrow> try_patch (rq_inputs_ok q) p
      | None \<Rightarrow> pure ())"

definition spec_changed :: "env \<Rightarrow> infrastructure_template \<Rightarrow> bool" where
  "spec_changed env template \<longleftrightarrow>
     material_spec_invalidates_render (current_generation_of template) (observed_generation_of template)
       (en_digest env) (is_observed_spec_digest (snapshot template))
     \<and> current_phase_of template \<notin> {phase.Pending, phase.Destroying}"

definition restart :: "env \<Rightarrow> reconcile_answers \<Rightarrow> infrastructure_template \<Rightarrow> kube_action phased" where
  "restart env q template =
     chain (ensure (en_workspace_ok env) (Handler Workspace_Failed)) (\<lambda>_.
     chain (acts [basic_effect CleanWorkspace]) (\<lambda>_.
     chain (ensure (rq_clean_ok q) (Handler Workspace_Failed)) (\<lambda>_.
     chain (enter_phase env template phase.Pending) (\<lambda>_.
     chain (tell Normal ''SpecChanged'' ''Template spec changed, restarting reconciliation'') (\<lambda>_.
     pure (RequeueAfter SHORT_REQUEUE_INTERVAL))))))"

definition run_post_reconcile_on_fresh ::
    "('d, 'j) outside \<Rightarrow> env \<Rightarrow> reconcile_answers \<Rightarrow> reconcile_spec \<Rightarrow> reactive_effect list" where
  "run_post_reconcile_on_fresh os env q spec =
     (case rq_fresh q of
        None \<Rightarrow> []
      | Some fresh \<Rightarrow> apply_reactive_policy (os_cascade os) (rq_fresh_stage q) (rs_reactive spec) (en_now env) fresh)"

text \<open>An error of the dispatch is written to the status before it is returned; a write that fails is only
  logged. A panic unwinds past it.\<close>

definition conclude ::
    "('d, 'j) outside \<Rightarrow> env \<Rightarrow> reconcile_answers \<Rightarrow> reactive_effect list \<Rightarrow> reconcile_spec \<Rightarrow> infrastructure_template
     \<Rightarrow> reconcile_action reconciled \<Rightarrow> kube_action reconciled" where
  "conclude os env q stage spec template m =
     (case snd m of
        Inr action \<Rightarrow> (fst m @ map (Act \<circ> React) (run_post_reconcile_on_fresh os env q spec), Inr (into_action action))
      | Inl e \<Rightarrow>
          if e = Panicked then (fst m, Inl e)
          else
            (let msg = dq_error_text (rq_dispatch q) e in
             (fst m @ map Act (fst (reacting stage (enter_failed env template msg)))
                @ map Act (fst (tell Warning ''ReconcileFailed'' msg)), Inl e)))"

definition reconcile_live ::
    "('d, 'j) outside \<Rightarrow> env \<Rightarrow> reconcile_answers \<Rightarrow> reactive_effect list \<Rightarrow> reconcile_spec \<Rightarrow> infrastructure_template \<Rightarrow> kube_action reconciled" where
  "reconcile_live os env q stage spec template =
     chain (lift_phased (pass_breaker env q template)) (\<lambda>go_on.
     if \<not> go_on then done_with_action (RequeueAfter DEFAULT_REQUEUE_INTERVAL)
     else if it_suspend template \<or> is_some_and wc_suspend (parent_of q) then
       chain (lift_phased (suspended_write env q template)) (\<lambda>_. done_with_action (RequeueAfter DEFAULT_REQUEUE_INTERVAL))
     else
       chain (lift_phased (inputs_write os env q spec template)) (\<lambda>_.
       if spec_changed env template then lift_phased (restart env q template)
       else
         conclude os env q stage spec template
           (dispatch_template_phase os env (rq_dispatch q) stage spec template (current_phase_of template))))"

definition reconcile_existing ::
    "('d, 'j) outside \<Rightarrow> env \<Rightarrow> reconcile_answers \<Rightarrow> reactive_effect list \<Rightarrow> reconcile_spec \<Rightarrow> infrastructure_template \<Rightarrow> kube_action reconciled" where
  "reconcile_existing os env q stage spec template =
     (if \<not> has_finalizer (dl_finalizers (rs_deletion spec)) then
        chain (lift_phased (add_finalizer (rq_add_finalizer_ok q))) (\<lambda>_. done_with_action (RequeueAfter 1000))
      else
        (case membership_of (rs_meta spec) (parent_of q \<noteq> None \<or> \<not> is_ok (rq_catalog q)) of
           Orphan catalog \<Rightarrow> lift_phased (reacting stage (fail_orphan env template catalog))
         | _ \<Rightarrow>
             if membership_of (rs_meta spec) True \<noteq> Standalone \<and> is_some_and held_for_migration (parent_of q)
             then done_with_action (RequeueAfter DEFAULT_REQUEUE_INTERVAL)
             else reconcile_live os env q stage spec template))"

definition reconcile_template ::
    "('d, 'j) outside \<Rightarrow> env \<Rightarrow> reconcile_answers \<Rightarrow> reconcile_spec \<Rightarrow> infrastructure_template \<Rightarrow> kube_action reconciled" where
  "reconcile_template os env q spec template =
     (let env = env\<lparr>en_digest := Some (material_spec_digest (os_hash os) (os_print os) (rs_json spec))\<rparr>;
          stage = apply_reactive_policy (os_cascade os) (rq_stage q) (rs_reactive spec) (en_now env) template
      in (case into_skip_action (fst (run_for_template (case it_namespace template of Some n \<Rightarrow> n | None \<Rightarrow> []) (it_name template)
              (bm_get (tm_labels (rs_meta spec)) WORKSPACE_LABEL) (rq_gates q))) of
            Some wait \<Rightarrow> done_with_action (RequeueAfter wait)
          | None \<Rightarrow>
              if it_deleted template
              then lift_phased (reacting stage (handle_deletion env (os_parse_rfc os) (rq_deletion q) (rs_deletion spec) template))
              else reconcile_existing os env q stage spec template))"

end
