(* ===== verification/Reconcile_Traces.thy ===== *)
theory Reconcile_Traces
  imports Reconcile Apply_Traces
begin

text \<open>
  What a reconcile of a template may do: which phases each handler writes, that a whole reconcile
  follows the lifecycle table but for five edges the table does not list, what a destroy takes, and
  which gates expensive work has passed.
\<close>

section \<open>Phases a trace writes\<close>

fun patch_in :: "phase_effect \<Rightarrow> status_field list" where
  "patch_in (Step (Ctl (Basic (Patch p)))) = p"
| "patch_in (React (Do (Patch p))) = p"
| "patch_in _ = []"

fun phase_field :: "status_field \<Rightarrow> phase option" where
  "phase_field (SPhase ph) = ph" | "phase_field _ = None"

definition written :: "phase_effect \<Rightarrow> phase list" where
  "written e = List.map_filter phase_field (patch_in e)"

fun act_of :: "reconcile_effect \<Rightarrow> phase_effect list" where
  "act_of (Act e) = [e]" | "act_of _ = []"

definition phase_trail :: "reconcile_effect list \<Rightarrow> phase list" where
  "phase_trail fx = concat (map written (concat (map act_of fx)))"

definition off :: "phase set \<Rightarrow> phase_effect \<Rightarrow> bool" where
  "off A e \<longleftrightarrow> \<not> set (written e) \<subseteq> A"

lemma phase_fieldD: "phase_field f = Some ph \<longleftrightarrow> f = SPhase (Some ph)"
  by (cases f) auto

lemma set_written: "set (written e) = {ph. SPhase (Some ph) \<in> set (patch_in e)}"
  by (force simp: written_def map_filter_def phase_fieldD image_iff)

lemma trail_simps [simp]:
  "phase_trail [] = []" "phase_trail (fx @ gx) = phase_trail fx @ phase_trail gx"
  "phase_trail (e # fx) = concat (map written (act_of e)) @ phase_trail fx"
  "phase_trail (map Act gx') = concat (map written gx')"
  by (simp_all add: phase_trail_def comp_def)

lemma written_quiet [simp]:
  "written (basic_effect (Event ty r m)) = []" "written (basic_effect (Inc n l)) = []" "written (basic_effect (SetGauge n v)) = []"
  "written (basic_effect CleanWorkspace) = []"
  "written (CloneRepo u r) = []" "written (RunCompiler rq) = []" "written (PutRenderedConfig j r') = []" "written (WriteMainTf s) = []"
  "written (ObserveError k s) = []" "written (EmitAnomaly sm) = []" "written DropClone = []" "written RunInit = []"
  "written RunDestroy = []" "written DeleteWorkspace = []" "written (SetFinalizers fs) = []"
  "written (Step TakeLock) = []" "written (Step ReleaseLock) = []"
  by (simp_all add: written_def basic_effect_def)

lemma off_quiet [simp]: "written e = [] \<Longrightarrow> \<not> off A e"
  by (simp add: off_def)

lemma off_patch: "off A (basic_effect (Patch p)) \<longleftrightarrow> (\<exists>ph. SPhase (Some ph) \<in> set p \<and> ph \<notin> A)"
  by (auto simp: off_def set_written basic_effect_def)

lemma off_step: "off A (Step e) \<longleftrightarrow> off_phase A e"
proof (cases "\<exists>p. e = Ctl (Basic (Patch p))")
  case True
  then show ?thesis by (auto simp: off_def set_written off_phase_def)
next
  case False
  then have "patch_in (Step e) = []"
    by (cases "Step e" rule: patch_in.cases) auto
  with False show ?thesis by (auto simp: off_def set_written off_phase_def)
qed

lemma free_steps: "free_of (off A) (map Step fx) \<longleftrightarrow> phase_writes fx \<subseteq> A"
  by (simp add: off_step flip: phase_writes_within) (simp add: free_of_def list_all_iff)

lemma phase_writes_ctl: "phase_writes (map Ctl fx) = phases_of fx"
  by (auto simp: phase_writes_def phases_of_def)

lemma lift_simps [simp]:
  "fst (lift_applied m) = map Step (fst m)" "fst (lift_planned p) = map Step (map Ctl (fst p))"
  "fst (lift_handled h) = map Step (map Ctl (map Basic (fst h)))"
  by (simp_all add: lift_applied_def lift_planned_def lift_handled_def basic_def)

lemma free_planned: "free_of (off A) (map Step (map Ctl fx)) \<longleftrightarrow> phases_of fx \<subseteq> A"
  by (simp only: free_steps phase_writes_ctl)

section \<open>The phases of each handler\<close>

lemma free_pure [simp]: "free_of bad (fst (pure x))" "free_of bad (fst (raise e))" "free_of bad (fst (ensure b e))" "free_of bad (fst (result_of r f))"
  by (simp_all add: pure_def raise_def ensure_def result_of_def)

lemma free_acts [simp]: "free_of bad (fst (acts fx)) \<longleftrightarrow> free_of bad fx"
  by (simp add: acts_def)

lemma free_tell [simp]: "free_of (off A) (fst (tell ty r m))"
  by (simp add: tell_def)

lemma free_try_patch: "(\<And>ph. SPhase (Some ph) \<in> set p \<Longrightarrow> ph \<in> A) \<Longrightarrow> free_of (off A) (fst (try_patch ok p))"
  by (auto simp: try_patch_def off_patch)

lemma free_enter_phase: "ph \<in> A \<Longrightarrow> free_of (off A) (fst (enter_phase env template ph))"
  using phases_of_go_phase [of env template ph]
  unfolding enter_phase_def lift_simps free_planned go_phase_def by (auto simp: basic_def)

lemma free_enter_failed: "phase.Failed \<in> A \<Longrightarrow> free_of (off A) (fst (enter_failed env template msg))"
  using phases_of_go_failed [of env template msg]
  unfolding enter_failed_def lift_simps free_planned go_failed_def by (auto simp: basic_def)

lemmas free_moves = free_enter_phase free_enter_failed

lemma pending_phases: "free_of (off {phase.Planning, phase.Compiling}) (fst (handle_pending env H q spec template))"
  by (auto simp: handle_pending_def Let_def free_moves intro!: free_chain split: pending_route.split)

lemma initializing_phases: "free_of (off {phase.Planning, phase.Failed}) (fst (handle_initializing env q template))"
  by (auto simp: handle_initializing_def free_moves intro!: free_chain split: sum.split option.split prod.split)

lemma compile_blocked_phases: "free_of (off {phase.Compiling}) (fst (handle_compile_blocked env template))"
  by (auto simp: handle_compile_blocked_def Let_def free_moves intro!: free_chain)

lemma destroying_phases: "free_of (off {phase.Failed}) (fst (handle_destroying env q protection finalizers template))"
proof -
  have "free_of (off {phase.Failed}) (fst (destroy_locked env q finalizers template))"
    by (auto simp: destroy_locked_def remove_finalizer_def free_moves Let_def intro!: free_chain split: option.split prod.split)
  then show ?thesis
    by (auto simp: handle_destroying_def releasing_phase_def acquire_mutation_lock_def perform_def intro!: free_chain
        split: lock_dispatch.split lock_answer.split)
qed

definition off_plan :: "phase set \<Rightarrow> planning_effect \<Rightarrow> bool" where
  "off_plan A e \<longleftrightarrow> off_phase A (Ctl e)"

lemma free_plan: "free_of (off_plan A) fx \<longleftrightarrow> phases_of fx \<subseteq> A"
  by (auto simp: free_of_def list_all_iff off_plan_def off_phase_def phases_of_def)

lemma free_plan_moves:
  "ph \<in> A \<Longrightarrow> free_of (off_plan A) (fst (go_phase env template ph))"
  "phase.Failed \<in> A \<Longrightarrow> free_of (off_plan A) (fst (go_failed env template msg))"
  "free_of (off_plan A) (fst (note_event ty reason txt))" "free_of (off_plan A) (fst (record_cycle ok res ph' ds))"
  "free_of (off_plan A) (fst (done_with d))" "free_of (off_plan A) (plan_metrics a out)"
  "free_of (off_plan A) (fst (basic (write_status ok (update_pending_plan_hash h) (return ()))))"
  "free_of (off_plan A) (fst (basic (write_status ok (build_plan_status_patch prev res' txt' ds ev now) (return ()))))"
  "free_of (off_plan A) (fst (basic (observe_source_freshness env template)))"
  "free_of (off_plan A) [Basic (BeginPass ph'')]"
  using phases_of_go_phase [of env template ph] phases_of_go_failed [of env template msg]
  unfolding free_plan phases_of_quiet phases_of_plan_writer phases_of_observation phases_of_begin by blast+

lemma gate_plan_phases:
  "phase.Applying \<in> A \<Longrightarrow> phase.Failed \<in> A \<Longrightarrow>
     free_of (off_plan A) (fst (route_through_approval_gate env J P ok template outcome reason state))"
  unfolding route_through_approval_gate_def Let_def
  by (auto intro!: free_chain free_plan_moves split: approval_hash_input.split)

lemma decide_phases: "phase.Applying \<in> A \<Longrightarrow> phase.Failed \<in> A \<Longrightarrow> free_of (off_plan A) (fst (decide_plan env J P a template outcome))"
  unfolding decide_plan_def Let_def
  by (auto intro!: free_chain free_plan_moves gate_plan_phases split: policy_decision.split auto_apply_gate.split)

abbreviation plan_targets :: "phase set" where
  "plan_targets \<equiv> {phase.Applying, phase.Ready, phase.Compiling, phase.Failed}"

lemma judge_phases: "free_of (off_plan plan_targets) (fst (judge_plan env J P a template f r))"
  unfolding judge_plan_def Let_def
  by (auto simp: free_plan_moves intro!: free_chain free_plan_moves decide_phases split: option.split prod.split)

lemma off_plan_begin [simp]: "\<not> off_plan A (Basic (BeginPass ph))"
  by (simp add: off_plan_def off_phase_def)

lemma free_ending: "free_of (off_plan A) (fst m) \<Longrightarrow> free_of (off_plan A) (fst (ending_pass m))"
  by (simp add: free_plan)

lemma planning_phases: "free_of (off_plan plan_targets) (fst (handle_planning env J P a template))"
  unfolding handle_planning_def
  by (auto simp: free_plan_moves intro!: free_chain free_plan_moves free_ending judge_phases split: sum.split bool.split option.split)

text \<open>The handlers of \<open>Template_Handlers\<close>.\<close>

definition off_patch_of :: "phase set \<Rightarrow> effect \<Rightarrow> bool" where
  "off_patch_of A e \<longleftrightarrow> off_phase A (Ctl (Basic e))"

lemma free_handled: "free_of (off A) (fst (lift_handled h)) \<longleftrightarrow> free_of (off_patch_of A) (fst h)"
  by (simp add: off_step off_patch_of_def free_of_def list_all_iff)

lemma off_patch_of_quiet [simp]:
  "\<not> off_patch_of A (Event ty r m)" "\<not> off_patch_of A (Inc n l)" "\<not> off_patch_of A (SetGauge n v)" "\<not> off_patch_of A CleanWorkspace"
  "\<not> off_patch_of A (BeginPass ph)" "\<not> off_patch_of A EndPass" "\<not> off_patch_of A FinishSettledPass"
  "\<not> off_patch_of A (SetDetailGauge a b v)" "\<not> off_patch_of A (RemoveDetailGauge a b)"
  by (simp_all add: off_patch_of_def off_phase_def)

lemma free_and_then: "free_of bad (fst m) \<Longrightarrow> (\<And>x. snd m = Inr x \<Longrightarrow> free_of bad (fst (f x))) \<Longrightarrow> free_of bad (fst (and_then m f))"
  by (simp add: fst_and_then split: sum.split)

lemma free_require: "(b \<Longrightarrow> free_of bad (fst k)) \<Longrightarrow> free_of bad (fst (require b e k))"
  by (simp add: require_def)

lemma free_write_status: "(\<And>x. SPhase (Some x) \<in> set p \<Longrightarrow> x \<in> A) \<Longrightarrow> free_of (off_patch_of A) (fst k) \<Longrightarrow> free_of (off_patch_of A) (fst (write_status ok p k))"
  by (auto simp: fst_write_status off_patch_of_def off_phase_def)

lemma free_to_phase: "ph \<in> A \<Longrightarrow> free_of (off_patch_of A) (fst k) \<Longrightarrow> free_of (off_patch_of A) (fst (to_phase env template ph k))"
  unfolding to_phase_def by (rule free_write_status) (simp_all add: phase_in_update_phase)

lemma free_to_failed: "phase.Failed \<in> A \<Longrightarrow> free_of (off_patch_of A) (fst k) \<Longrightarrow> free_of (off_patch_of A) (fst (to_failed env template msg k))"
  unfolding to_failed_def by (rule free_write_status) (auto simp: update_phase_with_error_def Let_def split: if_splits)

lemma free_observation: "free_of (off_patch_of A) (fst (observe_source_freshness env template))"
  using phases_of_observation [of env template]
  by (auto simp: free_of_def list_all_iff off_patch_of_def off_phase_def phases_of_def basic_def)

lemma free_gate: "phase.Compiling \<in> A \<Longrightarrow> free_of (off_patch_of A) (fst (source_freshness_gate env template))"
  unfolding source_freshness_gate_def
  by (auto intro!: free_and_then free_observation free_to_phase split: freshness.split)

lemmas free_handler_steps = free_and_then free_require free_to_phase free_to_failed free_gate

lemma drifted_phases: "free_of (off_patch_of {phase.Planning, phase.Compiling}) (fst (handle_drifted env template))"
  unfolding handle_drifted_def correct_drift_def
  by (auto intro!: free_handler_steps split: freshness_gate.split)

lemma failed_phases: "free_of (off_patch_of {phase.Pending}) (fst (handle_failed env held reuse_render clean_ok template))"
  unfolding handle_failed_def Let_def
  by (auto intro!: free_handler_steps free_write_status split: if_splits)

lemma settling_writes_no_phase: "SPhase x \<notin> set (update_settling_status S rfc template fresh outcome drifts f now)"
proof
  assume "SPhase x \<in> set (update_settling_status S rfc template fresh outcome drifts f now)"
  then have "K_phase \<in> set SETTLING_STATUS_FIELDS"
    by (auto simp: update_settling_status_def build_settling_status_patch_def Let_def dest!: scoped_patch_keys split: if_splits)
  then show False by (simp add: SETTLING_STATUS_FIELDS_def)
qed

lemma settle_phases: "free_of (off_patch_of {phase.Drifted, phase.Failed}) (fst (settle env sparse interval template f drifts))"
proof -
  have "free_of (off_patch_of {phase.Drifted, phase.Failed}) (fst (settle_action env interval template outcome action))" for outcome action
    unfolding settle_action_def Let_def by (auto intro!: free_handler_steps split: settling_action.split)
  then show ?thesis
    unfolding settle_def Let_def
    by (auto simp: settling_writes_no_phase update_drift_detail_gauges_def Let_def intro!: free_write_status)
qed

definition ready_targets :: "phase set" where
  "ready_targets = {phase.Drifted, phase.Failed, phase.Compiling}"

lemma free_mono: "free_of (off_patch_of A) fx \<Longrightarrow> A \<subseteq> B \<Longrightarrow> free_of (off_patch_of B) fx"
  by (auto simp: free_of_def list_all_iff off_patch_of_def off_phase_def)

lemma drift_check_phases: "free_of (off_patch_of ready_targets) (fst (run_drift_check env answers interval template f))"
proof -
  have "free_of (off_patch_of ready_targets) (fst (settle env sparse interval template f drifts))" for sparse drifts
    by (rule free_mono [OF settle_phases]) (auto simp: ready_targets_def)
  then show ?thesis
    unfolding run_drift_check_def
    by (auto simp: update_drift_check_timestamp_def intro!: free_write_status split: option.split)
qed

lemma ready_phases: "handle_ready env answers template = Returns h \<Longrightarrow> free_of (off_patch_of ready_targets) (fst h)"
  unfolding handle_ready_def Let_def
  by (auto simp: ready_targets_def intro!: free_handler_steps drift_check_phases [unfolded ready_targets_def]
      split: if_splits outcome.splits freshness_gate.split sum.split bool.split option.split)

lemma handler_writes_no_phase:
  "SPhase x \<notin> set (eo_status_patch (case handler_for invalidated action ctx of Inr out \<Rightarrow> out | Inl e \<Rightarrow> handler_error_outcome action e))"
  by (auto simp: handler_error_outcome_def dest: handler_effects split: sum.split if_splits)

lemma blocked_effects_phases: "free_of (off {phase.CompileBlocked}) (compile_blocked_effects env q template msg signature n limit)"
  by (simp add: compile_blocked_effects_def Let_def off_patch handler_writes_no_phase)

lemma failure_phases: "free_of (off {phase.CompileBlocked}) (fst (handle_compile_failure env H q template msg))"
  unfolding handle_compile_failure_def Let_def split_beta
  by (intro free_chain) (auto simp: blocked_effects_phases intro!: free_try_patch)

lemma body_quiet: "free_of (off A) (fst (source_body q spec))"
  unfolding source_body_def
  by (auto intro!: free_chain split: option.split config_map_answer.split sum.split)

lemma variables_quiet: "free_of (off A) (fst (compile_variables q spec template))"
  unfolding compile_variables_def Let_def by (auto intro!: free_chain split: option.split)

lemma render_phases: "free_of (off {phase.CompileBlocked}) (fst (render env H q spec template content))"
  unfolding render_def Let_def
  by (auto intro!: free_chain variables_quiet failure_phases split: option.split sum.split)

lemma free_off_mono: "free_of (off A) fx \<Longrightarrow> A \<subseteq> B \<Longrightarrow> free_of (off B) fx"
  by (auto simp: free_of_def list_all_iff off_def)

lemma compiled_writes_no_phase: "SPhase x \<notin> set (update_compiled_revision template revision now)"
  by (auto simp: update_compiled_revision_def)

lemma compiling_phases: "free_of (off {phase.CompileBlocked, phase.Initializing}) (fst (handle_compiling env H J q spec template))"
proof -
  have "free_of (off {phase.CompileBlocked, phase.Initializing}) (fst (render env H q spec template content))" for content
    by (rule free_off_mono [OF render_phases]) auto
  moreover have "free_of (off A) (fst (store_render J q terraform_json revision))" for A terraform_json revision
    unfolding store_render_def by (auto intro!: free_chain split: option.split)
  moreover have "free_of (off A) (fst (reset_compile_failure_counter ok template))" for A ok
    unfolding reset_compile_failure_counter_def by (auto intro!: free_chain free_try_patch)
  moreover have "free_of (off A) (fst (lift_handled (write_status ok (update_compiled_revision template revision now) (return ()))))" for A ok revision now
    unfolding free_handled by (rule free_write_status) (simp_all add: compiled_writes_no_phase)
  ultimately show ?thesis
    unfolding handle_compiling_def Let_def by (auto intro!: free_chain body_quiet free_moves split: prod.split option.split)
qed

section \<open>The phases of a reconcile\<close>

fun targets :: "phase \<Rightarrow> phase set" where
  "targets phase.Pending = {phase.Planning, phase.Compiling}"
| "targets phase.Compiling = {phase.CompileBlocked, phase.Initializing}"
| "targets phase.Initializing = {phase.Planning, phase.Failed}"
| "targets phase.Planning = plan_targets"
| "targets phase.Applying = insert phase.Ready setbacks"
| "targets phase.Ready = ready_targets"
| "targets phase.Drifted = {phase.Planning, phase.Compiling}"
| "targets phase.Failed = {phase.Pending}"
| "targets phase.Destroying = {phase.Failed}"
| "targets phase.CompileBlocked = {phase.Compiling}"
| "targets phase.Verifying = {phase.Compiling}"
| "targets phase.Verified = {phase.Compiling}"

lemma ready_lifted: "free_of (off ready_targets) (fst (lift_ready (handle_ready env answers template)))"
  by (auto simp: lift_ready_def free_handled dest: ready_phases simp del: lift_simps split: outcome.split)

lemma applying_lifted: "free_of (off (insert phase.Ready setbacks)) (fst (lift_applied (handle_applying env D J P a spec template)))"
proof -
  have "phase_writes (fst (handle_applying env D J P a spec template)) \<subseteq> insert phase.Ready setbacks"
    using applying_writes [of env D J P a spec template] by (auto simp: outcomes_of_def split: if_splits)
  then show ?thesis by (simp only: lift_simps free_steps)
qed

lemma planning_lifted: "free_of (off plan_targets) (fst (lift_planned (handle_planning env J P a template)))"
  using planning_phases unfolding lift_simps free_planned free_plan .

lemma handler_phases: "free_of (off (targets ph)) (fst (handle_phase os env q spec template ph))"
  by (cases ph)
    (simp_all add: handle_phase_def pending_phases compiling_phases initializing_phases planning_lifted applying_lifted ready_lifted
      compile_blocked_phases destroying_phases free_handled drifted_phases failed_phases free_chain free_enter_phase del: lift_simps)

lemma stage_phases: "phase.Failed \<in> A \<Longrightarrow> free_of (off A) (map React (apply_reactive_policy K q policy now template))"
proof -
  assume "phase.Failed \<in> A"
  have "\<not> off A (React e)" if "e \<in> set (apply_reactive_policy K q policy now template)" for e
  proof (cases "\<exists>p. e = Do (Patch p)")
    case True
    then show ?thesis using that \<open>phase.Failed \<in> A\<close> by (auto simp: off_def set_written dest!: phase_write_forced)
  next
    case False
    then have "patch_in (React e) = []" by (cases "React e" rule: patch_in.cases) auto
    then show ?thesis by (simp add: off_def set_written)
  qed
  then show ?thesis by (simp add: free_of_def list_all_iff)
qed

lemma reacting_phases:
  assumes "free_of (off A) (fst m)" "free_of (off B) (map React stage)" "A \<subseteq> B"
  shows "free_of (off B) (fst (reacting stage m))"
  using free_off_mono [OF assms(1,3)] assms(2) by (auto simp: reacting_def free_of_def list_all_iff)

definition off_trail :: "phase set \<Rightarrow> reconcile_effect \<Rightarrow> bool" where
  "off_trail A e \<longleftrightarrow> \<not> set (phase_trail [e]) \<subseteq> A"

lemma off_trail_simps [simp]:
  "off_trail A (Act e) \<longleftrightarrow> off A e" "\<not> off_trail A (NoteBlocked k)" "\<not> off_trail A (TakeBlocked k)" "\<not> off_trail A (AskSlot c n)"
  "\<not> off_trail A FreeSlot" "\<not> off_trail A (Deferred scope ph)"
  by (simp_all add: off_trail_def off_def)

lemma free_trail: "free_of (off_trail A) fx \<longleftrightarrow> set (phase_trail fx) \<subseteq> A"
  by (induction fx) (auto simp: off_trail_def)

lemma free_lift_phased: "free_of (off_trail A) (fst (lift_phased m)) \<longleftrightarrow> free_of (off A) (fst m)"
  by (simp add: lift_phased_def free_of_def list_all_iff)

lemma free_marks [simp]: "free_of bad (fst (marks fx)) \<longleftrightarrow> free_of bad fx" "free_of bad (fst (done_with_action x))"
  by (simp_all add: marks_def done_with_action_def)

lemma free_acts_map: "free_of (off_trail A) (map Act fx) \<longleftrightarrow> free_of (off A) fx"
  by (simp add: free_of_def list_all_iff)

lemma rate_quiet: "free_of (off A) (fst (rate_hold ok now template))" "free_of (off A) (fst (record_rate_limit stamp ok until msg))"
  unfolding rate_hold_def record_rate_limit_def by (auto intro!: free_chain free_try_patch split: option.split)

lemma settle_quiet: "free_of (off A) (fst (settle_outcome os env q outcome))"
  unfolding settle_outcome_def Let_def
  by (auto intro!: free_chain rate_quiet split: sum.split option.split Reconciler.outcome.split)

lemma dispatch_phases:
  assumes "free_of (off B) (map React stage)" "targets ph \<subseteq> B"
  shows "free_of (off_trail B) (fst (dispatch_template_phase os env q stage spec template ph))"
proof -
  have m: "free_of (off B) (fst (reacting stage (handle_phase os env q spec template ph)))"
    by (rule reacting_phases [OF handler_phases assms])
  have "free_of (off_trail B) (fst (run_admitted os env q stage spec template ph waited))" for waited
    unfolding run_admitted_def Let_def
    using m by (intro free_chain) (auto simp: free_lift_phased free_acts_map settle_quiet simp del: free_of_simps(4) intro!: free_try_patch)
  then show ?thesis
    unfolding dispatch_template_phase_def dispatch_expensive_def Let_def
    using m by (auto simp: free_lift_phased rate_quiet intro!: free_chain split: option.split gate_verdict.split)
qed

text \<open>The edges a reconcile takes that the table does not list.\<close>

definition unlisted_edges :: "(phase \<times> phase) set" where
  "unlisted_edges = insert (phase.Pending, phase.Planning)
     ({phase.Compiling, phase.CompileBlocked, phase.Verifying, phase.Verified} \<times> {phase.Failed})"

definition edges_from :: "phase \<Rightarrow> phase set" where
  "edges_from ph = {w. edge_is_legal ph w \<or> (ph, w) \<in> unlisted_edges}"

lemma fails_from_anywhere: "phase.Failed \<in> edges_from ph"
  by (cases ph) (simp_all add: edges_from_def unlisted_edges_def edge_is_legal_def table_defs)

lemma targets_from: "targets ph \<subseteq> edges_from ph"
  by (cases ph) (auto simp: edges_from_def unlisted_edges_def edge_is_legal_def table_defs ready_targets_def)

lemma restart_from: "ph \<notin> {phase.Pending, phase.Destroying} \<Longrightarrow> phase.Pending \<in> edges_from ph"
  by (cases ph) (simp_all add: edges_from_def edge_is_legal_def table_defs)

lemma destroying_from: "phase.Destroying \<in> edges_from ph"
  by (cases ph) (simp_all add: edges_from_def edge_is_legal_def table_defs)

lemma breaker_quiet: "free_of (off A) (fst (pass_breaker env q template))"
  unfolding pass_breaker_def Let_def by (auto simp: off_patch intro!: free_chain split: breaker.split)

lemma writes_quiet: "free_of (off A) (fst (suspended_write env q template))" "free_of (off A) (fst (inputs_write os env q spec template))"
  unfolding suspended_write_def inputs_write_def Let_def patch_for_def condition_patch_def
  by (auto intro!: free_try_patch split: option.split if_splits)

lemma conclude_phases:
  assumes "free_of (off_trail A) (fst m)" "phase.Failed \<in> A" "free_of (off A) (map React stage)"
  shows "free_of (off_trail A) (fst (conclude os env q stage spec template m))"
proof -
  have "free_of (off A) (fst (reacting stage (enter_failed env template msg)))" for msg
    by (rule reacting_phases [OF free_enter_failed assms(3)]) (use assms(2) in auto)
  moreover have "free_of (off A) (map React (run_post_reconcile_on_fresh os env q spec))"
    using stage_phases [OF assms(2)] by (cases "rq_fresh q") (simp_all add: run_post_reconcile_on_fresh_def)
  ultimately show ?thesis
    using assms(1) unfolding conclude_def Let_def
    by (simp add: free_acts_map del: free_of_simps(4) map_map flip: map_map split: sum.split)
qed

lemma live_phases:
  assumes "free_of (off (edges_from (current_phase_of template))) (map React stage)"
  shows "free_of (off_trail (edges_from (current_phase_of template))) (fst (reconcile_live os env q stage spec template))"
proof -
  let ?ph = "current_phase_of template"
  note dispatched = dispatch_phases [OF assms targets_from, of os env "rq_dispatch q" spec template]
  have "free_of (off (edges_from ?ph)) (fst (restart env q template))" if "spec_changed env template"
    using that restart_from [of ?ph] unfolding restart_def spec_changed_def by (auto intro!: free_chain free_enter_phase)
  then show ?thesis
    unfolding reconcile_live_def
    by (auto simp: free_lift_phased breaker_quiet writes_quiet fails_from_anywhere simp del: free_of_simps(4)
        intro!: free_chain conclude_phases dispatched assms)
qed

lemma deletion_phases:
  "phase.Failed \<in> A \<Longrightarrow> phase.Destroying \<in> A \<Longrightarrow> free_of (off A) (fst (handle_deletion env parse_rfc q spec template))"
  using free_off_mono [OF destroying_phases, of A] unfolding handle_deletion_def Let_def remove_finalizer_def
  by (auto intro!: free_chain free_enter_phase)

lemma trail_from:
  "set (phase_trail (fst (reconcile_template os env q spec template))) \<subseteq> edges_from (current_phase_of template)"
proof -
  let ?ph = "current_phase_of template"
  let ?stage = "apply_reactive_policy (os_cascade os) (rq_stage q) (rs_reactive spec) (en_now env) template"
  note stage = stage_phases [OF fails_from_anywhere, of ?ph "os_cascade os" "rq_stage q" "rs_reactive spec" "en_now env" template]
  have orphan: "free_of (off (edges_from ?ph)) (fst (reacting ?stage (fail_orphan env' template catalog)))" for env' catalog
    unfolding fail_orphan_def Let_def
    by (rule reacting_phases [OF _ stage order_refl]) (auto intro!: free_chain free_enter_failed fails_from_anywhere)
  have deletion: "free_of (off (edges_from ?ph)) (fst (reacting ?stage (handle_deletion env' parse_rfc dq dspec template)))" for env' parse_rfc dq dspec
    by (rule reacting_phases [OF deletion_phases stage order_refl]) (rule fails_from_anywhere destroying_from)+
  show ?thesis
    unfolding reconcile_template_def reconcile_existing_def Let_def free_trail [symmetric]
    by (auto simp: free_lift_phased deletion orphan add_finalizer_def simp del: free_of_simps(4)
        intro!: free_chain live_phases stage split: option.split membership.split)
qed

text \<open>C8: A reconcile follows the lifecycle. Every phase it writes (a handler's move, an escalation, the
  error path, a restart, a deletion) is an edge of the transition table from the phase it started in,
  or one of five edges the table does not list: Pending to Planning, and Failed from Compiling,
  CompileBlocked, Verifying or Verified.\<close>

theorem reconcile_follows_lifecycle:
  "w \<in> set (phase_trail (fst (reconcile_template os env q spec template)))
   \<Longrightarrow> edge_is_legal (current_phase_of template) w \<or> (current_phase_of template, w) \<in> unlisted_edges"
  using trail_from [of os env q spec template] by (auto simp: edges_from_def)

section \<open>Quiet steps\<close>

text \<open>A class of effects that status writes, events, metrics and the reactive stage do not belong to. The
  steps around the handlers are free of it, and so are the handlers that neither compile, initialize,
  plan, apply nor destroy.\<close>

fun bookkeeping :: "effect \<Rightarrow> bool" where
  "bookkeeping (BeginPass _) = False" | "bookkeeping _ = True"

lemma booked_move: "free_of (\<lambda>x. \<not> bookkeeping x) (fst k) \<Longrightarrow> free_of (\<lambda>x. \<not> bookkeeping x) (fst (to_phase env template ph k))"
  by (simp add: to_phase_def fst_write_status)

lemma booked_gate: "free_of (\<lambda>x. \<not> bookkeeping x) (fst (source_freshness_gate env template))"
  unfolding source_freshness_gate_def observe_source_freshness_def
  by (auto simp: fst_write_status intro!: free_and_then free_require booked_move split: freshness.split option.split sum.split)

locale quiet_effects =
  fixes bad :: "phase_effect \<Rightarrow> bool"
  assumes quiet_basic: "bookkeeping x \<Longrightarrow> \<not> bad (Step (Ctl (Basic x)))"
    and quiet_react: "\<not> bad (React r)"
begin

lemma quiet_basic_effect: "bookkeeping x \<Longrightarrow> \<not> bad (basic_effect x)"
  by (simp add: basic_effect_def quiet_basic)

lemma quiet_lift: "free_of (\<lambda>x. \<not> bookkeeping x) (fst h) \<Longrightarrow> free_of bad (fst (lift_handled h))"
  by (auto simp: quiet_basic dest: free_ofD)

lemma quiet_moves:
  "free_of bad (fst (enter_phase env template ph))" "free_of bad (fst (enter_failed env template msg))"
  "free_of bad (fst (tell ty r m))" "free_of bad (fst (try_patch ok p))"
  unfolding enter_phase_def enter_failed_def tell_def try_patch_def
  by (auto simp: to_phase_def to_failed_def fst_write_status quiet_basic quiet_basic_effect split: if_splits)

lemma quiet_reacting: "free_of bad (fst (reacting stage m)) \<longleftrightarrow> free_of bad (fst m)"
  by (auto simp: reacting_def free_of_def list_all_iff quiet_react)

lemma quiet_around:
  "free_of bad (fst (pass_breaker env q template))" "free_of bad (fst (suspended_write env q template))"
  "free_of bad (fst (inputs_write os env q spec template))" "free_of bad (fst (restart env q template))"
  "free_of bad (fst (fail_orphan env template catalog))" "free_of bad (fst (settle_outcome os env dq out))"
  "free_of bad (fst (rate_hold ok now template))"
  unfolding pass_breaker_def suspended_write_def inputs_write_def restart_def fail_orphan_def settle_outcome_def record_rate_limit_def
    rate_hold_def Let_def
  by (auto intro!: free_chain quiet_moves quiet_basic_effect split: breaker.split option.split sum.split Reconciler.outcome.split)

lemma quiet_pending: "free_of bad (fst (handle_pending env H q spec template))"
  unfolding handle_pending_def Let_def by (auto intro!: free_chain quiet_moves)

lemma quiet_compile_blocked: "free_of bad (fst (handle_compile_blocked env template))"
  unfolding handle_compile_blocked_def Let_def by (auto intro!: free_chain quiet_moves)

lemma quiet_drifted: "free_of bad (fst (lift_handled (handle_drifted env template)))"
  unfolding handle_drifted_def correct_drift_def
  by (rule quiet_lift) (auto intro!: free_and_then free_require booked_gate booked_move split: freshness_gate.split)

lemma quiet_failed: "free_of bad (fst (lift_handled (handle_failed env held reuse_render clean_ok template)))"
  unfolding handle_failed_def Let_def
  by (rule quiet_lift) (auto simp: fst_write_status intro!: free_require booked_move)

lemma quiet_conclude: "free_of (\<lambda>e. \<exists>x. e = Act x \<and> bad x) (fst (conclude os env q stage spec template m))
   \<longleftrightarrow> free_of (\<lambda>e. \<exists>x. e = Act x \<and> bad x) (fst m)"
proof -
  have "free_of bad (fst (reacting stage (enter_failed env template msg)))" "free_of bad (fst (tell ty r msg))" for msg ty r
    by (simp_all add: quiet_reacting quiet_moves)
  then show ?thesis
    by (auto simp: conclude_def Let_def quiet_react free_of_def list_all_iff split: sum.split)
qed

end

section \<open>A destroy takes two keys\<close>

interpretation destroying: quiet_effects "\<lambda>e. e = RunDestroy"
  by unfold_locales simp_all

lemma no_destroy_steps: "free_of (\<lambda>e. e = RunDestroy) (fst (lift_applied m))" "free_of (\<lambda>e. e = RunDestroy) (fst (lift_planned p))"
  "free_of (\<lambda>e. e = RunDestroy) (fst (lift_handled h))"
  by simp_all

lemma no_destroy_compiling: "free_of (\<lambda>e. e = RunDestroy) (fst (handle_compiling env H J q spec template))"
proof -
  have "free_of (\<lambda>e. e = RunDestroy) (fst (handle_compile_failure env H fq template msg))" for fq msg
    unfolding handle_compile_failure_def compile_blocked_effects_def Let_def split_beta
    by (intro free_chain) (auto simp: basic_effect_def intro!: destroying.quiet_moves)
  moreover have "free_of (\<lambda>e. e = RunDestroy) (fst (source_body q spec))" "free_of (\<lambda>e. e = RunDestroy) (fst (compile_variables q spec template))"
    unfolding source_body_def compile_variables_def Let_def
    by (auto intro!: free_chain split: option.split config_map_answer.split sum.split)
  ultimately show ?thesis
    unfolding handle_compiling_def render_def store_render_def reset_compile_failure_counter_def Let_def
    by (auto simp: basic_effect_def intro!: free_chain destroying.quiet_moves split: prod.split option.split sum.split)
qed

lemma no_destroy_initializing: "free_of (\<lambda>e. e = RunDestroy) (fst (handle_initializing env q template))"
  unfolding handle_initializing_def
  by (auto intro!: free_chain destroying.quiet_moves split: sum.split option.split prod.split)

lemma no_destroy_ready: "free_of (\<lambda>e. e = RunDestroy) (fst (lift_ready m))"
  by (simp add: lift_ready_def no_destroy_steps split: Reconciler.outcome.split)

lemma destroy_in_handler:
  assumes "RunDestroy \<in> set (fst (handle_phase os env q spec template ph))"
  shows "ph = phase.Destroying"
proof (rule ccontr)
  assume "ph \<noteq> phase.Destroying"
  then have "free_of (\<lambda>e. e = RunDestroy) (fst (handle_phase os env q spec template ph))"
    by (cases ph)
      (simp_all add: handle_phase_def destroying.quiet_pending no_destroy_compiling no_destroy_initializing no_destroy_steps no_destroy_ready
        destroying.quiet_compile_blocked free_chain destroying.quiet_moves del: lift_simps)
  with assms show False by (auto dest: free_ofD)
qed

lemma destroy_unprotected:
  assumes "RunDestroy \<in> set (fst (handle_destroying env q protection finalizers template))"
  shows "\<not> protection \<and> (dq_lock q = NoLockManager \<or> dq_lock q = LockGranted)"
  using assms
  by (auto simp: handle_destroying_def in_chain ensure_def pure_def raise_def acquire_mutation_lock_def perform_def lift_applied_def
      split: if_splits lock_answer.splits)

lemma in_reacting: "e \<in> set (fst (reacting stage m)) \<Longrightarrow> (\<And>r. e \<noteq> React r) \<Longrightarrow> e \<in> set (fst m)"
  by (auto simp: reacting_def split: if_splits)

abbreviation no_act :: "(phase_effect \<Rightarrow> bool) \<Rightarrow> reconcile_effect list \<Rightarrow> bool" where
  "no_act bad \<equiv> free_of (\<lambda>e. \<exists>x. e = Act x \<and> bad x)"

lemma no_act_lift: "no_act bad (fst (lift_phased m)) \<longleftrightarrow> free_of bad (fst m)"
  by (auto simp: lift_phased_def free_of_def list_all_iff)

lemma no_act_map: "no_act bad (map Act fx) \<longleftrightarrow> free_of bad fx"
  by (auto simp: free_of_def list_all_iff)

context quiet_effects
begin

lemma quiet_dispatch:
  assumes "free_of bad (fst (handle_phase os env q spec template ph))"
  shows "no_act bad (fst (dispatch_template_phase os env q stage spec template ph))"
proof -
  have m: "free_of bad (fst (reacting stage (handle_phase os env q spec template ph)))" using assms by (simp add: quiet_reacting)
  then have "no_act bad (fst (run_admitted os env q stage spec template ph waited))" for waited
    unfolding run_admitted_def Let_def
    by (intro free_chain) (auto simp: no_act_lift no_act_map quiet_around simp del: free_of_simps(4) intro!: quiet_moves)
  with m show ?thesis
    unfolding dispatch_template_phase_def dispatch_expensive_def Let_def
    by (auto simp: no_act_lift quiet_around intro!: free_chain split: option.split gate_verdict.split)
qed

lemma quiet_live:
  assumes "no_act bad (fst (dispatch_template_phase os env (rq_dispatch q) stage spec template (current_phase_of template)))"
  shows "no_act bad (fst (reconcile_live os env q stage spec template))"
  using assms unfolding reconcile_live_def
  by (auto simp: no_act_lift quiet_around quiet_conclude intro!: free_chain)

lemma quiet_existing:
  assumes "has_finalizer (dl_finalizers (rs_deletion spec)) \<Longrightarrow> no_act bad (fst (reconcile_live os env q stage spec template))"
    and "\<And>fs. \<not> bad (SetFinalizers fs)"
  shows "no_act bad (fst (reconcile_existing os env q stage spec template))"
  using assms unfolding reconcile_existing_def
  by (auto simp: no_act_lift quiet_around quiet_reacting add_finalizer_def intro!: free_chain split: membership.split)

end

lemma destroy_live:
  assumes "Act RunDestroy \<in> set (fst (reconcile_live os env q stage spec template))"
  shows "current_phase_of template = phase.Destroying \<and> \<not> dl_destroy_protection (rs_deletion spec)"
proof -
  let ?ph = "current_phase_of template"
  have "\<not> no_act (\<lambda>e. e = RunDestroy) (fst (reconcile_live os env q stage spec template))" using assms by (auto dest: free_ofD)
  then have "RunDestroy \<in> set (fst (handle_phase os env (rq_dispatch q) spec template ?ph))"
    using destroying.quiet_live destroying.quiet_dispatch by (fastforce simp: free_of_def list_all_iff)
  moreover from this have ph: "?ph = phase.Destroying" by (rule destroy_in_handler)
  ultimately have "RunDestroy \<in> set (fst (handle_destroying env (dq_destroying (rq_dispatch q)) (dl_destroy_protection (rs_deletion spec))
    (dl_finalizers (rs_deletion spec)) template))" by (simp add: handle_phase_def)
  from destroy_unprotected [OF this] ph show ?thesis by blast
qed

lemma destroy_deleting:
  assumes "RunDestroy \<in> set (fst (handle_deletion env parse_rfc q spec template))"
  shows "has_finalizer (dl_finalizers spec) \<and> \<not> dl_destroy_protection spec \<and> current_phase_of template = phase.Destroying
    \<and> destroy_authority_of parse_rfc (dl_authorization spec) (it_name template) (en_now env) = Granted"
proof -
  have "RunDestroy \<notin> set (fst (enter_phase env template ph))" "RunDestroy \<notin> set (fst (tell ty r m))" for ph ty r m
    using destroying.quiet_moves(1) [of env template ph] destroying.quiet_moves(3) [of ty r m] by (auto simp: free_of_def list_all_iff)
  with assms show ?thesis
    by (cases "destroy_authority_of parse_rfc (dl_authorization spec) (it_name template) (en_now env)")
      (auto simp: handle_deletion_def Let_def in_chain pure_def remove_finalizer_def acts_def raise_def split: if_splits)
qed

text \<open>C2: A destroy takes two keys. A reconcile runs a destroy only for a template with the finalizer, with
  destroy protection off and in the phase Destroying; when the object is being deleted, an
  authorization names this template and has not expired.\<close>

theorem destroy_needs_two_keys:
  assumes "Act RunDestroy \<in> set (fst (reconcile_template os env q spec template))"
  shows "has_finalizer (dl_finalizers (rs_deletion spec)) \<and> \<not> dl_destroy_protection (rs_deletion spec)
    \<and> current_phase_of template = phase.Destroying
    \<and> (it_deleted template \<longrightarrow>
        destroy_authority_of (os_parse_rfc os) (dl_authorization (rs_deletion spec)) (it_name template) (en_now env) = Granted)"
proof -
  let ?env = "env\<lparr>en_digest := Some (material_spec_digest (os_hash os) (os_print os) (rs_json spec))\<rparr>"
  let ?stage = "apply_reactive_policy (os_cascade os) (rq_stage q) (rs_reactive spec) (en_now env) template"
  from assms consider "it_deleted template"
      "RunDestroy \<in> set (fst (reacting ?stage (handle_deletion ?env (os_parse_rfc os) (rq_deletion q) (rs_deletion spec) template)))"
    | "\<not> it_deleted template" "Act RunDestroy \<in> set (fst (reconcile_existing os ?env q ?stage spec template))"
    by (auto simp: reconcile_template_def Let_def lift_phased_def done_with_action_def split: option.splits if_splits)
  then show ?thesis
  proof cases
    case 1
    then show ?thesis using destroy_deleting [OF in_reacting [OF 1(2)]] by simp
  next
    case 2
    then have "Act RunDestroy \<in> set (fst (reconcile_live os ?env q ?stage spec template)) \<and> has_finalizer (dl_finalizers (rs_deletion spec))"
      using destroying.quiet_existing [of spec os ?env q ?stage template] by (fastforce simp: free_of_def list_all_iff)
    with 2(1) destroy_live show ?thesis by blast
  qed
qed

section \<open>Expensive work has passed every gate\<close>

fun is_work :: "phase_effect \<Rightarrow> bool" where
  "is_work (CloneRepo _ _) = True" | "is_work (RunCompiler _) = True" | "is_work (PutRenderedConfig _ _) = True"
| "is_work (WriteMainTf _) = True" | "is_work (Step (RunApply _)) = True" | "is_work (Step RunPlan) = True"
| "is_work (Step (RunImport _ _)) = True" | "is_work (Step (Ctl (Basic (BeginPass _)))) = True" | "is_work _ = False"

lemma bookkeeping_is_no_work: "bookkeeping x \<Longrightarrow> \<not> is_work (Step (Ctl (Basic x)))"
  by (cases x) simp_all

interpretation working: quiet_effects is_work
  by unfold_locales (simp_all add: bookkeeping_is_no_work)

lemma no_work_destroying: "free_of is_work (fst (handle_destroying env q protection finalizers template))"
proof -
  have "free_of is_work (fst (destroy_locked env q finalizers template))"
    unfolding destroy_locked_def Let_def remove_finalizer_def
    by (auto intro!: free_chain working.quiet_moves split: option.split prod.split)
  then show ?thesis
    unfolding handle_destroying_def releasing_phase_def acquire_mutation_lock_def perform_def
    by (auto intro!: free_chain split: lock_dispatch.split lock_answer.split)
qed

lemma no_work_initializing: "free_of is_work (fst (handle_initializing env q template))"
  unfolding handle_initializing_def
  by (auto intro!: free_chain working.quiet_moves split: sum.split option.split prod.split)

lemma cheap_handlers: "\<not> expensive ph \<Longrightarrow> ph \<noteq> phase.Ready \<Longrightarrow> free_of is_work (fst (handle_phase os env q spec template ph))"
  by (cases ph)
    (simp_all add: handle_phase_def expensive_def working.quiet_pending no_work_initializing no_work_destroying working.quiet_drifted
      working.quiet_failed working.quiet_compile_blocked working.quiet_moves free_chain del: lift_simps)

definition leaf_cap_of :: "dispatch_answers \<Rightarrow> nat option" where
  "leaf_cap_of q = map_option (\<lambda>n. scope_cap (Some n) (dq_per_scope q)) (dq_max_leaves q)"

lemma snd_rate_hold: "snd (rate_hold ok now template) = Inr (wait_for (is_rate_limited_until (snapshot template)) now)"
  by (simp add: rate_hold_def wait_for_def snd_chain try_patch_def acts_def pure_def split: option.split)

lemma lift_phased_simps [simp]: "fst (lift_phased m) = map Act (fst m)" "snd (lift_phased m) = snd m"
  by (simp_all add: lift_phased_def)

lemma marks_simps [simp]: "fst (marks fx) = fx" "snd (marks fx) = Inr ()" "fst (done_with_action x) = []" "snd (done_with_action x) = Inr x"
  by (simp_all add: marks_def done_with_action_def)

text \<open>Under a slot: the trace asks for it, the effect follows, and the slot is freed once, afterwards.\<close>

definition under_slot :: "candidate \<Rightarrow> nat option \<Rightarrow> phase_effect \<Rightarrow> reconcile_effect list \<Rightarrow> bool" where
  "under_slot c n e fx \<longleftrightarrow> (\<exists>pre mid post. fx = pre @ AskSlot c n # mid @ FreeSlot # post \<and> Act e \<in> set mid
     \<and> FreeSlot \<notin> set (pre @ mid @ post))"

lemma under_slot_around: "under_slot c n e fx \<Longrightarrow> FreeSlot \<notin> set pre \<Longrightarrow> FreeSlot \<notin> set post \<Longrightarrow> under_slot c n e (pre @ fx @ post)"
  unfolding under_slot_def
proof (elim exE conjE)
  fix pre' mid post'
  assume "fx = pre' @ AskSlot c n # mid @ FreeSlot # post'" "Act e \<in> set mid" "FreeSlot \<notin> set (pre' @ mid @ post')"
    "FreeSlot \<notin> set pre" "FreeSlot \<notin> set post"
  then have "pre @ fx @ post = (pre @ pre') @ AskSlot c n # mid @ FreeSlot # (post' @ post) \<and> Act e \<in> set mid
    \<and> FreeSlot \<notin> set ((pre @ pre') @ mid @ (post' @ post))" by simp
  then show "\<exists>pre'' mid post''. pre @ fx @ post = pre'' @ AskSlot c n # mid @ FreeSlot # post'' \<and> Act e \<in> set mid
    \<and> FreeSlot \<notin> set (pre'' @ mid @ post'')" by blast
qed

lemma work_admitted:
  assumes "Act e \<in> set (fst (run_admitted os env q stage spec template ph waited))" "is_work e"
  shows "\<exists>mid post. fst (run_admitted os env q stage spec template ph waited) = mid @ FreeSlot # post \<and> Act e \<in> set mid
    \<and> FreeSlot \<notin> set (mid @ post)"
proof -
  let ?restart = "map Act (fst (if waited then try_patch (dq_restart_ok q) [SPhaseEnteredAt (Some (en_now env))] else pure ()))"
  let ?m = "reacting stage (handle_phase os env q spec template ph)"
  let ?settle = "map Act (fst (settle_outcome os env q (snd ?m)))"
  have trace: "fst (run_admitted os env q stage spec template ph waited) = (?restart @ map Act (fst ?m)) @ FreeSlot # ?settle"
    by (simp add: run_admitted_def Let_def fst_chain try_patch_def acts_def pure_def)
  have "e \<notin> set (fst (settle_outcome os env q (snd ?m)))"
    using free_ofD [OF working.quiet_around(6)] assms(2) by blast
  then have "Act e \<in> set (?restart @ map Act (fst ?m))" using assms(1) unfolding trace by auto
  with trace show ?thesis by (intro exI [of _ "?restart @ map Act (fst ?m)"] exI [of _ ?settle]) auto
qed

lemma work_dispatched:
  assumes "Act e \<in> set (fst (dispatch_template_phase os env q stage spec template ph))" "is_work e" "ph \<noteq> phase.Ready"
  shows "expensive ph \<and> blocked_upstreams (os_graph os) (dq_fetch q) (cs_variable_refs (rs_compile spec)) template (ph = phase.Applying) = []
    \<and> wait_for (is_rate_limited_until (snapshot template)) (en_now env) = None
    \<and> (\<exists>waited. dq_verdict q (candidate_of os q spec template ph) (leaf_cap_of q) = Admitted waited)
    \<and> under_slot (candidate_of os q spec template ph) (leaf_cap_of q) e (fst (dispatch_template_phase os env q stage spec template ph))"
proof -
  have exp: "expensive ph"
  proof (rule ccontr)
    assume "\<not> expensive ph"
    with cheap_handlers assms(3) have "no_act is_work (fst (dispatch_template_phase os env q stage spec template ph))"
      by (intro working.quiet_dispatch) blast
    with assms(1,2) show False by (auto dest: free_ofD)
  qed
  let ?hold = "map Act (fst (rate_hold (dq_rate_clear_ok q) (en_now env) template))"
  have held: "Act e \<notin> set ?hold" using working.quiet_around(7) assms(2) by (auto dest: free_ofD)
  from assms(1) exp held obtain waited where gates:
    "blocked_upstreams (os_graph os) (dq_fetch q) (cs_variable_refs (rs_compile spec)) template (ph = phase.Applying) = []"
    "wait_for (is_rate_limited_until (snapshot template)) (en_now env) = None"
    "dq_verdict q (candidate_of os q spec template ph) (leaf_cap_of q) = Admitted waited"
    "Act e \<in> set (fst (run_admitted os env q stage spec template ph waited))"
    by (auto simp: dispatch_template_phase_def dispatch_expensive_def Let_def in_chain snd_rate_hold leaf_cap_of_def
        split: if_splits option.splits gate_verdict.splits)
  obtain mid post where run: "fst (run_admitted os env q stage spec template ph waited) = mid @ FreeSlot # post" "Act e \<in> set mid"
    "FreeSlot \<notin> set (mid @ post)" using work_admitted [OF gates(4) assms(2)] by blast
  have "fst (dispatch_template_phase os env q stage spec template ph)
    = (?hold @ [TakeBlocked (gate_key_of template)]) @ AskSlot (candidate_of os q spec template ph) (leaf_cap_of q) # mid @ FreeSlot # post"
    using gates run(1) exp
    by (simp add: dispatch_template_phase_def dispatch_expensive_def Let_def fst_chain snd_rate_hold leaf_cap_of_def)
  then have "under_slot (candidate_of os q spec template ph) (leaf_cap_of q) e (fst (dispatch_template_phase os env q stage spec template ph))"
    unfolding under_slot_def using run(2,3)
    by (intro exI [of _ "?hold @ [TakeBlocked (gate_key_of template)]"] exI [of _ mid] exI [of _ post]) auto
  with gates exp show ?thesis by blast
qed

definition gates_open :: "('d, 'j) outside \<Rightarrow> env \<Rightarrow> reconcile_answers \<Rightarrow> reconcile_spec \<Rightarrow> infrastructure_template \<Rightarrow> bool" where
  "gates_open os env q spec template \<longleftrightarrow>
     fst (run_for_template (case it_namespace template of Some n \<Rightarrow> n | None \<Rightarrow> []) (it_name template)
       (bm_get (tm_labels (rs_meta spec)) WORKSPACE_LABEL) (rq_gates q)) = Operator_Policy.Proceed
     \<and> \<not> it_deleted template \<and> has_finalizer (dl_finalizers (rs_deletion spec))
     \<and> \<not> (membership_of (rs_meta spec) True \<noteq> Standalone \<and> is_some_and held_for_migration (parent_of q))
     \<and> breaker_of env template \<noteq> Open
     \<and> \<not> it_suspend template \<and> \<not> is_some_and wc_suspend (parent_of q)
     \<and> blocked_upstreams (os_graph os) (dq_fetch (rq_dispatch q)) (cs_variable_refs (rs_compile spec)) template
         (current_phase_of template = phase.Applying) = []
     \<and> wait_for (is_rate_limited_until (snapshot template)) (en_now env) = None
     \<and> (\<exists>waited. dq_verdict (rq_dispatch q) (candidate_of os (rq_dispatch q) spec template (current_phase_of template))
          (leaf_cap_of (rq_dispatch q)) = Admitted waited)"

lemma conclude_trace:
  "\<exists>post. fst (conclude os env q stage spec template m) = fst m @ map Act post"
proof (cases "snd m")
  case (Inl e)
  then show ?thesis by (cases "e = Panicked") (auto simp: conclude_def Let_def simp flip: map_append intro: exI [of _ "[]"])
next
  case (Inr a)
  then show ?thesis by (auto simp: conclude_def simp flip: map_map)
qed

lemma work_live:
  assumes "Act e \<in> set (fst (reconcile_live os env q stage spec template))" "is_work e"
  shows "breaker_of env template \<noteq> Open \<and> \<not> it_suspend template \<and> \<not> is_some_and wc_suspend (parent_of q) \<and> \<not> spec_changed env template
    \<and> Act e \<in> set (fst (dispatch_template_phase os env (rq_dispatch q) stage spec template (current_phase_of template)))
    \<and> (\<exists>pre. reconcile_live os env q stage spec template
        = (map Act pre @ fst (conclude os env q stage spec template
             (dispatch_template_phase os env (rq_dispatch q) stage spec template (current_phase_of template))),
           snd (conclude os env q stage spec template
             (dispatch_template_phase os env (rq_dispatch q) stage spec template (current_phase_of template)))))"
proof -
  let ?d = "dispatch_template_phase os env (rq_dispatch q) stage spec template (current_phase_of template)"
  have quiet: "e \<notin> set (fst (pass_breaker env q template))" "e \<notin> set (fst (suspended_write env q template))"
    "e \<notin> set (fst (inputs_write os env q spec template))" "e \<notin> set (fst (restart env q template))"
    using free_ofD [OF working.quiet_around(1)] free_ofD [OF working.quiet_around(2)] free_ofD [OF working.quiet_around(3)]
      free_ofD [OF working.quiet_around(4)] assms(2) by blast+
  have brk: "breaker_of env template \<noteq> Open" if "snd (pass_breaker env q template) = Inr True"
    using that by (auto simp: pass_breaker_def Let_def pure_def)
  have gates: "snd (pass_breaker env q template) = Inr True" "\<not> it_suspend template" "\<not> is_some_and wc_suspend (parent_of q)"
    "snd (inputs_write os env q spec template) = Inr ()" "\<not> spec_changed env template"
    "Act e \<in> set (fst (conclude os env q stage spec template ?d))"
    using assms(1) quiet by (auto simp: reconcile_live_def in_chain split: if_splits)
  have "Act e \<in> set (fst ?d)"
  proof (rule ccontr)
    assume "Act e \<notin> set (fst ?d)"
    then have "no_act (\<lambda>x. x = e) (fst ?d)" by (auto simp: free_of_def list_all_iff)
    then have "no_act (\<lambda>x. x = e \<and> is_work x) (fst ?d)" by (auto simp: free_of_def list_all_iff)
    moreover have "quiet_effects (\<lambda>x. x = e \<and> is_work x)"
      by unfold_locales (auto simp: bookkeeping_is_no_work)
    ultimately have "no_act (\<lambda>x. x = e \<and> is_work x) (fst (conclude os env q stage spec template ?d))"
      by (simp only: quiet_effects.quiet_conclude)
    with gates(6) assms(2) show False by (auto dest: free_ofD)
  qed
  moreover have "reconcile_live os env q stage spec template
    = (map Act (fst (pass_breaker env q template) @ fst (inputs_write os env q spec template)) @ fst (conclude os env q stage spec template ?d),
       snd (conclude os env q stage spec template ?d))"
    using gates by (simp add: reconcile_live_def prod_eq_iff fst_chain snd_chain)
  ultimately show ?thesis using gates brk by blast
qed

lemma no_work_deletion: "free_of is_work (fst (handle_deletion env parse_rfc q spec template))"
  unfolding handle_deletion_def remove_finalizer_def Let_def
  by (auto intro!: free_chain working.quiet_moves no_work_destroying)

lemma work_existing:
  assumes "Act e \<in> set (fst (reconcile_existing os env q stage spec template))" "is_work e"
  shows "has_finalizer (dl_finalizers (rs_deletion spec))
    \<and> \<not> (membership_of (rs_meta spec) True \<noteq> Standalone \<and> is_some_and held_for_migration (parent_of q))
    \<and> reconcile_existing os env q stage spec template = reconcile_live os env q stage spec template"
proof -
  have "e \<notin> set (fst (reacting stage (fail_orphan env template catalog)))" for catalog
    using free_ofD [OF iffD2 [OF working.quiet_reacting working.quiet_around(5)]] assms(2) by blast
  moreover have "e \<notin> set (fst (add_finalizer ok))" for ok
    using assms(2) by (auto simp: add_finalizer_def acts_def raise_def)
  ultimately show ?thesis
    using assms(1) unfolding reconcile_existing_def
    by (auto simp: in_chain split: if_splits membership.splits)
qed

lemma gates_digest: "breaker_of (env\<lparr>en_digest := d\<rparr>) template = breaker_of env template"
  by (simp add: breaker_of_def)

lemma work_reaches_live:
  assumes "Act e \<in> set (fst (reconcile_template os env q spec template))" "is_work e"
  shows "fst (run_for_template (case it_namespace template of Some n \<Rightarrow> n | None \<Rightarrow> []) (it_name template)
       (bm_get (tm_labels (rs_meta spec)) WORKSPACE_LABEL) (rq_gates q)) = Operator_Policy.Proceed"
    and "\<not> it_deleted template" and "has_finalizer (dl_finalizers (rs_deletion spec))"
    and "\<not> (membership_of (rs_meta spec) True \<noteq> Standalone \<and> is_some_and held_for_migration (parent_of q))"
    and "reconcile_template os env q spec template
      = reconcile_live os (env\<lparr>en_digest := Some (material_spec_digest (os_hash os) (os_print os) (rs_json spec))\<rparr>) q
          (apply_reactive_policy (os_cascade os) (rq_stage q) (rs_reactive spec) (en_now env) template) spec template"
proof -
  let ?env = "env\<lparr>en_digest := Some (material_spec_digest (os_hash os) (os_print os) (rs_json spec))\<rparr>"
  let ?stage = "apply_reactive_policy (os_cascade os) (rq_stage q) (rs_reactive spec) (en_now env) template"
  let ?skip = "fst (run_for_template (case it_namespace template of Some n \<Rightarrow> n | None \<Rightarrow> []) (it_name template)
       (bm_get (tm_labels (rs_meta spec)) WORKSPACE_LABEL) (rq_gates q))"
  have deletion: "e \<notin> set (fst (reacting ?stage (handle_deletion ?env (os_parse_rfc os) (rq_deletion q) (rs_deletion spec) template)))"
    using free_ofD [OF iffD2 [OF working.quiet_reacting no_work_deletion]] assms(2) by blast
  have skip: "into_skip_action ?skip = None \<Longrightarrow> ?skip = Operator_Policy.Proceed" by (cases ?skip) simp_all
  have existing: "?skip = Operator_Policy.Proceed \<and> \<not> it_deleted template
     \<and> reconcile_template os env q spec template = reconcile_existing os ?env q ?stage spec template"
    using assms(1) deletion skip
    by (cases "into_skip_action ?skip"; cases "it_deleted template") (auto simp: reconcile_template_def Let_def)
  then have "Act e \<in> set (fst (reconcile_existing os ?env q ?stage spec template))" using assms(1) by simp
  from existing work_existing [OF this assms(2)]
  show "?skip = Operator_Policy.Proceed" "\<not> it_deleted template" "has_finalizer (dl_finalizers (rs_deletion spec))"
    "\<not> (membership_of (rs_meta spec) True \<noteq> Standalone \<and> is_some_and held_for_migration (parent_of q))"
    "reconcile_template os env q spec template = reconcile_live os ?env q ?stage spec template" by auto
qed


end
