(* ===== verification/Reconcile_Outcomes.thy ===== *)
theory Reconcile_Outcomes
  imports Reconcile_Traces
begin

text \<open>
  How a reconcile ends: a compile that fails ends in Failed, a stored render is used again only when
  it is current, and an edit of the approval alone restarts nothing; and a sample reconcile on which
  the properties of reconciles are evaluated.
\<close>

section \<open>A compile that fails ends in Failed\<close>

definition compiler_run :: "phase_effect \<Rightarrow> bool" where
  "compiler_run e \<longleftrightarrow> (\<exists>r. e = RunCompiler r)"

lemma compiler_run_simps [simp]: "compiler_run (RunCompiler r)" "\<not> compiler_run (Step x)" "\<not> compiler_run (React y)" "\<not> compiler_run RunInit"
  "\<not> compiler_run RunDestroy" "\<not> compiler_run DeleteWorkspace" "\<not> compiler_run (SetFinalizers fs)"
  by (simp_all add: compiler_run_def)

interpretation compiler: quiet_effects compiler_run
  by unfold_locales simp_all

lemma compiler_in_handler:
  assumes "RunCompiler r \<in> set (fst (handle_phase os env q spec template ph))"
  shows "ph = phase.Compiling"
proof (rule ccontr)
  assume other: "ph \<noteq> phase.Compiling"
  have "free_of compiler_run (fst (lift_applied m))" "free_of compiler_run (fst (lift_planned p))" "free_of compiler_run (fst (lift_handled h))" for m p h
    by simp_all
  moreover have "free_of compiler_run (fst (lift_ready m))" for m
    by (simp add: lift_ready_def split: Reconciler.outcome.split)
  moreover have "free_of compiler_run (fst (handle_initializing env iq template))" for iq
    unfolding handle_initializing_def
    by (auto intro!: free_chain compiler.quiet_moves split: sum.split option.split prod.split)
  moreover have "free_of compiler_run (fst (handle_destroying env dq b fs template))" for dq b fs
    unfolding handle_destroying_def destroy_locked_def releasing_phase_def remove_finalizer_def acquire_mutation_lock_def perform_def Let_def
    by (auto intro!: free_chain compiler.quiet_moves split: option.split prod.split lock_dispatch.split lock_answer.split)
  ultimately have "free_of compiler_run (fst (handle_phase os env q spec template ph))"
    using other by (cases ph) (simp_all add: handle_phase_def compiler.quiet_pending compiler.quiet_compile_blocked compiler.quiet_moves free_chain
        del: lift_simps)
  with assms show False by (auto dest: free_ofD)
qed

lemma no_compiler_steps:
  "free_of compiler_run (fst (source_body q spec))" "free_of compiler_run (fst (compile_variables q spec template))"
  "free_of compiler_run (fst (store_render J q json revision))" "free_of compiler_run (fst (reset_compile_failure_counter ok template))"
  unfolding source_body_def compile_variables_def store_render_def reset_compile_failure_counter_def Let_def
  by (auto simp: compiler_run_def basic_effect_def intro!: free_chain compiler.quiet_moves split: option.split config_map_answer.split sum.split)

lemma not_compiled: "free_of compiler_run fx \<Longrightarrow> RunCompiler r \<notin> set fx"
  by (auto dest: free_ofD)

lemma snd_compile_failure: "snd (handle_compile_failure env H q template msg) = Inr ()"
  by (simp add: handle_compile_failure_def Let_def split_beta snd_chain acts_def try_patch_def)

lemma render_rejected:
  assumes "RunCompiler r \<in> set (fst (render env H q spec template content))" "ca_compile q r = Inl msg"
  shows "snd (render env H q spec template content) = Inl (Compilation (''Compile failed: '' @ msg))"
proof -
  have "RunCompiler r' \<notin> set (fst (handle_compile_failure env H fq template m))" for r' fq m
    by (rule not_compiled)
      (auto simp: handle_compile_failure_def compile_blocked_effects_def Let_def split_beta compiler_run_def basic_effect_def
        intro!: free_chain compiler.quiet_moves)
  then have rejected: "r = compile_request_of spec content v \<and> ca_compile q (compile_request_of spec content v) \<noteq> Inr x"
    if "snd (compile_variables q spec template) = Inr (Some v)" for v x
    using assms that not_compiled [OF no_compiler_steps(2), of r q spec template]
    by (cases "ca_compile q (compile_request_of spec content v)")
      (auto simp: render_def Let_def in_chain acts_def pure_def raise_def split: if_splits)
  have front: "compile_front_end spec content \<noteq> ResolvedJson" using assms(1) by (auto simp: render_def pure_def)
  obtain v where v: "snd (compile_variables q spec template) = Inr (Some v)"
    using assms(1) front not_compiled [OF no_compiler_steps(2), of r q spec template]
    by (cases "snd (compile_variables q spec template)") (auto simp: render_def in_chain pure_def split: option.splits)
  then show ?thesis
    using rejected [OF v] assms(2) front by (simp add: render_def Let_def snd_chain acts_def raise_def snd_compile_failure)
qed

lemma chain_rejected:
  assumes "e \<in> set (fst (chain m f))" "e \<notin> set (fst m)" "\<And>x. e \<in> set (fst (f x)) \<Longrightarrow> snd (f x) = Inl err"
  shows "snd (chain m f) = Inl err"
  using assms by (auto simp: in_chain snd_chain)

lemma chain_rejected_first:
  assumes "e \<in> set (fst (chain m f))" "e \<in> set (fst m) \<Longrightarrow> snd m = Inl err" "\<And>x. e \<notin> set (fst (f x))"
  shows "snd (chain m f) = Inl err"
  using assms by (auto simp: in_chain snd_chain)

lemma compile_rejected:
  assumes "RunCompiler r \<in> set (fst (handle_compiling env H J q spec template))" "ca_compile q r = Inl msg"
  shows "snd (handle_compiling env H J q spec template) = Inl (Compilation (''Compile failed: '' @ msg))"
  using assms(1) unfolding handle_compiling_def Let_def
  apply (rule chain_rejected)
   apply (simp add: ensure_def pure_def raise_def)
  apply (erule chain_rejected)
   apply (rule not_compiled [OF no_compiler_steps(1)])
  apply (simp only: prod.case_eq_if)
  apply (erule chain_rejected_first)
   apply (erule render_rejected [OF _ assms(2)])
  apply (rule not_compiled)
  apply (auto intro!: free_chain no_compiler_steps compiler.quiet_moves split: option.split)
  done

lemma free_written: "free_of (off A) fx \<longleftrightarrow> set (concat (map written fx)) \<subseteq> A"
  by (auto simp: free_of_def list_all_iff off_def)

lemma last_failed:
  assumes "en_ok env Error_Writer"
  shows "last (xs @ concat (map written (fst (reacting (apply_reactive_policy K q policy now template') (enter_failed env template msg)))))
    = phase.Failed"
proof -
  let ?p = "update_phase_with_error (en_rfc env) (en_me env) template (en_live env) (en_digest env) phase.Failed msg (en_now env)"
  let ?fx = "fst (reacting (apply_reactive_policy K q policy now template') (enter_failed env template msg))"
  have p: "SPhase (Some phase.Failed) \<in> set ?p" by (simp add: update_phase_with_error_def Let_def)
  then have "fst (enter_failed env template msg) = [Step (Ctl (Basic (Patch ?p)))]"
    using assms by (auto simp: enter_failed_def to_failed_def fst_write_status)
  then have "Step (Ctl (Basic (Patch ?p))) \<in> set ?fx" by (auto simp: reacting_def)
  moreover have "phase.Failed \<in> set (written (Step (Ctl (Basic (Patch ?p)))))" using p by (simp add: set_written)
  ultimately have "phase.Failed \<in> set (concat (map written ?fx))" unfolding set_concat set_map by blast
  then have ne: "concat (map written ?fx) \<noteq> []" by (metis empty_iff list.set(1))
  have "free_of (off {phase.Failed}) ?fx"
    by (rule reacting_phases [OF free_enter_failed stage_phases order_refl]) simp_all
  with ne have "last (concat (map written ?fx)) = phase.Failed" unfolding free_written by (metis last_in_set singletonD subsetD)
  with ne show ?thesis by simp
qed

lemma conclude_failed:
  assumes "snd m = Inl e" "e \<noteq> Panicked" "en_ok env Error_Writer"
  shows "last (ys @ phase_trail (fst (conclude os env q (apply_reactive_policy K rq policy now template) spec template m))) = phase.Failed"
    and "snd (conclude os env q (apply_reactive_policy K rq policy now template) spec template m) = Inl e"
  using assms last_failed [OF assms(3), of "ys @ phase_trail (fst m)"] by (simp_all add: conclude_def Let_def tell_def acts_def)

lemma dispatch_rejected:
  assumes "Act (RunCompiler r) \<in> set (fst (dispatch_template_phase os env q stage spec template ph))"
    and "ca_compile (dq_compile q) r = Inl msg"
    and "rate_limited_until (os_retry_advice os) (dq_error_text q (Compilation (''Compile failed: '' @ msg))) (en_now env) = Returns None"
  shows "snd (dispatch_template_phase os env q stage spec template ph) = Inl (Compilation (''Compile failed: '' @ msg))"
proof -
  have "RunCompiler r \<in> set (fst (handle_phase os env q spec template ph))"
  proof (rule ccontr)
    assume "RunCompiler r \<notin> set (fst (handle_phase os env q spec template ph))"
    then have "free_of (\<lambda>e. e = RunCompiler r) (fst (handle_phase os env q spec template ph))" by (auto simp: free_of_def list_all_iff)
    moreover have "quiet_effects (\<lambda>e. e = RunCompiler r)" by unfold_locales simp_all
    ultimately have "no_act (\<lambda>e. e = RunCompiler r) (fst (dispatch_template_phase os env q stage spec template ph))"
      by (rule quiet_effects.quiet_dispatch [rotated])
    with assms(1) show False by (auto dest: free_ofD)
  qed
  moreover from this have ph: "ph = phase.Compiling" by (rule compiler_in_handler)
  ultimately have rejected: "snd (handle_phase os env q spec template ph) = Inl (Compilation (''Compile failed: '' @ msg))"
    using compile_rejected [OF _ assms(2)] by (simp add: handle_phase_def)
  have "\<exists>waited. dq_verdict q (candidate_of os q spec template ph) (leaf_cap_of q) = Admitted waited
    \<and> blocked_upstreams (os_graph os) (dq_fetch q) (cs_variable_refs (rs_compile spec)) template (ph = phase.Applying) = []
    \<and> wait_for (is_rate_limited_until (snapshot template)) (en_now env) = None"
    using work_dispatched [OF assms(1)] ph by auto
  with rejected assms(3) ph show ?thesis
    by (auto simp: dispatch_template_phase_def dispatch_expensive_def run_admitted_def settle_outcome_def expensive_def Let_def snd_chain
        snd_rate_hold leaf_cap_of_def reacting_def try_patch_def acts_def pure_def raise_def)
qed


section \<open>A stored render is used again only when it is current\<close>

lemma enter_phase_planning:
  assumes "x \<in> set (fst (enter_phase env template ph))" "phase.Planning \<in> set (written x)"
  shows "ph = phase.Planning"
  using free_enter_phase [of ph "{ph}" env template] assms unfolding free_written by fastforce

lemma map_sum_Inr [simp]: "map_sum f id r = Inr x \<longleftrightarrow> r = Inr x"
  by (cases r) simp_all

lemma config_current:
  assumes "compiled_config_available H q cm spec template on_disk = Inr True" "magma_db_backed q"
  shows "current_generation_of template \<le> observed_generation_of template \<and> ra_rendered q = Inr True
    \<and> (\<exists>r. ra_rendered_revision q = Inr (Some r)
         \<and> (non_git_source_revision H (ra_build q) (ra_reuse_render q) cm spec = Inr (Some r)
            \<or> non_git_source_revision H (ra_build q) (ra_reuse_render q) cm spec = Inr None \<and> ds_compiled_revision (snapshot template) = Some r))"
  using assms
  by (auto simp: compiled_config_available_def generation_invalidates_render_def not_less
      elim!: rendered_config_is_current.elims split: if_splits sum.splits bool.splits option.splits)

lemma pending_reuses:
  assumes "phase.Planning \<in> set (concat (map written (fst (handle_pending env H q spec template))))"
  shows "ra_reuse_render q \<and> magma_db_backed q
    \<and> (\<exists>r. non_git_source_revision H (ra_build q) (ra_reuse_render q) (ra_config_map q) spec = Inr (Some r)
         \<and> ds_compiled_revision (snapshot template) = Some r)
    \<and> compiled_config_available H q (ra_config_map_again q) spec template False = Inr True"
proof -
  obtain x where x: "x \<in> set (fst (handle_pending env H q spec template))" "phase.Planning \<in> set (written x)"
    using assms by auto
  then show ?thesis using enter_phase_planning [of x env template]
    by (auto simp: handle_pending_def Let_def in_chain result_of_def pending_route_of_def pure_def
        split: if_splits pending_route.splits)
qed

text \<open>C24: Pending skips the compile only for a current render. The phase Planning is written from Pending only
  with the reuse of renders on and the database-backed executor, when the source has a revision (no git
  source has one), the last compile was of that revision, no newer generation is unacknowledged, and the
  stored render is of the revision that a second reading of the source gives (or, if the source has gone
  by then, of the last compile).\<close>

theorem reused_render_is_current:
  assumes "phase.Planning \<in> set (concat (map written (fst (handle_pending env H q spec template))))"
  shows "ra_reuse_render q \<and> magma_db_backed q
    \<and> current_generation_of template \<le> observed_generation_of template
    \<and> ra_rendered q = Inr True
    \<and> (\<exists>r. non_git_source_revision H (ra_build q) True (ra_config_map q) spec = Inr (Some r)
         \<and> ds_compiled_revision (snapshot template) = Some r)
    \<and> (\<exists>r. ra_rendered_revision q = Inr (Some r)
         \<and> (non_git_source_revision H (ra_build q) True (ra_config_map_again q) spec = Inr (Some r)
            \<or> non_git_source_revision H (ra_build q) True (ra_config_map_again q) spec = Inr None
              \<and> ds_compiled_revision (snapshot template) = Some r))"
  using pending_reuses [OF assms] config_current [of H q "ra_config_map_again q" spec template False] by auto

section \<open>An edit of the approval restarts nothing\<close>

lemma approval_edit_restarts_nothing:
  assumes "filter (\<lambda>(k, _). k \<noteq> ''approvedPlanHash'') kvs' = filter (\<lambda>(k, _). k \<noteq> ''approvedPlanHash'') kvs"
    and "is_observed_spec_digest (snapshot template) = Some (material_spec_digest H P (JObj kvs))"
    and "en_digest env = Some (material_spec_digest H P (JObj kvs'))"
  shows "\<not> spec_changed env template"
  using assms by (simp add: spec_changed_def material_spec_invalidates_render_def material_spec_digest_def)

section \<open>A sample reconcile\<close>

text \<open>A template with an inline Ruby source, no catalog and no upstream. The compiler rejects the source.\<close>

definition sample_os :: "(ref_item list, string) outside" where
  "sample_os = \<lparr>os_hash = (\<lambda>_. ''h''), os_json = (\<lambda>_. None), os_print = (\<lambda>_. []), os_plan_doc = (\<lambda>_. None), os_retry_advice = (\<lambda>_. None),
     os_graph = ref_ops, os_stamp = (\<lambda>_. []), os_parse_rfc = (\<lambda>_. Some 1), os_cascade = fold_cascade\<rparr>"

definition sample_source :: compile_spec where
  "sample_source = \<lparr>cs_inline = Some ''x'', cs_config_map_ref = None, cs_git_repository = None, cs_template_name = None, cs_dialect = Ruby,
     cs_annotations = [], cs_variables = [], cs_variable_refs = []\<rparr>"

definition sample_reconcile_spec :: reconcile_spec where
  "sample_reconcile_spec = \<lparr>rs_meta = \<lparr>tm_labels = [], tm_annotations = [], tm_owners = []\<rparr>, rs_json = JObj [], rs_credentials = None,
     rs_deletion = \<lparr>dl_destroy_protection = False,
       dl_authorization = Some \<lparr>au_authorized_by = ''ops'', au_reason = [], au_template = ''app'', au_expires_at = ''later''\<rparr>,
       dl_finalizers = Some [FINALIZER_NAME]\<rparr>,
     rs_compile = sample_source, rs_apply = sample_spec, rs_reactive = None\<rparr>"

definition sample_render :: render_answers where
  "sample_render = \<lparr>ra_reuse_render = True, ra_magma = True, ra_store = True, ra_build = ''b'', ra_config_map = CmGone, ra_config_map_again = CmGone,
     ra_rendered = Inr True, ra_rendered_revision = Inr (Some ''cm:h'')\<rparr>"

definition sample_compile :: compile_answers where
  "sample_compile = \<lparr>ca_render = sample_render,
     ca_failure = \<lparr>fa_tracker = Map.empty, fa_monotonic = 0, fa_invalidated = Inr (), fa_patch_ok = True\<rparr>,
     ca_git_credential_ok = True, ca_clone = Inl (), ca_template_is_file = False, ca_repo_dir = [], ca_ns_defaults = [], ca_ws_defaults = [],
     ca_fetch = (\<lambda>_ _. None), ca_provider_secrets = [], ca_secret_variables = Some [], ca_compile = (\<lambda>_. Inl ''boom''), ca_put_ok = True,
     ca_write_ok = True, ca_reset_ok = True\<rparr>"

definition sample_destroy :: destroy_answers where
  "sample_destroy = \<lparr>dq_runner_ok = True, dq_runner_name = ''magma'', dq_lock = LockGranted, dq_destroy = Some (True, []), dq_delete_ok = True,
     dq_finalizer_ok = True\<rparr>"

definition sample_plan_answers :: plan_answers where
  "sample_plan_answers = \<lparr>pa_config = Inr True, pa_plan = None, pa_parse = (\<lambda>_. None), pa_bundle = None, pa_judgement = None, pa_rules = [],
     pa_default = None, pa_catalog = None, pa_regex = (\<lambda>_. None), pa_durable = False, pa_backend = None, pa_disk = None, pa_receipt_ok = True,
     pa_sparse = False\<rparr>"

definition sample_dispatch :: dispatch_answers where
  "sample_dispatch = \<lparr>dq_fetch = (\<lambda>_ _. None), dq_rate_clear_ok = True, dq_max_leaves = None, dq_per_scope = 4, dq_was_blocked = False,
     dq_verdict = (\<lambda>_ _. Admitted False), dq_restart_ok = True, dq_record_ok = True, dq_park_queued = False, dq_error_text = (\<lambda>_. ''boom''),
     dq_pending = sample_render, dq_compile = sample_compile,
     dq_init = \<lparr>ia_executor = Inr True, ia_namespace_found = True, ia_backend = None, ia_provider_config = None, ia_secret_files = True,
       ia_init = Some (True, [])\<rparr>,
     dq_plan = sample_plan_answers, dq_apply = sample_answers, dq_drift = test_answers, dq_held = None, dq_reuse_render = True, dq_clean_ok = True,
     dq_destroying = sample_destroy\<rparr>"

definition sample_reconcile_answers :: reconcile_answers where
  "sample_reconcile_answers = \<lparr>rq_gates = \<lparr>gs_cache = new_permissive, gs_skips = []\<rparr>,
     rq_deletion = \<lparr>dn_namespace = NsRead False None, dn_finalizer_ok = True, dn_destroy = sample_destroy\<rparr>, rq_add_finalizer_ok = True,
     rq_catalog = Inr None, rq_breaker_ok = True, rq_suspend_ok = True, rq_inputs_ok = True, rq_clean_ok = True, rq_stale_after = StaleOff,
     rq_stage = quiet_answers, rq_dispatch = sample_dispatch, rq_fresh = None, rq_fresh_stage = quiet_answers\<rparr>"

definition at_phase :: "phase \<Rightarrow> infrastructure_template" where
  "at_phase ph = one_template\<lparr>it_generation := None,
     it_status := Some (itr_default\<lparr>ds_core := (ds_core itr_default)\<lparr>st_phase := Some ph\<rparr>, ds_compiled_revision := Some ''cm:h''\<rparr>)\<rparr>"

abbreviation sample_reconcile :: "infrastructure_template \<Rightarrow> kube_action reconciled" where
  "sample_reconcile \<equiv> reconcile_template sample_os test_env sample_reconcile_answers sample_reconcile_spec"

lemmas sample_defs = sample_os_def sample_source_def sample_reconcile_spec_def sample_render_def sample_compile_def sample_destroy_def
  sample_dispatch_def sample_reconcile_answers_def at_phase_def one_template_def itr_default_def driver_status.defs itr_status.defs
  status_default_def

lemma at_phase_simps [simp]:
  "current_phase_of (at_phase ph) = ph" "it_name (at_phase ph) = ''app''" "it_namespace (at_phase ph) = Some ''prod''" "\<not> it_deleted (at_phase ph)"
  "\<not> it_suspend (at_phase ph)" "current_generation_of (at_phase ph) = 0" "ds_compiled_revision (snapshot (at_phase ph)) = Some ''cm:h''"
  "is_rate_limited_until (snapshot (at_phase ph)) = None" "\<not> is_auto_suspended (snapshot (at_phase ph))"
  "observed_generation_of (at_phase ph) = 0" "is_observed_spec_digest (snapshot (at_phase ph)) = None" "st_conditions (ds_core (snapshot (at_phase ph))) = []"
  by (simp_all add: at_phase_def one_template_def current_phase_of_def snapshot_def current_generation_of_def observed_generation_of_def
      acknowledged_def itr_default_def driver_status.defs itr_status.defs status_default_def)

definition sample_env :: env where
  "sample_env = test_env\<lparr>en_digest := Some (material_spec_digest (os_hash sample_os) (os_print sample_os) (rs_json sample_reconcile_spec))\<rparr>"

definition sample_stage :: "infrastructure_template \<Rightarrow> reactive_effect list" where
  "sample_stage template = apply_reactive_policy (os_cascade sample_os) (rq_stage sample_reconcile_answers) (rs_reactive sample_reconcile_spec)
     0 template"

lemma sample_env_simps [simp]: "en_ok sample_env w" "en_workspace_ok sample_env" "en_now sample_env = 0" "en_credentials_ok sample_env"
  by (simp_all add: sample_env_def test_env_def)

lemma sample_policy: "into_skip_action (fst (run_for_template ''prod'' ''app'' None (rq_gates sample_reconcile_answers))) = None"
  by (simp add: sample_reconcile_answers_def) code_simp

lemma sample_dispatched:
  "sample_reconcile (at_phase ph) = conclude sample_os sample_env sample_reconcile_answers (sample_stage (at_phase ph)) sample_reconcile_spec
     (at_phase ph) (dispatch_template_phase sample_os sample_env sample_dispatch (sample_stage (at_phase ph)) sample_reconcile_spec (at_phase ph) ph)"
proof -
  have "breaker_of sample_env (at_phase ph) = Closed" by (simp add: breaker_of_def)
  moreover have "\<not> spec_changed sample_env (at_phase ph)"
    by (simp add: spec_changed_def material_spec_invalidates_render_def generation_invalidates_render_def)
  moreover have "inputs_write sample_os sample_env sample_reconcile_answers sample_reconcile_spec (at_phase ph) = pure ()"
    by (simp add: inputs_write_def patch_for_def condition_patch_def sample_reconcile_answers_def inputs_age_of_def inputs_condition_def
        merge_condition_transitions_def conditions_observably_equal_def inputs_text_def)
  moreover have "has_finalizer (dl_finalizers (rs_deletion sample_reconcile_spec))" "tm_labels (rs_meta sample_reconcile_spec) = []"
    "parent_of sample_reconcile_answers = None" "rq_dispatch sample_reconcile_answers = sample_dispatch"
    by (simp_all add: sample_reconcile_spec_def has_finalizer_def parent_of_def sample_reconcile_answers_def)
  ultimately show ?thesis
    using sample_policy
    by (simp add: reconcile_template_def Let_def bm_get_def reconcile_existing_def membership_of_def is_some_and_def reconcile_live_def pass_breaker_def
        lift_phased_def pure_def chain_def done_with_action_def flip: sample_env_def sample_stage_def)
qed

text \<open>The compile that fails.\<close>

abbreviation sample_request :: compile_request where
  "sample_request \<equiv> compile_request_of sample_source ''x'' []"

lemma sample_compiles:
  "Act (RunCompiler sample_request) \<in> set (fst (sample_reconcile (at_phase phase.Compiling)))"
proof -
  have "compile_front_end sample_source ''x'' = ResolvedRuby" by (simp add: compile_front_end_def sample_source_def)
  moreover have "compile_variables sample_compile sample_source (at_phase phase.Compiling) = pure (Some [])" by code_simp
  moreover have "source_body sample_compile sample_source = pure (''x'', None)" by (simp add: source_body_def sample_source_def)
  ultimately have "RunCompiler sample_request \<in> set (fst (handle_compiling sample_env H J sample_compile sample_source (at_phase phase.Compiling)))" for H J
    by (auto simp: handle_compiling_def render_def in_chain Let_def pure_def acts_def ensure_def)
  then have "RunCompiler sample_request \<in> set (fst (handle_phase sample_os sample_env sample_dispatch sample_reconcile_spec
      (at_phase phase.Compiling) phase.Compiling))"
    by (simp add: handle_phase_def sample_dispatch_def sample_reconcile_spec_def)
  then have "RunCompiler sample_request \<in> set (fst (reacting stage (handle_phase sample_os sample_env sample_dispatch sample_reconcile_spec
      (at_phase phase.Compiling) phase.Compiling)))" for stage
    by (force simp: reacting_def)
  moreover have "dq_verdict sample_dispatch c n = Admitted False" "cs_variable_refs (rs_compile sample_reconcile_spec) = []" for c n
    by (simp_all add: sample_dispatch_def sample_reconcile_spec_def sample_source_def)
  ultimately have "Act (RunCompiler sample_request) \<in> set (fst (dispatch_template_phase sample_os sample_env sample_dispatch stage
      sample_reconcile_spec (at_phase phase.Compiling) phase.Compiling))" for stage
    by (simp add: dispatch_template_phase_def expensive_def dispatch_expensive_def blocked_upstreams_def in_chain snd_rate_hold wait_for_def Let_def
        run_admitted_def marks_def lift_phased_def pure_def)
  then show ?thesis
    using conclude_trace [of sample_os sample_env sample_reconcile_answers "sample_stage (at_phase phase.Compiling)" sample_reconcile_spec
        "at_phase phase.Compiling"] unfolding sample_dispatched by (metis UnCI set_append)
qed



text \<open>The move from Pending to Planning.\<close>

lemma sample_reuses: "phase.Planning \<in> set (concat (map written (fst (handle_pending sample_env (os_hash sample_os) sample_render sample_source
  (at_phase phase.Pending)))))"
proof -
  have "non_git_source_revision (os_hash sample_os) ''b'' True cm sample_source = Inr (Some ''cm:h'')" for cm
    by (simp add: non_git_source_revision_def sample_source_def sample_os_def render_revision_def render_revision_of_def content_revision_def)
  moreover have "compiled_config_available (os_hash sample_os) sample_render CmGone sample_source (at_phase phase.Pending) False = Inr True"
    using calculation
    by (simp add: compiled_config_available_def sample_render_def magma_db_backed_def generation_invalidates_render_def)
  moreover have "validate_source sample_source = Inr ()"
    by (simp add: validate_source_def sample_source_def source_count_def)
  moreover have "magma_db_backed sample_render" "ra_reuse_render sample_render" "ra_build sample_render = ''b''" "ra_config_map sample_render = CmGone"
    "ra_config_map_again sample_render = CmGone" by (simp_all add: sample_render_def magma_db_backed_def)
  ultimately have *: "fst (handle_pending sample_env (os_hash sample_os) sample_render sample_source (at_phase phase.Pending))
    = fst (enter_phase sample_env (at_phase phase.Pending) phase.Planning)"
    by (simp add: handle_pending_def Let_def fst_chain result_of_def pending_route_of_def pure_def split: sum.split)
  show ?thesis unfolding *
    by (auto simp: enter_phase_def to_phase_def fst_write_status set_written phase_in_update_phase)
qed

theorem reused_render_is_current_witness:
  "phase.Planning \<in> set (concat (map written (fst (handle_pending sample_env (os_hash sample_os) sample_render sample_source (at_phase phase.Pending)))))
   \<and> ra_rendered sample_render = Inr True"
  using reused_render_is_current [OF sample_reuses] sample_reuses by simp

theorem reconcile_follows_lifecycle_witness:
  "phase.Planning \<in> set (phase_trail (fst (sample_reconcile (at_phase phase.Pending)))) \<and> (phase.Pending, phase.Planning) \<in> unlisted_edges"
proof -
  have "phase.Planning \<in> set (concat (map written (fst (reacting stage m))))" if "phase.Planning \<in> set (concat (map written (fst m)))"
    for stage and m :: "reconcile_action phased"
    using that by (force simp: reacting_def)
  then have p: "phase.Planning \<in> set (phase_trail (fst (dispatch_template_phase sample_os sample_env sample_dispatch stage sample_reconcile_spec
      (at_phase phase.Pending) phase.Pending)))" for stage
    using sample_reuses
    by (simp add: dispatch_template_phase_def expensive_def lift_phased_def handle_phase_def sample_dispatch_def sample_reconcile_spec_def del: set_concat)
  have "phase.Planning \<in> set (phase_trail (fst (sample_reconcile (at_phase phase.Pending))))"
    using p conclude_trace [of sample_os sample_env sample_reconcile_answers "sample_stage (at_phase phase.Pending)" sample_reconcile_spec
        "at_phase phase.Pending"] unfolding sample_dispatched by (metis UnCI set_append trail_simps(2))
  with reconcile_follows_lifecycle [OF this] show ?thesis by (auto simp: edge_is_legal_def table_defs)
qed

text \<open>A deletion that is authorized.\<close>

abbreviation sample_deleted :: infrastructure_template where
  "sample_deleted \<equiv> (at_phase phase.Destroying)\<lparr>it_deleted := True\<rparr>"

lemma sample_destroys: "Act RunDestroy \<in> set (fst (sample_reconcile sample_deleted))"
proof -
  have "snapshot sample_deleted = snapshot (at_phase phase.Destroying)" by (simp add: snapshot_def at_phase_def)
  then have ph: "current_phase_of sample_deleted = phase.Destroying" using at_phase_simps(1) by (simp add: current_phase_of_def)
  have "destroy_authority_of (os_parse_rfc sample_os) (dl_authorization (rs_deletion sample_reconcile_spec)) ''app'' 0 = Granted"
    by (simp add: destroy_authority_of_def sample_reconcile_spec_def sample_os_def)
  moreover have "RunDestroy \<in> set (fst (handle_destroying sample_env sample_destroy False fs sample_deleted))" for fs
    by (auto simp: handle_destroying_def sample_destroy_def in_chain ensure_def pure_def lift_applied_def acquire_mutation_lock_def perform_def
        releasing_phase_def destroy_locked_def acts_def)
  ultimately have "RunDestroy \<in> set (fst (handle_deletion sample_env (os_parse_rfc sample_os) (rq_deletion sample_reconcile_answers)
      (rs_deletion sample_reconcile_spec) sample_deleted))"
    using ph by (simp add: handle_deletion_def Let_def in_chain sample_reconcile_spec_def sample_reconcile_answers_def has_finalizer_def)
  then have "RunDestroy \<in> set (fst (reacting stage (handle_deletion sample_env (os_parse_rfc sample_os) (rq_deletion sample_reconcile_answers)
      (rs_deletion sample_reconcile_spec) sample_deleted)))" for stage
    by (force simp: reacting_def)
  then show ?thesis
    using sample_policy
    by (simp add: reconcile_template_def Let_def bm_get_def lift_phased_def sample_env_def) (simp add: sample_reconcile_spec_def bm_get_def)
qed

theorem destroy_needs_two_keys_witness:
  "Act RunDestroy \<in> set (fst (sample_reconcile sample_deleted)) \<and> \<not> dl_destroy_protection (rs_deletion sample_reconcile_spec)"
  using destroy_needs_two_keys [OF sample_destroys] sample_destroys by blast

end
