(* ===== verification/Leaf_Gate.thy ===== *)
theory Leaf_Gate
  imports Template_Gates "HOL-Library.Multiset"
begin

text \<open>
  The gate that bounds expensive work (\<open>FairBudget\<close> of
  \<open>pangea-operator/src/controller/scheduling.rs\<close>, \<open>LeafGate\<close> of
  \<open>pangea-operator/src/controller/template/leaf_gate.rs\<close> and the engine of \<open>leaf_engine.rs\<close>).

  The budget tree of \<open>shigoto_budget\<close> is a record of operations, and \<open>budget_laws\<close> states what the code
  relies on: caps are stored, an allocation succeeds exactly when the global and the scope's cap have
  room and counts one more, a release counts one less. A permit is a value; dropping it is the step
  \<open>drop_permit\<close>, with the order in which Rust drops its fields. An admission runs under the mutex of
  the queue and a drop takes the same mutex, so both are single steps. Messages to the waker are
  appended to \<open>lg_wakes\<close>.
\<close>

section \<open>Budgets\<close>

record 'b budget_ops =
  bt_new :: 'b
  bt_set_global :: "nat \<Rightarrow> 'b \<Rightarrow> 'b"
  bt_scope_cap :: "'b \<Rightarrow> string \<Rightarrow> nat option"
  bt_set_scope_cap :: "string \<Rightarrow> nat \<Rightarrow> 'b \<Rightarrow> 'b"
  bt_try_allocate :: "string \<Rightarrow> 'b \<Rightarrow> 'b option"
  bt_release :: "string \<Rightarrow> 'b \<Rightarrow> 'b"
  bt_running_scope :: "'b \<Rightarrow> string \<Rightarrow> nat"
  bt_running_global :: "'b \<Rightarrow> nat"

record budget_config =
  bc_per_scope :: nat
  bc_global :: nat

definition default_budget_config :: budget_config where
  "default_budget_config = \<lparr>bc_per_scope = 2, bc_global = 8\<rparr>"

text \<open>A count of the tree is a \<open>u32\<close>.\<close>

definition cap_of :: "nat \<Rightarrow> nat" where
  "cap_of n = min n (2 ^ 32 - 1)"

record 'b fair_budget =
  fb_cfg :: budget_config
  fb_tree :: 'b

definition new_fair_budget :: "'b budget_ops \<Rightarrow> budget_config \<Rightarrow> 'b fair_budget" where
  "new_fair_budget B cfg = \<lparr>fb_cfg = cfg, fb_tree = bt_set_global B (cap_of (bc_global cfg)) (bt_new B)\<rparr>"

definition try_acquire_capped :: "'b budget_ops \<Rightarrow> string \<Rightarrow> nat option \<Rightarrow> 'b fair_budget \<Rightarrow> bool \<times> 'b fair_budget" where
  "try_acquire_capped B scope limit fb =
     (let tr = (case limit of
            Some n \<Rightarrow> bt_set_scope_cap B scope (cap_of n) (fb_tree fb)
          | None \<Rightarrow>
              (case bt_scope_cap B (fb_tree fb) scope of
                 Some _ \<Rightarrow> fb_tree fb
               | None \<Rightarrow> bt_set_scope_cap B scope (cap_of (bc_per_scope (fb_cfg fb))) (fb_tree fb)))
      in case bt_try_allocate B scope tr of
           Some tr' \<Rightarrow> (True, fb\<lparr>fb_tree := tr'\<rparr>)
         | None \<Rightarrow> (False, fb\<lparr>fb_tree := tr\<rparr>))"

definition try_acquire :: "'b budget_ops \<Rightarrow> string \<Rightarrow> 'b fair_budget \<Rightarrow> bool \<times> 'b fair_budget" where
  "try_acquire B scope fb = try_acquire_capped B scope None fb"

definition in_flight_of :: "'b budget_ops \<Rightarrow> 'b fair_budget \<Rightarrow> string \<Rightarrow> nat" where
  "in_flight_of B fb scope = bt_running_scope B (fb_tree fb) scope"

definition total_in_flight :: "'b budget_ops \<Rightarrow> 'b fair_budget \<Rightarrow> nat" where
  "total_in_flight B fb = bt_running_global B (fb_tree fb)"

definition global_saturated :: "'b budget_ops \<Rightarrow> 'b fair_budget \<Rightarrow> bool" where
  "global_saturated B fb \<longleftrightarrow> bc_global (fb_cfg fb) \<le> total_in_flight B fb"

definition release_slot :: "'b budget_ops \<Rightarrow> string \<Rightarrow> 'b fair_budget \<Rightarrow> 'b fair_budget" where
  "release_slot B scope fb = fb\<lparr>fb_tree := bt_release B scope (fb_tree fb)\<rparr>"

section \<open>The queue\<close>

definition QUEUE_TTL :: duration where "QUEUE_TTL = 360 * 10 ^ 9"
definition WOKEN_TTL :: duration where "WOKEN_TTL = 60 * 10 ^ 9"
definition POLL_TTL :: duration where "POLL_TTL = 30 * 10 ^ 9"
definition WAKE_PER_RELEASE :: nat where "WAKE_PER_RELEASE = 2"

record waiting =
  wt_seen :: time
  wt_candidate :: candidate
  wt_scope_cap :: "nat option"
  wt_woken :: bool
  wt_parked :: bool

definition ttl_of :: "waiting \<Rightarrow> duration" where
  "ttl_of w = (if \<not> wt_parked w then POLL_TTL else if wt_woken w then WOKEN_TTL else QUEUE_TTL)"

definition waiting_live :: "time \<Rightarrow> waiting \<Rightarrow> bool" where
  "waiting_live now w \<longleftrightarrow> max 0 (now - wt_seen w) < ttl_of w"

type_synonym queue = "(string, waiting) btmap"

definition retain_live :: "time \<Rightarrow> queue \<Rightarrow> queue" where
  "retain_live now q = filter (\<lambda>(_, w). waiting_live now w) q"

datatype denial = GlobalFull nat nat | ScopeFull nat nat | Outranked

fun denial_as_str :: "denial \<Rightarrow> string" where
  "denial_as_str (GlobalFull _ _) = ''global pool''"
| "denial_as_str (ScopeFull _ _) = ''scope slice''"
| "denial_as_str Outranked = ''outranked by a waiting leaf''"

record 'b leaf_gate =
  lg_waiting :: queue
  lg_blocked :: "string list"
  lg_credentials :: "'b fair_budget"
  lg_drift :: "'b fair_budget"
  lg_epoch :: time
  lg_wakes :: "string list"
  lg_receiver :: bool

definition unbounded :: budget_config where
  "unbounded = \<lparr>bc_per_scope = 2 ^ 64 - 1, bc_global = 2 ^ 64 - 1\<rparr>"

definition default_gate :: "'b budget_ops \<Rightarrow> time \<Rightarrow> 'b leaf_gate" where
  "default_gate B now =
     \<lparr>lg_waiting = [], lg_blocked = [], lg_credentials = new_fair_budget B unbounded, lg_drift = new_fair_budget B unbounded,
      lg_epoch = now, lg_wakes = [], lg_receiver = True\<rparr>"

record leaf_permit =
  lp_waited :: bool
  lp_scope :: string
  lp_credential :: "string option"
  lp_drift :: "string option"
  lp_priority :: priority_mode
  lp_park :: bool

datatype verdict = VerdictAdmitted leaf_permit | VerdictQueued denial

record gate_config =
  gc_priority :: priority_mode
  gc_per_credential_cap :: nat
  gc_drift_share_permille :: nat
  gc_calibrate :: bool
  gc_park_queued :: bool

definition note_blocked :: "string \<Rightarrow> 'b leaf_gate \<Rightarrow> 'b leaf_gate" where
  "note_blocked key g = g\<lparr>lg_blocked := bs_insert key (lg_blocked g)\<rparr>"

definition take_blocked :: "string \<Rightarrow> 'b leaf_gate \<Rightarrow> bool \<times> 'b leaf_gate" where
  "take_blocked key g = (key \<in> set (lg_blocked g), g\<lparr>lg_blocked := filter (\<lambda>k. k \<noteq> key) (lg_blocked g)\<rparr>)"

definition take_wakes :: "'b leaf_gate \<Rightarrow> bool \<times> 'b leaf_gate" where
  "take_wakes g = (lg_receiver g, g\<lparr>lg_receiver := False\<rparr>)"

definition is_queued :: "'b leaf_gate \<Rightarrow> string \<Rightarrow> time \<Rightarrow> bool" where
  "is_queued g key now = (case bm_get (lg_waiting g) key of Some w \<Rightarrow> wt_parked w \<and> waiting_live now w | None \<Rightarrow> False)"

definition waiting_count :: "'b leaf_gate \<Rightarrow> nat" where
  "waiting_count g = length (lg_waiting g)"

section \<open>Admission\<close>

definition denial_of :: "caps \<Rightarrow> in_flight \<Rightarrow> candidate \<Rightarrow> denial" where
  "denial_of caps f c =
     (if cap_global caps \<le> fl_total f then GlobalFull (fl_total f) (cap_global caps)
      else if caps_scope_cap caps (cand_scope c) \<le> count_of (fl_by_scope f) (cand_scope c)
      then ScopeFull (count_of (fl_by_scope f) (cand_scope c)) (caps_scope_cap caps (cand_scope c))
      else Outranked)"

text \<open>The queue with the candidate entered: it keeps the time since when it waits.\<close>

definition since_of :: "'b leaf_gate \<Rightarrow> queue \<Rightarrow> candidate \<Rightarrow> time \<Rightarrow> u64" where
  "since_of g q c now =
     (case bm_get q (cand_name c) of
        Some w \<Rightarrow> cand_since (wt_candidate w)
      | None \<Rightarrow> of_nat (min (nat (now - lg_epoch g) div 10 ^ 6) (2 ^ 64 - 1)))"

definition enqueue :: "gate_config \<Rightarrow> candidate \<Rightarrow> nat option \<Rightarrow> time \<Rightarrow> queue \<Rightarrow> queue" where
  "enqueue cfg c limit now q =
     bm_insert (cand_name c)
       \<lparr>wt_seen = now, wt_candidate = c, wt_scope_cap = limit, wt_woken = False, wt_parked = gc_park_queued cfg\<rparr> q"

definition gate_caps :: "gate_config \<Rightarrow> budget_config \<Rightarrow> queue \<Rightarrow> caps" where
  "gate_caps cfg bc q =
     \<lparr>cap_global = (if gc_calibrate cfg then 1 else bc_global bc), cap_per_scope = bc_per_scope bc,
      cap_scope_caps = fold (\<lambda>w m. case wt_scope_cap w of Some n \<Rightarrow> bm_insert (cand_scope (wt_candidate w)) n m | None \<Rightarrow> m) (bm_values q) [],
      cap_per_credential = gc_per_credential_cap cfg, cap_drift_share_permille = gc_drift_share_permille cfg, cap_priority = gc_priority cfg\<rparr>"

definition see_flight :: "'b budget_ops \<Rightarrow> 'b fair_budget \<Rightarrow> 'b leaf_gate \<Rightarrow> candidate \<Rightarrow> in_flight \<Rightarrow> in_flight" where
  "see_flight B budgets g c f =
     f\<lparr>fl_by_scope := bm_insert (cand_scope c) (in_flight_of B budgets (cand_scope c)) (fl_by_scope f),
       fl_drift_by_scope := bm_insert (cand_scope c) (in_flight_of B (lg_drift g) (cand_scope c)) (fl_drift_by_scope f),
       fl_by_credential := (case cand_credential c of
           Some cred \<Rightarrow> bm_insert cred (in_flight_of B (lg_credentials g) cred) (fl_by_credential f)
         | None \<Rightarrow> fl_by_credential f)\<rparr>"

definition gate_in_flight :: "'b budget_ops \<Rightarrow> 'b fair_budget \<Rightarrow> 'b leaf_gate \<Rightarrow> queue \<Rightarrow> in_flight" where
  "gate_in_flight B budgets g q =
     fold (\<lambda>w. see_flight B budgets g (wt_candidate w)) (bm_values q)
       \<lparr>fl_total = total_in_flight B budgets, fl_by_scope = [], fl_drift_by_scope = [], fl_by_credential = []\<rparr>"

text \<open>The slots of a candidate the engine picked: the scope's, the credential's and the drift slot, in this
  order. A slot that cannot be taken gives the earlier ones back.\<close>

definition credential_slot :: "gate_config \<Rightarrow> candidate \<Rightarrow> string option" where
  "credential_slot cfg c = (if 0 < gc_per_credential_cap cfg then cand_credential c else None)"

definition drift_slot :: "gate_config \<Rightarrow> candidate \<Rightarrow> string option" where
  "drift_slot cfg c = (if cand_class c = work_class.Drift \<and> 0 < gc_drift_share_permille cfg then Some (cand_scope c) else None)"

definition take_slot :: "'b budget_ops \<Rightarrow> string option \<Rightarrow> nat \<Rightarrow> 'b fair_budget \<Rightarrow> bool \<times> 'b fair_budget" where
  "take_slot B key n fb = (case key of None \<Rightarrow> (True, fb) | Some k \<Rightarrow> try_acquire_capped B k (Some n) fb)"

definition give_back :: "'b budget_ops \<Rightarrow> string option \<Rightarrow> 'b fair_budget \<Rightarrow> 'b fair_budget" where
  "give_back B key fb = (case key of None \<Rightarrow> fb | Some k \<Rightarrow> release_slot B k fb)"

definition acquire_slots ::
    "'b budget_ops \<Rightarrow> gate_config \<Rightarrow> caps \<Rightarrow> in_flight \<Rightarrow> candidate \<Rightarrow> nat option \<Rightarrow> 'b fair_budget \<Rightarrow> 'b leaf_gate
     \<Rightarrow> denial option \<times> 'b fair_budget \<times> 'b leaf_gate" where
  "acquire_slots B cfg caps f c limit budgets g =
     (let (ok, budgets) = try_acquire_capped B (cand_scope c) limit budgets in
      if \<not> ok then (Some (denial_of caps f c), budgets, g)
      else
        (let (ok, creds) = take_slot B (credential_slot cfg c) (gc_per_credential_cap cfg) (lg_credentials g);
             g = g\<lparr>lg_credentials := creds\<rparr>
         in if \<not> ok then (Some Outranked, release_slot B (cand_scope c) budgets, g)
            else
              (let (ok, drift) = take_slot B (drift_slot cfg c)
                     (drift_slots (caps_scope_cap caps (cand_scope c)) (cap_drift_share_permille caps)) (lg_drift g);
                   g = g\<lparr>lg_drift := drift\<rparr>
               in if \<not> ok
                  then (Some Outranked, release_slot B (cand_scope c) budgets,
                        g\<lparr>lg_credentials := give_back B (credential_slot cfg c) (lg_credentials g)\<rparr>)
                  else (None, budgets, g))))"

definition gate_admit ::
    "'b budget_ops \<Rightarrow> gate_config \<Rightarrow> candidate \<Rightarrow> nat option \<Rightarrow> time \<Rightarrow> 'b fair_budget \<Rightarrow> 'b leaf_gate
     \<Rightarrow> verdict \<times> 'b fair_budget \<times> 'b leaf_gate" where
  "gate_admit B cfg candidate limit now budgets g =
     (let q = retain_live now (lg_waiting g);
          key = cand_name candidate;
          waited = (gc_park_queued cfg \<and> bm_get q key \<noteq> None);
          c = candidate\<lparr>cand_since := since_of g q candidate now\<rparr>;
          q = enqueue cfg c limit now q;
          g = g\<lparr>lg_waiting := q\<rparr>;
          caps = gate_caps cfg (fb_cfg budgets) q;
          f = gate_in_flight B budgets g q
      in if key \<notin> set (admit (map wt_candidate (bm_values q)) caps f) then (VerdictQueued (denial_of caps f c), budgets, g)
         else
           (case acquire_slots B cfg caps f c limit budgets g of
              (Some d, budgets, g) \<Rightarrow> (VerdictQueued d, budgets, g)
            | (None, budgets, g) \<Rightarrow>
                (VerdictAdmitted \<lparr>lp_waited = waited, lp_scope = cand_scope c, lp_credential = credential_slot cfg c,
                     lp_drift = drift_slot cfg c, lp_priority = gc_priority cfg, lp_park = gc_park_queued cfg\<rparr>,
                 budgets, g\<lparr>lg_waiting := bm_remove key q\<rparr>)))"

section \<open>Release\<close>

fun choose_more :: "string list \<Rightarrow> candidate list \<Rightarrow> string list" where
  "choose_more chosen [] = chosen"
| "choose_more chosen (c # cs) =
     (if WAKE_PER_RELEASE \<le> length chosen then chosen
      else choose_more (if cand_name c \<in> set chosen then chosen else chosen @ [cand_name c]) cs)"

definition to_wake :: "string \<Rightarrow> priority_mode \<Rightarrow> queue \<Rightarrow> string list" where
  "to_wake scope priority q =
     (let ranked = order (map wt_candidate (filter (\<lambda>w. \<not> wt_woken w) (bm_values q))) priority
      in choose_more (case find (\<lambda>c. cand_scope c = scope) ranked of Some c \<Rightarrow> [cand_name c] | None \<Rightarrow> []) ranked)"

definition mark_woken :: "time \<Rightarrow> string list \<Rightarrow> queue \<Rightarrow> queue" where
  "mark_woken now names q = map (\<lambda>(k, w). (k, if k \<in> set names then w\<lparr>wt_woken := True, wt_seen := now\<rparr> else w)) q"

definition wake_on_release :: "string \<Rightarrow> priority_mode \<Rightarrow> bool \<Rightarrow> time \<Rightarrow> 'b leaf_gate \<Rightarrow> 'b leaf_gate" where
  "wake_on_release scope priority park now g =
     (if \<not> park then g
      else
        (let q = retain_live now (lg_waiting g);
             chosen = to_wake scope priority q
         in g\<lparr>lg_waiting := mark_woken now chosen q, lg_wakes := lg_wakes g @ chosen\<rparr>))"

definition drop_permit :: "'b budget_ops \<Rightarrow> leaf_permit \<Rightarrow> time \<Rightarrow> 'b fair_budget \<Rightarrow> 'b leaf_gate \<Rightarrow> 'b fair_budget \<times> 'b leaf_gate" where
  "drop_permit B p now budgets g =
     (let budgets = release_slot B (lp_scope p) budgets;
          g = g\<lparr>lg_credentials := give_back B (lp_credential p) (lg_credentials g)\<rparr>;
          g = g\<lparr>lg_drift := give_back B (lp_drift p) (lg_drift g)\<rparr>
      in (budgets, wake_on_release (lp_scope p) (lp_priority p) (lp_park p) now g))"

section \<open>What the gate relies on\<close>

record budget_view =
  bv_global :: "nat option"
  bv_caps :: "string \<Rightarrow> nat option"
  bv_running :: "string \<Rightarrow> nat"
  bv_total :: nat

definition empty_view :: budget_view where
  "empty_view = \<lparr>bv_global = None, bv_caps = (\<lambda>_. None), bv_running = (\<lambda>_. 0), bv_total = 0\<rparr>"

definition under_cap :: "nat \<Rightarrow> nat option \<Rightarrow> bool" where
  "under_cap n m \<longleftrightarrow> (case m of None \<Rightarrow> True | Some k \<Rightarrow> n < k)"

definition has_room :: "budget_view \<Rightarrow> string \<Rightarrow> bool" where
  "has_room v scope \<longleftrightarrow> under_cap (bv_total v) (bv_global v) \<and> under_cap (bv_running v scope) (bv_caps v scope)"

definition view_take :: "string \<Rightarrow> budget_view \<Rightarrow> budget_view" where
  "view_take scope v = v\<lparr>bv_running := (bv_running v)(scope := bv_running v scope + 1), bv_total := bv_total v + 1\<rparr>"

definition view_give :: "string \<Rightarrow> budget_view \<Rightarrow> budget_view" where
  "view_give scope v = v\<lparr>bv_running := (bv_running v)(scope := bv_running v scope - 1), bv_total := bv_total v - 1\<rparr>"

definition budget_laws :: "'b budget_ops \<Rightarrow> ('b \<Rightarrow> budget_view) \<Rightarrow> bool" where
  "budget_laws B A \<longleftrightarrow>
     A (bt_new B) = empty_view
     \<and> (\<forall>n tr. A (bt_set_global B n tr) = (A tr)\<lparr>bv_global := Some n\<rparr>)
     \<and> (\<forall>tr s. bt_scope_cap B tr s = bv_caps (A tr) s)
     \<and> (\<forall>s n tr. A (bt_set_scope_cap B s n tr) = (A tr)\<lparr>bv_caps := (bv_caps (A tr))(s := Some n)\<rparr>)
     \<and> (\<forall>s tr. map_option A (bt_try_allocate B s tr) = (if has_room (A tr) s then Some (view_take s (A tr)) else None))
     \<and> (\<forall>s tr. A (bt_release B s tr) = view_give s (A tr))
     \<and> (\<forall>tr s. bt_running_scope B tr s = bv_running (A tr) s)
     \<and> (\<forall>tr. bt_running_global B tr = bv_total (A tr))"

section \<open>Counting slots\<close>

text \<open>A budget whose counters are the multiset of the keys held.\<close>

definition holds_slots :: "('b \<Rightarrow> budget_view) \<Rightarrow> 'b fair_budget \<Rightarrow> string multiset \<Rightarrow> bool" where
  "holds_slots A fb m \<longleftrightarrow> bv_running (A (fb_tree fb)) = count m \<and> bv_total (A (fb_tree fb)) = size m"

definition key_mset :: "string option \<Rightarrow> string multiset" where
  "key_mset key = (case key of None \<Rightarrow> {#} | Some k \<Rightarrow> {#k#})"

lemma budget_lawsD:
  assumes "budget_laws B A"
  shows "A (bt_new B) = empty_view" "A (bt_set_global B n tr) = (A tr)\<lparr>bv_global := Some n\<rparr>" "bt_scope_cap B tr s = bv_caps (A tr) s"
    "A (bt_set_scope_cap B s n tr) = (A tr)\<lparr>bv_caps := (bv_caps (A tr))(s := Some n)\<rparr>"
    "map_option A (bt_try_allocate B s tr) = (if has_room (A tr) s then Some (view_take s (A tr)) else None)"
    "A (bt_release B s tr) = view_give s (A tr)" "bt_running_scope B tr s = bv_running (A tr) s" "bt_running_global B tr = bv_total (A tr)"
  using assms unfolding budget_laws_def by simp_all

lemma holds_new: "budget_laws B A \<Longrightarrow> holds_slots A (new_fair_budget B cfg) {#}"
  by (auto simp: holds_slots_def new_fair_budget_def budget_lawsD empty_view_def)

lemma acquire_holds:
  assumes "budget_laws B A" and "holds_slots A fb m" and "try_acquire_capped B s l fb = (ok, fb')"
  shows "holds_slots A fb' (if ok then add_mset s m else m) \<and> fb_cfg fb' = fb_cfg fb \<and> (ok \<longrightarrow> (\<forall>n. l = Some n \<longrightarrow> count m s < n))"
proof -
  define tr where "tr = (case l of
            Some n \<Rightarrow> bt_set_scope_cap B s (cap_of n) (fb_tree fb)
          | None \<Rightarrow> (case bt_scope_cap B (fb_tree fb) s of Some _ \<Rightarrow> fb_tree fb
               | None \<Rightarrow> bt_set_scope_cap B s (cap_of (bc_per_scope (fb_cfg fb))) (fb_tree fb)))"
  have view: "bv_running (A tr) = count m" "bv_total (A tr) = size m" "\<And>n. l = Some n \<Longrightarrow> bv_caps (A tr) s = Some (cap_of n)"
    using assms(2) budget_lawsD [OF assms(1)] by (auto simp: tr_def holds_slots_def split: option.splits)
  note alloc = budget_lawsD(5) [OF assms(1), of s tr]
  show ?thesis
  proof (cases "bt_try_allocate B s tr")
    case None
    then have "ok = False" "fb' = fb\<lparr>fb_tree := tr\<rparr>" using assms(3) by (auto simp: try_acquire_capped_def Let_def simp flip: tr_def)
    with view show ?thesis by (simp add: holds_slots_def)
  next
    case (Some tr')
    then have ok: "ok" "fb' = fb\<lparr>fb_tree := tr'\<rparr>" using assms(3) by (auto simp: try_acquire_capped_def Let_def simp flip: tr_def)
    from Some alloc have room: "has_room (A tr) s" and tr': "A tr' = view_take s (A tr)" by (auto split: if_splits)
    from room have "\<And>n. l = Some n \<Longrightarrow> count m s < n" using view by (auto simp: has_room_def under_cap_def cap_of_def)
    moreover have "(count m)(s := Suc (count m s)) = count (add_mset s m)" by auto
    ultimately show ?thesis using ok tr' view by (simp add: holds_slots_def view_take_def)
  qed
qed

lemma release_holds: "budget_laws B A \<Longrightarrow> holds_slots A fb (add_mset s m) \<Longrightarrow> holds_slots A (release_slot B s fb) m"
  by (auto simp: holds_slots_def release_slot_def budget_lawsD view_give_def fun_eq_iff)

lemma take_slot_holds:
  assumes "budget_laws B A" and "holds_slots A fb m" and "take_slot B key n fb = (ok, fb')"
  shows "holds_slots A fb' (if ok then key_mset key + m else m) \<and> (ok \<longrightarrow> (\<forall>k. key = Some k \<longrightarrow> count m k < n))"
  using assms acquire_holds [OF assms(1,2), of _ "Some n" ok fb']
  by (cases key) (auto simp: take_slot_def key_mset_def)

lemma give_back_holds: "budget_laws B A \<Longrightarrow> holds_slots A fb (key_mset key + m) \<Longrightarrow> holds_slots A (give_back B key fb) m"
  by (cases key) (auto simp: give_back_def key_mset_def release_holds)

lemma slots_cfg [simp]: "fb_cfg (release_slot B s fb) = fb_cfg fb"
  by (simp add: release_slot_def)

lemma acquire_slots_holds:
  assumes laws: "budget_laws B A" and held: "holds_slots A b m" "holds_slots A (lg_credentials g) mc" "holds_slots A (lg_drift g) md"
    and run: "acquire_slots B cfg caps f c limit b g = (d, b', g')"
  shows "holds_slots A b' (if d = None then add_mset (cand_scope c) m else m)
    \<and> holds_slots A (lg_credentials g') (if d = None then key_mset (credential_slot cfg c) + mc else mc)
    \<and> holds_slots A (lg_drift g') (if d = None then key_mset (drift_slot cfg c) + md else md)
    \<and> fb_cfg b' = fb_cfg b \<and> lg_waiting g' = lg_waiting g \<and> lg_wakes g' = lg_wakes g
    \<and> (d = None \<longrightarrow> (\<forall>k. credential_slot cfg c = Some k \<longrightarrow> count mc k < gc_per_credential_cap cfg))"
proof -
  obtain ok1 b1 where 1: "try_acquire_capped B (cand_scope c) limit b = (ok1, b1)" by fastforce
  note h1 = acquire_holds [OF laws held(1) 1]
  show ?thesis
  proof (cases ok1)
    case False
    with 1 run h1 held show ?thesis by (auto simp: acquire_slots_def)
  next
    case ok1: True
    obtain ok2 c2 where 2: "take_slot B (credential_slot cfg c) (gc_per_credential_cap cfg) (lg_credentials g) = (ok2, c2)" by fastforce
    note h2 = take_slot_holds [OF laws held(2) 2]
    show ?thesis
    proof (cases ok2)
      case False
      with ok1 1 2 run h1 h2 held show ?thesis by (auto simp: acquire_slots_def Let_def intro: release_holds [OF laws])
    next
      case ok2: True
      obtain ok3 d3 where 3: "take_slot B (drift_slot cfg c)
          (drift_slots (caps_scope_cap caps (cand_scope c)) (cap_drift_share_permille caps)) (lg_drift g) = (ok3, d3)" by fastforce
      note h3 = take_slot_holds [OF laws held(3) 3]
      show ?thesis
      proof (cases ok3)
        case False
        with ok1 ok2 1 2 3 run h1 h2 h3 held show ?thesis
          by (auto simp: acquire_slots_def Let_def intro: release_holds [OF laws] give_back_holds [OF laws])
      next
        case True
        with ok1 ok2 1 2 3 run h1 h2 h3 held show ?thesis by (auto simp: acquire_slots_def Let_def)
      qed
    qed
  qed
qed

section \<open>Reachable gates\<close>

record 'b gate_world =
  gw_budgets :: "'b fair_budget"
  gw_gate :: "'b leaf_gate"
  gw_permits :: "leaf_permit list"

inductive gate_step :: "'b budget_ops \<Rightarrow> gate_config \<Rightarrow> 'b gate_world \<Rightarrow> 'b gate_world \<Rightarrow> bool" for B cfg where
  grant: "gate_admit B cfg c limit now (gw_budgets w) (gw_gate w) = (VerdictAdmitted p, b, g)
    \<Longrightarrow> gate_step B cfg w \<lparr>gw_budgets = b, gw_gate = g, gw_permits = p # gw_permits w\<rparr>"
| deny: "gate_admit B cfg c limit now (gw_budgets w) (gw_gate w) = (VerdictQueued d, b, g)
    \<Longrightarrow> gate_step B cfg w \<lparr>gw_budgets = b, gw_gate = g, gw_permits = gw_permits w\<rparr>"
| free: "gw_permits w = ps @ p # ps' \<Longrightarrow> drop_permit B p now (gw_budgets w) (gw_gate w) = (b, g)
    \<Longrightarrow> gate_step B cfg w \<lparr>gw_budgets = b, gw_gate = g, gw_permits = ps @ ps'\<rparr>"
| block: "gate_step B cfg w (w\<lparr>gw_gate := note_blocked key (gw_gate w)\<rparr>)"
| unblock: "gate_step B cfg w (w\<lparr>gw_gate := snd (take_blocked key (gw_gate w))\<rparr>)"
| listen: "gate_step B cfg w (w\<lparr>gw_gate := snd (take_wakes (gw_gate w))\<rparr>)"

inductive gate_reachable :: "'b budget_ops \<Rightarrow> gate_config \<Rightarrow> budget_config \<Rightarrow> 'b gate_world \<Rightarrow> bool" for B cfg bc where
  start: "gate_reachable B cfg bc \<lparr>gw_budgets = new_fair_budget B bc, gw_gate = default_gate B now, gw_permits = []\<rparr>"
| more: "gate_reachable B cfg bc w \<Longrightarrow> gate_step B cfg w w' \<Longrightarrow> gate_reachable B cfg bc w'"

definition slots_of :: "(leaf_permit \<Rightarrow> string option) \<Rightarrow> leaf_permit list \<Rightarrow> string multiset" where
  "slots_of key ps = sum_list (map (key_mset \<circ> key) ps)"

definition pool_of :: "gate_config \<Rightarrow> budget_config \<Rightarrow> nat" where
  "pool_of cfg bc = (if gc_calibrate cfg then 1 else bc_global bc)"

definition gate_inv :: "('b \<Rightarrow> budget_view) \<Rightarrow> gate_config \<Rightarrow> budget_config \<Rightarrow> 'b gate_world \<Rightarrow> bool" where
  "gate_inv A cfg bc w \<longleftrightarrow>
     holds_slots A (gw_budgets w) (slots_of (Some \<circ> lp_scope) (gw_permits w))
     \<and> holds_slots A (lg_credentials (gw_gate w)) (slots_of lp_credential (gw_permits w))
     \<and> holds_slots A (lg_drift (gw_gate w)) (slots_of lp_drift (gw_permits w))
     \<and> fb_cfg (gw_budgets w) = bc
     \<and> length (gw_permits w) \<le> pool_of cfg bc
     \<and> (0 < gc_per_credential_cap cfg \<longrightarrow> (\<forall>k. count (slots_of lp_credential (gw_permits w)) k \<le> gc_per_credential_cap cfg))"

lemma slots_of_simps [simp]:
  "slots_of key [] = {#}" "slots_of key (p # ps) = key_mset (key p) + slots_of key ps"
  "slots_of key (ps @ ps') = slots_of key ps + slots_of key ps'"
  by (simp_all add: slots_of_def)

lemma count_slots_of: "count (slots_of key ps) k = length (filter (\<lambda>p. key p = Some k) ps)"
  by (induction ps) (auto simp: key_mset_def split: option.splits)

lemma size_slots_of: "size (slots_of key ps) = length (filter (\<lambda>p. key p \<noteq> None) ps)"
  by (induction ps) (auto simp: key_mset_def split: option.splits)

lemma fl_total_seen: "fl_total (fold (\<lambda>w. see_flight B b g (wt_candidate w)) ws f) = fl_total f"
  by (induction ws arbitrary: f) (simp_all add: see_flight_def)

lemma admit_pool: "x \<in> set (admit cs caps f) \<Longrightarrow> fl_total f < cap_global caps"
  unfolding admit_def by (cases "order cs (cap_priority caps)") (auto split: if_splits)

lemma wake_keeps [simp]: "lg_credentials (wake_on_release s pr park now g) = lg_credentials g" "lg_drift (wake_on_release s pr park now g) = lg_drift g"
  by (simp_all add: wake_on_release_def Let_def)

lemma admit_inv:
  assumes laws: "budget_laws B A" and inv: "gate_inv A cfg bc w"
    and run: "gate_admit B cfg c limit now (gw_budgets w) (gw_gate w) = (v, b, g)"
  shows "gate_inv A cfg bc \<lparr>gw_budgets = b, gw_gate = g,
    gw_permits = (case v of VerdictAdmitted p \<Rightarrow> p # gw_permits w | VerdictQueued _ \<Rightarrow> gw_permits w)\<rparr>"
proof -
  let ?g = "gw_gate w"
  define q where "q = retain_live now (lg_waiting ?g)"
  define c' where "c' = c\<lparr>cand_since := since_of ?g q c now\<rparr>"
  define q' where "q' = enqueue cfg c' limit now q"
  define g1 where "g1 = ?g\<lparr>lg_waiting := q'\<rparr>"
  define caps where "caps = gate_caps cfg (fb_cfg (gw_budgets w)) q'"
  define f where "f = gate_in_flight B (gw_budgets w) g1 q'"
  obtain d b2 g2 where acq: "acquire_slots B cfg caps f c' limit (gw_budgets w) g1 = (d, b2, g2)" by (metis prod_cases3)
  have held: "holds_slots A (lg_credentials g1) (slots_of lp_credential (gw_permits w))" "holds_slots A (lg_drift g1) (slots_of lp_drift (gw_permits w))"
    "holds_slots A (gw_budgets w) (slots_of (Some \<circ> lp_scope) (gw_permits w))" "fb_cfg (gw_budgets w) = bc"
    using inv by (auto simp: gate_inv_def g1_def)
  note h = acquire_slots_holds [OF laws held(3,1,2) acq]
  note run' = run [unfolded gate_admit_def Let_def, folded q_def, folded c'_def, folded q'_def, folded g1_def, folded caps_def f_def]
  have pool: "length (gw_permits w) < pool_of cfg bc" if "cand_name c \<in> set (admit (map wt_candidate (bm_values q')) caps f)"
  proof -
    have "fl_total f = length (gw_permits w)"
      using held(3) budget_lawsD(8) [OF laws]
      by (simp add: f_def gate_in_flight_def fl_total_seen total_in_flight_def holds_slots_def size_slots_of)
    moreover have "cap_global caps = pool_of cfg bc" using held(4) by (simp add: caps_def gate_caps_def pool_of_def)
    ultimately show ?thesis using admit_pool [OF that] by simp
  qed
  show ?thesis
  proof (cases "cand_name c \<notin> set (admit (map wt_candidate (bm_values q')) caps f)")
    case True
    then show ?thesis using run' inv by (auto simp: gate_inv_def g1_def)
  next
    case False
    then show ?thesis using run' acq h inv pool
      by (cases d) (auto simp: gate_inv_def key_mset_def Suc_le_eq split: option.splits)
  qed
qed

lemma drop_inv:
  assumes laws: "budget_laws B A" and inv: "gate_inv A cfg bc w" and permits: "gw_permits w = ps @ p # ps'"
    and run: "drop_permit B p now (gw_budgets w) (gw_gate w) = (b, g)"
  shows "gate_inv A cfg bc \<lparr>gw_budgets = b, gw_gate = g, gw_permits = ps @ ps'\<rparr>"
proof -
  have "slots_of key (gw_permits w) = key_mset (key p) + slots_of key (ps @ ps')" for key
    by (simp add: permits ac_simps)
  with inv have "holds_slots A (gw_budgets w) (add_mset (lp_scope p) (slots_of (Some \<circ> lp_scope) (ps @ ps')))"
    "holds_slots A (lg_credentials (gw_gate w)) (key_mset (lp_credential p) + slots_of lp_credential (ps @ ps'))"
    "holds_slots A (lg_drift (gw_gate w)) (key_mset (lp_drift p) + slots_of lp_drift (ps @ ps'))"
    by (auto simp: gate_inv_def key_mset_def)
  then have "holds_slots A b (slots_of (Some \<circ> lp_scope) (ps @ ps'))" "holds_slots A (lg_credentials g) (slots_of lp_credential (ps @ ps'))"
    "holds_slots A (lg_drift g) (slots_of lp_drift (ps @ ps'))" "fb_cfg b = bc"
    using run inv by (auto simp: drop_permit_def Let_def gate_inv_def intro: release_holds [OF laws] give_back_holds [OF laws])
  moreover have "count (slots_of lp_credential (ps @ ps')) k \<le> gc_per_credential_cap cfg" if "0 < gc_per_credential_cap cfg" for k
  proof -
    have "count (slots_of lp_credential (ps @ ps')) k \<le> count (slots_of lp_credential (gw_permits w)) k" by (simp add: permits)
    also have "\<dots> \<le> gc_per_credential_cap cfg" using inv that by (auto simp: gate_inv_def)
    finally show ?thesis .
  qed
  ultimately show ?thesis using inv permits by (auto simp: gate_inv_def)
qed

lemma step_inv:
  assumes "gate_step B cfg w w'" and laws: "budget_laws B A" and "gate_inv A cfg bc w"
  shows "gate_inv A cfg bc w'"
  using assms
proof cases
  case (grant c limit now p b g)
  then show ?thesis using admit_inv [OF laws assms(3) grant(2)] by simp
next
  case (deny c limit now d b g)
  then show ?thesis using admit_inv [OF laws assms(3) deny(2)] by simp
next
  case (free ps p ps' now b g)
  then show ?thesis using drop_inv [OF laws assms(3) free(2,3)] by simp
qed (use assms(3) in \<open>auto simp: gate_inv_def note_blocked_def take_blocked_def take_wakes_def\<close>)

lemma reachable_inv: "gate_reachable B cfg bc w \<Longrightarrow> budget_laws B A \<Longrightarrow> gate_inv A cfg bc w"
proof (induction rule: gate_reachable.induct)
  case (start now)
  then show ?case using holds_new [OF start] by (simp add: gate_inv_def default_gate_def new_fair_budget_def)
next
  case (more w w')
  then show ?case using step_inv by blast
qed

text \<open>C28: No slot leaks and the pool is never overbooked. In every reachable state of the gate the counters of
  the three budgets are exactly the slots of the permits that are alive, also when an admission had
  taken a slot before it failed on a later one; the permits alive are at most the global cap (one
  while calibrating), and with a cap per credential no credential has more than that.\<close>

theorem gate_counts_permits:
  assumes "budget_laws B A" and "gate_reachable B cfg bc w"
  shows "total_in_flight B (gw_budgets w) = length (gw_permits w)
    \<and> (\<forall>s. in_flight_of B (gw_budgets w) s = length (filter (\<lambda>p. lp_scope p = s) (gw_permits w)))
    \<and> (\<forall>k. in_flight_of B (lg_credentials (gw_gate w)) k = length (filter (\<lambda>p. lp_credential p = Some k) (gw_permits w)))
    \<and> (\<forall>s. in_flight_of B (lg_drift (gw_gate w)) s = length (filter (\<lambda>p. lp_drift p = Some s) (gw_permits w)))
    \<and> length (gw_permits w) \<le> (if gc_calibrate cfg then 1 else bc_global bc)
    \<and> (0 < gc_per_credential_cap cfg \<longrightarrow>
        (\<forall>k. length (filter (\<lambda>p. lp_credential p = Some k) (gw_permits w)) \<le> gc_per_credential_cap cfg))"
proof -
  note laws = budget_lawsD [OF assms(1)]
  have "gate_inv A cfg bc w" using assms by (rule reachable_inv [rotated])
  then show ?thesis
    by (auto simp: gate_inv_def holds_slots_def total_in_flight_def in_flight_of_def laws count_slots_of size_slots_of pool_of_def)
qed

section \<open>A reference budget\<close>

definition ref_budget :: "budget_view budget_ops" where
  "ref_budget = \<lparr>bt_new = empty_view, bt_set_global = (\<lambda>n v. v\<lparr>bv_global := Some n\<rparr>), bt_scope_cap = bv_caps,
     bt_set_scope_cap = (\<lambda>s n v. v\<lparr>bv_caps := (bv_caps v)(s := Some n)\<rparr>),
     bt_try_allocate = (\<lambda>s v. if has_room v s then Some (view_take s v) else None), bt_release = view_give,
     bt_running_scope = bv_running, bt_running_global = bv_total\<rparr>"

lemma ref_budget_laws: "budget_laws ref_budget id"
  by (simp add: budget_laws_def ref_budget_def)

definition gate_test_config :: gate_config where
  "gate_test_config = \<lparr>gc_priority = PriorityOn, gc_per_credential_cap = 1, gc_drift_share_permille = 500, gc_calibrate = False, gc_park_queued = True\<rparr>"

definition gate_test_start :: "budget_view gate_world" where
  "gate_test_start = \<lparr>gw_budgets = new_fair_budget ref_budget default_budget_config, gw_gate = default_gate ref_budget 0, gw_permits = []\<rparr>"

definition gate_ask :: "string \<Rightarrow> work_class \<Rightarrow> budget_view gate_world \<Rightarrow> verdict \<times> budget_view gate_world" where
  "gate_ask name cl w =
     (let (v, b, g) = gate_admit ref_budget gate_test_config
            \<lparr>cand_name = name, cand_scope = ''org'', cand_credential = Some ''gh'', cand_class = cl, cand_depth = 0, cand_since = 0\<rparr> None 0
            (gw_budgets w) (gw_gate w)
      in (v, \<lparr>gw_budgets = b, gw_gate = g,
              gw_permits = (case v of VerdictAdmitted p \<Rightarrow> p # gw_permits w | VerdictQueued _ \<Rightarrow> gw_permits w)\<rparr>))"

lemma gate_ask_step: "gate_ask name cl w = (v, w') \<Longrightarrow> gate_step ref_budget gate_test_config w w'"
  by (auto simp: gate_ask_def Let_def split: prod.splits verdict.splits intro: gate_step.grant gate_step.deny)

definition gate_test_world :: "budget_view gate_world" where
  "gate_test_world = snd (gate_ask ''b'' work_class.Change (snd (gate_ask ''a'' work_class.Change gate_test_start)))"

lemma gate_test_reachable: "gate_reachable ref_budget gate_test_config default_budget_config gate_test_world"
  unfolding gate_test_world_def gate_test_start_def
  by (rule gate_reachable.more [OF gate_reachable.more [OF gate_reachable.start gate_ask_step [OF prod.collapse [symmetric]]]
        gate_ask_step [OF prod.collapse [symmetric]]])

lemmas gate_eval = gate_test_world_def gate_ask_def gate_admit_def gate_test_start_def default_gate_def gate_test_config_def default_budget_config_def
  new_fair_budget_def ref_budget_def unbounded_def retain_live_def since_of_def bm_get_def enqueue_def gate_caps_def gate_in_flight_def see_flight_def
  admit_def order_def fits_def count_of_def caps_scope_cap_def acquire_slots_def try_acquire_capped_def take_slot_def credential_slot_def
  drift_slot_def has_room_def under_cap_def view_take_def empty_view_def cap_of_def in_flight_of_def total_in_flight_def bm_remove_def
  denial_of_def waiting_live_def ttl_of_def POLL_TTL_def QUEUE_TTL_def WOKEN_TTL_def Let_def

theorem gate_counts_permits_witness:
  "length (gw_permits gate_test_world) = 1 \<and> total_in_flight ref_budget (gw_budgets gate_test_world) = length (gw_permits gate_test_world)"
proof -
  have "length (gw_permits gate_test_world) = 1" by (simp add: gate_eval)
  with gate_counts_permits [OF ref_budget_laws gate_test_reachable] show ?thesis by simp
qed

section \<open>Explicit caps stay\<close>

text \<open>Asking without a cap keeps the cap of an earlier request: the uniform cap is registered only the first
  time a scope is seen.\<close>

lemma explicit_cap_stays:
  assumes "budget_laws B A" and "try_acquire_capped B s (Some n) fb = (ok, fb')" and "try_acquire B s fb' = (ok', fb'')"
    and "cap_of n \<le> bv_running (A (fb_tree fb')) s"
  shows "\<not> ok'"
proof -
  note laws = budget_lawsD [OF assms(1)]
  define tr where "tr = bt_set_scope_cap B s (cap_of n) (fb_tree fb)"
  have "A (fb_tree fb') = A tr \<or> A (fb_tree fb') = view_take s (A tr)"
    using assms(2) laws(5) [of s tr]
    by (auto simp: try_acquire_capped_def Let_def simp flip: tr_def split: option.splits if_splits)
  then have "bv_caps (A (fb_tree fb')) s = Some (cap_of n)" by (auto simp: tr_def laws view_take_def)
  moreover have "\<not> has_room (A (fb_tree fb')) s" using calculation assms(4) by (simp add: has_room_def under_cap_def)
  ultimately show ?thesis
    using assms(3) laws(5) [of s "fb_tree fb'"] by (auto simp: try_acquire_def try_acquire_capped_def Let_def laws(3) split: option.splits)
qed

section \<open>Waking\<close>

definition queue_ok :: "queue \<Rightarrow> bool" where
  "queue_ok q \<longleftrightarrow> bm_wf q \<and> (\<forall>(k, w) \<in> set q. cand_name (wt_candidate w) = k)"

lemma wf_filter: "bm_wf q \<Longrightarrow> bm_wf (filter P q)"
  unfolding bm_wf_def by (induction q) auto

lemma set_bm_insert: "set (bm_insert k v m) \<subseteq> insert (k, v) (set m)"
  by (induction m) (auto split: if_split_asm)

lemma queue_ok_steps:
  assumes "queue_ok q"
  shows "queue_ok (filter P q)" and "queue_ok (bm_remove k q)" and "queue_ok (mark_woken now names q)"
    and "queue_ok (enqueue cfg c limit now q)"
proof -
  have "map fst (mark_woken now names q) = map fst q" by (auto simp: mark_woken_def)
  then have "bm_wf (mark_woken now names q)" using assms unfolding queue_ok_def bm_wf_def by (simp only:)
  then show "queue_ok (mark_woken now names q)" using assms by (auto simp: queue_ok_def mark_woken_def)
  show "queue_ok (filter P q)" "queue_ok (bm_remove k q)"
    using assms by (auto simp: queue_ok_def bm_remove_def intro: wf_filter)
  show "queue_ok (enqueue cfg c limit now q)"
    using assms set_bm_insert unfolding queue_ok_def enqueue_def by (fastforce intro: bm_wf_insert)
qed

lemma acquire_slots_queue: "acquire_slots B cfg caps f c limit b g = (d, b', g') \<Longrightarrow> lg_waiting g' = lg_waiting g"
  by (auto simp: acquire_slots_def Let_def split: prod.splits if_splits)

lemma admit_queue:
  assumes "queue_ok (lg_waiting g)" and "gate_admit B cfg c limit now b g = (v, b', g')"
  shows "queue_ok (lg_waiting g')"
proof -
  have ok: "queue_ok (enqueue cfg (c\<lparr>cand_since := x\<rparr>) limit now (retain_live now (lg_waiting g)))" for x
    using assms(1) by (simp add: retain_live_def queue_ok_steps)
  show ?thesis
    using assms(2) unfolding gate_admit_def Let_def
    by (auto dest!: acquire_slots_queue intro: ok queue_ok_steps(2) [OF ok] split: if_splits prod.splits option.splits)
qed

lemma reachable_queue: "gate_reachable B cfg bc w \<Longrightarrow> queue_ok (lg_waiting (gw_gate w))"
proof (induction rule: gate_reachable.induct)
  case (more w w')
  from more(2,3) show ?case
  proof cases
    case (free ps p ps' now b g)
    then show ?thesis using more(3)
      by (auto simp: drop_permit_def wake_on_release_def Let_def retain_live_def queue_ok_steps(3) [OF queue_ok_steps(1)])
  qed (auto simp: note_blocked_def take_blocked_def take_wakes_def dest: admit_queue)
qed (simp add: default_gate_def queue_ok_def bm_wf_def)

definition outranks :: "priority_mode \<Rightarrow> candidate \<Rightarrow> candidate \<Rightarrow> bool" where
  "outranks mode c c' \<longleftrightarrow>
     (case mode of
        PriorityOn \<Rightarrow> (cand_class c, candidate_age c, cand_depth c, cand_name c) \<le> (cand_class c', candidate_age c', cand_depth c', cand_name c')
      | PriorityOff \<Rightarrow> (cand_since c, cand_name c) \<le> (cand_since c', cand_name c'))"

lemma order_sorted: "sorted_wrt (outranks mode) (order cs mode)"
proof (cases mode)
  case PriorityOn
  then show ?thesis using sorted_sort_key [of "\<lambda>c. (cand_class c, candidate_age c, cand_depth c, cand_name c)" cs]
    by (simp add: order_def outranks_def [abs_def] sorted_map)
next
  case PriorityOff
  then show ?thesis using sorted_sort_key [of "\<lambda>c. (cand_since c, cand_name c)" cs]
    by (simp add: order_def outranks_def [abs_def] sorted_map)
qed

lemma find_outranks:
  assumes "sorted_wrt (outranks mode) cs" "find P cs = Some c" "c' \<in> set cs" "P c'"
  shows "outranks mode c c'"
  using assms by (induction cs) (auto simp: outranks_def split: if_splits priority_mode.splits)

lemma find_member: "Some c = find P cs \<Longrightarrow> c \<in> set cs"
  by (metis find_Some_iff nth_mem)

lemma choose_more_extends: "\<exists>ys. choose_more chosen cs = chosen @ ys \<and> set ys \<subseteq> cand_name ` set cs"
  by (induction chosen cs rule: choose_more.induct) (auto, force+)

lemma choose_more_distinct: "distinct chosen \<Longrightarrow> distinct (choose_more chosen cs)"
  by (induction chosen cs rule: choose_more.induct) auto

lemma choose_more_length:
  "distinct chosen \<Longrightarrow> length chosen \<le> WAKE_PER_RELEASE
   \<Longrightarrow> length (choose_more chosen cs) = min WAKE_PER_RELEASE (card (set chosen \<union> cand_name ` set cs))"
proof (induction chosen cs rule: choose_more.induct)
  case (1 chosen)
  then show ?case by (simp add: distinct_card)
next
  case (2 chosen c cs)
  show ?case
  proof (cases "WAKE_PER_RELEASE \<le> length chosen")
    case True
    have "card (set chosen) \<le> card (set chosen \<union> cand_name ` set (c # cs))" by (rule card_mono) auto
    with True 2(2,3) show ?thesis by (simp add: distinct_card)
  next
    case False
    with 2 show ?thesis by (auto simp: insert_absorb)
  qed
qed

text \<open>C29: A release wakes the right waiters. When a permit is dropped (with parking on), the names sent to the
  waker are distinct, live and not woken before; there are two of them, or all if fewer wait, so no
  release is lost while someone waits; each is marked woken at that instant; and if a waiter of the freed
  scope exists, the first name is the best-ranked of that scope.\<close>

theorem release_wakes_best:
  assumes "gate_reachable B cfg bc w" and "drop_permit B p now (gw_budgets w) (gw_gate w) = (b, g)" and "lp_park p"
  defines "waiters \<equiv> filter (\<lambda>(k, x). waiting_live now x \<and> \<not> wt_woken x) (lg_waiting (gw_gate w))"
  shows "\<exists>woken. lg_wakes g = lg_wakes (gw_gate w) @ woken \<and> distinct woken \<and> set woken \<subseteq> fst ` set waiters
    \<and> length woken = min 2 (length waiters)
    \<and> (\<forall>k \<in> set woken. \<exists>x. bm_get (lg_waiting g) k = Some x \<and> wt_woken x \<and> wt_seen x = now)
    \<and> (\<forall>(k, x) \<in> set waiters. cand_scope (wt_candidate x) = lp_scope p \<longrightarrow>
        (\<exists>x'. (hd woken, x') \<in> set waiters \<and> cand_scope (wt_candidate x') = lp_scope p \<and> outranks (lp_priority p) (wt_candidate x') (wt_candidate x)))"
proof -
  define q where "q = retain_live now (lg_waiting (gw_gate w))"
  define parked where "parked = map wt_candidate (filter (\<lambda>x. \<not> wt_woken x) (bm_values q))"
  define ranked where "ranked = order parked (lp_priority p)"
  define chosen where "chosen = (case find (\<lambda>c. cand_scope c = lp_scope p) ranked of Some c \<Rightarrow> [cand_name c] | None \<Rightarrow> [])"
  let ?woken = "choose_more chosen ranked"
  have ok: "queue_ok (lg_waiting (gw_gate w))" by (rule reachable_queue [OF assms(1)])
  then have q: "queue_ok q" by (simp add: q_def retain_live_def queue_ok_steps)
  have g: "lg_wakes g = lg_wakes (gw_gate w) @ ?woken" "lg_waiting g = mark_woken now ?woken q"
    using assms(2,3)
    by (auto simp: drop_permit_def wake_on_release_def to_wake_def Let_def q_def parked_def ranked_def chosen_def)
  have waiters: "waiters = filter (\<lambda>(k, x). \<not> wt_woken x) q"
    by (auto simp: waiters_def q_def retain_live_def intro!: filter_cong)
  then have parked: "parked = map (wt_candidate \<circ> snd) waiters"
    by (simp add: parked_def filter_map comp_def case_prod_unfold)
  have names: "cand_name (wt_candidate x) = k" if "(k, x) \<in> set waiters" for k x
    using that q by (auto simp: waiters queue_ok_def)
  have keys: "cand_name ` set ranked = fst ` set waiters" "card (fst ` set waiters) = length waiters"
  proof -
    show "cand_name ` set ranked = fst ` set waiters" using names by (force simp: ranked_def parked)
    have "distinct (map fst waiters)" using q by (auto simp: waiters queue_ok_def intro!: bm_wf_distinct wf_filter)
    then show "card (fst ` set waiters) = length waiters" using distinct_card [of "map fst waiters"] by simp
  qed
  have in_ranked: "set chosen \<subseteq> cand_name ` set ranked" "distinct chosen" "length chosen \<le> WAKE_PER_RELEASE"
    by (auto simp: chosen_def WAKE_PER_RELEASE_def split: option.splits dest!: find_member)
  obtain ys where ys: "?woken = chosen @ ys" "set ys \<subseteq> cand_name ` set ranked" using choose_more_extends by blast
  have sub: "set ?woken \<subseteq> fst ` set waiters" using ys in_ranked keys by auto
  have len: "length ?woken = min 2 (length waiters)"
    using choose_more_length [OF in_ranked(2,3), of ranked] in_ranked(1) keys by (simp add: WAKE_PER_RELEASE_def sup.absorb2)
  have marked: "\<exists>x. bm_get (lg_waiting g) k = Some x \<and> wt_woken x \<and> wt_seen x = now" if "k \<in> set ?woken" for k
  proof -
    have "k \<in> fst ` set q" using subsetD [OF sub that] by (auto simp: waiters)
    then obtain x where "(k, x) \<in> set q" by auto
    then have "(k, x\<lparr>wt_woken := True, wt_seen := now\<rparr>) \<in> set (lg_waiting g)" using that unfolding g mark_woken_def by force
    moreover have "bm_wf (lg_waiting g)" using queue_ok_steps(3) [OF q] unfolding g queue_ok_def by blast
    ultimately show ?thesis by (auto simp: bm_get_Some_iff)
  qed
  have best: "\<exists>x'. (hd ?woken, x') \<in> set waiters \<and> cand_scope (wt_candidate x') = lp_scope p \<and> outranks (lp_priority p) (wt_candidate x') (wt_candidate x)"
    if x: "(k, x) \<in> set waiters" "cand_scope (wt_candidate x) = lp_scope p" for k x
  proof -
    have mem: "wt_candidate x \<in> set ranked" using x by (force simp: ranked_def parked)
    then obtain c where c: "find (\<lambda>c. cand_scope c = lp_scope p) ranked = Some c" using x(2) by (metis (mono_tags) find_None_iff not_None_eq)
    then have "c \<in> set ranked" "cand_scope c = lp_scope p" by (auto simp: find_Some_iff)
    moreover have "outranks (lp_priority p) c (wt_candidate x)"
      using find_outranks [OF order_sorted c [unfolded ranked_def]] mem x(2) by (simp add: ranked_def)
    moreover obtain k' x' where x': "(k', x') \<in> set waiters" "c = wt_candidate x'" using calculation(1) by (auto simp: ranked_def parked)
    moreover have "hd ?woken = k'" using ys c names [OF x'(1)] x'(2) by (simp add: chosen_def)
    ultimately show ?thesis by blast
  qed
  show ?thesis using g(1) choose_more_distinct [OF in_ranked(2)] sub len marked best by (intro exI [of _ ?woken]) auto
qed

theorem release_wakes_best_witness:
  "\<exists>b g woken. drop_permit ref_budget (hd (gw_permits gate_test_world)) 1 (gw_budgets gate_test_world) (gw_gate gate_test_world) = (b, g)
     \<and> lg_wakes g = lg_wakes (gw_gate gate_test_world) @ woken \<and> length woken = 1"
proof -
  obtain b g where run: "drop_permit ref_budget (hd (gw_permits gate_test_world)) 1 (gw_budgets gate_test_world) (gw_gate gate_test_world) = (b, g)"
    by fastforce
  have park: "lp_park (hd (gw_permits gate_test_world))" by (simp add: gate_eval)
  have one: "length (filter (\<lambda>(k, x). waiting_live 1 x \<and> \<not> wt_woken x) (lg_waiting (gw_gate gate_test_world))) = 1" by (simp add: gate_eval)
  from release_wakes_best [OF gate_test_reachable run park] run show ?thesis unfolding one by auto
qed

text \<open>A leaf that is refused while parking is on reads as queued, so that the reactive stage does not take it for
  stuck; it keeps the time since when it waits; and an admitted leaf leaves the queue.\<close>

lemma denied_is_queued:
  assumes "gate_admit B cfg c limit now b g = (VerdictQueued d, b', g')" and "gc_park_queued cfg" and "now \<le> now'" "now' < now + QUEUE_TTL"
  shows "is_queued g' (cand_name c) now'"
  using assms
  by (auto simp: gate_admit_def Let_def is_queued_def enqueue_def bm_get_insert waiting_live_def ttl_of_def
      dest!: acquire_slots_queue split: if_splits prod.splits option.splits)

lemma admitted_leaves_queue:
  assumes "gate_admit B cfg c limit now b g = (VerdictAdmitted p, b', g')"
  shows "bm_get (lg_waiting g') (cand_name c) = None"
  using assms by (auto simp: gate_admit_def Let_def bm_get_remove split: if_splits prod.splits option.splits)

lemma denied_keeps_place:
  assumes "gate_admit B cfg c limit now b g = (VerdictQueued d, b', g')" and "bm_get (lg_waiting g) (cand_name c) = Some x" and "waiting_live now x"
    and "queue_ok (lg_waiting g)"
  shows "\<exists>x'. bm_get (lg_waiting g') (cand_name c) = Some x' \<and> cand_since (wt_candidate x') = cand_since (wt_candidate x)"
proof -
  have "(cand_name c, x) \<in> set (retain_live now (lg_waiting g))" "bm_wf (retain_live now (lg_waiting g))"
    using assms(2-4) by (auto simp: queue_ok_def bm_get_Some_iff retain_live_def intro: wf_filter)
  then have "bm_get (retain_live now (lg_waiting g)) (cand_name c) = Some x" by (simp add: bm_get_Some_iff)
  with assms(1) show ?thesis
    by (auto simp: gate_admit_def Let_def enqueue_def bm_get_insert since_of_def
        dest!: acquire_slots_queue split: if_splits prod.splits option.splits)
qed

end
