(* ===== verification/Leaf_Migrate.thy ===== *)
theory Leaf_Migrate
  imports Leaf_Partition Compile_Inputs
begin

text \<open>
  Moving the state of a fat template into its leaves and back (\<open>pangea-leaf/src/migrate.rs\<close>).

  Bytes are strings. The parser and the pretty printer of \<open>serde_json\<close> are the parameters \<open>J\<close> and \<open>P\<close>, the
  hexadecimal BLAKE3 digest is \<open>H\<close>. Messages of errors are kept as structured reasons. A removed key
  leaves the order of the others as it is, and serials wrap at 64 bits, as release builds do.

  The lemmas describe a state by the addresses and instances of its managed blocks, show what a split
  makes of them, that moves drawn from claims cover a state, and what a merge puts back.
\<close>

section \<open>Data\<close>

record state_move =
  sm_from_template :: string
  sm_to_template :: string
  sm_pangea_namespace :: "string option"
  sm_addresses :: "string list"

datatype claim_clash = KeyClash string | AddressClash string string string | LeafClash string

datatype bijection_problem =
    Unplaced nat string
  | MovesDiffer string nat string nat bool
  | InNoMove string
  | LeavesDiffer string nat string nat bool
  | ReadBackDiffers string nat string nat bool
  | MergedDiffers string nat string nat bool

datatype migrate_error =
    FatUnparsable
  | MigrateSource Leaf_Sources.source_error
  | NoMoves
  | DuplicateLeaf claim_clash
  | WrongSource string string string
  | BijectionRefused bijection_problem
  | MissingLeaf string

datatype direction = Forward | Reversed

record leaf_receipt =
  lr_template :: string
  lr_addresses :: nat
  lr_content_hash :: string

record receipt =
  rc_fat_template :: string
  rc_direction :: direction
  rc_fat_lineage :: string
  rc_fat_serial :: u64
  rc_archive_hash :: string
  rc_count_before :: nat
  rc_count_after :: nat
  rc_hash_before :: string
  rc_hash_after :: string
  rc_disjoint :: bool
  rc_leaves :: "leaf_receipt list"

record leaf_state =
  ls_template :: string
  ls_bytes :: string

record split_result =
  sr_leaves :: "leaf_state list"
  sr_receipt :: receipt

record leaf_claim =
  lc_leaf :: string
  lc_key :: string
  lc_addresses :: "string list"

section \<open>Documents\<close>

definition parse_state :: "(string \<Rightarrow> json option) \<Rightarrow> string \<Rightarrow> (migrate_error, json) result" where
  "parse_state J bytes = (case J bytes of Some v \<Rightarrow> Inr v | None \<Rightarrow> Inl FatUnparsable)"

definition lift_source :: "(Leaf_Sources.source_error, 'a) result \<Rightarrow> (migrate_error, 'a) result" where
  "lift_source r = (case r of Inl e \<Rightarrow> Inl (MigrateSource e) | Inr x \<Rightarrow> Inr x)"

definition lineage_for :: "(string \<Rightarrow> string) \<Rightarrow> string \<Rightarrow> string \<Rightarrow> string" where
  "lineage_for H fat_lineage leaf =
     (let x = H (fat_lineage @ [CHR 0x00] @ leaf);
          part = (\<lambda>a b. take (b - a) (drop a x))
      in part 0 8 @ ''-'' @ part 8 12 @ ''-'' @ part 12 16 @ ''-'' @ part 16 20 @ ''-'' @ part 20 32)"

definition str_field :: "json \<Rightarrow> string \<Rightarrow> string" where
  "str_field v k = (case get_str v k of Some s \<Rightarrow> s | None \<Rightarrow> [])"

definition serial_of :: "json \<Rightarrow> u64" where
  "serial_of v = (case Option.bind (jget v ''serial'') as_u64 of Some n \<Rightarrow> n | None \<Rightarrow> 0)"

definition resources_of :: "json \<Rightarrow> (migrate_error, json list) result" where
  "resources_of v = (case get_array v ''resources'' of Some rs \<Rightarrow> Inr rs | None \<Rightarrow> Inl (MigrateSource (State NoResources)))"

definition managed_addresses :: "(string \<Rightarrow> json option) \<Rightarrow> string \<Rightarrow> (migrate_error, string list) result" where
  "managed_addresses J bytes = bind_result (parse_state J bytes) (\<lambda>doc. lift_source (addresses_from_state doc))"

definition instances_of :: "json \<Rightarrow> json list" where
  "instances_of r = (case get_array r ''instances'' of Some a \<Rightarrow> a | None \<Rightarrow> [])"

definition insert_field :: "string \<Rightarrow> json \<Rightarrow> json \<Rightarrow> json" where
  "insert_field k v r = (case r of JObj kvs \<Rightarrow> JObj (set_key k v kvs) | _ \<Rightarrow> r)"

definition with_instances :: "json \<Rightarrow> json list \<Rightarrow> json" where
  "with_instances r insts = insert_field ''instances'' (JArr insts) r"

definition leaf_document :: "json \<Rightarrow> string \<Rightarrow> json list \<Rightarrow> json" where
  "leaf_document fat lineage resources =
     JObj [(''version'', case jget fat ''version'' of Some v \<Rightarrow> v | None \<Rightarrow> JNum (PosInt 4)),
           (''terraform_version'', case jget fat ''terraform_version'' of Some v \<Rightarrow> v | None \<Rightarrow> JStr []),
           (''serial'', JNum (PosInt 1)), (''lineage'', JStr lineage), (''outputs'', JObj []), (''resources'', JArr resources)]"

section \<open>Moves\<close>

definition claim_address :: "string \<Rightarrow> string \<Rightarrow> (string, string) btmap \<Rightarrow> (migrate_error, (string, string) btmap) result" where
  "claim_address leaf a by_address =
     (case bm_get by_address a of
        Some prev \<Rightarrow> Inl (DuplicateLeaf (AddressClash a prev leaf))
      | None \<Rightarrow> Inr (bm_insert a leaf by_address))"

definition claim_step ::
    "leaf_claim \<Rightarrow> (string, string) btmap \<times> (string, string) btmap
     \<Rightarrow> (migrate_error, (string, string) btmap \<times> (string, string) btmap) result" where
  "claim_step c s =
     (if bm_get (fst s) (lc_key c) \<noteq> None then Inl (DuplicateLeaf (KeyClash (lc_key c)))
      else bind_result (fold_result (claim_address (lc_leaf c)) (lc_addresses c) (snd s)) (\<lambda>by_address.
        Inr (bm_insert (lc_key c) (lc_leaf c) (fst s), by_address)))"

definition place_of :: "(string, string) btmap \<Rightarrow> (string, string) btmap \<Rightarrow> string \<Rightarrow> string option" where
  "place_of by_key by_address addr =
     (case bm_get by_address addr of
        Some leaf \<Rightarrow> Some leaf
      | None \<Rightarrow> (case leaf_key addr of Inr (Keyed k) \<Rightarrow> bm_get by_key k | _ \<Rightarrow> None))"

definition moves_by_claims ::
    "(string \<Rightarrow> json option) \<Rightarrow> string \<Rightarrow> string option \<Rightarrow> string \<Rightarrow> leaf_claim list \<Rightarrow> (migrate_error, state_move list) result" where
  "moves_by_claims J fat_template ns fat states =
     bind_result (fold_result claim_step states ([], [])) (\<lambda>(by_key, by_address).
     bind_result (managed_addresses J fat) (\<lambda>addresses.
       (let place = place_of by_key by_address;
            placed = fold (\<lambda>a m. case place a of Some l \<Rightarrow> bm_entry l [] (\<lambda>xs. xs @ [a]) m | None \<Rightarrow> m) addresses [];
            unplaced = filter (\<lambda>a. place a = None) addresses
        in if unplaced \<noteq> [] then Inl (BijectionRefused (Unplaced (length unplaced) (hd unplaced)))
           else Inr (map (\<lambda>(leaf, as). \<lparr>sm_from_template = fat_template, sm_to_template = leaf, sm_pangea_namespace = ns, sm_addresses = as\<rparr>)
             placed))))"

definition moves_by_key ::
    "(string \<Rightarrow> json option) \<Rightarrow> string \<Rightarrow> string option \<Rightarrow> string \<Rightarrow> (string \<times> string) list \<Rightarrow> (migrate_error, state_move list) result" where
  "moves_by_key J fat_template ns fat states =
     moves_by_claims J fat_template ns fat (map (\<lambda>(leaf, key). \<lparr>lc_leaf = leaf, lc_key = key, lc_addresses = []\<rparr>) states)"

definition check_step :: "string \<Rightarrow> state_move \<Rightarrow> string list \<Rightarrow> (migrate_error, string list) result" where
  "check_step fat_template m seen =
     (if sm_from_template m \<noteq> fat_template then Inl (WrongSource fat_template (sm_from_template m) (sm_to_template m))
      else if sm_to_template m \<in> set seen then Inl (DuplicateLeaf (LeafClash (sm_to_template m)))
      else Inr (bs_insert (sm_to_template m) seen))"

definition check_moves :: "string \<Rightarrow> state_move list \<Rightarrow> (migrate_error, unit) result" where
  "check_moves fat_template moves =
     (if moves = [] then Inl NoMoves
      else bind_result (fold_result (check_step fat_template) moves []) (\<lambda>_. Inr ()))"

text \<open>The hashes of both sides, whether the second is free of repetitions, and whether they agree.\<close>

definition bijection_check :: "(string \<Rightarrow> string) \<Rightarrow> string list \<Rightarrow> string list \<Rightarrow> string \<times> string \<times> bool \<times> bool" where
  "bijection_check H olds news =
     (let disjoint = (length (bs_of_list news) = length news);
          hb = multiset_hash H olds;
          ha = multiset_hash H news
      in (hb, ha, disjoint, disjoint \<and> hb = ha))"

section \<open>Splitting\<close>

definition owner_of :: "state_move list \<Rightarrow> (string, nat) btmap" where
  "owner_of moves = bm_of_list (concat (map (\<lambda>(i, m). map (\<lambda>a. (a, i)) (sm_addresses m)) (List.enumerate 0 moves)))"

definition bucket_step ::
    "(string, nat) btmap \<Rightarrow> string \<Rightarrow> json \<Rightarrow> (nat, json list) btmap \<Rightarrow> (migrate_error, (nat, json list) btmap) result" where
  "bucket_step owner base inst buckets =
     (case bm_get owner (instance_address base inst) of
        None \<Rightarrow> Inl (BijectionRefused (InNoMove (instance_address base inst)))
      | Some i \<Rightarrow> Inr (bm_entry i [] (\<lambda>xs. xs @ [inst]) buckets))"

definition push_block :: "json \<Rightarrow> nat \<times> json list \<Rightarrow> json list list \<Rightarrow> json list list" where
  "push_block r b per_leaf = per_leaf[fst b := per_leaf ! fst b @ [with_instances r (snd b)]]"

definition split_resource :: "(string, nat) btmap \<Rightarrow> json \<Rightarrow> json list list \<Rightarrow> (migrate_error, json list list) result" where
  "split_resource owner r per_leaf =
     (if \<not> is_managed r then Inr per_leaf
      else
        bind_result (lift_source (resource_base r)) (\<lambda>base.
        bind_result (fold_result (bucket_step owner base) (instances_of r) []) (\<lambda>buckets.
        Inr (fold (push_block r) buckets per_leaf))))"

definition write_leaf ::
    "(string \<Rightarrow> string) \<Rightarrow> (json \<Rightarrow> string) \<Rightarrow> json \<Rightarrow> state_move \<times> json list
     \<Rightarrow> (leaf_state list \<times> leaf_receipt list \<times> string list) \<Rightarrow> (migrate_error, leaf_state list \<times> leaf_receipt list \<times> string list) result" where
  "write_leaf H P doc mr s =
     (let leaf_doc = leaf_document doc (lineage_for H (str_field doc ''lineage'') (sm_to_template (fst mr))) (snd mr);
          bytes = P leaf_doc
      in bind_result (lift_source (addresses_from_state leaf_doc)) (\<lambda>got.
         Inr (fst s @ [\<lparr>ls_template = sm_to_template (fst mr), ls_bytes = bytes\<rparr>],
              fst (snd s) @ [\<lparr>lr_template = sm_to_template (fst mr), lr_addresses = length got, lr_content_hash = H bytes\<rparr>],
              snd (snd s) @ got)))"

definition split_state ::
    "(string \<Rightarrow> string) \<Rightarrow> (string \<Rightarrow> json option) \<Rightarrow> (json \<Rightarrow> string) \<Rightarrow> string \<Rightarrow> string \<Rightarrow> state_move list
     \<Rightarrow> (migrate_error, split_result) result" where
  "split_state H J P fat_template fat moves =
     bind_result (check_moves fat_template moves) (\<lambda>_.
     bind_result (parse_state J fat) (\<lambda>doc.
     bind_result (lift_source (addresses_from_state doc)) (\<lambda>olds.
       (let claimed = concat (map sm_addresses moves);
            (hb, ha, disjoint, ok) = bijection_check H olds claimed
        in if \<not> ok then Inl (BijectionRefused (MovesDiffer hb (length olds) ha (length claimed) disjoint))
           else
             bind_result (resources_of doc) (\<lambda>resources.
             bind_result (fold_result (split_resource (owner_of moves)) resources (replicate (length moves) [])) (\<lambda>per_leaf.
             bind_result (fold_result (write_leaf H P doc) (zip moves per_leaf) ([], [], [])) (\<lambda>(states, receipts, news).
               (let (hb, ha, disjoint, ok) = bijection_check H olds news
                in if \<not> ok then Inl (BijectionRefused (LeavesDiffer ha (length news) hb (length olds) disjoint))
                   else Inr \<lparr>sr_leaves = states,
                     sr_receipt = \<lparr>rc_fat_template = fat_template, rc_direction = Forward, rc_fat_lineage = str_field doc ''lineage'',
                       rc_fat_serial = serial_of doc, rc_archive_hash = H fat, rc_count_before = length olds,
                       rc_count_after = length news, rc_hash_before = hb, rc_hash_after = ha, rc_disjoint = disjoint,
                       rc_leaves = receipts\<rparr>\<rparr>))))))))"

definition verify_written :: "(string \<Rightarrow> string) \<Rightarrow> (string \<Rightarrow> json option) \<Rightarrow> receipt \<Rightarrow> leaf_state list \<Rightarrow> (migrate_error, unit) result" where
  "verify_written H J rc states =
     bind_result (fold_result (\<lambda>l out. bind_result (managed_addresses J (ls_bytes l)) (\<lambda>as. Inr (out @ as))) states []) (\<lambda>news.
       (let (_, ha, disjoint, _) = bijection_check H news news
        in if \<not> disjoint \<or> ha \<noteq> rc_hash_before rc \<or> length news \<noteq> rc_count_before rc
           then Inl (BijectionRefused (ReadBackDiffers ha (length news) (rc_hash_before rc) (rc_count_before rc) disjoint))
           else Inr ()))"

section \<open>Merging back\<close>

type_synonym block_id = "string \<times> string \<times> string \<times> string"

definition block_id_of :: "json \<Rightarrow> block_id" where
  "block_id_of r = (str_field r ''module'', str_field r ''mode'', str_field r ''type'', str_field r ''name'')"

definition collect_block ::
    "json \<Rightarrow> (block_id, json list) btmap \<times> block_id list \<Rightarrow> (block_id, json list) btmap \<times> block_id list" where
  "collect_block block s =
     (let i = block_id_of block
      in (bm_entry i [] (\<lambda>xs. xs @ instances_of block) (fst s), if bm_get (fst s) i = None then snd s @ [i] else snd s))"

definition collect_leaf ::
    "(string \<Rightarrow> json option) \<Rightarrow> (string \<Rightarrow> leaf_state option) \<Rightarrow> leaf_receipt
     \<Rightarrow> u64 \<times> string list \<times> (block_id, json list) btmap \<times> block_id list
     \<Rightarrow> (migrate_error, u64 \<times> string list \<times> (block_id, json list) btmap \<times> block_id list) result" where
  "collect_leaf J by_name r s =
     (case by_name (lr_template r) of
        None \<Rightarrow> Inl (MissingLeaf (lr_template r))
      | Some l \<Rightarrow>
          bind_result (parse_state J (ls_bytes l)) (\<lambda>ld.
          bind_result (lift_source (addresses_from_state ld)) (\<lambda>as.
          bind_result (resources_of ld) (\<lambda>blocks.
          Inr (max (fst s) (serial_of ld), fst (snd s) @ as, fold collect_block blocks (snd (snd s)))))))"

definition rebuild_step :: "json \<Rightarrow> json list \<times> (block_id, json list) btmap \<Rightarrow> json list \<times> (block_id, json list) btmap" where
  "rebuild_step r s =
     (if \<not> is_managed r then (fst s @ [r], snd s)
      else (case bm_get (snd s) (block_id_of r) of
              Some insts \<Rightarrow> (fst s @ [with_instances r insts], bm_remove (block_id_of r) (snd s))
            | None \<Rightarrow> s))"

definition new_block :: "block_id \<Rightarrow> json list \<Rightarrow> json" where
  "new_block i insts =
     (let (m, mode, ty, name) = i in
      JObj [(''module'', if m = [] then JNull else JStr m), (''mode'', JStr mode), (''type'', JStr ty), (''name'', JStr name),
            (''instances'', JArr insts)])"

definition append_step :: "block_id \<Rightarrow> json list \<times> (block_id, json list) btmap \<Rightarrow> json list \<times> (block_id, json list) btmap" where
  "append_step i s =
     (case bm_get (snd s) i of
        Some insts \<Rightarrow> (fst s @ [new_block i insts], bm_remove i (snd s))
      | None \<Rightarrow> s)"

definition drop_null_module :: "json \<Rightarrow> json" where
  "drop_null_module b =
     (case b of JObj kvs \<Rightarrow> if map_of kvs ''module'' = Some JNull then JObj (filter (\<lambda>(k, _). k \<noteq> ''module'') kvs) else b | _ \<Rightarrow> b)"

definition merge_states ::
    "(string \<Rightarrow> string) \<Rightarrow> (string \<Rightarrow> json option) \<Rightarrow> (json \<Rightarrow> string) \<Rightarrow> string \<Rightarrow> receipt \<Rightarrow> leaf_state list \<Rightarrow> (migrate_error, string) result" where
  "merge_states H J P archive rc states =
     (let by_name = bm_get (bm_of_list (map (\<lambda>l. (ls_template l, l)) states)) in
      case List.find (\<lambda>r. by_name (lr_template r) = None) (rc_leaves rc) of
        Some r \<Rightarrow> Inl (MissingLeaf (lr_template r))
      | None \<Rightarrow>
          if list_all (\<lambda>r. map_option (H \<circ> ls_bytes) (by_name (lr_template r)) = Some (lr_content_hash r)) (rc_leaves rc)
             \<and> H archive = rc_archive_hash rc
          then Inr archive
          else
            bind_result (parse_state J archive) (\<lambda>doc.
            bind_result (fold_result (collect_leaf J by_name) (rc_leaves rc) (serial_of doc, [], [], [])) (\<lambda>(serial, expected, blocks, order).
            bind_result (resources_of doc) (\<lambda>resources.
              (let out = map drop_null_module (fst (fold append_step order (fold rebuild_step resources ([], blocks))));
                   doc = insert_field ''serial'' (JNum (PosInt (serial + 1))) (insert_field ''resources'' (JArr out) doc)
               in bind_result (lift_source (addresses_from_state doc)) (\<lambda>merged.
                  (let (hb, ha, disjoint, ok) = bijection_check H expected merged
                   in if \<not> ok then Inl (BijectionRefused (MergedDiffers ha (length merged) hb (length expected) disjoint))
                      else Inr (P doc))))))))"

section \<open>Instances of a state\<close>

definition block_instances :: "json \<Rightarrow> (string \<times> json) list" where
  "block_instances r =
     (case resource_base r of Inr base \<Rightarrow> map (\<lambda>i. (instance_address base i, i)) (instances_of r) | Inl _ \<Rightarrow> [])"

definition managed_instances :: "json list \<Rightarrow> (string \<times> json) list" where
  "managed_instances rs = concat (map (\<lambda>r. if is_managed r then block_instances r else []) rs)"

definition wf_block :: "json \<Rightarrow> bool" where
  "wf_block r \<longleftrightarrow> (is_managed r \<longrightarrow> (\<exists>base. resource_base r = Inr base) \<and> get_array r ''instances'' \<noteq> None)"

lemma managed_instances_simps [simp]:
  "managed_instances [] = []" "managed_instances (r # rs) = (if is_managed r then block_instances r else []) @ managed_instances rs"
  "managed_instances (rs @ rs') = managed_instances rs @ managed_instances rs'"
  by (simp_all add: managed_instances_def)

lemma fold_addresses:
  "fold_result (\<lambda>r out. if \<not> is_managed r then Inr out else bind_result (resource_addresses r) (\<lambda>as. Inr (out @ as))) rs out = Inr res
   \<longleftrightarrow> list_all wf_block rs \<and> res = out @ map fst (managed_instances rs)"
  by (induction rs arbitrary: out)
    (auto simp: wf_block_def resource_addresses_def block_instances_def instances_of_def bind_result_def comp_def split: sum.splits option.splits)

lemma addresses_from_state_iff:
  "addresses_from_state doc = Inr as \<longleftrightarrow>
     (\<exists>rs. get_array doc ''resources'' = Some rs \<and> list_all wf_block rs \<and> as = map fst (managed_instances rs))"
  by (auto simp: addresses_from_state_def fold_addresses split: option.splits)

lemma jget_insert_field: "jget (insert_field k v r) k' = (if k' = k \<and> as_object r \<noteq> None then Some v else jget r k')"
  by (cases r) (auto simp: insert_field_def map_of_set_key)

lemma managed_is_object: "is_managed r \<Longrightarrow> as_object r \<noteq> None"
  by (cases r) (auto simp: is_managed_def get_str_def)

lemma get_str_insert_field: "k' \<noteq> k \<Longrightarrow> get_str (insert_field k v r) k' = get_str r k'"
  by (simp add: get_str_def jget_insert_field)

lemma with_instances_simps:
  "is_managed (with_instances r xs) = is_managed r" "resource_base (with_instances r xs) = resource_base r"
  "is_managed r \<Longrightarrow> instances_of (with_instances r xs) = xs" "is_managed r \<Longrightarrow> get_array (with_instances r xs) ''instances'' = Some xs"
  using managed_is_object [of r]
  by (simp_all add: with_instances_def is_managed_def resource_base_def instances_of_def get_str_insert_field get_array_def jget_insert_field
      split: option.split)

section \<open>Buckets\<close>

definition owned :: "(string, nat) btmap \<Rightarrow> string \<Rightarrow> nat \<Rightarrow> json list \<Rightarrow> json list" where
  "owned owner base i insts = filter (\<lambda>inst. bm_get owner (instance_address base inst) = Some i) insts"

definition part_of :: "(string, nat) btmap \<Rightarrow> nat \<Rightarrow> json \<Rightarrow> json list" where
  "part_of owner i r =
     (case resource_base r of
        Inl _ \<Rightarrow> []
      | Inr base \<Rightarrow> if is_managed r \<and> owned owner base i (instances_of r) \<noteq> [] then [with_instances r (owned owner base i (instances_of r))] else [])"

definition in_bucket :: "(nat, json list) btmap \<Rightarrow> nat \<Rightarrow> json list" where
  "in_bucket b i = (case bm_get b i of Some xs \<Rightarrow> xs | None \<Rightarrow> [])"

lemma fold_buckets:
  assumes "bm_wf b" "\<And>i. bm_get b i \<noteq> Some []"
  shows "(\<exists>b'. fold_result (bucket_step owner base) insts b = Inr b') \<longleftrightarrow> (\<forall>inst \<in> set insts. bm_get owner (instance_address base inst) \<noteq> None)"
    and "fold_result (bucket_step owner base) insts b = Inr b' \<Longrightarrow>
      bm_wf b' \<and> (\<forall>i. bm_get b' i \<noteq> Some [] \<and> in_bucket b' i = in_bucket b i @ owned owner base i insts)"
proof -
  have "((\<exists>b'. fold_result (bucket_step owner base) insts b = Inr b') \<longleftrightarrow> (\<forall>inst \<in> set insts. bm_get owner (instance_address base inst) \<noteq> None))
    \<and> (\<forall>b'. fold_result (bucket_step owner base) insts b = Inr b' \<longrightarrow>
      bm_wf b' \<and> (\<forall>i. bm_get b' i \<noteq> Some [] \<and> in_bucket b' i = in_bucket b i @ owned owner base i insts))"
    using assms
  proof (induction insts arbitrary: b)
    case (Cons inst insts)
    show ?case
    proof (cases "bm_get owner (instance_address base inst)")
      case (Some i)
      let ?b = "bm_entry i [] (\<lambda>xs. xs @ [inst]) b"
      have "bm_wf ?b" "\<And>j. bm_get ?b j \<noteq> Some []" "\<And>j. in_bucket ?b j = in_bucket b j @ (if j = i then [inst] else [])"
        using Cons.prems by (auto simp: bm_wf_entry bm_get_entry in_bucket_def split: option.splits)
      with Cons.IH [of ?b] Some show ?thesis by (auto simp: bucket_step_def owned_def)
    qed (simp add: bucket_step_def)
  qed (simp add: owned_def)
  then show "(\<exists>b'. fold_result (bucket_step owner base) insts b = Inr b') \<longleftrightarrow> (\<forall>inst \<in> set insts. bm_get owner (instance_address base inst) \<noteq> None)"
    and "fold_result (bucket_step owner base) insts b = Inr b' \<Longrightarrow>
      bm_wf b' \<and> (\<forall>i. bm_get b' i \<noteq> Some [] \<and> in_bucket b' i = in_bucket b i @ owned owner base i insts)" by blast+
qed

lemma fold_push_block:
  assumes "distinct (map fst bs)" "i < length pl"
  shows "fold (push_block r) bs pl ! i = pl ! i @ (case map_of bs i of Some xs \<Rightarrow> [with_instances r xs] | None \<Rightarrow> [])"
  using assms
proof (induction bs arbitrary: pl)
  case (Cons b bs)
  then show ?case
    by (cases "fst b = i") (auto simp: push_block_def nth_list_update map_of_eq_None_iff image_iff split: option.splits dest!: map_of_SomeD)
qed simp

lemma length_push_blocks [simp]: "length (fold (push_block r) bs pl) = length pl"
  by (induction bs arbitrary: pl) (simp_all add: push_block_def)

definition all_owned :: "(string, nat) btmap \<Rightarrow> json list \<Rightarrow> bool" where
  "all_owned owner rs \<longleftrightarrow> (\<forall>a \<in> fst ` set (managed_instances rs). bm_get owner a \<noteq> None)"

lemma split_resource_step:
  assumes "wf_block r"
  shows "(\<exists>pl'. split_resource owner r pl = Inr pl') \<longleftrightarrow> all_owned owner [r]"
    and "split_resource owner r pl = Inr pl' \<Longrightarrow> length pl' = length pl \<and> (\<forall>i < length pl. pl' ! i = pl ! i @ part_of owner i r)"
proof -
  have nil: "bm_wf ([] :: (nat, json list) btmap)" "\<And>i. bm_get ([] :: (nat, json list) btmap) i \<noteq> Some []" by (simp_all add: bm_wf_def bm_get_def)
  show "(\<exists>pl'. split_resource owner r pl = Inr pl') \<longleftrightarrow> all_owned owner [r]"
  proof (cases "is_managed r")
    case True
    with assms obtain base where base: "resource_base r = Inr base" by (auto simp: wf_block_def)
    have "(\<exists>pl'. split_resource owner r pl = Inr pl') \<longleftrightarrow> (\<exists>b'. fold_result (bucket_step owner base) (instances_of r) [] = Inr b')"
      using True base by (auto simp: split_resource_def lift_source_def bind_result_def split: sum.splits)
    also have "\<dots> \<longleftrightarrow> all_owned owner [r]"
      unfolding fold_buckets(1) [OF nil] using True base by (auto simp: all_owned_def block_instances_def)
    finally show ?thesis .
  qed (simp add: split_resource_def all_owned_def)
  assume run: "split_resource owner r pl = Inr pl'"
  show "length pl' = length pl \<and> (\<forall>i < length pl. pl' ! i = pl ! i @ part_of owner i r)"
  proof (cases "is_managed r")
    case True
    with assms obtain base where base: "resource_base r = Inr base" by (auto simp: wf_block_def)
    then obtain b where b: "fold_result (bucket_step owner base) (instances_of r) [] = Inr b" "pl' = fold (push_block r) b pl"
      using run True by (auto simp: split_resource_def lift_source_def bind_result_def split: sum.splits)
    note facts = fold_buckets(2) [OF nil b(1)]
    then have "(case map_of b i of Some xs \<Rightarrow> [with_instances r xs] | None \<Rightarrow> []) = part_of owner i r" for i
      using True base
      by (auto simp: part_of_def in_bucket_def bm_get_def split: option.splits) (metis option.inject option.simps(3))+
    with b facts show ?thesis by (simp add: fold_push_block bm_wf_distinct)
  next
    case False
    then show ?thesis using run by (auto simp: split_resource_def part_of_def split: sum.splits)
  qed
qed

lemma all_owned_Cons: "all_owned owner (r # rs) \<longleftrightarrow> all_owned owner [r] \<and> all_owned owner rs"
  by (cases "is_managed r") (simp_all add: all_owned_def ball_Un image_Un)

lemma split_resources:
  assumes "list_all wf_block rs"
  shows "(\<exists>pl'. fold_result (split_resource owner) rs pl = Inr pl') \<longleftrightarrow> all_owned owner rs"
    and "fold_result (split_resource owner) rs pl = Inr pl' \<Longrightarrow>
      length pl' = length pl \<and> (\<forall>i < length pl. pl' ! i = pl ! i @ concat (map (part_of owner i) rs))"
proof -
  have "((\<exists>pl'. fold_result (split_resource owner) rs pl = Inr pl') \<longleftrightarrow> all_owned owner rs)
    \<and> (\<forall>pl'. fold_result (split_resource owner) rs pl = Inr pl' \<longrightarrow>
        length pl' = length pl \<and> (\<forall>i < length pl. pl' ! i = pl ! i @ concat (map (part_of owner i) rs)))"
    using assms
  proof (induction rs arbitrary: pl)
    case Nil
    then show ?case by (simp add: all_owned_def)
  next
    case (Cons r rs)
    then have wf: "wf_block r" "list_all wf_block rs" by simp_all
    show ?case
    proof (cases "split_resource owner r pl")
      case (Inl e)
      then have "\<not> all_owned owner [r]" using split_resource_step(1) [OF wf(1), of owner pl] by auto
      with Inl show ?thesis by (simp add: all_owned_Cons [of owner r rs])
    next
      case (Inr pl1)
      then have "all_owned owner [r]" using split_resource_step(1) [OF wf(1), of owner pl] by auto
      moreover note split_resource_step(2) [OF wf(1) Inr] Cons.IH [OF wf(2), of pl1]
      ultimately show ?thesis using Inr by (auto simp: all_owned_Cons [of owner r rs])
    qed
  qed
  then show "(\<exists>pl'. fold_result (split_resource owner) rs pl = Inr pl') \<longleftrightarrow> all_owned owner rs"
    and "fold_result (split_resource owner) rs pl = Inr pl' \<Longrightarrow>
      length pl' = length pl \<and> (\<forall>i < length pl. pl' ! i = pl ! i @ concat (map (part_of owner i) rs))" by blast+
qed

lemma part_instances:
  assumes "wf_block r"
  shows "managed_instances (part_of owner i r) = filter (\<lambda>(a, _). bm_get owner a = Some i) (managed_instances [r])"
    and "list_all wf_block (part_of owner i r)"
proof -
  show "list_all wf_block (part_of owner i r)"
    using assms by (auto simp: part_of_def wf_block_def with_instances_simps split: sum.splits)
  show "managed_instances (part_of owner i r) = filter (\<lambda>(a, _). bm_get owner a = Some i) (managed_instances [r])"
  proof (cases "is_managed r")
    case True
    with assms obtain base where base: "resource_base r = Inr base" by (auto simp: wf_block_def)
    with True show ?thesis
      by (simp add: part_of_def block_instances_def with_instances_simps owned_def filter_map comp_def)
  qed (simp add: part_of_def split: sum.split)
qed

lemma parts_instances:
  assumes "list_all wf_block rs"
  shows "managed_instances (concat (map (part_of owner i) rs)) = filter (\<lambda>(a, _). bm_get owner a = Some i) (managed_instances rs)"
    and "list_all wf_block (concat (map (part_of owner i) rs))"
  using assms part_instances [of _ owner i] by (induction rs) auto

section \<open>Writing the leaves\<close>

definition leaf_doc_of :: "(string \<Rightarrow> string) \<Rightarrow> json \<Rightarrow> state_move \<times> json list \<Rightarrow> json" where
  "leaf_doc_of H doc mr = leaf_document doc (lineage_for H (str_field doc ''lineage'') (sm_to_template (fst mr))) (snd mr)"

definition leaf_out :: "(string \<Rightarrow> string) \<Rightarrow> (json \<Rightarrow> string) \<Rightarrow> json \<Rightarrow> state_move \<times> json list \<Rightarrow> leaf_state" where
  "leaf_out H P doc mr = \<lparr>ls_template = sm_to_template (fst mr), ls_bytes = P (leaf_doc_of H doc mr)\<rparr>"

definition receipt_out :: "(string \<Rightarrow> string) \<Rightarrow> (json \<Rightarrow> string) \<Rightarrow> json \<Rightarrow> state_move \<times> json list \<Rightarrow> leaf_receipt" where
  "receipt_out H P doc mr =
     \<lparr>lr_template = sm_to_template (fst mr), lr_addresses = length (managed_instances (snd mr)), lr_content_hash = H (P (leaf_doc_of H doc mr))\<rparr>"

lemma leaf_resources: "get_array (leaf_doc_of H doc mr) ''resources'' = Some (snd mr)"
  by (simp add: leaf_doc_of_def leaf_document_def get_array_def)

lemma leaf_addresses: "list_all wf_block (snd mr) \<Longrightarrow> addresses_from_state (leaf_doc_of H doc mr) = Inr (map fst (managed_instances (snd mr)))"
  by (simp add: addresses_from_state_iff leaf_resources)

lemma fold_write_leaf:
  assumes "\<forall>mr \<in> set mrs. list_all wf_block (snd mr)"
  shows "fold_result (write_leaf H P doc) mrs (ls, rs, as)
    = Inr (ls @ map (leaf_out H P doc) mrs, rs @ map (receipt_out H P doc) mrs, as @ concat (map (\<lambda>mr. map fst (managed_instances (snd mr))) mrs))"
  using assms
proof (induction mrs arbitrary: ls rs as)
  case (Cons mr mrs)
  then have "addresses_from_state (leaf_doc_of H doc mr) = Inr (map fst (managed_instances (snd mr)))" by (simp add: leaf_addresses)
  then have "write_leaf H P doc mr (ls, rs, as)
    = Inr (ls @ [leaf_out H P doc mr], rs @ [receipt_out H P doc mr], as @ map fst (managed_instances (snd mr)))"
    by (simp add: write_leaf_def leaf_out_def receipt_out_def lift_source_def bind_result_def Let_def flip: leaf_doc_of_def)
  with Cons show ?case by simp
qed simp

lemma bijection_simps:
  "fst (bijection_check H xs ys) = multiset_hash H xs" "fst (snd (bijection_check H xs ys)) = multiset_hash H ys"
  "fst (snd (snd (bijection_check H xs ys))) = distinct ys"
  "snd (snd (snd (bijection_check H xs ys))) \<longleftrightarrow> distinct ys \<and> multiset_hash H xs = multiset_hash H ys"
proof -
  have "(length (bs_of_list ys) = length ys) = distinct ys" by (metis card_distinct distinct_card length_bs_of_list)
  then show "fst (snd (snd (bijection_check H xs ys))) = distinct ys"
    "snd (snd (snd (bijection_check H xs ys))) \<longleftrightarrow> distinct ys \<and> multiset_hash H xs = multiset_hash H ys"
    by (simp_all add: bijection_check_def Let_def)
qed (simp_all add: bijection_check_def Let_def)

lemma bijection_eq: "bijection_check H xs ys = (multiset_hash H xs, multiset_hash H ys, distinct ys, distinct ys \<and> multiset_hash H xs = multiset_hash H ys)"
  using bijection_simps [of H xs ys] by (simp add: prod_eq_iff)

section \<open>Owners\<close>

lemma owner_pairs:
  "map fst (concat (map (\<lambda>(i, m). map (\<lambda>a. (a, i)) (sm_addresses m)) (List.enumerate n moves))) = concat (map sm_addresses moves)"
  by (induction moves arbitrary: n) (simp_all add: comp_def)

lemma owner_iff:
  assumes "distinct (concat (map sm_addresses moves))"
  shows "bm_get (owner_of moves) a = Some i \<longleftrightarrow> i < length moves \<and> a \<in> set (sm_addresses (moves ! i))"
proof -
  let ?pairs = "concat (map (\<lambda>(i, m). map (\<lambda>a. (a, i)) (sm_addresses m)) (List.enumerate 0 moves))"
  have d: "distinct (map fst ?pairs)" using assms unfolding owner_pairs .
  then have "bm_get (owner_of moves) a = Some i \<longleftrightarrow> (a, i) \<in> set ?pairs"
    unfolding owner_of_def by (simp only: bm_get_of_list_distinct map_of_eq_Some_iff)
  also have "\<dots> \<longleftrightarrow> (\<exists>m. (i, m) \<in> set (List.enumerate 0 moves) \<and> a \<in> set (sm_addresses m))" by auto
  also have "\<dots> \<longleftrightarrow> i < length moves \<and> a \<in> set (sm_addresses (moves ! i))" by (auto simp: in_set_enumerate_eq)
  finally show ?thesis .
qed

lemma mset_by_owner:
  assumes "\<And>x. x \<in> set xs \<Longrightarrow> \<exists>i < n. f x = Some i"
  shows "mset (concat (map (\<lambda>i. filter (\<lambda>x. f x = Some i) xs) [0..<n])) = mset xs"
proof -
  have "mset (concat (map (\<lambda>i. filter (\<lambda>x. f x = Some i) xs) [0..<n])) = (\<Sum>i \<in> {0..<n}. mset (filter (\<lambda>x. f x = Some i) xs))"
    by (induction n) (simp_all add: ac_simps)
  also have "\<dots> = (\<Sum>i \<in> {0..<n}. sum_list (map (\<lambda>x. {#x#}) (filter (\<lambda>x. the (f x) = i) xs)))"
    using assms unfolding mset_as_sum by (intro sum.cong refl arg_cong [where f = mset] filter_cong) force+
  also have "\<dots> = sum_list (map (\<lambda>x. {#x#}) xs)"
    using assms by (intro sum_groups [where f = "\<lambda>x. the (f x)"]) force+
  finally show ?thesis by (simp add: mset_as_sum)
qed

section \<open>The split\<close>

lemma check_steps:
  "(\<exists>seen'. fold_result (check_step T) moves seen = Inr seen') \<longleftrightarrow>
     list_all (\<lambda>m. sm_from_template m = T) moves \<and> distinct (map sm_to_template moves) \<and> set (map sm_to_template moves) \<inter> set seen = {}"
  by (induction moves arbitrary: seen) (auto simp: check_step_def)

lemma check_moves_iff:
  "check_moves T moves = Inr () \<longleftrightarrow> moves \<noteq> [] \<and> list_all (\<lambda>m. sm_from_template m = T) moves \<and> distinct (map sm_to_template moves)"
  using check_steps [of T moves "[]"] by (auto simp: check_moves_def bind_result_def split: sum.splits)

text \<open>What a state has and what the moves make of it: the blocks of every leaf, in the order of the moves.\<close>

definition leaf_blocks :: "state_move list \<Rightarrow> json list \<Rightarrow> json list list" where
  "leaf_blocks moves rs = map (\<lambda>i. concat (map (part_of (owner_of moves) i) rs)) [0..<length moves]"

definition splittable :: "(string \<Rightarrow> string) \<Rightarrow> string \<Rightarrow> state_move list \<Rightarrow> json list \<Rightarrow> bool" where
  "splittable H T moves rs \<longleftrightarrow>
     moves \<noteq> [] \<and> list_all (\<lambda>m. sm_from_template m = T) moves \<and> distinct (map sm_to_template moves)
     \<and> list_all wf_block rs \<and> distinct (concat (map sm_addresses moves))
     \<and> multiset_hash H (map fst (managed_instances rs)) = multiset_hash H (concat (map sm_addresses moves))
     \<and> all_owned (owner_of moves) rs \<and> distinct (map fst (managed_instances rs))"

lemma blocks_written:
  assumes "list_all wf_block rs" "fold_result (split_resource (owner_of moves)) rs (replicate (length moves) []) = Inr pl"
  shows "pl = leaf_blocks moves rs"
  using split_resources(2) [OF assms] by (auto simp: leaf_blocks_def intro!: nth_equalityI)

lemma blocks_wf: "list_all wf_block rs \<Longrightarrow> \<forall>mr \<in> set (zip moves (leaf_blocks moves rs)). list_all wf_block (snd mr)"
  by (auto simp: leaf_blocks_def parts_instances dest!: set_zip_rightD)

lemma written_addresses:
  assumes "list_all wf_block rs"
  shows "concat (map (\<lambda>mr. map fst (managed_instances (snd mr))) (zip moves (leaf_blocks moves rs)))
    = concat (map (\<lambda>i. filter (\<lambda>a. bm_get (owner_of moves) a = Some i) (map fst (managed_instances rs))) [0..<length moves])"
proof -
  have "map (\<lambda>mr. map fst (managed_instances (snd mr))) (zip moves (leaf_blocks moves rs)) = map (\<lambda>b. map fst (managed_instances b)) (leaf_blocks moves rs)"
    by (simp add: leaf_blocks_def flip: map_map [of "\<lambda>b. map fst (managed_instances b)" snd, unfolded comp_def])
  then show ?thesis
    by (simp add: leaf_blocks_def parts_instances [OF assms] filter_map comp_def case_prod_unfold)
qed

lemma owned_below:
  assumes "distinct (concat (map sm_addresses moves))" "all_owned (owner_of moves) rs" "a \<in> set (map fst (managed_instances rs))"
  shows "\<exists>i < length moves. bm_get (owner_of moves) a = Some i"
  using assms(2,3) owner_iff [OF assms(1)] unfolding all_owned_def by (metis list.set_map not_None_eq)

lemma written_mset:
  assumes "distinct (concat (map sm_addresses moves))" "all_owned (owner_of moves) rs" "list_all wf_block rs"
  shows "mset (concat (map (\<lambda>mr. map fst (managed_instances (snd mr))) (zip moves (leaf_blocks moves rs)))) = mset (map fst (managed_instances rs))"
  unfolding written_addresses [OF assms(3)] using owned_below [OF assms(1,2)] by (rule mset_by_owner)

definition split_of :: "(string \<Rightarrow> string) \<Rightarrow> (json \<Rightarrow> string) \<Rightarrow> string \<Rightarrow> string \<Rightarrow> json \<Rightarrow> state_move list \<Rightarrow> json list \<Rightarrow> split_result" where
  "split_of H P T fat doc moves rs =
     (let mrs = zip moves (leaf_blocks moves rs);
          n = length (managed_instances rs);
          h = multiset_hash H (map fst (managed_instances rs))
      in \<lparr>sr_leaves = map (leaf_out H P doc) mrs,
          sr_receipt = \<lparr>rc_fat_template = T, rc_direction = Forward, rc_fat_lineage = str_field doc ''lineage'', rc_fat_serial = serial_of doc,
            rc_archive_hash = H fat, rc_count_before = n, rc_count_after = n, rc_hash_before = h, rc_hash_after = h, rc_disjoint = True,
            rc_leaves = map (receipt_out H P doc) mrs\<rparr>\<rparr>)"

lemma split_state_iff:
  "split_state H J P T fat moves = Inr sp \<longleftrightarrow>
     (\<exists>doc rs. J fat = Some doc \<and> get_array doc ''resources'' = Some rs \<and> splittable H T moves rs \<and> sp = split_of H P T fat doc moves rs)"
proof (cases "\<exists>doc rs. J fat = Some doc \<and> get_array doc ''resources'' = Some rs \<and> list_all wf_block rs
    \<and> check_moves T moves = Inr () \<and> distinct (concat (map sm_addresses moves))
    \<and> multiset_hash H (map fst (managed_instances rs)) = multiset_hash H (concat (map sm_addresses moves))")
  case False
  then show ?thesis
    by (auto simp: split_state_def bind_result_def parse_state_def lift_source_def bijection_eq addresses_from_state_iff check_moves_iff splittable_def
        Let_def split: sum.splits option.splits if_splits)
next
  case True
  then obtain doc rs where doc: "J fat = Some doc" "get_array doc ''resources'' = Some rs" "list_all wf_block rs" "check_moves T moves = Inr ()"
    "distinct (concat (map sm_addresses moves))"
    "multiset_hash H (map fst (managed_instances rs)) = multiset_hash H (concat (map sm_addresses moves))" by blast
  let ?run = "fold_result (split_resource (owner_of moves)) rs (replicate (length moves) [])"
  let ?after = "concat (map (\<lambda>mr. map fst (managed_instances (snd mr))) (zip moves (leaf_blocks moves rs)))"
  have addrs: "addresses_from_state doc = Inr (map fst (managed_instances rs))" using doc by (simp add: addresses_from_state_iff)
  have start: "split_state H J P T fat moves = bind_result ?run (\<lambda>per_leaf.
      bind_result (fold_result (write_leaf H P doc) (zip moves per_leaf) ([], [], [])) (\<lambda>(states, receipts, news).
        (let (hb, ha, disjoint, ok) = bijection_check H (map fst (managed_instances rs)) news
         in if \<not> ok then Inl (BijectionRefused (LeavesDiffer ha (length news) hb (length (map fst (managed_instances rs))) disjoint))
            else Inr \<lparr>sr_leaves = states,
              sr_receipt = \<lparr>rc_fat_template = T, rc_direction = Forward, rc_fat_lineage = str_field doc ''lineage'',
                rc_fat_serial = serial_of doc, rc_archive_hash = H fat, rc_count_before = length (map fst (managed_instances rs)),
                rc_count_after = length news, rc_hash_before = hb, rc_hash_after = ha, rc_disjoint = disjoint, rc_leaves = receipts\<rparr>\<rparr>)))"
    using doc addrs
    by (simp add: split_state_def bind_result_def parse_state_def lift_source_def bijection_eq resources_of_def Let_def)
  show ?thesis
  proof (cases ?run)
    case (Inl e)
    then have "\<not> all_owned (owner_of moves) rs" using split_resources(1) [OF doc(3), of "owner_of moves"] by (metis sum.distinct(1))
    with start Inl doc show ?thesis by (auto simp: bind_result_def splittable_def)
  next
    case (Inr pl)
    then have owned: "all_owned (owner_of moves) rs" using split_resources(1) [OF doc(3), of "owner_of moves"] by blast
    have pl: "pl = leaf_blocks moves rs" by (rule blocks_written [OF doc(3) Inr])
    note m = written_mset [OF doc(5) owned doc(3)]
    have "length ?after = length (managed_instances rs)" using arg_cong [OF m, of size] by simp
    moreover have "multiset_hash H ?after = multiset_hash H (map fst (managed_instances rs))"
      unfolding multiset_hash_def hash_preimage_cong [OF m] ..
    moreover have "distinct ?after \<longleftrightarrow> distinct (map fst (managed_instances rs))" by (rule mset_eq_imp_distinct_iff [OF m])
    moreover have "split_state H J P T fat moves = (let (hb, ha, disjoint, ok) = bijection_check H (map fst (managed_instances rs)) ?after
         in if \<not> ok then Inl (BijectionRefused (LeavesDiffer ha (length ?after) hb (length (map fst (managed_instances rs))) disjoint))
            else Inr \<lparr>sr_leaves = map (leaf_out H P doc) (zip moves (leaf_blocks moves rs)),
              sr_receipt = \<lparr>rc_fat_template = T, rc_direction = Forward, rc_fat_lineage = str_field doc ''lineage'',
                rc_fat_serial = serial_of doc, rc_archive_hash = H fat, rc_count_before = length (map fst (managed_instances rs)),
                rc_count_after = length ?after, rc_hash_before = hb, rc_hash_after = ha, rc_disjoint = disjoint,
                rc_leaves = map (receipt_out H P doc) (zip moves (leaf_blocks moves rs))\<rparr>\<rparr>)"
      unfolding start Inr pl by (simp add: bind_result_def fold_write_leaf [OF blocks_wf [OF doc(3)]])
    ultimately show ?thesis
      using doc owned by (auto simp: bijection_eq splittable_def check_moves_iff split_of_def Let_def)
  qed
qed


lemma split_templates:
  assumes "sp = split_of H P T fat doc moves rs"
  shows "map ls_template (sr_leaves sp) = map sm_to_template moves"
  by (rule nth_equalityI) (simp_all add: assms split_of_def leaf_out_def leaf_blocks_def Let_def)

text \<open>C15: When a split succeeds, it writes one leaf for every move, in the order of the moves and under
  distinct names; a leaf holds exactly the managed instances of the fat state whose addresses its move
  names, unchanged and in their order; and every managed address of the fat state is named by exactly
  one move. No instance is lost, copied or altered, whatever the hash function is.
\<close>

theorem split_moves_everything:
  assumes "split_state H J P T fat moves = Inr sp" and "J fat = Some doc" and "get_array doc ''resources'' = Some rs"
  shows "map ls_template (sr_leaves sp) = map sm_to_template moves \<and> distinct (map ls_template (sr_leaves sp))
    \<and> (\<forall>i < length moves. \<exists>leaf lrs. ls_bytes (sr_leaves sp ! i) = P leaf \<and> get_array leaf ''resources'' = Some lrs
         \<and> managed_instances lrs = filter (\<lambda>(a, _). a \<in> set (sm_addresses (moves ! i))) (managed_instances rs))
    \<and> distinct (map fst (managed_instances rs))
    \<and> (\<forall>a \<in> set (map fst (managed_instances rs)). \<exists>!i. i < length moves \<and> a \<in> set (sm_addresses (moves ! i)))"
proof -
  have sp: "splittable H T moves rs" "sp = split_of H P T fat doc moves rs" using assms by (auto simp: split_state_iff)
  then have d: "distinct (concat (map sm_addresses moves))" "list_all wf_block rs" "all_owned (owner_of moves) rs"
    by (simp_all add: splittable_def)
  have len: "length (leaf_blocks moves rs) = length moves" by (simp add: leaf_blocks_def)
  have templates: "map ls_template (sr_leaves sp) = map sm_to_template moves" by (rule split_templates [OF sp(2)])
  have "\<exists>leaf lrs. ls_bytes (sr_leaves sp ! i) = P leaf \<and> get_array leaf ''resources'' = Some lrs
         \<and> managed_instances lrs = filter (\<lambda>(a, _). a \<in> set (sm_addresses (moves ! i))) (managed_instances rs)" if "i < length moves" for i
  proof (intro exI conjI)
    show "ls_bytes (sr_leaves sp ! i) = P (leaf_doc_of H doc (moves ! i, leaf_blocks moves rs ! i))"
      using that by (simp add: sp(2) split_of_def leaf_out_def len Let_def)
    show "get_array (leaf_doc_of H doc (moves ! i, leaf_blocks moves rs ! i)) ''resources'' = Some (leaf_blocks moves rs ! i)"
      by (simp add: leaf_resources)
    show "managed_instances (leaf_blocks moves rs ! i) = filter (\<lambda>(a, _). a \<in> set (sm_addresses (moves ! i))) (managed_instances rs)"
      using that by (simp add: leaf_blocks_def parts_instances [OF d(2)] owner_iff [OF d(1)])
  qed
  moreover have "\<exists>!i. i < length moves \<and> a \<in> set (sm_addresses (moves ! i))" if "a \<in> set (map fst (managed_instances rs))" for a
    using owned_below [OF d(1,3) that] unfolding owner_iff [OF d(1), symmetric] by auto
  moreover have "distinct (map ls_template (sr_leaves sp))" "distinct (map fst (managed_instances rs))"
    unfolding templates using sp(1) by (simp_all add: splittable_def)
  ultimately show ?thesis using templates by blast
qed

section \<open>Entries of ordered maps\<close>

definition entries :: "('k \<times> 'v list) list \<Rightarrow> ('k \<times> 'v) multiset" where
  "entries m = mset (concat (map (\<lambda>(k, xs). map (Pair k) xs) m))"

lemma entries_simps [simp]:
  "entries [] = {#}" "entries ((k, xs) # m) = mset (map (Pair k) xs) + entries m" "entries (m @ m') = entries m + entries m'"
  by (simp_all add: entries_def)

lemma entries_insert: "bm_wf m \<Longrightarrow> entries (bm_insert k xs m) = mset (map (Pair k) xs) + entries (bm_remove k m)"
proof (induction m)
  case (Cons e m)
  obtain k' ys where e: "e = (k', ys)" by (cases e)
  with Cons.prems have "bm_wf m" "\<forall>x \<in> set (bm_keys m). k' < x" by (simp_all add: bm_wf_Cons)
  moreover from this have "k \<le> k' \<Longrightarrow> bm_remove k m = m" by (auto simp: bm_remove_def filter_id_conv)
  ultimately show ?case using Cons.IH by (auto simp: e bm_remove_def)
qed (simp add: bm_remove_def)

lemma entries_remove: "bm_wf m \<Longrightarrow> entries m = mset (map (Pair k) (case bm_get m k of Some xs \<Rightarrow> xs | None \<Rightarrow> [])) + entries (bm_remove k m)"
proof (induction m)
  case (Cons e m)
  obtain k' ys where e: "e = (k', ys)" by (cases e)
  with Cons.prems have "bm_wf m" "\<forall>x \<in> set (bm_keys m). k' < x" by (simp_all add: bm_wf_Cons)
  moreover from this have "k = k' \<Longrightarrow> bm_remove k m = m" by (auto simp: bm_remove_def filter_id_conv)
  ultimately show ?case using Cons.IH by (auto simp: e bm_remove_def bm_get_def)
qed (simp add: bm_remove_def)

lemma entries_push: "bm_wf m \<Longrightarrow> entries (bm_entry k [] (\<lambda>xs. xs @ ys) m) = entries m + mset (map (Pair k) ys)"
  using entries_remove [of m k] by (simp add: bm_entry_def entries_insert split: option.splits)

section \<open>Moves that cover a state\<close>

definition place_step :: "(string \<Rightarrow> string option) \<Rightarrow> string \<Rightarrow> (string, string list) btmap \<Rightarrow> (string, string list) btmap" where
  "place_step place a m = (case place a of Some l \<Rightarrow> bm_entry l [] (\<lambda>xs. xs @ [a]) m | None \<Rightarrow> m)"

lemma fold_place:
  assumes "bm_wf m" "\<forall>a \<in> set as. place a \<noteq> None"
  shows "bm_wf (fold (place_step place) as m) \<and> image_mset snd (entries (fold (place_step place) as m)) = image_mset snd (entries m) + mset as"
  using assms
proof (induction as arbitrary: m)
  case (Cons a as)
  then obtain l where l: "place a = Some l" by auto
  have "bm_wf (place_step place a m)" "image_mset snd (entries (place_step place a m)) = image_mset snd (entries m) + {#a#}"
    using Cons.prems(1) by (simp_all add: place_step_def l bm_wf_entry entries_push)
  with Cons show ?case by simp
qed simp

lemma snd_entries: "image_mset snd (entries m) = mset (concat (map snd m))"
  by (induction m) (auto simp: entries_def comp_def image_mset.compositionality)

lemma claimed_moves:
  assumes "moves_by_claims J T ns fat claims = Inr moves" "J fat = Some doc" "get_array doc ''resources'' = Some rs"
  shows "list_all (\<lambda>m. sm_from_template m = T) moves" "distinct (map sm_to_template moves)" "list_all wf_block rs"
    "mset (concat (map sm_addresses moves)) = mset (map fst (managed_instances rs))"
proof -
  let ?as = "map fst (managed_instances rs)"
  let ?move = "\<lambda>(leaf, as). \<lparr>sm_from_template = T, sm_to_template = leaf, sm_pangea_namespace = ns, sm_addresses = as\<rparr>"
  obtain place where r: "list_all wf_block rs" "\<forall>a \<in> set ?as. place a \<noteq> None" "moves = map ?move (fold (place_step place) ?as [])"
    using assms unfolding moves_by_claims_def place_step_def
    by (auto simp: bind_result_def managed_addresses_def parse_state_def lift_source_def addresses_from_state_iff filter_empty_conv Let_def
        split: sum.splits if_splits option.splits)
  note f = fold_place [OF bm_wf_Nil r(2)]
  show "list_all wf_block rs" by (rule r)
  show "list_all (\<lambda>m. sm_from_template m = T) moves" unfolding r(3) by (auto simp: list_all_iff)
  have "map sm_to_template moves = bm_keys (fold (place_step place) ?as [])" unfolding r(3) by (auto intro: map_cong)
  with f show "distinct (map sm_to_template moves)" by (simp add: bm_wf_distinct)
  have "map sm_addresses moves = map snd (fold (place_step place) ?as [])" unfolding r(3) by (auto intro: map_cong)
  with f show "mset (concat (map sm_addresses moves)) = mset ?as" by (simp add: snd_entries)
qed

lemma covering_splittable:
  assumes "list_all (\<lambda>m. sm_from_template m = T) moves" "distinct (map sm_to_template moves)" "list_all wf_block rs"
    and cover: "mset (concat (map sm_addresses moves)) = mset (map fst (managed_instances rs))"
    and "distinct (map fst (managed_instances rs))" "moves \<noteq> []"
  shows "splittable H T moves rs"
proof -
  have d: "distinct (concat (map sm_addresses moves))" using assms(5) mset_eq_imp_distinct_iff [OF cover] by simp
  have eq: "set (concat (map sm_addresses moves)) = set (map fst (managed_instances rs))" using cover by (rule mset_eq_setD)
  have "bm_get (owner_of moves) a \<noteq> None" if "a \<in> fst ` set (managed_instances rs)" for a
  proof -
    from that eq obtain m where "m \<in> set moves" "a \<in> set (sm_addresses m)" by auto
    then obtain i where "i < length moves" "a \<in> set (sm_addresses (moves ! i))" by (metis in_set_conv_nth)
    then have "bm_get (owner_of moves) a = Some i" by (simp add: owner_iff [OF d])
    then show ?thesis by simp
  qed
  then have "all_owned (owner_of moves) rs" unfolding all_owned_def by blast
  then show ?thesis
    using assms(1-3,5,6) d unfolding splittable_def multiset_hash_def hash_preimage_cong [OF cover] by blast
qed

lemma claimed_splittable:
  assumes "moves_by_claims J T ns fat claims = Inr moves" "J fat = Some doc" "get_array doc ''resources'' = Some rs"
    and "distinct (map fst (managed_instances rs))" "managed_instances rs \<noteq> []"
  shows "splittable H T moves rs"
proof -
  note c = claimed_moves [OF assms(1-3)]
  then have "moves \<noteq> []" using assms(5) by auto
  with c assms(4) show ?thesis by (intro covering_splittable)
qed

lemma split_leaves_by_name:
  assumes "distinct (map sm_to_template moves)" "mr \<in> set (zip moves bs)"
  shows "bm_get (bm_of_list (map (\<lambda>l. (ls_template l, l)) (map (leaf_out H P doc) (zip moves bs)))) (sm_to_template (fst mr)) = Some (leaf_out H P doc mr)"
proof -
  let ?ps = "map (\<lambda>l. (ls_template l, l)) (map (leaf_out H P doc) (zip moves bs))"
  have "map fst ?ps = map sm_to_template (map fst (zip moves bs))" by (simp add: leaf_out_def comp_def)
  also have "\<dots> = take (min (length moves) (length bs)) (map sm_to_template moves)" unfolding map_fst_zip_take take_map ..
  finally have "distinct (map fst ?ps)" using assms(1) distinct_take by metis
  moreover have "(sm_to_template (fst mr), leaf_out H P doc mr) \<in> set ?ps" using assms(2) by (force simp: leaf_out_def)
  ultimately show ?thesis by (simp only: bm_get_of_list_distinct map_of_eq_Some_iff)
qed

lemma read_back:
  assumes "\<And>x. x \<in> set xs \<Longrightarrow> managed_addresses J (ls_bytes (g x)) = Inr (f x)"
  shows "fold_result (\<lambda>l out. bind_result (managed_addresses J (ls_bytes l)) (\<lambda>as. Inr (out @ as))) (map g xs) out = Inr (out @ concat (map f xs))"
  using assms by (induction xs arbitrary: out) auto

lemma merge_untouched:
  assumes "\<forall>r \<in> set (rc_leaves rc). \<exists>l. bm_get (bm_of_list (map (\<lambda>l. (ls_template l, l)) ls)) (lr_template r) = Some l
    \<and> H (ls_bytes l) = lr_content_hash r" and "H archive = rc_archive_hash rc"
  shows "merge_states H J P archive rc ls = Inr archive"
proof -
  have "List.find (\<lambda>r. bm_get (bm_of_list (map (\<lambda>l. (ls_template l, l)) ls)) (lr_template r) = None) (rc_leaves rc) = None"
    using assms(1) by (auto simp: find_None_iff)
  moreover have "list_all (\<lambda>r. map_option (H \<circ> ls_bytes) (bm_get (bm_of_list (map (\<lambda>l. (ls_template l, l)) ls)) (lr_template r)) = Some (lr_content_hash r))
    (rc_leaves rc)" using assms(1) by (auto simp: list_all_iff)
  ultimately show ?thesis using assms(2) by (simp add: merge_states_def Let_def)
qed

lemma split_merges_back:
  assumes "splittable H T moves rs" and sp_def: "sp = split_of H P T fat doc moves rs"
  shows "merge_states H J P fat (sr_receipt sp) (sr_leaves sp) = Inr fat"
proof -
  have "distinct (map sm_to_template moves)" using assms(1) by (simp add: splittable_def)
  note by_name = split_leaves_by_name [OF this, of _ "leaf_blocks moves rs" H P doc]
  have sp: "sr_leaves sp = map (leaf_out H P doc) (zip moves (leaf_blocks moves rs))"
    "rc_leaves (sr_receipt sp) = map (receipt_out H P doc) (zip moves (leaf_blocks moves rs))" "rc_archive_hash (sr_receipt sp) = H fat"
    by (simp_all add: sp_def split_of_def Let_def)
  show ?thesis
    using by_name by (intro merge_untouched) (force simp: sp receipt_out_def leaf_out_def)+
qed

text \<open>C16: A state whose managed addresses are distinct and all claimed migrates: the moves drawn from the
  claims split it, the reverse merge of the untouched leaves gives back the archived bytes, and
  reading the leaves back verifies whenever the parser returns what the printer wrote.
\<close>

theorem claimed_state_migrates:
  assumes "moves_by_claims J T ns fat claims = Inr moves" and "managed_addresses J fat = Inr as" and "distinct as" and "as \<noteq> []"
  shows "\<exists>sp. split_state H J P T fat moves = Inr sp
    \<and> merge_states H J P fat (sr_receipt sp) (sr_leaves sp) = Inr fat
    \<and> ((\<forall>v. P v \<in> ls_bytes ` set (sr_leaves sp) \<longrightarrow> J (P v) = Some v) \<longrightarrow> verify_written H J (sr_receipt sp) (sr_leaves sp) = Inr ())"
proof -
  obtain doc rs where doc: "J fat = Some doc" "get_array doc ''resources'' = Some rs" "list_all wf_block rs" "as = map fst (managed_instances rs)"
    using assms(2) by (auto simp: managed_addresses_def parse_state_def lift_source_def addresses_from_state_iff bind_result_def split: option.splits sum.splits)
  have ok: "splittable H T moves rs"
    using assms(3,4) unfolding doc(4) by (intro claimed_splittable [OF assms(1) doc(1,2)]) simp_all
  let ?mrs = "zip moves (leaf_blocks moves rs)"
  let ?sp = "split_of H P T fat doc moves rs"
  have sp: "sr_leaves ?sp = map (leaf_out H P doc) ?mrs" "rc_hash_before (sr_receipt ?sp) = multiset_hash H as" "rc_count_before (sr_receipt ?sp) = length as"
    by (simp_all add: split_of_def Let_def doc(4))
  have d: "distinct (concat (map sm_addresses moves))" "all_owned (owner_of moves) rs" using ok by (simp_all add: splittable_def)
  have "merge_states H J P fat (sr_receipt ?sp) (sr_leaves ?sp) = Inr fat" by (rule split_merges_back [OF ok refl])
  moreover have "verify_written H J (sr_receipt ?sp) (sr_leaves ?sp) = Inr ()" if rt: "\<forall>v. P v \<in> ls_bytes ` set (sr_leaves ?sp) \<longrightarrow> J (P v) = Some v"
  proof -
    have "managed_addresses J (ls_bytes (leaf_out H P doc mr)) = Inr (map fst (managed_instances (snd mr)))" if "mr \<in> set ?mrs" for mr
    proof -
      have "P (leaf_doc_of H doc mr) \<in> ls_bytes ` set (sr_leaves ?sp)" using that by (force simp: sp leaf_out_def)
      with rt have "J (P (leaf_doc_of H doc mr)) = Some (leaf_doc_of H doc mr)" by blast
      with that blocks_wf [OF doc(3), of moves] show ?thesis
        by (simp add: leaf_out_def managed_addresses_def parse_state_def lift_source_def leaf_addresses)
    qed
    then have "fold_result (\<lambda>l out. bind_result (managed_addresses J (ls_bytes l)) (\<lambda>as. Inr (out @ as))) (map (leaf_out H P doc) ?mrs) []
      = Inr (concat (map (\<lambda>mr. map fst (managed_instances (snd mr))) ?mrs))" by (simp add: read_back)
    moreover note m = written_mset [OF d doc(3)]
    moreover have "distinct (concat (map (\<lambda>mr. map fst (managed_instances (snd mr))) ?mrs))"
      using assms(3) unfolding doc(4) mset_eq_imp_distinct_iff [OF m] .
    moreover have "length (concat (map (\<lambda>mr. map fst (managed_instances (snd mr))) ?mrs)) = length as"
      using arg_cong [OF m, of size] by (simp add: doc(4))
    ultimately show ?thesis
      by (simp add: verify_written_def sp bijection_eq multiset_hash_def hash_preimage_cong [OF m] doc(4))
  qed
  moreover have "split_state H J P T fat moves = Inr ?sp" using doc ok by (auto simp: split_state_iff)
  ultimately show ?thesis by blast
qed


section \<open>Merging changed leaves\<close>

text \<open>The managed instances of a state under the identity of their blocks.\<close>

definition block_entries :: "json list \<Rightarrow> (block_id \<times> json) multiset" where
  "block_entries rs = entries (map (\<lambda>r. (block_id_of r, instances_of r)) rs)"

definition in_managed :: "block_id \<times> json \<Rightarrow> bool" where
  "in_managed e \<longleftrightarrow> fst (snd (fst e)) = ''managed''"

definition held :: "json list \<Rightarrow> (block_id \<times> json) multiset" where
  "held rs = filter_mset in_managed (block_entries rs)"

lemma block_entries_simps [simp]:
  "block_entries [] = {#}" "block_entries (r # rs) = mset (map (Pair (block_id_of r)) (instances_of r)) + block_entries rs"
  "block_entries (rs @ rs') = block_entries rs + block_entries rs'"
  by (simp_all add: block_entries_def)

lemma block_id_managed: "fst (snd (block_id_of r)) = ''managed'' \<longleftrightarrow> is_managed r"
  by (auto simp: block_id_of_def str_field_def is_managed_def split: option.splits)

lemma collect_entries:
  assumes "bm_wf (fst s)"
  shows "bm_wf (fst (fold collect_block bs s)) \<and> entries (fst (fold collect_block bs s)) = entries (fst s) + block_entries bs
    \<and> ((\<forall>i. bm_get (fst s) i \<noteq> None \<longrightarrow> i \<in> set (snd s)) \<longrightarrow>
       (\<forall>i. bm_get (fst (fold collect_block bs s)) i \<noteq> None \<longrightarrow> i \<in> set (snd (fold collect_block bs s))))"
  using assms
proof (induction bs arbitrary: s)
  case (Cons b bs)
  let ?s = "collect_block b s"
  have "bm_wf (fst ?s)" "entries (fst ?s) = entries (fst s) + mset (map (Pair (block_id_of b)) (instances_of b))"
    using Cons.prems by (simp_all add: collect_block_def Let_def bm_wf_entry entries_push)
  moreover have "\<forall>i. bm_get (fst s) i \<noteq> None \<longrightarrow> i \<in> set (snd s) \<Longrightarrow> \<forall>i. bm_get (fst ?s) i \<noteq> None \<longrightarrow> i \<in> set (snd ?s)"
    by (auto simp: collect_block_def Let_def bm_get_entry simp del: split_paired_All split_paired_Ex)
  ultimately show ?case using Cons.IH [of ?s] by (simp add: ac_simps)
qed simp

lemma block_id_with_instances: "block_id_of (with_instances r xs) = block_id_of r"
  by (simp add: block_id_of_def str_field_def with_instances_def get_str_insert_field)

lemma block_id_new: "block_id_of (new_block i xs) = i" "instances_of (new_block i xs) = xs"
  by (cases i; simp add: new_block_def block_id_of_def str_field_def get_str_def instances_of_def get_array_def)+

lemma map_of_without: "k \<noteq> k' \<Longrightarrow> map_of (filter (\<lambda>(k, _). k \<noteq> k') kvs) k = map_of kvs k" "map_of (filter (\<lambda>(k, _). k \<noteq> k') kvs) k' = None"
  by (induction kvs) auto

lemma drop_null_keeps: "block_id_of (drop_null_module b) = block_id_of b" "instances_of (drop_null_module b) = instances_of b"
  by (cases b; simp add: drop_null_module_def block_id_of_def str_field_def get_str_def instances_of_def get_array_def map_of_without)+

lemma map_drop_null: "block_entries (map drop_null_module bs) = block_entries bs"
  by (simp add: block_entries_def comp_def drop_null_keeps)

lemma unmanaged_entries: "\<not> is_managed r \<Longrightarrow> filter_mset in_managed (image_mset (Pair (block_id_of r)) M) = {#}"
  by (induction M) (simp_all add: in_managed_def block_id_managed)

lemma rebuild_unmanaged: "mset (fst s) + mset (filter (\<lambda>r. \<not> is_managed r) rs) \<subseteq># mset (fst (fold rebuild_step rs s))"
proof (induction rs arbitrary: s)
  case (Cons r rs)
  have "mset (fst s) + mset (filter (\<lambda>r. \<not> is_managed r) [r]) \<subseteq># mset (fst (rebuild_step r s))"
    by (auto simp: rebuild_step_def split: option.split)
  then have "mset (fst s) + mset (filter (\<lambda>r. \<not> is_managed r) (r # rs))
    \<subseteq># mset (fst (rebuild_step r s)) + mset (filter (\<lambda>r. \<not> is_managed r) rs)" by (cases "is_managed r") simp_all
  also note Cons.IH [of "rebuild_step r s"]
  finally show ?case by simp
qed simp

lemma append_extends: "mset (fst s) \<subseteq># mset (fst (fold append_step ids s))"
proof (induction ids arbitrary: s)
  case (Cons i ids)
  have "mset (fst s) \<subseteq># mset (fst (append_step i s))" by (auto simp: append_step_def split: option.split)
  also note Cons.IH [of "append_step i s"]
  finally show ?case by simp
qed simp

lemma rebuild_entries:
  assumes "bm_wf m"
  shows "bm_wf (snd (fold rebuild_step rs (out, m)))
    \<and> held (fst (fold rebuild_step rs (out, m))) + filter_mset in_managed (entries (snd (fold rebuild_step rs (out, m))))
      = held out + filter_mset in_managed (entries m)
    \<and> (\<forall>i. bm_get (snd (fold rebuild_step rs (out, m))) i \<noteq> None \<longrightarrow> bm_get m i \<noteq> None)"
  using assms
proof (induction rs arbitrary: out m)
  case (Cons r rs)
  obtain out' m' where step: "rebuild_step r (out, m) = (out', m')" by fastforce
  have "bm_wf m'" "held out' + filter_mset in_managed (entries m') = held out + filter_mset in_managed (entries m)"
    "\<forall>i. bm_get m' i \<noteq> None \<longrightarrow> bm_get m i \<noteq> None"
  proof -
    show "bm_wf m'" using step Cons.prems by (auto simp: rebuild_step_def bm_wf_remove split: if_splits option.splits)
    show "\<forall>i. bm_get m' i \<noteq> None \<longrightarrow> bm_get m i \<noteq> None"
      using step by (auto simp: rebuild_step_def bm_get_remove split: if_splits option.splits)
    show "held out' + filter_mset in_managed (entries m') = held out + filter_mset in_managed (entries m)"
      using step entries_remove [OF Cons.prems, of "block_id_of r"]
      by (auto simp: rebuild_step_def held_def with_instances_simps block_id_with_instances in_managed_def block_id_managed
          unmanaged_entries split: if_splits option.splits)
  qed
  then show ?case using Cons.IH [of m' out'] step by simp
qed simp

lemma append_entries:
  assumes "bm_wf m"
  shows "bm_wf (snd (fold append_step ids (out, m)))
    \<and> block_entries (fst (fold append_step ids (out, m))) + entries (snd (fold append_step ids (out, m))) = block_entries out + entries m
    \<and> (\<forall>i. bm_get (snd (fold append_step ids (out, m))) i = (if i \<in> set ids then None else bm_get m i))"
  using assms
proof (induction ids arbitrary: out m)
  case (Cons i ids)
  obtain out' m' where step: "append_step i (out, m) = (out', m')" by fastforce
  have "bm_wf m'" "block_entries out' + entries m' = block_entries out + entries m" "\<forall>j. bm_get m' j = (if j = i then None else bm_get m j)"
    using step entries_remove [OF Cons.prems, of i] Cons.prems
    by (auto simp: append_step_def bm_wf_remove block_id_new bm_get_remove split: option.splits)
  then show ?case using Cons.IH [of m' out'] step by auto
qed simp

lemma collect_leaves:
  assumes "fold_result (collect_leaf J by_name) lrs (serial, expected, b) = Inr (serial', expected', b')"
  shows "\<exists>docs blocks. map (\<lambda>r. Option.bind (by_name (lr_template r)) (\<lambda>l. J (ls_bytes l))) lrs = map Some docs
    \<and> map (\<lambda>d. get_array d ''resources'') docs = map Some blocks
    \<and> serial' = fold (\<lambda>d n. max n (serial_of d)) docs serial \<and> b' = fold collect_block (concat blocks) b"
  using assms
proof (induction lrs arbitrary: serial expected b)
  case (Cons r lrs)
  obtain s1 where s1: "collect_leaf J by_name r (serial, expected, b) = Inr s1" "fold_result (collect_leaf J by_name) lrs s1 = Inr (serial', expected', b')"
    using Cons.prems by (auto simp: bind_result_def split: sum.splits)
  then obtain l ld blocks as where step: "by_name (lr_template r) = Some l" "J (ls_bytes l) = Some ld"
    "get_array ld ''resources'' = Some blocks"
    "s1 = (max serial (serial_of ld), expected @ as, fold collect_block blocks b)"
    by (auto simp: collect_leaf_def parse_state_def resources_of_def bind_result_def split: option.splits sum.splits)
  from Cons.IH [OF s1(2) [unfolded step(4)]] obtain docs bss where "map (\<lambda>r. Option.bind (by_name (lr_template r)) (\<lambda>l. J (ls_bytes l))) lrs = map Some docs"
    "map (\<lambda>d. get_array d ''resources'') docs = map Some bss" "serial' = fold (\<lambda>d n. max n (serial_of d)) docs (max serial (serial_of ld))"
    "b' = fold collect_block (concat bss) (fold collect_block blocks b)" by blast
  with step show ?case by (intro exI [of _ "ld # docs"] exI [of _ "blocks # bss"]) simp
qed simp

lemma rebuilt_entries:
  assumes "fold collect_block (concat blocks) ([], []) = (m, ids)"
  shows "held (map drop_null_module (fst (fold append_step ids (fold rebuild_step rs ([], m))))) = held (concat blocks)"
proof -
  have nil: "bm_wf (fst ([], []))" by simp
  have m: "bm_wf m" "entries m = block_entries (concat blocks)" "\<And>i. bm_get m i \<noteq> None \<Longrightarrow> i \<in> set ids"
    using collect_entries [OF nil, of "concat blocks"] unfolding assms
    by (simp_all add: bm_get_def del: split_paired_All split_paired_Ex)
  obtain out1 m1 where one: "fold rebuild_step rs ([], m) = (out1, m1)" by fastforce
  obtain out2 m2 where two: "fold append_step ids (out1, m1) = (out2, m2)" by fastforce
  note r = rebuild_entries [OF m(1), of rs "[]", unfolded one]
  then have "bm_wf m1" by simp
  note a = append_entries [OF this, of ids out1, unfolded two]
  have "bm_get m2 i = None" for i using a r m(3) [of i] by (metis (no_types, lifting) snd_conv)
  then have "m2 = []" unfolding bm_get_def by (metis list.exhaust map_of_Cons_code(2) option.distinct(1) prod.exhaust)
  then have "block_entries out2 = block_entries out1 + entries m1" using a by simp
  then show ?thesis using r m(2) unfolding one two fst_conv held_def map_drop_null by (simp add: held_def)
qed

lemma inserted_fields:
  assumes "as_object doc \<noteq> None"
  shows "get_array (insert_field ''serial'' v (insert_field ''resources'' (JArr rs) doc)) ''resources'' = Some rs"
    "serial_of (insert_field ''serial'' (JNum (PosInt n)) (insert_field ''resources'' v doc)) = n"
  using assms by (cases doc; simp add: get_array_def serial_of_def insert_field_def map_of_set_key)+

lemma merge_rebuilds:
  assumes "merge_states H J P archive rc ls = Inr out" "out \<noteq> archive" "J archive = Some doc" "get_array doc ''resources'' = Some rs"
  obtains serial expected m ids where
    "fold_result (collect_leaf J (bm_get (bm_of_list (map (\<lambda>l. (ls_template l, l)) ls)))) (rc_leaves rc) (serial_of doc, [], [], [])
       = Inr (serial, expected, m, ids)"
    "out = P (insert_field ''serial'' (JNum (PosInt (serial + 1)))
      (insert_field ''resources'' (JArr (map drop_null_module (fst (fold append_step ids (fold rebuild_step rs ([], m)))))) doc))"
proof -
  let ?by_name = "bm_get (bm_of_list (map (\<lambda>l. (ls_template l, l)) ls))"
  let ?run = "fold_result (collect_leaf J ?by_name) (rc_leaves rc) (serial_of doc, [], [], [])"
  have found: "List.find (\<lambda>r. ?by_name (lr_template r) = None) (rc_leaves rc) = None"
    using assms(1) unfolding merge_states_def Let_def by (cases "List.find (\<lambda>r. ?by_name (lr_template r) = None) (rc_leaves rc)") simp_all
  have slow: "\<not> (list_all (\<lambda>r. map_option (H \<circ> ls_bytes) (?by_name (lr_template r)) = Some (lr_content_hash r)) (rc_leaves rc)
    \<and> H archive = rc_archive_hash rc)"
  proof
    assume "list_all (\<lambda>r. map_option (H \<circ> ls_bytes) (?by_name (lr_template r)) = Some (lr_content_hash r)) (rc_leaves rc) \<and> H archive = rc_archive_hash rc"
    then show False using assms(1,2) unfolding merge_states_def Let_def found option.case by simp
  qed
  have merged: "bind_result ?run (\<lambda>(serial, expected, blocks, ids).
     (let d = insert_field ''serial'' (JNum (PosInt (serial + 1))) (insert_field ''resources''
        (JArr (map drop_null_module (fst (fold append_step ids (fold rebuild_step rs ([], blocks)))))) doc)
      in bind_result (lift_source (addresses_from_state d)) (\<lambda>merged.
         (let (hb, ha, disjoint, ok) = bijection_check H expected merged
          in if \<not> ok then Inl (BijectionRefused (MergedDiffers ha (length merged) hb (length expected) disjoint)) else Inr (P d))))) = Inr out"
    using assms(1) unfolding merge_states_def Let_def found option.case if_not_P [OF slow]
    by (simp add: parse_state_def resources_of_def assms(3,4))
  then obtain serial expected m ids where run: "?run = Inr (serial, expected, m, ids)" by (cases ?run) auto
  then show thesis
    using merged by (auto simp: bijection_eq bind_result_def Let_def split: sum.splits if_splits intro: that)
qed

lemma merge_value:
  assumes "J archive = Some doc" "get_array doc ''resources'' = Some rs"
    and "List.find (\<lambda>r. bm_get (bm_of_list (map (\<lambda>l. (ls_template l, l)) ls)) (lr_template r) = None) (rc_leaves rc) = None"
    and "\<not> list_all (\<lambda>r. map_option (H \<circ> ls_bytes) (bm_get (bm_of_list (map (\<lambda>l. (ls_template l, l)) ls)) (lr_template r)) = Some (lr_content_hash r))
      (rc_leaves rc)"
    and "fold_result (collect_leaf J (bm_get (bm_of_list (map (\<lambda>l. (ls_template l, l)) ls)))) (rc_leaves rc) (serial_of doc, [], [], [])
      = Inr (serial, expected, m, ids)"
    and "insert_field ''serial'' (JNum (PosInt (serial + 1))) (insert_field ''resources''
      (JArr (map drop_null_module (fst (fold append_step ids (fold rebuild_step rs ([], m)))))) doc) = merged"
    and "addresses_from_state merged = Inr expected" "distinct expected"
  shows "merge_states H J P archive rc ls = Inr (P merged)"
  unfolding merge_states_def Let_def assms(3) option.case
  using assms(4) by (simp add: parse_state_def resources_of_def assms(1,2,5-8) lift_source_def bijection_eq)

text \<open>C17: When a reverse merge rebuilds the fat state from leaves that have changed, the state it writes
  holds under every block identity exactly the managed instances the leaves hold, keeps the blocks of
  the archive that are not managed, and carries one more than the largest serial of the archive and
  the leaves.
\<close>

theorem merge_keeps_instances:
  assumes "merge_states H J P archive rc ls = Inr out" and "out \<noteq> archive" and "J archive = Some doc" and "get_array doc ''resources'' = Some rs"
  shows "\<exists>docs blocks merged mrs.
      map (\<lambda>r. Option.bind (bm_get (bm_of_list (map (\<lambda>l. (ls_template l, l)) ls)) (lr_template r)) (\<lambda>l. J (ls_bytes l))) (rc_leaves rc) = map Some docs
    \<and> map (\<lambda>d. get_array d ''resources'') docs = map Some blocks
    \<and> out = P merged \<and> get_array merged ''resources'' = Some mrs \<and> held mrs = held (concat blocks)
    \<and> mset (map drop_null_module (filter (\<lambda>r. \<not> is_managed r) rs)) \<subseteq># mset mrs
    \<and> serial_of merged = fold (\<lambda>d n. max n (serial_of d)) docs (serial_of doc) + 1"
proof -
  let ?by_name = "bm_get (bm_of_list (map (\<lambda>l. (ls_template l, l)) ls))"
  obtain serial expected m ids where run: "fold_result (collect_leaf J ?by_name) (rc_leaves rc) (serial_of doc, [], [], []) = Inr (serial, expected, m, ids)"
    and out: "out = P (insert_field ''serial'' (JNum (PosInt (serial + 1)))
      (insert_field ''resources'' (JArr (map drop_null_module (fst (fold append_step ids (fold rebuild_step rs ([], m)))))) doc))"
    by (rule merge_rebuilds [OF assms])
  let ?mrs = "map drop_null_module (fst (fold append_step ids (fold rebuild_step rs ([], m))))"
  let ?merged = "insert_field ''serial'' (JNum (PosInt (serial + 1))) (insert_field ''resources'' (JArr ?mrs) doc)"
  from collect_leaves [OF run] obtain docs blocks where docs:
    "map (\<lambda>r. Option.bind (?by_name (lr_template r)) (\<lambda>l. J (ls_bytes l))) (rc_leaves rc) = map Some docs"
    "map (\<lambda>d. get_array d ''resources'') docs = map Some blocks" "serial = fold (\<lambda>d n. max n (serial_of d)) docs (serial_of doc)"
    "(m, ids) = fold collect_block (concat blocks) ([], [])" by blast
  have obj: "as_object doc \<noteq> None" using assms(4) by (cases doc) (auto simp: get_array_def)
  then have fields: "get_array ?merged ''resources'' = Some ?mrs" "serial_of ?merged = serial + 1"
    by (simp_all add: inserted_fields)
  have "mset (filter (\<lambda>r. \<not> is_managed r) rs) \<subseteq># mset (fst (fold append_step ids (fold rebuild_step rs ([], m))))"
    using rebuild_unmanaged [of "([], m)" rs] by (auto intro: subset_mset.order_trans append_extends)
  then have "mset (map drop_null_module (filter (\<lambda>r. \<not> is_managed r) rs)) \<subseteq># mset ?mrs" by (simp add: image_mset_subseteq_mono)
  with docs fields rebuilt_entries [OF docs(4) [symmetric], of rs] show ?thesis
    by (intro exI [of _ docs] exI [of _ blocks] exI [of _ ?merged] exI [of _ ?mrs] conjI) (simp_all only: out)
qed

definition sample_instance :: "string \<Rightarrow> json" where
  "sample_instance k = JObj [(''index_key'', JStr k)]"

definition sample_block :: "json list \<Rightarrow> json" where
  "sample_block insts = JObj [(''mode'', JStr ''managed''), (''type'', JStr ''repo''), (''name'', JStr ''main''), (''instances'', JArr insts)]"

definition sample_fat :: json where
  "sample_fat = JObj [(''version'', JNum (PosInt 4)), (''serial'', JNum (PosInt 7)), (''lineage'', JStr ''l''),
     (''resources'', JArr [sample_block [sample_instance ''x'', sample_instance ''y''], JObj [(''mode'', JStr ''data'')]])]"

definition sample_claims :: "leaf_claim list" where
  "sample_claims = [\<lparr>lc_leaf = ''leaf-x'', lc_key = ''x'', lc_addresses = [''repo.main['' @ [CHR 0x22] @ ''x'' @ [CHR 0x22] @ '']'']\<rparr>,
     \<lparr>lc_leaf = ''leaf-y'', lc_key = ''y'', lc_addresses = []\<rparr>]"

definition sample_hash :: "string \<Rightarrow> string" where "sample_hash _ = ''0123456789abcdef0123456789abcdef''"

definition sample_lineage :: string where "sample_lineage = ''01234567-89ab-cdef-0123-456789abcdef''"

definition sample_leaf :: "string \<Rightarrow> json" where
  "sample_leaf k = JObj [(''version'', JNum (PosInt 4)), (''terraform_version'', JStr []), (''serial'', JNum (PosInt 1)), (''lineage'', JStr sample_lineage),
     (''outputs'', JObj []), (''resources'', JArr [sample_block [sample_instance k]])]"

definition sample_print :: "json \<Rightarrow> string" where
  "sample_print v = (if v = sample_leaf ''x'' then ''x'' else if v = sample_leaf ''y'' then ''y'' else ''other'')"

definition sample_parse :: "string \<Rightarrow> json option" where
  "sample_parse b = (if b = ''fat'' then Some sample_fat else if b = ''x'' then Some (sample_leaf ''x'') else if b = ''y'' then Some (sample_leaf ''y'') else None)"

definition sample_moves :: "state_move list" where
  "sample_moves = map (\<lambda>k. \<lparr>sm_from_template = ''fat'', sm_to_template = ''leaf-'' @ k, sm_pangea_namespace = None,
     sm_addresses = [''repo.main['' @ [CHR 0x22] @ k @ [CHR 0x22] @ '']'']\<rparr>) [''x'', ''y'']"

definition sample_resources :: "json list" where
  "sample_resources = [sample_block [sample_instance ''x'', sample_instance ''y''], JObj [(''mode'', JStr ''data'')]]"

definition sample_split :: split_result where
  "sample_split = split_of sample_hash sample_print ''fat'' ''fat'' sample_fat sample_moves sample_resources"

lemma sample_claimed: "moves_by_claims sample_parse ''fat'' None ''fat'' sample_claims = Inr sample_moves"
  by code_simp

lemma sample_managed: "managed_addresses sample_parse ''fat'' = Inr (concat (map sm_addresses sample_moves))"
  by code_simp

lemma sample_read: "sample_parse ''fat'' = Some sample_fat" "get_array sample_fat ''resources'' = Some sample_resources"
  by (simp_all add: sample_parse_def sample_fat_def sample_resources_def get_array_def)

lemma sample_splits: "split_state sample_hash sample_parse sample_print ''fat'' ''fat'' sample_moves = Inr sample_split"
proof -
  have "splittable sample_hash ''fat'' sample_moves sample_resources"
    by (rule claimed_splittable [OF sample_claimed sample_read]) code_simp+
  with sample_read show ?thesis unfolding split_state_iff sample_split_def by blast
qed

lemma sample_leaves: "map ls_bytes (sr_leaves sample_split) = [''x'', ''y'']"
proof -
  have "map (leaf_doc_of sample_hash sample_fat) (zip sample_moves (leaf_blocks sample_moves sample_resources)) = [sample_leaf ''x'', sample_leaf ''y'']"
    by code_simp
  then have "map sample_print (map (leaf_doc_of sample_hash sample_fat) (zip sample_moves (leaf_blocks sample_moves sample_resources)))
    = map sample_print [sample_leaf ''x'', sample_leaf ''y'']" by (simp only:)
  also have "\<dots> = [''x'', ''y'']" by (simp add: sample_print_def sample_leaf_def sample_block_def sample_instance_def)
  finally show ?thesis by (simp add: sample_split_def split_of_def leaf_out_def comp_def Let_def)
qed

theorem split_moves_everything_witness:
  "map ls_template (sr_leaves sample_split) = [''leaf-x'', ''leaf-y''] \<and> distinct (map fst (managed_instances sample_resources))
   \<and> (\<exists>leaf lrs. ls_bytes (sr_leaves sample_split ! 1) = sample_print leaf \<and> get_array leaf ''resources'' = Some lrs
        \<and> managed_instances lrs = [(''repo.main['' @ [CHR 0x22] @ ''y'' @ [CHR 0x22] @ '']'', sample_instance ''y'')])"
proof -
  note all = split_moves_everything [OF sample_splits sample_read]
  have "map sm_to_template sample_moves = [''leaf-x'', ''leaf-y'']" "1 < length sample_moves"
    "filter (\<lambda>(a, _). a \<in> set (sm_addresses (sample_moves ! 1))) (managed_instances sample_resources)
      = [(''repo.main['' @ [CHR 0x22] @ ''y'' @ [CHR 0x22] @ '']'', sample_instance ''y'')]" by code_simp+
  with all show ?thesis by metis
qed

theorem claimed_state_migrates_witness:
  "\<exists>sp. split_state sample_hash sample_parse sample_print ''fat'' ''fat'' sample_moves = Inr sp
    \<and> merge_states sample_hash sample_parse sample_print ''fat'' (sr_receipt sp) (sr_leaves sp) = Inr ''fat''
    \<and> verify_written sample_hash sample_parse (sr_receipt sp) (sr_leaves sp) = Inr ()"
proof -
  have d: "distinct (concat (map sm_addresses sample_moves))" "concat (map sm_addresses sample_moves) \<noteq> []" by code_simp+
  obtain sp where sp: "split_state sample_hash sample_parse sample_print ''fat'' ''fat'' sample_moves = Inr sp"
    "merge_states sample_hash sample_parse sample_print ''fat'' (sr_receipt sp) (sr_leaves sp) = Inr ''fat''"
    "(\<forall>v. sample_print v \<in> ls_bytes ` set (sr_leaves sp) \<longrightarrow> sample_parse (sample_print v) = Some v) \<longrightarrow>
      verify_written sample_hash sample_parse (sr_receipt sp) (sr_leaves sp) = Inr ()"
    using claimed_state_migrates [OF sample_claimed sample_managed d, of sample_hash sample_print] by blast
  then have "sp = sample_split" using sample_splits by simp
  then have "ls_bytes ` set (sr_leaves sp) = {''x'', ''y''}" using arg_cong [OF sample_leaves, of set] by simp
  then have "\<forall>v. sample_print v \<in> ls_bytes ` set (sr_leaves sp) \<longrightarrow> sample_parse (sample_print v) = Some v"
    by (auto simp: sample_print_def sample_parse_def split: if_splits)
  with sp show ?thesis by blast
qed

text \<open>The leaf of \<open>y\<close> as a later run left it: one more instance and a higher serial.\<close>

definition sample_grown :: json where
  "sample_grown = JObj [(''serial'', JNum (PosInt 9)), (''resources'', JArr [sample_block [sample_instance ''y'', sample_instance ''z'']])]"

definition grown_parse :: "string \<Rightarrow> json option" where
  "grown_parse b = (if b = ''grown'' then Some sample_grown else sample_parse b)"

definition grown_leaves :: "leaf_state list" where
  "grown_leaves = [\<lparr>ls_template = ''leaf-x'', ls_bytes = ''x''\<rparr>, \<lparr>ls_template = ''leaf-y'', ls_bytes = ''grown''\<rparr>]"

definition grown_rows :: "leaf_receipt list" where
  "grown_rows = [\<lparr>lr_template = ''leaf-x'', lr_addresses = 1, lr_content_hash = ''x at the split''\<rparr>,
     \<lparr>lr_template = ''leaf-y'', lr_addresses = 1, lr_content_hash = ''y at the split''\<rparr>]"

definition grown_receipt :: receipt where
  "grown_receipt = (sr_receipt sample_split)\<lparr>rc_leaves := grown_rows\<rparr>"

lemma grown_rows_kept: "rc_leaves grown_receipt = grown_rows"
  by (simp add: grown_receipt_def)

lemma grown_merge: "merge_states sample_hash grown_parse sample_print ''fat'' grown_receipt grown_leaves = Inr ''other''"
proof -
  let ?merged = "JObj [(''version'', JNum (PosInt 4)), (''serial'', JNum (PosInt 10)), (''lineage'', JStr ''l''),
     (''resources'', JArr [sample_block (map sample_instance [''x'', ''y'', ''z'']), JObj [(''mode'', JStr ''data'')]])]"
  let ?as = "map (\<lambda>k. ''repo.main['' @ [CHR 0x22] @ k @ [CHR 0x22] @ '']'') [''x'', ''y'', ''z'']"
  have "\<not> list_all (\<lambda>r. map_option (sample_hash \<circ> ls_bytes) (bm_get (bm_of_list (map (\<lambda>l. (ls_template l, l)) grown_leaves)) (lr_template r)) = Some (lr_content_hash r)) grown_rows"
    "List.find (\<lambda>r. bm_get (bm_of_list (map (\<lambda>l. (ls_template l, l)) grown_leaves)) (lr_template r) = None) grown_rows = None" by code_simp+
  moreover have "fold_result (collect_leaf grown_parse (bm_get (bm_of_list (map (\<lambda>l. (ls_template l, l)) grown_leaves)))) grown_rows (serial_of sample_fat, [], [], [])
    = Inr (9, ?as, [(([], ''managed'', ''repo'', ''main''), map sample_instance [''x'', ''y'', ''z''])], [([], ''managed'', ''repo'', ''main'')])" by code_simp
  moreover have "insert_field ''serial'' (JNum (PosInt (9 + 1))) (insert_field ''resources''
    (JArr (map drop_null_module (fst (fold append_step [([], ''managed'', ''repo'', ''main'')] (fold rebuild_step sample_resources
       ([], [(([], ''managed'', ''repo'', ''main''), map sample_instance [''x'', ''y'', ''z''])])))))) sample_fat) = ?merged" by code_simp
  moreover have "addresses_from_state ?merged = Inr ?as" "distinct ?as" "sample_print ?merged = ''other''" by code_simp+
  ultimately show ?thesis
    using merge_value [where J = grown_parse and archive = "''fat''" and doc = sample_fat and rs = sample_resources and rc = grown_receipt] sample_read
    unfolding grown_rows_kept by (simp add: grown_parse_def)
qed

lemma grown_docs:
  "map (\<lambda>r. Option.bind (bm_get (bm_of_list (map (\<lambda>l. (ls_template l, l)) grown_leaves)) (lr_template r)) (\<lambda>l. grown_parse (ls_bytes l)))
     (rc_leaves grown_receipt) = map Some [sample_leaf ''x'', sample_grown]"
  unfolding grown_rows_kept by code_simp

lemma grown_blocks:
  "map (\<lambda>d. get_array d ''resources'') [sample_leaf ''x'', sample_grown]
   = map Some [[sample_block [sample_instance ''x'']], [sample_block [sample_instance ''y'', sample_instance ''z'']]]"
  by code_simp

definition sample_id :: block_id where
  "sample_id = ([], ''managed'', ''repo'', ''main'')"

lemma sample_held: "held [sample_block insts] = image_mset (Pair sample_id) (mset insts)"
  by (simp add: held_def block_id_of_def sample_block_def str_field_def get_str_def instances_of_def get_array_def sample_id_def in_managed_def
      filter_mset_image_mset comp_def)

lemma held_append: "held (rs @ rs') = held rs + held rs'"
  by (simp add: held_def)

lemma grown_held:
  "held (concat [[sample_block [sample_instance ''x'']], [sample_block [sample_instance ''y'', sample_instance ''z'']]])
   = image_mset (Pair sample_id) {#sample_instance ''x'', sample_instance ''y'', sample_instance ''z''#}"
  by (simp only: concat.simps append_Nil2 held_append sample_held) simp

lemma grown_serial: "fold (\<lambda>d n. max n (serial_of d)) [sample_leaf ''x'', sample_grown] (serial_of sample_fat) + 1 = 10"
  by code_simp

theorem merge_keeps_instances_witness:
  "\<exists>merged mrs. ''other'' = sample_print merged \<and> get_array merged ''resources'' = Some mrs \<and> serial_of merged = 10
    \<and> held mrs = image_mset (Pair sample_id) {#sample_instance ''x'', sample_instance ''y'', sample_instance ''z''#}"
proof -
  have changed: "''other'' \<noteq> ''fat''" by simp
  have fat: "grown_parse ''fat'' = Some sample_fat" by (simp add: grown_parse_def sample_read)
  from merge_keeps_instances [OF grown_merge changed fat sample_read(2), unfolded grown_docs inj_map_eq_map [OF inj_Some]]
  obtain docs blocks merged mrs where m: "[sample_leaf ''x'', sample_grown] = docs"
    "map (\<lambda>d. get_array d ''resources'') docs = map Some blocks" "''other'' = sample_print merged" "get_array merged ''resources'' = Some mrs"
    "held mrs = held (concat blocks)" "serial_of merged = fold (\<lambda>d n. max n (serial_of d)) docs (serial_of sample_fat) + 1"
    by (elim exE conjE) (rule that)
  have "[[sample_block [sample_instance ''x'']], [sample_block [sample_instance ''y'', sample_instance ''z'']]] = blocks"
    using m(2) unfolding m(1) [symmetric] grown_blocks inj_map_eq_map [OF inj_Some] .
  with m grown_held grown_serial show ?thesis by (intro exI [of _ merged] exI [of _ mrs]) (simp only: simp_thms)
qed

end
