(* ===== verification/Leaf_Plan.thy ===== *)
theory Leaf_Plan
  imports Leaf_Names Leaf_Migrate
begin

text \<open>
  The plan that cuts a fat template into leaves (\<open>pangea-leaf/src/plan.rs\<close>): classification, partition,
  names, the graph of the leaves, the four checks and, for a plan that passes them, the moves of state
  and the manifests.

  A plan that needs a merge which does not return is \<open>None\<close> (the merge always returns). Indexing a
  map by a missing key panics in the source; \<open>name_of\<close> is empty there, and \<open>names_cover\<close> shows that no
  key is missing. The details of failed checks are structured. BLAKE3 is \<open>H\<close>, the graph library \<open>D\<close>.
\<close>

section \<open>Data\<close>

definition LEAF_KEY_VARIABLE :: string where
  "LEAF_KEY_VARIABLE = ''leaf_key''"

definition LEAF_OF_LABEL :: string where
  "LEAF_OF_LABEL = ''pangea.pleme.io/leaf-of''"

definition WORKSPACE_LABEL :: string where
  "WORKSPACE_LABEL = ''pangea.pleme.io/workspace''"

definition API_VERSION :: string where
  "API_VERSION = ''pangea.pleme.io/v1alpha1''"

datatype plan_error = PlanPartition partition_error | NoName | NoSpec

record planner_input =
  pi_template :: json
  pi_addresses :: "string list"
  pi_plan :: "plan_view option"
  pi_cycle_p95_ms :: "u64 option"
  pi_budget_ms :: "u64 option"
  pi_group_references :: bool
  pi_max_concurrent_leaves :: "u32 option"

datatype check_failure =
    BijectionFails bijection
  | CycleAmong "string list"
  | SharedName
  | PlanChanges nat nat nat
  | PlannedUnplaced nat string

datatype check_status = CheckPass | CheckFail check_failure | Unproven

record plan_check =
  ck_name :: string
  ck_status :: check_status

datatype plan_verdict = NotFat | NothingToSplit | PlanRefused | PlanReady

record projected =
  pr_add :: nat
  pr_change :: nat
  pr_destroy :: nat
  pr_no_op :: nat

record leaf_plan =
  lp_template :: string
  lp_key :: leaf_key_t
  lp_merged_from :: "leaf_key_t list"
  lp_addresses :: "string list"
  lp_upstreams :: "string list"

record migration_plan =
  mp_fat_template :: string
  mp_classification :: classification
  mp_verdict :: plan_verdict
  mp_checks :: "plan_check list"
  mp_bijection :: "bijection option"
  mp_projected :: "projected option"
  mp_leaf_count :: nat
  mp_partition_sizes :: "(nat, nat) btmap"
  mp_leaves :: "leaf_plan list"
  mp_state_moves :: "state_move list"
  mp_catalog :: "json option"
  mp_leaf_templates :: "json list"
  mp_fat_patch :: "json option"

section \<open>Manifests\<close>

definition string_at :: "json \<Rightarrow> string \<Rightarrow> string \<Rightarrow> string option" where
  "string_at v a b = Option.bind (jget v a) (\<lambda>w. get_str w b)"

definition remove_key :: "string \<Rightarrow> (string \<times> json) list \<Rightarrow> (string \<times> json) list" where
  "remove_key k kvs = filter (\<lambda>(k', _). k' \<noteq> k) kvs"

definition leaf_spec :: "json \<Rightarrow> leaf_plan \<Rightarrow> (string, json) btmap \<Rightarrow> (string \<times> json) list" where
  "leaf_spec fat leaf variable_refs =
     (let spec = (case Option.bind (jget fat ''spec'') as_object of Some s \<Rightarrow> s | None \<Rightarrow> []);
          spec = set_key ''variables'' (JObj [(LEAF_KEY_VARIABLE, JStr (key_raw (lp_key leaf)))]) spec;
          spec = set_key ''destroyProtection'' (JBool True) spec;
          spec = set_key ''suspend'' (JBool False) spec;
          spec = set_key ''importPolicy'' (JObj [(''autoOnConflict'', JBool True)]) spec;
          spec = remove_key ''approvedPlanHash'' (remove_key ''destroyAuthorization'' spec)
      in if variable_refs = [] then remove_key ''variableRefs'' spec else set_key ''variableRefs'' (JObj variable_refs) spec)"

definition leaf_manifest :: "json \<Rightarrow> string \<Rightarrow> leaf_plan \<Rightarrow> string \<Rightarrow> (string, json) btmap \<Rightarrow> json" where
  "leaf_manifest fat fat_name leaf catalog variable_refs =
     (let meta = [(''name'', JStr (lp_template leaf))]
            @ (case string_at fat ''metadata'' ''namespace'' of Some ns \<Rightarrow> [(''namespace'', JStr ns)] | None \<Rightarrow> [])
            @ [(''labels'', JObj [(WORKSPACE_LABEL, JStr catalog), (LEAF_OF_LABEL, JStr fat_name)])]
      in JObj [(''apiVersion'', JStr API_VERSION), (''kind'', JStr ''InfrastructureTemplate''), (''metadata'', JObj meta),
               (''spec'', JObj (leaf_spec fat leaf variable_refs))])"

definition catalog_manifest :: "string \<Rightarrow> json option \<Rightarrow> u32 option \<Rightarrow> json" where
  "catalog_manifest name variables m =
     JObj [(''apiVersion'', JStr API_VERSION), (''kind'', JStr ''WorkspaceCatalog''), (''metadata'', JObj [(''name'', JStr name)]),
       (''spec'', JObj ([(''source'', JObj [])]
          @ (case variables of Some v \<Rightarrow> [(''variables'', v)] | None \<Rightarrow> [])
          @ (case m of Some n \<Rightarrow> [(''maxConcurrentLeaves'', JNum (PosInt (ucast n)))] | None \<Rightarrow> [])))]"

section \<open>Edges between leaves\<close>

definition index_address :: "leaf_key_t \<Rightarrow> string \<Rightarrow> (string, leaf_key_t list) btmap \<Rightarrow> (string, leaf_key_t list) btmap" where
  "index_address k a m = (case strip_index a of Inr s \<Rightarrow> bm_entry s [] (bs_insert k) m | Inl _ \<Rightarrow> m)"

definition stripped_index :: "partition \<Rightarrow> (string, leaf_key_t list) btmap" where
  "stripped_index p = fold (\<lambda>l m. fold (index_address (lf_key l)) (lf_addresses l) m) (leaves p) []"

definition reference_leaf_edges :: "partition \<Rightarrow> plan_view \<Rightarrow> (leaf_key_t \<times> leaf_key_t) list" where
  "reference_leaf_edges p view =
     (let idx = stripped_index p in
      concat (map (\<lambda>(from, to).
        case (bm_get idx from, bm_get idx to) of
          (Some fs, Some ts) \<Rightarrow>
            concat (map (\<lambda>f. concat (map (\<lambda>t'. if f \<noteq> t' \<and> (length fs = 1 \<or> length ts = 1) then [(f, t')] else []) ts)) fs)
        | _ \<Rightarrow> []) (pv_references view)))"

definition singleton_edges :: "partition \<Rightarrow> plan_view option \<Rightarrow> (leaf_key_t \<times> leaf_key_t) list" where
  "singleton_edges p view_opt =
     (case view_opt of
        None \<Rightarrow> []
      | Some view \<Rightarrow>
          (let idx = stripped_index p in
           bs_of_list (concat (map (\<lambda>(from, to).
             case (bm_get idx from, bm_get idx to) of
               (Some fs, Some [t']) \<Rightarrow> concat (map (\<lambda>f. if f \<noteq> t' then [(f, t')] else []) fs)
             | _ \<Rightarrow> []) (pv_references view)))))"

definition name_of :: "(leaf_key_t, string) btmap \<Rightarrow> leaf_key_t \<Rightarrow> string" where
  "name_of names k = (case bm_get names k of Some n \<Rightarrow> n | None \<Rightarrow> [])"

definition variable_refs_for :: "leaf_plan \<Rightarrow> (leaf_key_t \<times> leaf_key_t) list \<Rightarrow> (leaf_key_t, string) btmap \<Rightarrow> (string, json) btmap" where
  "variable_refs_for leaf edges names =
     fold (\<lambda>(from, to) refs.
       if name_of names from \<noteq> lp_template leaf then refs
       else bm_insert (''upstream_'' @ replace_char CHR ''-'' ''_'' (name_of names to))
              (JObj [(''templateRef'', JObj [(''name'', JStr (name_of names to))]), (''outputKey'', JStr ''ready'')]) refs) edges []"

section \<open>The plan\<close>

definition project_change :: "string \<times> plan_action \<Rightarrow> projected \<Rightarrow> projected" where
  "project_change c p =
     (if is_data (fst c) \<or> snd c = Read then p
      else \<lparr>pr_add = pr_add p + (if adds (snd c) then 1 else 0), pr_change = pr_change p + (if changes (snd c) then 1 else 0),
            pr_destroy = pr_destroy p + (if destroys (snd c) then 1 else 0), pr_no_op = pr_no_op p + (if snd c = NoOp then 1 else 0)\<rparr>)"

definition project :: "plan_view \<Rightarrow> projected" where
  "project view = fold project_change (pv_changes view) \<lparr>pr_add = 0, pr_change = 0, pr_destroy = 0, pr_no_op = 0\<rparr>"

definition group_partition :: "planner_input \<Rightarrow> partition \<Rightarrow> partition option" where
  "group_partition inp p =
     (if pi_group_references inp
      then (case pi_plan inp of Some view \<Rightarrow> merge (reference_leaf_edges p view) p | None \<Rightarrow> Some p)
      else Some p)"

definition upstreams_of :: "(leaf_key_t \<times> leaf_key_t) list \<Rightarrow> (leaf_key_t, leaf_key_t list) btmap" where
  "upstreams_of edges = fold (\<lambda>(from, to). bm_entry from [] (bs_insert to)) edges []"

definition upstream_names :: "(leaf_key_t, string) btmap \<Rightarrow> (leaf_key_t, leaf_key_t list) btmap \<Rightarrow> leaf_key_t \<Rightarrow> string list" where
  "upstream_names names ups k = (case bm_get ups k of Some ks \<Rightarrow> map (name_of names) ks | None \<Rightarrow> [])"

definition leaf_dag :: "('d, 'j) dag_ops \<Rightarrow> (leaf_key_t, string) btmap \<Rightarrow> (leaf_key_t, leaf_key_t list) btmap \<Rightarrow> partition \<Rightarrow> 'd template_dag" where
  "leaf_dag D names ups p =
     fold (\<lambda>l. td_add D (name_of names (lf_key l)) (upstream_names names ups (lf_key l))) (leaves p) (td_new D)"

definition check_bijection :: "bijection \<Rightarrow> check_status" where
  "check_bijection b = (if bj_ok b then CheckPass else CheckFail (BijectionFails b))"

definition check_acyclic :: "('d, 'j) dag_ops \<Rightarrow> 'd template_dag \<Rightarrow> check_status" where
  "check_acyclic D dag = (case apply_order D dag of Inr _ \<Rightarrow> CheckPass | Inl (Cycle c) \<Rightarrow> CheckFail (CycleAmong c))"

definition check_names :: "(leaf_key_t, string) btmap \<Rightarrow> check_status" where
  "check_names names = (if distinct (bm_values names) then CheckPass else CheckFail SharedName)"

definition check_no_change :: "partition \<Rightarrow> plan_view option \<Rightarrow> check_status" where
  "check_no_change p view_opt =
     (case view_opt of
        None \<Rightarrow> Unproven
      | Some view \<Rightarrow>
          (let pr = project view;
               unplaced = filter (\<lambda>a. \<not> is_data a) (map fst (filter (\<lambda>(a, act). \<not> adds act \<and> leaf_of p a = None) (pv_changes view)))
           in if 0 < pr_add pr + pr_change pr + pr_destroy pr then CheckFail (PlanChanges (pr_add pr) (pr_change pr) (pr_destroy pr))
              else if unplaced \<noteq> [] then CheckFail (PlannedUnplaced (length unplaced) (hd unplaced))
              else CheckPass))"

definition check_fails :: "plan_check \<Rightarrow> bool" where
  "check_fails c \<longleftrightarrow> (case ck_status c of CheckFail _ \<Rightarrow> True | _ \<Rightarrow> False)"

definition partition_sizes :: "partition \<Rightarrow> (nat, nat) btmap" where
  "partition_sizes p = fold (\<lambda>l. bm_entry (length (lf_addresses l)) 0 (\<lambda>n. n + 1)) (leaves p) []"

definition empty_plan :: "string \<Rightarrow> classification \<Rightarrow> plan_verdict \<Rightarrow> migration_plan" where
  "empty_plan fat_name cls v =
     \<lparr>mp_fat_template = fat_name, mp_classification = cls, mp_verdict = v, mp_checks = [], mp_bijection = None, mp_projected = None,
      mp_leaf_count = 0, mp_partition_sizes = [], mp_leaves = [], mp_state_moves = [], mp_catalog = None, mp_leaf_templates = [],
      mp_fat_patch = None\<rparr>"

definition leaf_plan_of :: "(leaf_key_t, string) btmap \<Rightarrow> (leaf_key_t, leaf_key_t list) btmap \<Rightarrow> leaf \<Rightarrow> leaf_plan" where
  "leaf_plan_of names ups l =
     \<lparr>lp_template = name_of names (lf_key l), lp_key = lf_key l, lp_merged_from = lf_merged_from l, lp_addresses = lf_addresses l,
      lp_upstreams = upstream_names names ups (lf_key l)\<rparr>"

definition state_move_of :: "string \<Rightarrow> string option \<Rightarrow> leaf_plan \<Rightarrow> state_move" where
  "state_move_of fat_name ns l =
     \<lparr>sm_from_template = fat_name, sm_to_template = lp_template l, sm_pangea_namespace = ns, sm_addresses = lp_addresses l\<rparr>"

definition checks_of ::
    "(string \<Rightarrow> string) \<Rightarrow> ('d, 'j) dag_ops \<Rightarrow> planner_input \<Rightarrow> partition \<Rightarrow> (leaf_key_t, string) btmap
     \<Rightarrow> (leaf_key_t, leaf_key_t list) btmap \<Rightarrow> plan_check list" where
  "checks_of H D inp p names ups =
     [\<lparr>ck_name = ''bijection'', ck_status = check_bijection (bijection_of H p (pi_addresses inp))\<rparr>,
      \<lparr>ck_name = ''acyclic'', ck_status = check_acyclic D (leaf_dag D names ups p)\<rparr>,
      \<lparr>ck_name = ''unique-names'', ck_status = check_names names\<rparr>,
      \<lparr>ck_name = ''no-change'', ck_status = check_no_change p (pi_plan inp)\<rparr>]"

definition plan_partition ::
    "(string \<Rightarrow> string) \<Rightarrow> ('d, 'j) dag_ops \<Rightarrow> planner_input \<Rightarrow> string \<Rightarrow> (string \<times> json) list \<Rightarrow> classification \<Rightarrow> partition \<Rightarrow> migration_plan" where
  "plan_partition H D inp fat_name fat_spec cls p =
     (if partition_len p \<le> 1 then (empty_plan fat_name cls NothingToSplit)\<lparr>mp_leaf_count := partition_len p\<rparr>
      else
        (let names = leaf_names H fat_name (map lf_key (leaves p));
             edges = singleton_edges p (pi_plan inp);
             ups = upstreams_of edges;
             checks = checks_of H D inp p names ups;
             v = (if list_ex check_fails checks then PlanRefused else PlanReady);
             leaf_plans = map (leaf_plan_of names ups) (leaves p);
             plan = (empty_plan fat_name cls v)\<lparr>mp_checks := checks, mp_bijection := Some (bijection_of H p (pi_addresses inp)),
               mp_projected := map_option project (pi_plan inp), mp_leaf_count := length leaf_plans,
               mp_partition_sizes := partition_sizes p, mp_leaves := leaf_plans\<rparr>
         in if v = PlanReady
            then plan\<lparr>mp_state_moves := map (state_move_of fat_name (Option.bind (map_of fat_spec ''pangeaNamespace'') as_str)) leaf_plans,
              mp_catalog := Some (catalog_manifest fat_name (map_of fat_spec ''variables'') (pi_max_concurrent_leaves inp)),
              mp_leaf_templates := map (\<lambda>l. leaf_manifest (pi_template inp) fat_name l fat_name (variable_refs_for l edges names)) leaf_plans,
              mp_fat_patch := Some (JObj [(''spec'', JObj [(''suspend'', JBool True)])])\<rparr>
            else plan))"

definition plan_migration ::
    "(string \<Rightarrow> string) \<Rightarrow> ('d, 'j) dag_ops \<Rightarrow> planner_input \<Rightarrow> (plan_error, migration_plan) result option" where
  "plan_migration H D inp =
     (case string_at (pi_template inp) ''metadata'' ''name'' of
        None \<Rightarrow> Some (Inl NoName)
      | Some fat_name \<Rightarrow>
          (case Option.bind (jget (pi_template inp) ''spec'') as_object of
             None \<Rightarrow> Some (Inl NoSpec)
           | Some fat_spec \<Rightarrow>
               (case classify (pi_addresses inp) (pi_cycle_p95_ms inp) (pi_budget_ms inp) of
                  Inl e \<Rightarrow> Some (Inl (PlanPartition (PartitionAddress e)))
                | Inr cls \<Rightarrow>
                    if \<not> cl_fat cls then Some (Inr (empty_plan fat_name cls NotFat))
                    else (case build (pi_addresses inp) of
                            Inl e \<Rightarrow> Some (Inl (PlanPartition e))
                          | Inr p \<Rightarrow> map_option (\<lambda>p. Inr (plan_partition H D inp fat_name fat_spec cls p)) (group_partition inp p)))))"

section \<open>Partitions of a plan\<close>

lemma group_partition_Some:
  assumes "build addresses = Inr p"
  shows "\<exists>q. group_partition inp p = Some q \<and> partition_wf q \<and> mset (all_addresses q) = mset (filter (\<lambda>a. \<not> is_data a) addresses)"
proof -
  have wf: "partition_wf p" "bm_wf p" using build_Inr(1) [OF assms] by (simp_all add: partition_wf_def)
  note p = build_mset [OF assms]
  show ?thesis
  proof (cases "pi_group_references inp \<and> pi_plan inp \<noteq> None")
    case True
    then obtain view where view: "pi_plan inp = Some view" by auto
    obtain q where q: "merge (reference_leaf_edges p view) p = Some q" using merge_Some [OF wf(2)] by blast
    then show ?thesis using True view merge_wf [OF wf(2) q] merge_mset [OF wf(2) q] p by (auto simp: group_partition_def)
  next
    case False
    then show ?thesis using wf p by (auto simp: group_partition_def)
  qed
qed

lemma keys_of_leaves: "partition_wf p \<Longrightarrow> map lf_key (leaves p) = bm_keys p"
  by (auto simp: partition_wf_def leaves_def)

lemma names_cover:
  assumes "k \<in> set keys"
  shows "bm_get (leaf_names H base keys) k = Some (name_of (leaf_names H base keys) k)"
proof -
  have "k \<in> set (bm_keys (leaf_names H base keys))" using assms unfolding leaf_names_eq set_keys_bm_of_list by force
  then have "bm_get (leaf_names H base keys) k \<noteq> None" by (simp add: bm_get_None_iff)
  then show ?thesis by (auto simp: name_of_def)
qed

lemma names_distinct:
  assumes "distinct (bm_values (leaf_names H base keys))" "distinct keys"
  shows "distinct (map (name_of (leaf_names H base keys)) keys)"
proof -
  let ?n = "leaf_names H base keys"
  have wf: "bm_wf ?n" unfolding leaf_names_eq by (rule bm_wf_of_list)
  have "k = j" if "k \<in> set keys" "j \<in> set keys" "name_of ?n k = name_of ?n j" for k j
  proof -
    have "(k, name_of ?n k) \<in> set ?n" "(j, name_of ?n j) \<in> set ?n"
      using names_cover [of _ keys H base] that by (simp_all flip: bm_get_Some_iff [OF wf])
    then show ?thesis using that(3) assms(1) by (metis distinct_map inj_onD prod.inject snd_conv)
  qed
  then show ?thesis using assms(2) by (auto simp: distinct_map inj_on_def)
qed

lemma ready_plan:
  assumes "plan_migration H D inp = Some (Inr plan)" "mp_verdict plan = PlanReady"
  obtains fat_name fat_spec p where "string_at (pi_template inp) ''metadata'' ''name'' = Some fat_name"
    "Option.bind (jget (pi_template inp) ''spec'') as_object = Some fat_spec"
    "partition_wf p" "mset (all_addresses p) = mset (filter (\<lambda>a. \<not> is_data a) (pi_addresses inp))"
    "distinct (filter (\<lambda>a. \<not> is_data a) (pi_addresses inp))" "1 < partition_len p"
    "plan = plan_partition H D inp fat_name fat_spec (mp_classification plan) p"
proof -
  from assms obtain fat_name fat_spec cls p where *: "string_at (pi_template inp) ''metadata'' ''name'' = Some fat_name"
    "Option.bind (jget (pi_template inp) ''spec'') as_object = Some fat_spec" "build (pi_addresses inp) = Inr p"
    "map_option (\<lambda>p. plan_partition H D inp fat_name fat_spec cls p) (group_partition inp p) = Some plan"
    by (auto simp: plan_migration_def empty_plan_def map_option_case split: option.splits sum.splits if_splits)
  from group_partition_Some [OF *(3), of inp] obtain q where q: "group_partition inp p = Some q" "partition_wf q"
    "mset (all_addresses q) = mset (filter (\<lambda>a. \<not> is_data a) (pi_addresses inp))" by blast
  have plan: "plan = plan_partition H D inp fat_name fat_spec cls q" using *(4) q(1) by simp
  then have "1 < partition_len q" "mp_classification plan = cls"
    using assms(2) by (auto simp: plan_partition_def empty_plan_def Let_def split: if_splits)
  with that [OF *(1,2) q(2,3) build_Inr(2) [OF *(3)]] plan show thesis by simp
qed

text \<open>What a plan that is ready holds.\<close>

lemma ready_fields:
  assumes "plan = plan_partition H D inp fat_name fat_spec cls p" "mp_verdict plan = PlanReady" "1 < partition_len p"
  defines "names \<equiv> leaf_names H fat_name (map lf_key (leaves p))" and "edges \<equiv> singleton_edges p (pi_plan inp)"
  shows "mp_fat_template plan = fat_name" "mp_leaves plan = map (leaf_plan_of names (upstreams_of edges)) (leaves p)"
    "mp_state_moves plan = map (state_move_of fat_name (Option.bind (map_of fat_spec ''pangeaNamespace'') as_str)) (mp_leaves plan)"
    "mp_leaf_templates plan = map (\<lambda>l. leaf_manifest (pi_template inp) fat_name l fat_name (variable_refs_for l edges names)) (mp_leaves plan)"
    "\<not> list_ex check_fails (checks_of H D inp p names (upstreams_of edges))"
    "mp_fat_patch plan = Some (JObj [(''spec'', JObj [(''suspend'', JBool True)])])"
  using assms by (auto simp: plan_partition_def empty_plan_def Let_def split: if_splits)


lemma ready_names:
  assumes "plan = plan_partition H D inp fat_name fat_spec cls p" "mp_verdict plan = PlanReady" "1 < partition_len p" "partition_wf p"
  shows "distinct (map lp_template (mp_leaves plan))" "concat (map lp_addresses (mp_leaves plan)) = all_addresses p"
proof -
  note f = ready_fields [OF assms(1-3)]
  let ?names = "leaf_names H fat_name (map lf_key (leaves p))"
  have "distinct (map lf_key (leaves p))" using keys_of_leaves [OF assms(4)] assms(4) by (simp add: partition_wf_def bm_wf_distinct)
  moreover have "distinct (bm_values ?names)" using f(5) by (auto simp: checks_of_def check_fails_def check_names_def split: if_splits)
  ultimately have "distinct (map (name_of ?names) (map lf_key (leaves p)))" by (rule names_distinct [rotated])
  then show "distinct (map lp_template (mp_leaves plan))" unfolding f(2) by (simp add: leaf_plan_of_def comp_def)
  show "concat (map lp_addresses (mp_leaves plan)) = all_addresses p"
    unfolding f(2) by (simp add: leaf_plan_of_def comp_def all_addresses_def leaves_def)
qed

text \<open>C14: A plan that is ready migrates the state it was made from: the split along its moves succeeds
  for every state whose managed addresses are the addresses the plan was given, writes one leaf for
  each leaf of the plan under its name, and merging the untouched leaves gives the state back.\<close>

theorem ready_plan_migrates:
  assumes "plan_migration H D inp = Some (Inr plan)" and "mp_verdict plan = PlanReady"
    and "J fat = Some doc" and "addresses_from_state doc = Inr (pi_addresses inp)" and "list_all (\<lambda>a. \<not> is_data a) (pi_addresses inp)"
  shows "\<exists>sp. split_state H J P (mp_fat_template plan) fat (mp_state_moves plan) = Inr sp
    \<and> map ls_template (sr_leaves sp) = map lp_template (mp_leaves plan)
    \<and> merge_states H J P fat (sr_receipt sp) (sr_leaves sp) = Inr fat"
proof -
  obtain fat_name fat_spec p where p: "partition_wf p" "mset (all_addresses p) = mset (filter (\<lambda>a. \<not> is_data a) (pi_addresses inp))"
    "distinct (filter (\<lambda>a. \<not> is_data a) (pi_addresses inp))" "1 < partition_len p"
    "plan = plan_partition H D inp fat_name fat_spec (mp_classification plan) p"
    by (rule ready_plan [OF assms(1,2)])
  obtain rs where rs: "get_array doc ''resources'' = Some rs" "list_all wf_block rs" "pi_addresses inp = map fst (managed_instances rs)"
    using assms(4) by (auto simp: addresses_from_state_iff)
  have all: "filter (\<lambda>a. \<not> is_data a) (pi_addresses inp) = pi_addresses inp" using assms(5) by (simp add: filter_id_conv list_all_iff)
  note f = ready_fields [OF p(5) assms(2) p(4)] and n = ready_names [OF p(5) assms(2) p(4,1)]
  have to: "map sm_to_template (mp_state_moves plan) = map lp_template (mp_leaves plan)" unfolding f(3) by (simp add: state_move_of_def)
  have "map sm_addresses (mp_state_moves plan) = map lp_addresses (mp_leaves plan)" unfolding f(3) by (simp add: state_move_of_def)
  then have cover: "mset (concat (map sm_addresses (mp_state_moves plan))) = mset (map fst (managed_instances rs))"
    using p(2) [unfolded all, unfolded rs(3)] n(2) by (simp only:)
  have "mp_state_moves plan \<noteq> []" unfolding f(2,3) using p(4) by (auto simp: leaves_def partition_len_def)
  moreover have "list_all (\<lambda>m. sm_from_template m = mp_fat_template plan) (mp_state_moves plan)"
    unfolding f(3) f(1) by (simp add: state_move_of_def list_all_iff)
  ultimately have ok: "splittable H (mp_fat_template plan) (mp_state_moves plan) rs"
    using n(1) rs(2) p(3) [unfolded all, unfolded rs(3)] unfolding to [symmetric] by (intro covering_splittable [OF _ _ _ cover])
  let ?sp = "split_of H P (mp_fat_template plan) fat doc (mp_state_moves plan) rs"
  have "split_state H J P (mp_fat_template plan) fat (mp_state_moves plan) = Inr ?sp" using assms(3) rs(1) ok by (auto simp: split_state_iff)
  then show ?thesis using split_merges_back [OF ok refl] split_templates [OF refl] to by (intro exI [of _ ?sp]) simp
qed

section \<open>What the checks mean\<close>

lemma apply_order_acyclic:
  assumes "dag_laws D N" "apply_order D (td_of D specs) = Inr order"
  shows "acyclic (dep_edges specs)"
proof -
  let ?f = "node_id D" and ?E = "dep_edges specs"
  obtain ws where ws: "waves D (td_dag (td_of D specs)) = Some ws" using assms(2) by (auto simp: apply_order_def split: option.splits)
  have edges: "job_edges D (td_dag (td_of D specs)) = map_prod ?f ?f ` ?E" by (rule job_edges_graph [OF holds_graph_td_of [OF assms(1)]])
  have "distinct (concat ws)" "\<And>u t. (u, t) \<in> map_prod ?f ?f ` ?E \<Longrightarrow> before (concat ws) u t"
    using dag_laws_waves [OF assms(1), of "td_dag (td_of D specs)"] unfolding ws edges option.case by blast+
  then have "acyclic (map_prod ?f ?f ` ?E)" by (rule ordered_acyclic)
  moreover have "(?f a, ?f b) \<in> (map_prod ?f ?f ` ?E)\<^sup>+" if "(a, b) \<in> ?E\<^sup>+" for a b
    using that by (induction rule: trancl_induct) (force intro: r_into_trancl, force intro: trancl_into_trancl)
  ultimately show ?thesis unfolding acyclic_def by blast
qed

lemma leaf_dag_td_of: "leaf_dag D names ups p = td_of D (map (\<lambda>l. (name_of names (lf_key l), upstream_names names ups (lf_key l))) (leaves p))"
  unfolding leaf_dag_def td_of_def by (simp add: fold_map comp_def)

definition moved :: "projected \<Rightarrow> nat" where
  "moved p = pr_add p + pr_change p + pr_destroy p"

lemma project_step:
  "moved p \<le> moved (project_change c p)"
  "moved (project_change c p) = moved p \<Longrightarrow> is_data (fst c) \<or> snd c \<in> {NoOp, Read}"
  by (cases "snd c"; auto simp: project_change_def moved_def adds_def changes_def destroys_def split: if_splits)+

lemma project_fold:
  "moved p \<le> moved (fold project_change cs p)
   \<and> (moved (fold project_change cs p) = moved p \<longrightarrow> (\<forall>(a, act) \<in> set cs. is_data a \<or> act \<in> {NoOp, Read}))"
proof (induction cs arbitrary: p)
  case (Cons c cs)
  have "moved (project_change c p) = moved p" "moved (fold project_change cs (project_change c p)) = moved (project_change c p)"
    if "moved (fold project_change (c # cs) p) = moved p"
    using that Cons [of "project_change c p"] project_step(1) [of p c] by simp_all
  then show ?case
    using Cons [of "project_change c p"] project_step [where p = p and c = c] by (fastforce simp: case_prod_unfold)
qed simp

lemma leaf_of_member:
  assumes "partition_wf p" "leaf_of p a = Some k"
  shows "\<exists>l \<in> set (leaves p). a \<in> set (lf_addresses l)"
proof -
  obtain l where "List.find (\<lambda>l. binary_search (lf_addresses l) a 0 (length (lf_addresses l))) (bm_values p) = Some l"
    using assms(2) by (auto simp: leaf_of_def)
  then have l: "l \<in> set (bm_values p)" "binary_search (lf_addresses l) a 0 (length (lf_addresses l))"
    by (metis find_Some_iff nth_mem)+
  moreover from l(1) assms(1) have "sorted (lf_addresses l)" by (auto simp: partition_wf_def)
  ultimately show ?thesis by (auto simp: binary_search_mem leaves_def)
qed

lemma no_change_passes:
  assumes "check_no_change p (Some view) = CheckPass" "(a, act) \<in> set (pv_changes view)" "partition_wf p"
  shows "is_data a \<or> act \<in> {NoOp, Read} \<and> (\<exists>l \<in> set (leaves p). a \<in> set (lf_addresses l))"
proof -
  have "moved (project view) = 0" using assms(1) by (auto simp: check_no_change_def moved_def Let_def split: if_splits)
  then have "is_data a \<or> act \<in> {NoOp, Read}"
    using project_fold [of "\<lparr>pr_add = 0, pr_change = 0, pr_destroy = 0, pr_no_op = 0\<rparr>" "pv_changes view"] assms(2)
    by (auto simp: project_def moved_def)
  moreover have "filter (\<lambda>a. \<not> is_data a) (map fst (filter (\<lambda>(a, act). \<not> adds act \<and> leaf_of p a = None) (pv_changes view))) = []"
    using assms(1) by (auto simp: check_no_change_def Let_def split: if_splits)
  then have "is_data a \<or> adds act \<or> leaf_of p a \<noteq> None" using assms(2) by (fastforce simp: filter_empty_conv)
  ultimately show ?thesis using leaf_of_member [OF assms(3), of a] by (auto simp: adds_def)
qed

lemma dep_edges_plans:
  "dep_edges (map (\<lambda>l. (name_of names (lf_key l), upstream_names names ups (lf_key l))) ls)
   = {(u, lp_template l) | u l. l \<in> set (map (leaf_plan_of names ups) ls) \<and> u \<in> set (lp_upstreams l)}" (is "_ = ?r")
proof -
  have "?r = {(u, lp_template (leaf_plan_of names ups l)) | u l. l \<in> set ls \<and> u \<in> set (lp_upstreams (leaf_plan_of names ups l))}"
    unfolding set_map by blast
  also have "\<dots> = {(u, name_of names (lf_key l)) | u l. l \<in> set ls \<and> u \<in> set (upstream_names names ups (lf_key l))}"
    by (simp add: leaf_plan_of_def)
  also have "\<dots> = dep_edges (map (\<lambda>l. (name_of names (lf_key l), upstream_names names ups (lf_key l))) ls)"
    unfolding dep_edges_def set_map by blast
  finally show ?thesis ..
qed

lemma checks_pass:
  assumes "\<not> list_ex check_fails (checks_of H D inp p names ups)"
  shows "check_acyclic D (leaf_dag D names ups p) = CheckPass" "pi_plan inp = Some view \<Longrightarrow> check_no_change p (Some view) = CheckPass"
proof -
  have c: "\<not> check_fails \<lparr>ck_name = ''acyclic'', ck_status = check_acyclic D (leaf_dag D names ups p)\<rparr>"
    "\<not> check_fails \<lparr>ck_name = ''no-change'', ck_status = check_no_change p (pi_plan inp)\<rparr>"
    using assms by (simp_all add: checks_of_def)
  show "check_acyclic D (leaf_dag D names ups p) = CheckPass"
    using c(1) by (simp add: check_fails_def check_acyclic_def split: sum.splits dag_error.splits)
  show "check_no_change p (Some view) = CheckPass" if "pi_plan inp = Some view"
    using c(2) unfolding that by (simp add: check_fails_def check_no_change_def Let_def split: if_splits)
qed

text \<open>C13: A plan that is ready holds every managed address in exactly one leaf, names its leaves apart, has
  no cycle among them, and, when it was made with a plan of the template, that plan adds, changes and
  destroys nothing and every planned address outside data sources lies in a leaf.\<close>

theorem ready_plan_checked:
  assumes "plan_migration H D inp = Some (Inr plan)" and "mp_verdict plan = PlanReady" and "dag_laws D N"
  shows "mset (concat (map lp_addresses (mp_leaves plan))) = mset (filter (\<lambda>a. \<not> is_data a) (pi_addresses inp))
    \<and> distinct (concat (map lp_addresses (mp_leaves plan))) \<and> distinct (map lp_template (mp_leaves plan))
    \<and> acyclic {(u, lp_template l) | u l. l \<in> set (mp_leaves plan) \<and> u \<in> set (lp_upstreams l)}
    \<and> (\<forall>view. pi_plan inp = Some view \<longrightarrow> (\<forall>(a, act) \<in> set (pv_changes view). is_data a \<or>
         act \<in> {NoOp, Read} \<and> (\<exists>l \<in> set (mp_leaves plan). a \<in> set (lp_addresses l))))"
proof -
  obtain fat_name fat_spec p where p: "partition_wf p" "mset (all_addresses p) = mset (filter (\<lambda>a. \<not> is_data a) (pi_addresses inp))"
    "distinct (filter (\<lambda>a. \<not> is_data a) (pi_addresses inp))" "1 < partition_len p"
    "plan = plan_partition H D inp fat_name fat_spec (mp_classification plan) p"
    by (rule ready_plan [OF assms(1,2)])
  note f = ready_fields [OF p(5) assms(2) p(4)] and n = ready_names [OF p(5) assms(2) p(4,1)]
  let ?names = "leaf_names H fat_name (map lf_key (leaves p))" and ?ups = "upstreams_of (singleton_edges p (pi_plan inp))"
  let ?specs = "map (\<lambda>l. (name_of ?names (lf_key l), upstream_names ?names ?ups (lf_key l))) (leaves p)"
  note passed = checks_pass [OF f(5)]
  obtain order where "apply_order D (td_of D ?specs) = Inr order"
    using passed(1) unfolding leaf_dag_td_of check_acyclic_def by (auto split: sum.splits dag_error.splits)
  then have "acyclic (dep_edges ?specs)" by (rule apply_order_acyclic [OF assms(3)])
  then have "acyclic {(u, lp_template l) | u l. l \<in> set (mp_leaves plan) \<and> u \<in> set (lp_upstreams l)}" unfolding f(2) dep_edges_plans .
  moreover have "distinct (all_addresses p)" using p(3) mset_eq_imp_distinct_iff [OF p(2)] by simp
  moreover have placed: "is_data a \<or> act \<in> {NoOp, Read} \<and> (\<exists>l \<in> set (mp_leaves plan). a \<in> set (lp_addresses l))"
    if "pi_plan inp = Some view" "(a, act) \<in> set (pv_changes view)" for view a act
    using no_change_passes [OF passed(2) [OF that(1)] that(2) p(1)] unfolding f(2) by (auto simp: leaf_plan_of_def)
  ultimately show ?thesis using n(1) p(2) unfolding n(2) by (intro conjI allI impI) (simp_all only: Ball_def split_paired_All prod.case, blast)
qed

section \<open>What a plan hands out\<close>

lemma map_of_remove_key: "map_of (remove_key k kvs) k' = (if k' = k then None else map_of kvs k')"
  by (induction kvs) (auto simp: remove_key_def)

definition leaf_spec_keys :: "string set" where
  "leaf_spec_keys = {''variables'', ''destroyProtection'', ''suspend'', ''importPolicy'', ''destroyAuthorization'', ''approvedPlanHash'', ''variableRefs''}"

lemma leaf_spec_fields:
  assumes "Option.bind (jget fat ''spec'') as_object = Some fat_spec"
  shows "map_of (leaf_spec fat l refs) ''destroyProtection'' = Some (JBool True)" "map_of (leaf_spec fat l refs) ''suspend'' = Some (JBool False)"
    "map_of (leaf_spec fat l refs) ''variables'' = Some (JObj [(''leaf_key'', JStr (key_raw (lp_key l)))])"
    "map_of (leaf_spec fat l refs) ''destroyAuthorization'' = None" "map_of (leaf_spec fat l refs) ''approvedPlanHash'' = None"
    "k \<notin> leaf_spec_keys \<Longrightarrow> map_of (leaf_spec fat l refs) k = map_of fat_spec k"
  by (simp_all add: leaf_spec_def assms Let_def map_of_set_key map_of_remove_key LEAF_KEY_VARIABLE_def leaf_spec_keys_def)


section \<open>A sample\<close>

definition sample_template :: json where
  "sample_template = JObj [(''metadata'', JObj [(''name'', JStr ''fat''), (''namespace'', JStr ''default'')]),
     (''spec'', JObj [(''pangeaNamespace'', JStr ''ns''), (''approvedPlanHash'', JStr ''old''), (''templateName'', JStr ''t'')])]"

definition repo_at :: "string \<Rightarrow> string" where
  "repo_at k = ''repo.main['' @ [CHR 0x22] @ k @ [CHR 0x22] @ '']''"

definition sample_view :: plan_view where
  "sample_view = \<lparr>pv_changes = [(repo_at ''x'', NoOp), (''data.user.me'', Read), (repo_at ''y'', NoOp)], pv_references = []\<rparr>"

definition sample_input :: planner_input where
  "sample_input = \<lparr>pi_template = sample_template, pi_addresses = map repo_at [''x'', ''y''], pi_plan = Some sample_view, pi_cycle_p95_ms = None,
     pi_budget_ms = None, pi_group_references = False, pi_max_concurrent_leaves = None\<rparr>"

definition two_leaves :: partition where
  "two_leaves = map (\<lambda>k. (Keyed k, \<lparr>lf_key = Keyed k, lf_merged_from = [], lf_addresses = [repo_at k]\<rparr>)) [''x'', ''y'']"

definition sample_class :: classification where
  "sample_class = \<lparr>cl_leaf_keys = 2, cl_cycle_p95_ms = None, cl_budget_ms = None, cl_fat = True, cl_reasons = [MultipleLeafKeys 2]\<rparr>"

definition two_leaf_plan :: migration_plan where
  "two_leaf_plan = plan_partition sample_hash ref_ops sample_input ''fat''
     [(''pangeaNamespace'', JStr ''ns''), (''approvedPlanHash'', JStr ''old''), (''templateName'', JStr ''t'')] sample_class two_leaves"

lemma sample_built: "build (pi_addresses sample_input) = Inr two_leaves"
  by code_simp

lemma sample_classified: "classify (pi_addresses sample_input) (pi_cycle_p95_ms sample_input) (pi_budget_ms sample_input) = Inr sample_class"
  by code_simp

lemma sample_planned: "plan_migration sample_hash ref_ops sample_input = Some (Inr two_leaf_plan)"
proof -
  have t: "string_at (pi_template sample_input) ''metadata'' ''name'' = Some ''fat''"
    "Option.bind (jget (pi_template sample_input) ''spec'') as_object
      = Some [(''pangeaNamespace'', JStr ''ns''), (''approvedPlanHash'', JStr ''old''), (''templateName'', JStr ''t'')]"
    by (simp_all add: sample_input_def sample_template_def string_at_def get_str_def)
  have "group_partition sample_input two_leaves = Some two_leaves" by (simp add: group_partition_def sample_input_def)
  moreover have "cl_fat sample_class" by (simp add: sample_class_def)
  ultimately show ?thesis by (simp add: plan_migration_def t sample_classified sample_built two_leaf_plan_def)
qed

lemma sample_checks:
  "\<not> list_ex check_fails (checks_of sample_hash ref_ops sample_input two_leaves
     (leaf_names sample_hash ''fat'' (map lf_key (leaves two_leaves))) (upstreams_of (singleton_edges two_leaves (pi_plan sample_input))))"
proof -
  have "bj_ok (bijection_of sample_hash two_leaves (pi_addresses sample_input))"
    by (rule same_mset_bijection_ok [OF sample_built build_mset [OF sample_built]])
  moreover have "check_acyclic ref_ops (leaf_dag ref_ops (leaf_names sample_hash ''fat'' (map lf_key (leaves two_leaves)))
      (upstreams_of (singleton_edges two_leaves (pi_plan sample_input))) two_leaves) = CheckPass"
    "check_names (leaf_names sample_hash ''fat'' (map lf_key (leaves two_leaves))) = CheckPass"
    "check_no_change two_leaves (pi_plan sample_input) = CheckPass" by code_simp+
  ultimately show ?thesis by (simp add: checks_of_def check_fails_def check_bijection_def)
qed

lemma two_leaf_ready: "mp_verdict two_leaf_plan = PlanReady" "map lp_template (mp_leaves two_leaf_plan) = [''fat-x'', ''fat-y'']"
proof -
  show v: "mp_verdict two_leaf_plan = PlanReady"
    using sample_checks by (simp add: two_leaf_plan_def plan_partition_def Let_def partition_len_def two_leaves_def empty_plan_def)
  have "1 < partition_len two_leaves" by code_simp
  note f = ready_fields(2) [OF two_leaf_plan_def v this]
  have "map (\<lambda>l. name_of (leaf_names sample_hash ''fat'' (map lf_key (leaves two_leaves))) (lf_key l)) (leaves two_leaves) = [''fat-x'', ''fat-y'']"
    by code_simp
  then show "map lp_template (mp_leaves two_leaf_plan) = [''fat-x'', ''fat-y'']" unfolding f by (simp add: leaf_plan_of_def comp_def)
qed

theorem ready_plan_migrates_witness:
  "\<exists>sp. split_state sample_hash sample_parse sample_print (mp_fat_template two_leaf_plan) ''fat'' (mp_state_moves two_leaf_plan) = Inr sp
    \<and> map ls_template (sr_leaves sp) = [''fat-x'', ''fat-y'']
    \<and> merge_states sample_hash sample_parse sample_print ''fat'' (sr_receipt sp) (sr_leaves sp) = Inr ''fat''"
proof -
  have "addresses_from_state sample_fat = Inr (pi_addresses sample_input)" "list_all (\<lambda>a. \<not> is_data a) (pi_addresses sample_input)" by code_simp+
  then show ?thesis
    using ready_plan_migrates [where J = sample_parse and fat = "''fat''" and P = sample_print, OF sample_planned two_leaf_ready(1) sample_read(1)] unfolding two_leaf_ready(2) by blast
qed

theorem ready_plan_checked_witness:
  "mset (concat (map lp_addresses (mp_leaves two_leaf_plan))) = {#repo_at ''x'', repo_at ''y''#}
   \<and> acyclic {(u, lp_template l) | u l. l \<in> set (mp_leaves two_leaf_plan) \<and> u \<in> set (lp_upstreams l)}
   \<and> (\<exists>l \<in> set (mp_leaves two_leaf_plan). repo_at ''y'' \<in> set (lp_addresses l))"
proof -
  note c = ready_plan_checked [OF sample_planned two_leaf_ready(1) ref_ops_laws]
  have "filter (\<lambda>a. \<not> is_data a) (pi_addresses sample_input) = [repo_at ''x'', repo_at ''y'']" by code_simp
  moreover have "pi_plan sample_input = Some sample_view" "(repo_at ''y'', NoOp) \<in> set (pv_changes sample_view)"
    by (simp_all add: sample_input_def sample_view_def)
  moreover have "\<not> is_data (repo_at ''y'')" by code_simp
  ultimately show ?thesis using c by (fastforce simp: case_prod_unfold)
qed


end
