(* ===== verification/Leader.thy ===== *)
theory Leader
  imports Prelude
begin

text \<open>
  Lease-based leader election (\<open>pangea-operator/src/leader.rs\<close>).

  One election tick reads the clock, then the lease, then writes; other pods run between these points, so
  the three are steps of their own in the system of pods below. The lease is an object of the API server:
  a create fails with 409 when it exists, a replace when the resource version moved, and a stored time has
  the precision of \<open>MicroTime\<close>. A request may also be applied and its answer lost. Environment variables are
  a function, the process id is an argument, times are nanoseconds.
\<close>

section \<open>Configuration\<close>

record leader_config =
  lc_lease_name :: string
  lc_namespace :: string
  lc_identity :: string
  lc_lease_duration :: u64
  lc_renew_interval :: u64
  lc_retry_interval :: u64

definition env_non_empty :: "(string \<Rightarrow> string option) \<Rightarrow> string \<Rightarrow> string option" where
  "env_non_empty env k = (case env k of Some s \<Rightarrow> if s = [] then None else Some s | None \<Rightarrow> None)"

definition pod_identity :: "(string \<Rightarrow> string option) \<Rightarrow> u32 \<Rightarrow> string" where
  "pod_identity env pid =
     (case env_non_empty env ''POD_NAME'' of
        Some s \<Rightarrow> s
      | None \<Rightarrow> (case env_non_empty env ''HOSTNAME'' of Some s \<Rightarrow> s | None \<Rightarrow> ''pangea-operator-'' @ show_nat (unat pid)))"

text \<open>\<open>str::parse::<u64>\<close>: an optional plus sign, then decimal digits, within 64 bits.\<close>

definition parse_u64 :: "string \<Rightarrow> u64 option" where
  "parse_u64 s =
     (let ds = (case s of c # cs \<Rightarrow> if c = CHR ''+'' then cs else s | [] \<Rightarrow> []);
          n = foldl (\<lambda>acc c. 10 * acc + (of_char c - 48)) (0 :: nat) ds
      in if ds \<noteq> [] \<and> list_all is_ascii_digit ds \<and> n < 2 ^ 64 then Some (of_nat n) else None)"

definition env_secs :: "(string \<Rightarrow> string option) \<Rightarrow> string \<Rightarrow> u64 \<Rightarrow> u64" where
  "env_secs env k d = (case Option.bind (env k) parse_u64 of Some n \<Rightarrow> if 0 < n then n else d | None \<Rightarrow> d)"

definition config_from_env :: "(string \<Rightarrow> string option) \<Rightarrow> u32 \<Rightarrow> leader_config" where
  "config_from_env env pid =
     \<lparr>lc_lease_name = (case env_non_empty env ''LEADER_LEASE_NAME'' of Some s \<Rightarrow> s | None \<Rightarrow> ''pangea-operator-leader''),
      lc_namespace = (case env_non_empty env ''POD_NAMESPACE'' of Some s \<Rightarrow> s | None \<Rightarrow> ''pangea-system''),
      lc_identity = pod_identity env pid,
      lc_lease_duration = env_secs env ''LEADER_LEASE_DURATION_SECS'' 15,
      lc_renew_interval = env_secs env ''LEADER_RENEW_SECS'' 5,
      lc_retry_interval = env_secs env ''LEADER_RETRY_SECS'' 3\<rparr>"

section \<open>The decision\<close>

datatype leadership = Acquired | Unavailable

datatype lease_decision = Acquire | Wait

definition SECOND :: int where
  "SECOND = 1000000000"

definition decide :: "string \<Rightarrow> string option \<Rightarrow> int option \<Rightarrow> 32 word \<Rightarrow> int \<Rightarrow> lease_decision" where
  "decide identity holder renew_time lease_duration_secs now =
     (case holder of
        None \<Rightarrow> Acquire
      | Some h \<Rightarrow>
          if h = [] then Acquire
          else if h = identity then Acquire
          else
            (let expired = (case renew_time of None \<Rightarrow> True | Some rt \<Rightarrow> now - rt > max (sint lease_duration_secs) 0 * SECOND)
             in if expired then Acquire else Wait))"

section \<open>The lease\<close>

record lease =
  ls_version :: "nat option"
  ls_holder :: "string option"
  ls_duration :: "32 word option"
  ls_acquire_time :: "int option"
  ls_renew_time :: "int option"
  ls_transitions :: "32 word option"

definition build_lease :: "leader_config \<Rightarrow> nat option \<Rightarrow> int \<Rightarrow> int \<Rightarrow> 32 word \<Rightarrow> lease" where
  "build_lease cfg version acquire_time renew_time transitions =
     \<lparr>ls_version = version, ls_holder = Some (lc_identity cfg), ls_duration = Some (ucast (lc_lease_duration cfg)),
      ls_acquire_time = Some acquire_time, ls_renew_time = Some renew_time, ls_transitions = Some transitions\<rparr>"

definition build_lease_from :: "leader_config \<Rightarrow> lease \<Rightarrow> int \<Rightarrow> int \<Rightarrow> 32 word \<Rightarrow> lease" where
  "build_lease_from cfg existing acquire_time renew_time transitions = build_lease cfg (ls_version existing) acquire_time renew_time transitions"

datatype lease_write = CreateLease lease | ReplaceLease lease

text \<open>What a tick writes after it has read the clock and the lease; \<open>None\<close> is the answer \<open>Ok(false)\<close> of a wait.\<close>

definition plan_tick :: "leader_config \<Rightarrow> int \<Rightarrow> lease option \<Rightarrow> lease_write option" where
  "plan_tick cfg now existing =
     (case existing of
        None \<Rightarrow> Some (CreateLease (build_lease cfg None now now 0))
      | Some l \<Rightarrow>
          (let duration_secs = (case ls_duration l of Some d \<Rightarrow> d | None \<Rightarrow> ucast (lc_lease_duration cfg)) in
           case decide (lc_identity cfg) (ls_holder l) (ls_renew_time l) duration_secs now of
             Wait \<Rightarrow> None
           | Acquire \<Rightarrow>
               (let held_by_us = (ls_holder l = Some (lc_identity cfg));
                    acquire_time = (if held_by_us then (case ls_acquire_time l of Some x \<Rightarrow> x | None \<Rightarrow> now) else now);
                    transitions = (case ls_transitions l of Some n \<Rightarrow> n | None \<Rightarrow> 0) + (if held_by_us then 0 else 1)
                in Some (ReplaceLease (build_lease_from cfg l acquire_time now transitions)))))"

datatype api_error = ApiCode nat | OtherFailure

definition tick_answer :: "(api_error, unit) result \<Rightarrow> (api_error, bool) result" where
  "tick_answer r = (case r of Inr _ \<Rightarrow> Inr True | Inl e \<Rightarrow> if e = ApiCode 409 then Inr False else Inl e)"

definition acquire_after :: "(api_error, bool) result \<Rightarrow> leadership option" where
  "acquire_after r =
     (case r of Inr True \<Rightarrow> Some Acquired | Inr False \<Rightarrow> None | Inl e \<Rightarrow> if e = ApiCode 403 then Some Unavailable else None)"

text \<open>Whether the renewal loop goes on.\<close>

definition renew_after :: "(api_error, bool) result \<Rightarrow> bool" where
  "renew_after r = (case r of Inr b \<Rightarrow> b | Inl _ \<Rightarrow> True)"

section \<open>The system of pods\<close>

definition micro :: "int \<Rightarrow> int" where
  "micro x = x - x mod 1000"

definition stored :: "nat \<Rightarrow> lease \<Rightarrow> lease" where
  "stored v l = l\<lparr>ls_version := Some v, ls_acquire_time := map_option micro (ls_acquire_time l), ls_renew_time := map_option micro (ls_renew_time l)\<rparr>"

text \<open>The server's answer to a write, and the lease and version counter after it.\<close>

definition serve :: "lease_write \<Rightarrow> lease option \<times> nat \<Rightarrow> (api_error, unit) result \<times> lease option \<times> nat" where
  "serve w s =
     (case w of
        CreateLease l \<Rightarrow> if fst s = None then (Inr (), Some (stored (Suc (snd s)) l), Suc (snd s)) else (Inl (ApiCode 409), s)
      | ReplaceLease l \<Rightarrow>
          (case fst s of
             None \<Rightarrow> (Inl (ApiCode 404), s)
           | Some cur \<Rightarrow> if ls_version l = ls_version cur then (Inr (), Some (stored (Suc (snd s)) l), Suc (snd s)) else (Inl (ApiCode 409), s)))"

datatype pod_mode = Electing | Leading | Fallback | SteppedDown

datatype tick_stage = Idle | Timed int | Planned int lease_write

record pod =
  pd_mode :: pod_mode
  pd_stage :: tick_stage
  pd_renewed :: "int option"

record election =
  el_clock :: int
  el_store :: "lease option \<times> nat"
  el_pods :: "string \<Rightarrow> pod"

text \<open>What a pod does with the answer of a tick: the acquire loop while it is electing, the renewal loop while
  it leads. \<open>pd_renewed\<close> records the renew time of the last tick that answered true.\<close>

definition after_tick :: "(api_error, bool) result \<Rightarrow> int \<Rightarrow> pod \<Rightarrow> pod" where
  "after_tick r now p =
     (let p = p\<lparr>pd_stage := Idle, pd_renewed := (if r = Inr True then Some (micro now) else pd_renewed p)\<rparr> in
      case pd_mode p of
        Electing \<Rightarrow> (case acquire_after r of Some Acquired \<Rightarrow> p\<lparr>pd_mode := Leading\<rparr> | Some Unavailable \<Rightarrow> p\<lparr>pd_mode := Fallback\<rparr> | None \<Rightarrow> p)
      | Leading \<Rightarrow> if renew_after r then p else p\<lparr>pd_mode := SteppedDown\<rparr>
      | _ \<Rightarrow> p)"

definition active :: "pod \<Rightarrow> bool" where
  "active p \<longleftrightarrow> pd_mode p = Electing \<or> pd_mode p = Leading"

definition set_pod :: "string \<Rightarrow> pod \<Rightarrow> election \<Rightarrow> election" where
  "set_pod i p s = s\<lparr>el_pods := (el_pods s)(i := p)\<rparr>"

inductive election_step :: "(string \<Rightarrow> leader_config) \<Rightarrow> election \<Rightarrow> election \<Rightarrow> bool" for cfg where
  advance: "el_clock s \<le> c \<Longrightarrow> election_step cfg s (s\<lparr>el_clock := c\<rparr>)"
| begin_tick: "\<lbrakk>i \<noteq> []; active (el_pods s i); pd_stage (el_pods s i) = Idle\<rbrakk>
    \<Longrightarrow> election_step cfg s (set_pod i ((el_pods s i)\<lparr>pd_stage := Timed (el_clock s)\<rparr>) s)"
| read_lease: "\<lbrakk>pd_stage (el_pods s i) = Timed now; plan_tick (cfg i) now (fst (el_store s)) = Some w\<rbrakk>
    \<Longrightarrow> election_step cfg s (set_pod i ((el_pods s i)\<lparr>pd_stage := Planned now w\<rparr>) s)"
| read_wait: "\<lbrakk>pd_stage (el_pods s i) = Timed now; plan_tick (cfg i) now (fst (el_store s)) = None\<rbrakk>
    \<Longrightarrow> election_step cfg s (set_pod i (after_tick (Inr False) now (el_pods s i)) s)"
| read_fails: "pd_stage (el_pods s i) = Timed now \<Longrightarrow> election_step cfg s (set_pod i (after_tick (Inl e) now (el_pods s i)) s)"
| write_answered: "\<lbrakk>pd_stage (el_pods s i) = Planned now w; serve w (el_store s) = (r, store)\<rbrakk>
    \<Longrightarrow> election_step cfg s (set_pod i (after_tick (tick_answer r) now (el_pods s i)) (s\<lparr>el_store := store\<rparr>))"
| write_lost: "\<lbrakk>pd_stage (el_pods s i) = Planned now w; serve w (el_store s) = (r, store)\<rbrakk>
    \<Longrightarrow> election_step cfg s (set_pod i (after_tick (Inl OtherFailure) now (el_pods s i)) (s\<lparr>el_store := store\<rparr>))"
| write_fails: "\<lbrakk>pd_stage (el_pods s i) = Planned now w; e \<noteq> ApiCode 409\<rbrakk>
    \<Longrightarrow> election_step cfg s (set_pod i (after_tick (Inl e) now (el_pods s i)) s)"

definition fresh_pod :: pod where
  "fresh_pod = \<lparr>pd_mode = Electing, pd_stage = Idle, pd_renewed = None\<rparr>"

definition election_start :: "int \<Rightarrow> election" where
  "election_start c = \<lparr>el_clock = c, el_store = (None, 0), el_pods = (\<lambda>_. fresh_pod)\<rparr>"

text \<open>How long a lease written by a pod holds.\<close>

definition lease_life :: "leader_config \<Rightarrow> int" where
  "lease_life cfg = max (sint (ucast (lc_lease_duration cfg) :: 32 word)) 0 * SECOND"

section \<open>Invariants\<close>

definition lease_of :: "(string \<Rightarrow> leader_config) \<Rightarrow> election \<Rightarrow> string \<Rightarrow> int \<Rightarrow> bool" where
  "lease_of cfg s i since \<longleftrightarrow>
     (\<exists>l rt. fst (el_store s) = Some l \<and> ls_holder l = Some i \<and> ls_duration l = Some (ucast (lc_lease_duration (cfg i)))
        \<and> ls_renew_time l = Some rt \<and> since \<le> rt)"

definition leader_ok :: "(string \<Rightarrow> leader_config) \<Rightarrow> election \<Rightarrow> string \<Rightarrow> bool" where
  "leader_ok cfg s i \<longleftrightarrow> (pd_mode (el_pods s i) = Leading \<longrightarrow>
     i \<noteq> [] \<and> (\<exists>since. pd_renewed (el_pods s i) = Some since \<and> (lease_of cfg s i since \<or> since + lease_life (cfg i) < el_clock s)))"

definition stage_ok :: "(string \<Rightarrow> leader_config) \<Rightarrow> election \<Rightarrow> string \<Rightarrow> bool" where
  "stage_ok cfg s i \<longleftrightarrow>
     (case pd_stage (el_pods s i) of
        Idle \<Rightarrow> True
      | Timed now \<Rightarrow> i \<noteq> [] \<and> now \<le> el_clock s
      | Planned now w \<Rightarrow> i \<noteq> [] \<and> now \<le> el_clock s \<and>
          (\<exists>ex. plan_tick (cfg i) now ex = Some w \<and>
             (\<forall>l. ex = Some l \<longrightarrow> (\<exists>v. ls_version l = Some v \<and> v \<le> snd (el_store s))
                \<and> (\<forall>cur. fst (el_store s) = Some cur \<and> ls_version cur = ls_version l \<longrightarrow> cur = l))))"

definition store_ok :: "election \<Rightarrow> bool" where
  "store_ok s \<longleftrightarrow> (case fst (el_store s) of
      None \<Rightarrow> (\<forall>i. pd_mode (el_pods s i) \<noteq> Leading)
    | Some l \<Rightarrow> ls_version l = Some (snd (el_store s)))"

definition tick_time :: "election \<Rightarrow> string \<Rightarrow> int" where
  "tick_time s i = (case pd_stage (el_pods s i) of Idle \<Rightarrow> el_clock s | Timed now \<Rightarrow> now | Planned now _ \<Rightarrow> now)"

definition renewed_ok :: "election \<Rightarrow> string \<Rightarrow> bool" where
  "renewed_ok s i \<longleftrightarrow> (\<forall>since. pd_renewed (el_pods s i) = Some since \<longrightarrow> since \<le> micro (tick_time s i)) \<and> tick_time s i \<le> el_clock s"

definition election_inv :: "(string \<Rightarrow> leader_config) \<Rightarrow> election \<Rightarrow> bool" where
  "election_inv cfg s \<longleftrightarrow> store_ok s \<and> (\<forall>i. leader_ok cfg s i \<and> stage_ok cfg s i \<and> renewed_ok s i)"

lemma micro_mono: "x \<le> y \<Longrightarrow> micro x \<le> micro y"
proof -
  have "micro z = 1000 * (z div 1000)" for z by (simp add: micro_def minus_mod_eq_mult_div)
  then show "x \<le> y \<Longrightarrow> micro x \<le> micro y" by (simp add: zdiv_mono1)
qed

lemma start_inv: "election_inv cfg (election_start c)"
  by (simp add: election_inv_def store_ok_def leader_ok_def stage_ok_def renewed_ok_def tick_time_def election_start_def fresh_pod_def)

lemma after_tick_simps [simp]:
  "pd_stage (after_tick r now p) = Idle"
  "pd_renewed (after_tick r now p) = (if r = Inr True then Some (micro now) else pd_renewed p)"
  by (auto simp: after_tick_def Let_def split: pod_mode.split option.split leadership.split)

lemma after_tick_Leading:
  "pd_mode (after_tick r now p) = Leading \<longleftrightarrow>
     pd_mode p = Electing \<and> r = Inr True \<or> pd_mode p = Leading \<and> renew_after r"
  by (auto simp: after_tick_def Let_def acquire_after_def split: pod_mode.splits option.split leadership.split sum.splits bool.splits if_splits)

lemma set_pod_simps [simp]:
  "el_clock (set_pod i p s) = el_clock s" "el_store (set_pod i p s) = el_store s" "el_pods (set_pod i p s) j = (if j = i then p else el_pods s j)"
  by (simp_all add: set_pod_def)

lemmas pod_oks = leader_ok_def stage_ok_def renewed_ok_def tick_time_def lease_of_def

text \<open>A change of one pod that leaves the store and the clock alone.\<close>

lemma pod_inv:
  assumes "election_inv cfg s" and "stage_ok cfg (set_pod i p s) i" "renewed_ok (set_pod i p s) i" "leader_ok cfg (set_pod i p s) i"
    and "pd_mode p = Leading \<Longrightarrow> pd_mode (el_pods s i) = Leading \<or> fst (el_store s) \<noteq> None"
  shows "election_inv cfg (set_pod i p s)"
proof -
  have "leader_ok cfg (set_pod i p s) j \<and> stage_ok cfg (set_pod i p s) j \<and> renewed_ok (set_pod i p s) j" for j
  proof (cases "j = i")
    case False
    with assms(1) show ?thesis
      by (simp add: election_inv_def pod_oks cong: tick_stage.case_cong)
  qed (use assms in simp)
  moreover have "store_ok (set_pod i p s)"
    using assms(1,5) by (auto simp: election_inv_def store_ok_def split: option.splits)
  ultimately show ?thesis by (simp add: election_inv_def)
qed

lemma idle_inv:
  assumes inv: "election_inv cfg s" and r: "r \<noteq> Inr True"
  shows "election_inv cfg (set_pod i (after_tick r now (el_pods s i)) s)"
proof (rule pod_inv [OF inv])
  have i: "leader_ok cfg s i" "renewed_ok s i" using inv by (simp_all add: election_inv_def)
  show "stage_ok cfg (set_pod i (after_tick r now (el_pods s i)) s) i" by (simp add: stage_ok_def)
  show "renewed_ok (set_pod i (after_tick r now (el_pods s i)) s) i"
    using i(2) r micro_mono [of "tick_time s i" "el_clock s"] by (auto simp: renewed_ok_def tick_time_def)
  show "leader_ok cfg (set_pod i (after_tick r now (el_pods s i)) s) i"
    using i(1) r by (auto simp: leader_ok_def after_tick_Leading lease_of_def)
  show "pd_mode (after_tick r now (el_pods s i)) = Leading \<Longrightarrow> pd_mode (el_pods s i) = Leading \<or> fst (el_store s) \<noteq> None"
    using r by (simp add: after_tick_Leading)
qed

text \<open>A write that the server applies: the new lease is the pod's, and a lease taken from another pod had
  expired.\<close>

lemma served:
  assumes "election_inv cfg s" "pd_stage (el_pods s i) = Planned now w" "serve w (el_store s) = (Inr u, store)" "lc_identity (cfg i) = i"
  obtains l where "store = (Some l, Suc (snd (el_store s)))" "ls_version l = Some (Suc (snd (el_store s)))" "ls_holder l = Some i"
    "ls_duration l = Some (ucast (lc_lease_duration (cfg i)))" "ls_renew_time l = Some (micro now)"
    "\<And>j since. j \<noteq> i \<Longrightarrow> j \<noteq> [] \<Longrightarrow> lease_of cfg s j since \<Longrightarrow> since + lease_life (cfg j) < now"
proof -
  have st: "stage_ok cfg s i" "store_ok s" using assms(1) by (simp_all add: election_inv_def)
  then obtain ex where ex: "plan_tick (cfg i) now ex = Some w"
    "\<And>l cur. ex = Some l \<Longrightarrow> fst (el_store s) = Some cur \<Longrightarrow> ls_version cur = ls_version l \<Longrightarrow> cur = l"
    using assms(2) by (auto simp: stage_ok_def)
  show thesis
  proof (cases ex)
    case None
    then have "w = CreateLease (build_lease (cfg i) None now now 0)" using ex(1) by (simp add: plan_tick_def)
    with assms(3) have "fst (el_store s) = None"
      "store = (Some (stored (Suc (snd (el_store s))) (build_lease (cfg i) None now now 0)), Suc (snd (el_store s)))"
      by (auto simp: serve_def split: if_splits)
    then show thesis using assms(4) by (intro that) (auto simp: stored_def build_lease_def lease_of_def)
  next
    case (Some l)
    then obtain at' tr where w: "w = ReplaceLease (build_lease_from (cfg i) l at' now tr)"
      and dec: "decide i (ls_holder l) (ls_renew_time l) (case ls_duration l of Some d \<Rightarrow> d | None \<Rightarrow> ucast (lc_lease_duration (cfg i))) now = Acquire"
      using ex(1) assms(4) by (auto simp: plan_tick_def Let_def split: lease_decision.splits)
    obtain cur where cur: "fst (el_store s) = Some cur" "ls_version cur = ls_version l"
      "store = (Some (stored (Suc (snd (el_store s))) (build_lease_from (cfg i) l at' now tr)), Suc (snd (el_store s)))"
      using assms(3) by (auto simp: w serve_def build_lease_from_def build_lease_def split: option.splits if_splits)
    have "cur = l" by (rule ex(2) [OF Some cur(1,2)])
    have "since + lease_life (cfg j) < now" if "j \<noteq> i" "j \<noteq> []" "lease_of cfg s j since" for j since
      using that dec cur(1) by (auto simp: \<open>cur = l\<close> lease_of_def decide_def lease_life_def split: if_splits)
    with cur(3) show thesis using assms(4) by (intro that) (auto simp: stored_def build_lease_def build_lease_from_def)
  qed
qed

lemma write_inv:
  assumes inv: "election_inv cfg s" and st: "pd_stage (el_pods s i) = Planned now w" and w: "serve w (el_store s) = (Inr u, store)"
    and id: "lc_identity (cfg i) = i" and r: "r = Inr True \<or> r = Inl e"
  shows "election_inv cfg (set_pod i (after_tick r now (el_pods s i)) (s\<lparr>el_store := store\<rparr>))" (is "election_inv cfg ?s")
proof -
  obtain l where l: "store = (Some l, Suc (snd (el_store s)))" "ls_version l = Some (Suc (snd (el_store s)))" "ls_holder l = Some i"
    "ls_duration l = Some (ucast (lc_lease_duration (cfg i)))" "ls_renew_time l = Some (micro now)"
    "\<And>j since. j \<noteq> i \<Longrightarrow> j \<noteq> [] \<Longrightarrow> lease_of cfg s j since \<Longrightarrow> since + lease_life (cfg j) < now"
    by (rule served [OF inv st w id]) blast
  have oks: "leader_ok cfg s j" "stage_ok cfg s j" "renewed_ok s j" for j using inv by (simp_all add: election_inv_def)
  have now: "now \<le> el_clock s" "i \<noteq> []" using oks(2) [of i] st by (simp_all add: stage_ok_def)
  have "leader_ok cfg ?s j \<and> stage_ok cfg ?s j \<and> renewed_ok ?s j" for j
  proof (cases "j = i")
    case True
    have "lease_of cfg ?s i (micro now)" using l by (simp add: lease_of_def)
    moreover have "since \<le> micro now" if "pd_renewed (el_pods s i) = Some since" for since
      using oks(3) [of i] that st by (simp add: renewed_ok_def tick_time_def)
    ultimately have "leader_ok cfg ?s i"
      using oks(1) [of i] r now(2) by (auto simp: leader_ok_def after_tick_Leading lease_of_def l)
    moreover have "renewed_ok ?s i"
      using oks(3) [of i] st micro_mono [OF now(1)] by (auto simp: renewed_ok_def tick_time_def)
    ultimately show ?thesis using True by (simp add: stage_ok_def)
  next
    case False
    have "leader_ok cfg ?s j" using oks(1) [of j] l(6) [of j] False now(1) by (fastforce simp: leader_ok_def)
    moreover have "stage_ok cfg ?s j"
      using oks(2) [of j] False l(1,2) by (fastforce simp: stage_ok_def split: tick_stage.splits)
    moreover have "renewed_ok ?s j" using oks(3) [of j] False by (simp add: renewed_ok_def tick_time_def cong: tick_stage.case_cong)
    ultimately show ?thesis by simp
  qed
  moreover have "store_ok ?s" using l(1,2) by (simp add: store_ok_def)
  ultimately show ?thesis by (simp add: election_inv_def)
qed

lemma serve_cases: "serve w st = (r, st') \<Longrightarrow> (\<exists>u. r = Inr u) \<or> (\<exists>e. r = Inl e) \<and> st' = st"
  by (auto simp: serve_def split: lease_write.splits option.splits if_splits)

lemma election_step_inv:
  assumes "election_step cfg s s'" "election_inv cfg s" "\<And>i. i \<noteq> [] \<Longrightarrow> lc_identity (cfg i) = i"
  shows "election_inv cfg s'"
proof -
  have named: "lc_identity (cfg i) = i" if "pd_stage (el_pods s i) = Planned now w" for i now w
    using assms(2,3) that by (auto simp: election_inv_def stage_ok_def split: tick_stage.splits)
  show ?thesis using assms(1)
  proof cases
    case (advance c)
    have "leader_ok cfg s' j \<and> stage_ok cfg s' j \<and> renewed_ok s' j" for j
    proof -
      have oks: "leader_ok cfg s j" "stage_ok cfg s j" "renewed_ok s j" using assms(2) by (simp_all add: election_inv_def)
      have "leader_ok cfg s' j" using oks(1) advance by (fastforce simp: leader_ok_def lease_of_def)
      moreover have "stage_ok cfg s' j" using oks(2) advance by (auto simp: stage_ok_def split: tick_stage.splits)
      moreover have "renewed_ok s' j"
        using oks(3) advance micro_mono [OF advance(2)] by (force simp: renewed_ok_def tick_time_def split: tick_stage.splits)
      ultimately show ?thesis by blast
    qed
    moreover have "store_ok s'" using assms(2) advance by (simp add: election_inv_def store_ok_def cong: option.case_cong)
    ultimately show ?thesis by (simp add: election_inv_def)
  next
    case (begin_tick i)
    have i: "leader_ok cfg s i" "renewed_ok s i" using assms(2) by (simp_all add: election_inv_def)
    show ?thesis unfolding begin_tick(1)
      by (rule pod_inv [OF assms(2)]) (use i begin_tick in \<open>auto simp: pod_oks\<close>)
  next
    case (read_lease i now w)
    have i: "leader_ok cfg s i" "renewed_ok s i" "stage_ok cfg s i" "store_ok s" using assms(2) by (simp_all add: election_inv_def)
    have "stage_ok cfg s' i" using i(3,4) read_lease unfolding read_lease(1)
      by (auto simp: stage_ok_def store_ok_def split: option.splits intro!: exI [of _ "fst (el_store s)"])
    then show ?thesis unfolding read_lease(1)
      by (intro pod_inv [OF assms(2)]) (use i read_lease in \<open>auto simp: leader_ok_def renewed_ok_def tick_time_def lease_of_def\<close>)
  next
    case (read_wait i now)
    then show ?thesis using idle_inv [OF assms(2)] by simp
  next
    case (read_fails i now e)
    then show ?thesis using idle_inv [OF assms(2)] by simp
  next
    case (write_answered i now w r store)
    consider u where "r = Inr u" | e where "r = Inl e" "store = el_store s" using serve_cases [OF write_answered(3)] by blast
    then show ?thesis
    proof cases
      case 1
      then show ?thesis using write_inv [OF assms(2) write_answered(2) _ named [OF write_answered(2)]] write_answered by (simp add: tick_answer_def)
    next
      case 2
      then show ?thesis using idle_inv [OF assms(2), of "tick_answer r" i now] write_answered by (simp add: tick_answer_def)
    qed
  next
    case (write_lost i now w r store)
    consider u where "r = Inr u" | e where "r = Inl e" "store = el_store s" using serve_cases [OF write_lost(3)] by blast
    then show ?thesis
    proof cases
      case 1
      then show ?thesis using write_inv [OF assms(2) write_lost(2) _ named [OF write_lost(2)]] write_lost by simp
    next
      case 2
      then show ?thesis using idle_inv [OF assms(2), of "Inl OtherFailure" i now] write_lost by simp
    qed
  next
    case (write_fails i now w e)
    then show ?thesis using idle_inv [OF assms(2)] by simp
  qed
qed

lemma reachable_election:
  assumes "(election_step cfg)\<^sup>*\<^sup>* (election_start c) s" "\<And>i. i \<noteq> [] \<Longrightarrow> lc_identity (cfg i) = i"
  shows "election_inv cfg s"
  using assms(1) by (induction rule: rtranclp_induct) (auto intro: start_inv election_step_inv [OF _ _ assms(2)])


text \<open>A pod may take the lease exactly when it is free, its own, or expired.\<close>

lemma decide_Acquire_iff:
  "decide me holder rt d now = Acquire \<longleftrightarrow> holder = None \<or> holder = Some [] \<or> holder = Some me
     \<or> (case rt of None \<Rightarrow> True | Some t' \<Rightarrow> t' + max (sint d) 0 * SECOND < now)"
  by (auto simp: decide_def Let_def split: option.splits)

lemma pod_identity_not_empty: "pod_identity env pid \<noteq> []"
  by (auto simp: pod_identity_def env_non_empty_def split: option.splits if_splits)

section \<open>Ticks that nothing disturbs\<close>

lemma after_tick_stage: "after_tick r now (p\<lparr>pd_stage := x\<rparr>) = after_tick r now p"
  by (auto simp: after_tick_def Let_def split: pod_mode.split option.split leadership.split)

lemma set_pod_twice [simp]: "set_pod i q (set_pod i p s) = set_pod i q s" "(set_pod i p s)\<lparr>el_store := st\<rparr> = set_pod i p (s\<lparr>el_store := st\<rparr>)"
  by (simp_all add: set_pod_def)

text \<open>An undisturbed tick on a free, own or expired lease makes the pod its holder.\<close>

lemma undisturbed_tick:
  assumes "i \<noteq> []" "active (el_pods s i)" "pd_stage (el_pods s i) = Idle"
    and "plan_tick (cfg i) (el_clock s) (fst (el_store s)) = Some w" "serve w (el_store s) = (Inr u, store)"
  shows "(election_step cfg)\<^sup>*\<^sup>* s (set_pod i (after_tick (Inr True) (el_clock s) (el_pods s i)) (s\<lparr>el_store := store\<rparr>))"
proof -
  let ?p = "el_pods s i" and ?now = "el_clock s"
  have "election_step cfg s (set_pod i (?p\<lparr>pd_stage := Timed ?now\<rparr>) s)" by (rule begin_tick [OF assms(1-3)])
  moreover have "election_step cfg (set_pod i (?p\<lparr>pd_stage := Timed ?now\<rparr>) s) (set_pod i (?p\<lparr>pd_stage := Planned ?now w\<rparr>) s)"
    using read_lease [of "set_pod i (?p\<lparr>pd_stage := Timed ?now\<rparr>) s" i ?now cfg w] assms(4) by simp
  moreover have "election_step cfg (set_pod i (?p\<lparr>pd_stage := Planned ?now w\<rparr>) s) (set_pod i (after_tick (Inr True) ?now ?p) (s\<lparr>el_store := store\<rparr>))"
    using write_answered [of "set_pod i (?p\<lparr>pd_stage := Planned ?now w\<rparr>) s" i ?now w "Inr u" store cfg] assms(5)
    by (simp add: after_tick_stage tick_answer_def)
  ultimately show ?thesis by (meson converse_rtranclp_into_rtranclp r_into_rtranclp)
qed

definition sample_config :: "string \<Rightarrow> leader_config" where
  "sample_config i = config_from_env (\<lambda>k. if k = ''POD_NAME'' then Some i else None) 1"

definition first_lease :: lease where
  "first_lease = stored 1 (build_lease (sample_config ''a'') None 0 0 0)"

definition taken_lease :: lease where
  "taken_lease = stored 2 (build_lease (sample_config ''b'') (Some 1) (16 * SECOND) (16 * SECOND) 1)"

definition led_from :: "int \<Rightarrow> pod" where
  "led_from since = \<lparr>pd_mode = Leading, pd_stage = Idle, pd_renewed = Some since\<rparr>"

definition two_leaders :: election where
  "two_leaders = \<lparr>el_clock = 16 * SECOND, el_store = (Some taken_lease, 2),
     el_pods = (\<lambda>_. fresh_pod)(''a'' := led_from 0, ''b'' := led_from (16 * SECOND))\<rparr>"

lemma sample_ticks:
  "plan_tick (sample_config ''a'') 0 None = Some (CreateLease (build_lease (sample_config ''a'') None 0 0 0))"
  "plan_tick (sample_config ''b'') (16 * SECOND) (Some first_lease)
     = Some (ReplaceLease (build_lease (sample_config ''b'') (Some 1) (16 * SECOND) (16 * SECOND) 1))"
  "serve (ReplaceLease (build_lease (sample_config ''b'') (Some 1) (16 * SECOND) (16 * SECOND) 1)) (Some first_lease, 1) = (Inr (), Some taken_lease, 2)"
  by code_simp+

lemma two_leaders_reachable: "(election_step sample_config)\<^sup>*\<^sup>* (election_start 0) two_leaders"
proof -
  let ?s1 = "\<lparr>el_clock = 0, el_store = (Some first_lease, 1), el_pods = (\<lambda>_. fresh_pod)(''a'' := led_from 0)\<rparr>"
  have led: "after_tick (Inr True) now fresh_pod = led_from (micro now)" for now
    by (simp add: after_tick_def Let_def fresh_pod_def acquire_after_def led_from_def)
  have sixteen: "micro (16 * SECOND) = 16 * SECOND" by (simp add: micro_def SECOND_def)
  have fresh: "active fresh_pod" "pd_stage fresh_pod = Idle" by (simp_all add: active_def fresh_pod_def)
  have "(election_step sample_config)\<^sup>*\<^sup>* (election_start 0) ?s1"
    using undisturbed_tick [of "''a''" "election_start 0" sample_config _ "()" "(Some first_lease, 1)"] fresh
    by (simp add: election_start_def sample_ticks serve_def first_lease_def led set_pod_def micro_def)
  moreover have "election_step sample_config ?s1 (?s1\<lparr>el_clock := 16 * SECOND\<rparr>)" by (rule advance) (simp add: SECOND_def)
  moreover have "(election_step sample_config)\<^sup>*\<^sup>* (?s1\<lparr>el_clock := 16 * SECOND\<rparr>) two_leaders"
    using undisturbed_tick [of "''b''" "?s1\<lparr>el_clock := 16 * SECOND\<rparr>" sample_config _ "()" "(Some taken_lease, 2)"] fresh
    by (simp add: sample_ticks led set_pod_def two_leaders_def sixteen del: One_nat_def)
  ultimately show ?thesis by (meson rtranclp.rtrancl_into_rtrancl rtranclp_trans)
qed


end
