(* ===== verification/Spec2Isabelle.thy ===== *)
theory Spec2Isabelle
  imports Lifecycle Workspace_Lifecycle Shard_Lifecycle Leaf_Partition Leaf_Names Leaf_Dag Leaf_Admit Leaf_Ratchet Leaf_Rollup Leaf_Drift Pass Reconciler Pass_Registry Pass_Driver Policy Operator_Policy
    Settling Source_Freshness Template_Status Template_Handlers Policy_Cascade Planning Plan_Analysis Anomaly Imports
    Applying Apply_Traces Escalation Reactive Compile_Inputs Compiling Deletion Template_Gates Reconcile Reconcile_Traces Reconcile_Outcomes Leaf_Gate Leaf_Migrate Leaf_Plan Leader
begin

text \<open>
  A verification of the decision core of \<open>pangea-operator\<close>, a Kubernetes operator that compiles,
  plans, applies and watches infrastructure templates.

  \<^bold>\<open>The program.\<close> Each \<open>InfrastructureTemplate\<close> moves through twelve phases. A reconcile reads
  the object, asks the pause gates whether it may run, dispatches to the handler of the phase, and
  writes the status with merge patches; beside it a pass machine says what is running, since when
  and for which generation, and a watchdog ends passes that stopped beating. Handlers decide with
  pure components: the policy engine judges the changes of a plan, the settling tracker the drift of
  consecutive checks, the freshness gate the distance of the compile from the git head. The crate
  \<open>pangea-leaf\<close> cuts a template into leaves (parts that can be planned alone), orders templates,
  admits work under caps, and keeps each leaf within a ratcheting budget.

  \<^bold>\<open>The theories\<close>, bottom up (paths are under \<open>src/\<close>; the definitions keep the names of the source
  where they can):

  \<^item> \<open>Prelude\<close>: ordered maps and sets (\<open>BTreeMap\<close>, \<open>BTreeSet\<close>), strings as bytes, results, saturating
    words; the locale \<open>ordered_map\<close> with its interpretation.
  \<^item> \<open>Transition_Table\<close>: the contract of a table-driven machine as the locales \<open>transition_table\<close>
    and \<open>convergent_table\<close>; \<open>Lifecycle\<close>, \<open>Workspace_Lifecycle\<close> and \<open>Shard_Lifecycle\<close>
    (\<open>pangea-operator/src/controller/lifecycle.rs\<close>, \<open>workspace_lifecycle.rs\<close>,
    \<open>shard_lifecycle.rs\<close>) interpret them and show which phases every path to a good phase
    passes, that each machine can always reach its goal, and that a shard is released only drained.
  \<^item> \<open>Leaf_Address\<close>, \<open>Leaf_Sources\<close>, \<open>Leaf_Partition\<close>, \<open>Leaf_Names\<close>, \<open>Leaf_Dag\<close>, \<open>Leaf_Admit\<close>,
    \<open>Leaf_Ratchet\<close>, \<open>Leaf_Rollup\<close>, \<open>Leaf_Drift\<close> (\<open>pangea-leaf/src/address.rs\<close>, \<open>classify.rs\<close>,
    \<open>sources.rs\<close>, \<open>partition.rs\<close>, \<open>names.rs\<close>, \<open>pg_ident.rs\<close>, \<open>dag.rs\<close>, \<open>schedule.rs\<close>,
    \<open>admission.rs\<close>, \<open>admit.rs\<close>, \<open>ratchet.rs\<close>, \<open>rollup.rs\<close>, \<open>drift.rs\<close>): a partition loses and
    repeats no address and merged leaves are the components of the plan's references under their
    least key; names are valid and distinct; the run-all order is topological or names exactly the
    templates behind a cycle; admitted work respects every cap; the floor only tightens; rollup
    counts add up; the drift schedule checks each leaf once per slot.
  \<^item> \<open>Pass\<close>, \<open>Pass_Registry\<close>, \<open>Pass_Driver\<close> (\<open>controller/template/pass.rs\<close>,
    \<open>crd/pass_status.rs\<close>, \<open>pass_registry.rs\<close>, \<open>pass_driver.rs\<close>): the conditions projected from a
    pass never claim more than the pass shows, a pass that stops is reported, patches carry
    exactly what changed, the registry follows an abstract set of running passes, and a stalled
    pass is re-dispatched a bounded number of times.
  \<^item> \<open>Reconciler\<close> (\<open>controller/reconciler.rs\<close>, \<open>error_policy.rs\<close>): durations, backoff, requeue
    cadence and the conditions of a phase.
  \<^item> \<open>Policy\<close> (\<open>executor/policy.rs\<close>), \<open>Policy_Cascade\<close> (\<open>controller/policy_cascade.rs\<close>) and
    \<open>Operator_Policy\<close> (\<open>crd/operator_policy.rs\<close>, \<open>operator_policy_cache.rs\<close>, \<open>policy_gate.rs\<close>,
    \<open>policy_pipeline.rs\<close>): the aggregate is the strictest decision and a protected resource is
    destroyed automatically only by an explicit rule; a refusal at any cascade level survives; a
    template is skipped exactly when a switch or an entry pauses it.
  \<^item> \<open>Settling\<close> (\<open>controller/settling.rs\<close>), \<open>Source_Freshness\<close> (\<open>controller/template/freshness.rs\<close>).
  \<^item> \<open>Template_Status\<close> (\<open>controller/template/status.rs\<close>): every status writer as the merge patch it
    sends, and what the server makes of it; each writer stays within its keys.
  \<^item> \<open>Template_Handlers\<close> and \<open>Planning\<close> (\<open>controller/template_controller.rs\<close>): the freshness gate and
    the Ready, Drifted, Failed and Planning phases with the approval gate. No drift is judged on a
    stale compile, a drift loop is escalated, and nothing is applied without leave.

  \<^item> \<open>Plan_Analysis\<close> (\<open>executor/plan.rs\<close>, \<open>plan_analyzer.rs\<close> and the destroy-protection gate of the
    controller) and \<open>Anomaly\<close> (the import and apply errors read from the output of the executor): a
    destruction in a plan is seen by the gate.
  \<^item> \<open>Imports\<close>, \<open>Applying\<close>, \<open>Apply_Traces\<close>: the import pre-pass, the whole Applying phase with the
    distributed lock, the recovery of stale plans and of resources that already exist, and the traces
    it can leave: no unchecked apply under protection, every mutation under the lock, a bounded
    number of attempts, Ready only after an apply.
  \<^item> \<open>Escalation\<close> and \<open>Reactive\<close> (\<open>controller/escalation.rs\<close>, \<open>escalation_handlers.rs\<close>,
    \<open>anomaly_tracker.rs\<close>, \<open>reactive.rs\<close>, \<open>routing.rs\<close>, \<open>template/reactive_policy.rs\<close>): the recovery
    ladder, and the stage that runs after status writes and pushes only stuck work to Failed.
  \<^item> \<open>Compile_Inputs\<close> and \<open>Compiling\<close> (\<open>controller/config_cascade.rs\<close>, \<open>template_dependency.rs\<close>,
    \<open>pangea-leaf/src/slice.rs\<close> and the controller): the variables and the revision of a render, and
    the Pending, Compiling, Initializing and CompileBlocked phases; the steps of these handlers are
    values of \<open>phased\<close>, a list of effects with a result, joined by \<open>chain\<close>.
  \<^item> \<open>Deletion\<close> (\<open>controller/mod.rs\<close>, \<open>finalizer.rs\<close>): authorization, decision and the Destroying phase.
  \<^item> \<open>Template_Gates\<close> (\<open>controller/template/rate_limit.rs\<close>, \<open>inputs.rs\<close>, \<open>leaf.rs\<close>, \<open>leaf_gate.rs\<close>) and
    \<open>Reconcile\<close>: one reconcile from the pause gates to the dispatch and the error path.
    \<open>Reconcile_Traces\<close> shows the phases it may write, what a destroy takes and which gates expensive
    work has passed; the locale \<open>quiet_effects\<close> carries the steps that leave a class of effects out
    and is interpreted for destroys, for work and for compiles. \<open>Reconcile_Outcomes\<close> shows how a
    reconcile ends and evaluates a sample.
  \<^item> \<open>Leaf_Gate\<close> (\<open>controller/scheduling.rs\<close>, \<open>controller/template/leaf_gate.rs\<close>): the fair budget
    and the gate that admits leaves through it: the permits outstanding are counted exactly and
    a released slot wakes the best waiting leaf of its scope.
  \<^item> \<open>Leaf_Migrate\<close> (\<open>pangea-leaf/src/migrate.rs\<close>): the split of a state into leaves loses, copies and
    alters no instance, untouched leaves merge back to the archived bytes and changed ones to a state
    with exactly their instances.
  \<^item> \<open>Leaf_Plan\<close> (\<open>pangea-leaf/src/plan.rs\<close>): the planner over classification, partition, names and graph. A
    ready plan covers the state, changes nothing, has no cycle, hands out protected templates, and
    its moves split the state it was made from.
  \<^item> \<open>Leader\<close> (\<open>leader.rs\<close>): the lease-based election as a system of pods whose ticks interleave; at most
    one pod leads within the life of its lease.

  \<^bold>\<open>State and effects.\<close> A handler is a function from the template it was given and the answers of the
  outside world to the list of its effects (patches, events, metrics, passes), in order, and its
  result; an error ends it with the effects so far. Times are integers (nanoseconds), counters
  are words of their width, a panic of the source is the value \<open>Panic\<close>.

  \<^bold>\<open>Parameters.\<close> What is not in the repository is an argument of the definitions that use it: BLAKE3
  (\<open>H\<close>), the \<open>shigoto_dag\<close> graph (a record of operations with the laws \<open>dag_laws\<close>, met by a
  reference graph), the \<open>shigoto_budget\<close> tree (likewise, with \<open>budget_laws\<close>), the parser and printer of \<open>serde_json\<close> (\<open>J\<close>, \<open>P\<close>), the RFC 3339 rendering
  (\<open>rfc\<close>) and its parser, the parser of \<open>Retry-After\<close> values, the folding of policy layers (\<open>K\<close>), the
  regular expressions (\<open>R\<close>), the standard hasher (\<open>S\<close>, a function of the bytes written
  to it), the incarnation of the process, and the answers of the API server, the runner, the
  database and the git remote.

  \<^bold>\<open>Loops and bounds.\<close> Every loop is structural or has a measure; the parent chains of the
  union-find are partial functions that are shown to return on every forest the code can build. No
  definition takes fuel. Caps of the source (63 bytes of a name, 50 entries of drift, 32 samples,
  16 workers) are the constants of the source.

  \<^bold>\<open>Not modelled\<close>: the flow and reconcile schedulers, which rest on a work-graph library that is not in the repository, and the
  queue, statistics and pacing files of \<open>pangea-leaf\<close>. API plumbing, executors, databases, the
  Ruby interpreters, GraphQL, the command line and the web client are input and output or the
  interpretation of another language and stay outside; log lines and tracing spans are left out.
\<close>

end
